(* ===== verification/Kael_Prelude.thy ===== *)
theory Kael_Prelude
  imports Main "HOL-Library.Word"
begin

section \<open>Prelude: machine integers, results and the effect monad\<close>

text \<open>
  What every component of the model shares.

  \<^item> Rust's unsigned integers at their width (\<open>u64\<close>, \<open>u128\<close>, and the EVM's \<open>u256\<close>) and the
    saturating operations the sources use.
  \<^item> \<open>Result<T, E>\<close> as \<open>'e + 'a\<close> with the error on the left, and the combinators that stand
    for \<open>?\<close>, \<open>map_err\<close> and \<open>ok_or\<close>.
  \<^item> A state and error monad \<open>('s, 'e, 'a) eff\<close>: a computation takes a state and returns a
    result together with the state it leaves. The state survives an error, because a Rust
    method that leaves by \<open>?\<close> keeps every write it made before.
  \<^item> \<open>std::cmp::Ordering\<close> with \<open>then_with\<close>.
  \<^item> Frame reasoning: a relation between the state before and after a computation that is
    reflexive and transitive is kept by every computation built from parts that keep it
    (locale \<open>frame\<close>).
\<close>

type_synonym u8 = "8 word"
type_synonym u64 = "64 word"
type_synonym u128 = "128 word"
type_synonym u256 = "256 word"

named_theorems eff_simps "the combinators of the effect monad, unfolded"
named_theorems eff_defs "definitions of effectful operations"

subsection \<open>Saturating arithmetic\<close>

definition saturating_add :: "'a::len word \<Rightarrow> 'a word \<Rightarrow> 'a word" where
  "saturating_add a b = (if unat a + unat b < 2 ^ LENGTH('a) then a + b else - 1)"

definition saturating_sub :: "'a::len word \<Rightarrow> 'a word \<Rightarrow> 'a word" where
  "saturating_sub a b = (if b \<le> a then a - b else 0)"

lemma unat_minus_one_max: "unat (- 1 :: 'a::len word) = 2 ^ LENGTH('a) - 1"
  by (simp add: unsigned_minus_1_eq_mask mask_eq_exp_minus_1)

lemma unat_saturating_add:
  "unat (saturating_add a b) = min (unat a + unat b) (2 ^ LENGTH('a) - 1)"
  for a b :: "'a::len word"
proof (cases "unat a + unat b < 2 ^ LENGTH('a)")
  case True
  then show ?thesis by (simp add: saturating_add_def unat_word_ariths)
next
  case False
  then show ?thesis by (simp add: saturating_add_def unat_minus_one_max)
qed

lemma unat_saturating_sub: "unat (saturating_sub a b) = unat a - unat b"
  for a b :: "'a::len word"
  by (auto simp: saturating_sub_def unat_sub word_le_nat_alt)

lemma unat_lt_pow: "unat (a :: 'a::len word) < 2 ^ LENGTH('a)"
  by (rule unsigned_less)

lemma saturating_add_exact:
  fixes a b :: "'a::len word"
  assumes "unat a + unat b < 2 ^ LENGTH('a)"
  shows "unat (saturating_add a b) = unat a + unat b"
  using assms by (simp add: unat_saturating_add)

subsection \<open>Results\<close>

definition ok_or :: "'e \<Rightarrow> 'a option \<Rightarrow> 'e + 'a" where
  "ok_or e x = (case x of None \<Rightarrow> Inl e | Some a \<Rightarrow> Inr a)"

definition and_then :: "'e + 'a \<Rightarrow> ('a \<Rightarrow> 'e + 'b) \<Rightarrow> 'e + 'b" where
  "and_then r f = (case r of Inl e \<Rightarrow> Inl e | Inr a \<Rightarrow> f a)"

definition map_err :: "('e \<Rightarrow> 'f) \<Rightarrow> 'e + 'a \<Rightarrow> 'f + 'a" where
  "map_err g r = (case r of Inl e \<Rightarrow> Inl (g e) | Inr a \<Rightarrow> Inr a)"

definition ensure :: "bool \<Rightarrow> 'e \<Rightarrow> 'e + unit" where
  "ensure b e = (if b then Inr () else Inl e)"

lemma ok_or_simps [simp]:
  "ok_or e None = Inl e" "ok_or e (Some a) = Inr a"
  by (simp_all add: ok_or_def)

lemma ok_or_eq_Inr [simp]: "ok_or e x = Inr a \<longleftrightarrow> x = Some a"
  by (cases x) auto

lemma and_then_simps [simp]:
  "and_then (Inl e) f = Inl e" "and_then (Inr a) f = f a"
  by (simp_all add: and_then_def)

lemma and_then_eq_Inr: "and_then r f = Inr b \<longleftrightarrow> (\<exists>a. r = Inr a \<and> f a = Inr b)"
  by (cases r) auto

lemma map_err_simps [simp]:
  "map_err g (Inl e) = Inl (g e)" "map_err g (Inr a) = Inr a"
  by (simp_all add: map_err_def)

lemma map_err_eq_Inr [simp]: "map_err g r = Inr a \<longleftrightarrow> r = Inr a"
  by (cases r) auto

lemma map_err_eq_Inl: "map_err g r = Inl e \<longleftrightarrow> (\<exists>e'. r = Inl e' \<and> e = g e')"
  by (cases r) auto

lemma ensure_simps [simp]:
  "ensure b e = Inr x \<longleftrightarrow> b" "ensure b e = Inl f \<longleftrightarrow> \<not> b \<and> f = e"
  by (auto simp: ensure_def)

subsection \<open>Computations with state and errors\<close>

type_synonym ('s, 'e, 'a) eff = "'s \<Rightarrow> ('e + 'a) \<times> 's"

definition ret :: "'a \<Rightarrow> ('s, 'e, 'a) eff" where
  "ret a s = (Inr a, s)"

definition throw :: "'e \<Rightarrow> ('s, 'e, 'a) eff" where
  "throw e s = (Inl e, s)"

definition bindE :: "('s, 'e, 'a) eff \<Rightarrow> ('a \<Rightarrow> ('s, 'e, 'b) eff) \<Rightarrow> ('s, 'e, 'b) eff" where
  "bindE m f s = (case m s of (Inl e, s') \<Rightarrow> (Inl e, s') | (Inr a, s') \<Rightarrow> f a s')"

definition thenE :: "('s, 'e, 'a) eff \<Rightarrow> ('s, 'e, 'b) eff \<Rightarrow> ('s, 'e, 'b) eff" where
  "thenE m n = bindE m (\<lambda>_. n)"

definition gets :: "('s \<Rightarrow> 'a) \<Rightarrow> ('s, 'e, 'a) eff" where
  "gets f s = (Inr (f s), s)"

definition modify :: "('s \<Rightarrow> 's) \<Rightarrow> ('s, 'e, unit) eff" where
  "modify f s = (Inr (), f s)"

definition of_result :: "'e + 'a \<Rightarrow> ('s, 'e, 'a) eff" where
  "of_result r s = (r, s)"

definition map_errE :: "('e \<Rightarrow> 'f) \<Rightarrow> ('s, 'e, 'a) eff \<Rightarrow> ('s, 'f, 'a) eff" where
  "map_errE g m s = (map_err g (fst (m s)), snd (m s))"

definition guard :: "bool \<Rightarrow> 'e \<Rightarrow> ('s, 'e, unit) eff" where
  "guard ok e = (if ok then ret () else throw e)"

text \<open>The transaction of a contract: an error takes every change back.\<close>

definition atomic :: "('s, 'e, 'a) eff \<Rightarrow> ('s, 'e, 'a) eff" where
  "atomic m s = (case m s of (Inl e, _) \<Rightarrow> (Inl e, s) | (Inr a, s') \<Rightarrow> (Inr a, s'))"

text \<open>
  A computation on one part of a state, run on the whole: \<open>get\<close> reads the part and \<open>put\<close>
  writes it back, also after an error.
\<close>

definition zoom :: "('t \<Rightarrow> 's) \<Rightarrow> ('s \<Rightarrow> 't \<Rightarrow> 't) \<Rightarrow> ('s, 'e, 'a) eff \<Rightarrow> ('t, 'e, 'a) eff" where
  "zoom get put m t = (let (r, s') = m (get t) in (r, put s' t))"

lemma ret_apply [eff_simps]: "ret a s = (Inr a, s)"
  by (simp add: ret_def)

lemma throw_apply [eff_simps]: "throw e s = (Inl e, s)"
  by (simp add: throw_def)

lemma bindE_apply [eff_simps]:
  "bindE m f s = (case m s of (Inl e, s') \<Rightarrow> (Inl e, s') | (Inr a, s') \<Rightarrow> f a s')"
  by (simp add: bindE_def)

lemma thenE_apply [eff_simps]:
  "thenE m n s = (case m s of (Inl e, s') \<Rightarrow> (Inl e, s') | (Inr a, s') \<Rightarrow> n s')"
  by (simp add: thenE_def bindE_def)

lemma gets_apply [eff_simps]: "gets f s = (Inr (f s), s)"
  by (simp add: gets_def)

lemma modify_apply [eff_simps]: "modify f s = (Inr (), f s)"
  by (simp add: modify_def)

lemma of_result_apply [eff_simps]: "of_result r s = (r, s)"
  by (simp add: of_result_def)

lemma map_errE_apply [eff_simps]: "map_errE g m s = (map_err g (fst (m s)), snd (m s))"
  by (simp add: map_errE_def)

lemma guard_apply [eff_simps]: "guard ok e s = (if ok then Inr () else Inl e, s)"
  by (simp add: guard_def ret_def throw_def)

lemma atomic_apply [eff_simps]:
  "atomic m s = (case m s of (Inl e, _) \<Rightarrow> (Inl e, s) | (Inr a, s') \<Rightarrow> (Inr a, s'))"
  by (simp add: atomic_def)

lemma zoom_apply [eff_simps]:
  "zoom get put m t = (fst (m (get t)), put (snd (m (get t))) t)"
  by (simp add: zoom_def split: prod.splits)

text \<open>How a sequence succeeds: the first part succeeds, then the second does from its state.\<close>

lemma bindE_Inr:
  "bindE m f s = (Inr b, s'') \<longleftrightarrow> (\<exists>a s'. m s = (Inr a, s') \<and> f a s' = (Inr b, s''))"
  by (auto simp: bindE_def split: prod.splits sum.splits)

lemma thenE_Inr:
  "thenE m n s = (Inr b, s'') \<longleftrightarrow> (\<exists>a s'. m s = (Inr a, s') \<and> n s' = (Inr b, s''))"
  by (simp add: thenE_def bindE_Inr)

lemma map_errE_Inr: "map_errE g m s = (Inr a, s') \<longleftrightarrow> m s = (Inr a, s')"
  by (cases "m s") (auto simp: map_errE_def)

lemma ret_Inr: "ret a s = (Inr b, s') \<longleftrightarrow> b = a \<and> s' = s"
  by (auto simp: ret_def)

lemma of_result_Inr: "of_result r s = (Inr a, s') \<longleftrightarrow> r = Inr a \<and> s' = s"
  by (auto simp: of_result_def)

lemma gets_Inr: "gets f s = (Inr a, s') \<longleftrightarrow> a = f s \<and> s' = s"
  by (auto simp: gets_def)

lemma modify_Inr: "modify f s = (Inr a, s') \<longleftrightarrow> s' = f s"
  by (auto simp: modify_def)

lemma throw_Inr [simp]: "throw e s \<noteq> (Inr a, s')"
  by (simp add: throw_def)

lemma guard_Inr [simp]: "guard ok e s = (Inr a, s') \<longleftrightarrow> ok \<and> s' = s"
  by (auto simp: guard_def ret_def throw_def)

lemma atomic_Inr: "atomic m s = (Inr a, s') \<longleftrightarrow> m s = (Inr a, s')"
  by (auto simp: atomic_def split: prod.splits sum.splits)

lemmas eff_Inr = bindE_Inr thenE_Inr map_errE_Inr ret_Inr of_result_Inr gets_Inr modify_Inr

subsection \<open>Frames\<close>

text \<open>
  \<open>keeps R m\<close>: whatever the outcome, the state after \<open>m\<close> is related by \<open>R\<close> to the state before.
\<close>

definition keeps :: "('s \<Rightarrow> 's \<Rightarrow> bool) \<Rightarrow> ('s, 'e, 'a) eff \<Rightarrow> bool" where
  "keeps R m \<longleftrightarrow> (\<forall>s. R s (snd (m s)))"

lemma keepsI: "(\<And>s. R s (snd (m s))) \<Longrightarrow> keeps R m"
  by (simp add: keeps_def)

lemma keepsD: "keeps R m \<Longrightarrow> R s (snd (m s))"
  by (simp add: keeps_def)

lemma keepsE: "keeps R m \<Longrightarrow> m s = (r, s') \<Longrightarrow> R s s'"
  by (metis keepsD snd_conv)

definition leads :: "('s \<Rightarrow> 's \<Rightarrow> bool) \<Rightarrow> ('s, 'e, 'a) eff \<Rightarrow> bool" where
  "leads R m \<longleftrightarrow> (\<forall>s a s'. m s = (Inr a, s') \<longrightarrow> R s s')"

lemma leadsI: "(\<And>s a s'. m s = (Inr a, s') \<Longrightarrow> R s s') \<Longrightarrow> leads R m"
  by (simp add: leads_def)

lemma leadsD: "leads R m \<Longrightarrow> m s = (Inr a, s') \<Longrightarrow> R s s'"
  by (simp add: leads_def)

lemma leads_modify: "(\<And>s. R s (f s)) \<Longrightarrow> leads R (modify f)"
  by (simp add: leads_def modify_def)

lemma keeps_leads: "keeps R m \<Longrightarrow> leads R m"
  unfolding leads_def by (metis keepsE)

locale frame =
  fixes R :: "'s \<Rightarrow> 's \<Rightarrow> bool"
  assumes frame_refl: "R s s"
    and frame_trans: "R s t \<Longrightarrow> R t u \<Longrightarrow> R s u"
begin

lemma keeps_ret [intro]: "keeps R (ret a)"
  by (simp add: keeps_def ret_def frame_refl)

lemma keeps_throw [intro]: "keeps R (throw e)"
  by (simp add: keeps_def throw_def frame_refl)

lemma keeps_gets [intro]: "keeps R (gets f)"
  by (simp add: keeps_def gets_def frame_refl)

lemma keeps_of_result [intro]: "keeps R (of_result r)"
  by (simp add: keeps_def of_result_def frame_refl)

lemma keeps_map_errE [intro]: "keeps R m \<Longrightarrow> keeps R (map_errE g m)"
  by (simp add: keeps_def map_errE_def)

lemma keeps_bindE [intro]:
  assumes m: "keeps R m" and f: "\<And>a. keeps R (f a)"
  shows "keeps R (bindE m f)"
proof (rule keepsI)
  fix s
  obtain r s' where ms: "m s = (r, s')" by force
  have "R s s'" using m ms by (rule keepsE)
  then show "R s (snd (bindE m f s))"
    using f by (cases r) (auto simp: bindE_def ms intro: frame_trans dest: keepsD)
qed

lemma keeps_thenE [intro]: "keeps R m \<Longrightarrow> keeps R n \<Longrightarrow> keeps R (thenE m n)"
  unfolding thenE_def by (rule keeps_bindE)

lemma keeps_if [intro]: "keeps R m \<Longrightarrow> keeps R n \<Longrightarrow> keeps R (if b then m else n)"
  by simp

lemma keeps_case_option [intro]:
  "keeps R m \<Longrightarrow> (\<And>a. keeps R (f a)) \<Longrightarrow> keeps R (case x of None \<Rightarrow> m | Some a \<Rightarrow> f a)"
  by (cases x) simp_all

lemma keeps_guard [intro]: "keeps R (guard ok e)"
  by (simp add: guard_def keeps_ret keeps_throw)

lemmas keeps_rules =
  keeps_ret keeps_throw keeps_gets keeps_of_result keeps_map_errE keeps_bindE keeps_thenE
  keeps_if keeps_case_option keeps_guard

text \<open>The same for successful outcomes only.\<close>

lemma leads_ret: "leads R (ret a)"
  by (simp add: leads_def ret_def frame_refl)

lemma leads_gets: "leads R (gets f)"
  by (simp add: leads_def gets_def frame_refl)

lemma leads_of_result: "leads R (of_result r)"
  by (auto simp: leads_def of_result_def frame_refl)

lemma leads_guard: "leads R (guard ok e)"
  by (auto simp: leads_def frame_refl)

lemma leads_bindE: "leads R m \<Longrightarrow> (\<And>a. leads R (f a)) \<Longrightarrow> leads R (bindE m f)"
  unfolding leads_def bindE_Inr by (blast intro: frame_trans)

lemma leads_thenE: "leads R m \<Longrightarrow> leads R n \<Longrightarrow> leads R (thenE m n)"
  unfolding thenE_def by (rule leads_bindE)

lemma leads_if: "leads R m \<Longrightarrow> leads R n \<Longrightarrow> leads R (if b then m else n)"
  by simp

lemma leads_atomic: "leads R m \<Longrightarrow> keeps R (atomic m)"
  unfolding keeps_def leads_def atomic_def
  by (auto simp: frame_refl split: prod.splits sum.splits)

lemmas leads_rules =
  leads_ret leads_gets leads_of_result leads_guard leads_bindE leads_thenE leads_if

end

subsection \<open>Orderings\<close>

datatype ordering = Less | Equal | Greater

definition cmp :: "'a::linorder \<Rightarrow> 'a \<Rightarrow> ordering" where
  "cmp a b = (if a < b then Less else if a = b then Equal else Greater)"

definition then_with :: "ordering \<Rightarrow> ordering \<Rightarrow> ordering" where
  "then_with o1 o2 = (if o1 = Equal then o2 else o1)"

lemma cmp_simps [simp]:
  "cmp a b = Less \<longleftrightarrow> a < b" "cmp a b = Equal \<longleftrightarrow> a = b" "cmp a b = Greater \<longleftrightarrow> b < a"
  by (auto simp: cmp_def)

lemma then_with_simps [simp]:
  "then_with o1 o2 = Less \<longleftrightarrow> o1 = Less \<or> o1 = Equal \<and> o2 = Less"
  "then_with o1 o2 = Equal \<longleftrightarrow> o1 = Equal \<and> o2 = Equal"
  "then_with o1 o2 = Greater \<longleftrightarrow> o1 = Greater \<or> o1 = Equal \<and> o2 = Greater"
  by (auto simp: then_with_def)

end
