(* ===== verification/Kael_Bytes.thy ===== *)
theory Kael_Bytes
  imports Kael_Prelude "HOL-Library.List_Lexorder"
begin

section \<open>Byte arrays of a fixed length\<close>

text \<open>
  Rust's \<open>[u8; N]\<close> as a type whose length is part of the type, as in the source: an
  \<open>Address\<close> is \<open>20 barr\<close>, a hash, a preimage and a contract id are \<open>32 barr\<close>. Arrays are
  compared byte by byte (\<open>==\<close>) and ordered lexicographically (\<open>&lt;\<close>), which the instances of
  \<open>equal\<close> and \<open>linorder\<close> below provide. \<open>fill b\<close> is the literal \<open>[b; N]\<close>.

  The second half models \<open>to_be_bytes\<close>, the big-endian bytes of an integer, with the facts the
  ABI encoders rest on: its length is the width in bytes and it is injective.
\<close>

typedef (overloaded) ('n::len) barr = "{xs :: u8 list. length xs = LENGTH('n)}"
  morphisms bytes_of Barr
proof
  show "replicate LENGTH('n) 0 \<in> {xs :: u8 list. length xs = LENGTH('n)}" by simp
qed

declare bytes_of_inverse [code abstype]

type_synonym address = "20 barr"
type_synonym b32 = "32 barr"

text \<open>A hash to 32 bytes: Keccak-256 and SHA-256 are parameters of this type.\<close>

type_synonym hash_fn = "u8 list \<Rightarrow> b32"

definition fill :: "u8 \<Rightarrow> 'n::len barr" where
  "fill b = Barr (replicate LENGTH('n) b)"

text \<open>\<open>copy_from_slice\<close> into a zeroed array; the source calls it on slices of the right length only.\<close>

definition pad_copy :: "u8 list \<Rightarrow> 'n::len barr" where
  "pad_copy xs = Barr (take LENGTH('n) (xs @ replicate LENGTH('n) 0))"

definition array_of :: "u8 list \<Rightarrow> 'n::len barr option" where
  "array_of xs = (if length xs = LENGTH('n) then Some (pad_copy xs) else None)"

lemma length_bytes_of [simp]: "length (bytes_of (a :: 'n::len barr)) = LENGTH('n)"
  using bytes_of [of a] by simp

declare bytes_of_inject [simp]

lemma bytes_of_fill [code abstract]: "bytes_of (fill b :: 'n::len barr) = replicate LENGTH('n) b"
  by (simp add: fill_def Barr_inverse)

lemma bytes_of_pad_copy_take [code abstract]:
  "bytes_of (pad_copy xs :: 'n::len barr) = take LENGTH('n) (xs @ replicate LENGTH('n) 0)"
  by (simp add: pad_copy_def Barr_inverse)

lemma fill_eq_iff [simp]: "(fill a :: 'n::len barr) = fill b \<longleftrightarrow> a = b"
  by (metis bytes_of_fill hd_replicate len_gt_0 length_bytes_of length_greater_0_conv
      length_replicate)

lemma bytes_of_pad_copy:
  "length xs = LENGTH('n) \<Longrightarrow> bytes_of (pad_copy xs :: 'n::len barr) = xs"
  by (simp add: bytes_of_pad_copy_take)

lemma pad_copy_bytes_of [simp]: "pad_copy (bytes_of a) = a"
  by (simp flip: bytes_of_inject add: bytes_of_pad_copy)

lemma array_of_bytes_of [simp]: "array_of (bytes_of a) = Some a"
  by (simp add: array_of_def)

lemma array_of_Some: "array_of xs = Some a \<longleftrightarrow> bytes_of a = xs"
  by (auto simp: array_of_def bytes_of_pad_copy)

instantiation barr :: (len) equal
begin

definition equal_barr :: "'a barr \<Rightarrow> 'a barr \<Rightarrow> bool" where
  "equal_barr a b \<longleftrightarrow> bytes_of a = bytes_of b"

instance
  by standard (simp add: equal_barr_def)

end

instantiation barr :: (len) linorder
begin

definition less_eq_barr :: "'a barr \<Rightarrow> 'a barr \<Rightarrow> bool" where
  "less_eq_barr a b \<longleftrightarrow> bytes_of a \<le> bytes_of b"

definition less_barr :: "'a barr \<Rightarrow> 'a barr \<Rightarrow> bool" where
  "less_barr a b \<longleftrightarrow> bytes_of a < bytes_of b"

instance
  by standard (auto simp: less_eq_barr_def less_barr_def less_le)

end

instantiation barr :: (len) zero
begin

definition zero_barr :: "'a barr" where
  "zero_barr = fill 0"

instance ..

end

text \<open>There are finitely many arrays of a length.\<close>

instance barr :: (len) finite
proof
  have "bytes_of ` (UNIV :: 'a barr set) \<subseteq> {xs. set xs \<subseteq> UNIV \<and> length xs = LENGTH('a)}" by auto
  moreover have "finite {xs :: u8 list. set xs \<subseteq> UNIV \<and> length xs = LENGTH('a)}"
    by (rule finite_lists_length_eq) simp
  ultimately have "finite (bytes_of ` (UNIV :: 'a barr set))" by (rule finite_subset)
  then show "finite (UNIV :: 'a barr set)" by (rule finite_imageD) (simp add: inj_on_def)
qed

lemma bytes_of_zero: "bytes_of (0 :: 'n::len barr) = replicate LENGTH('n) 0"
  by (simp add: zero_barr_def bytes_of_fill)

lemma fill_eq_zero [simp]: "fill b = 0 \<longleftrightarrow> b = 0" "0 = fill b \<longleftrightarrow> b = 0"
  by (auto simp: zero_barr_def)

subsection \<open>Big-endian bytes\<close>

definition to_be_bytes :: "'a::len word \<Rightarrow> u8 list" where
  "to_be_bytes w = map (\<lambda>i. ucast (drop_bit (8 * i) w)) (rev [0..<LENGTH('a) div 8])"

lemma length_to_be_bytes [simp]: "length (to_be_bytes (w :: 'a::len word)) = LENGTH('a) div 8"
  by (simp add: to_be_bytes_def)

lemma to_be_bytes_eqD:
  fixes v w :: "'a::len word"
  assumes "to_be_bytes v = to_be_bytes w" and "8 dvd LENGTH('a)"
  shows "v = w"
proof (rule bit_word_eqI)
  fix n
  assume n: "n < LENGTH('a)"
  then have "n div 8 < LENGTH('a) div 8"
    using assms(2) by (auto simp: less_mult_imp_div_less dvd_def)
  then have eq: "(ucast (drop_bit (8 * (n div 8)) v) :: u8) = ucast (drop_bit (8 * (n div 8)) w)"
    using assms(1) by (simp add: to_be_bytes_def)
  have pick: "bit x n = bit (ucast (drop_bit (8 * (n div 8)) x) :: u8) (n mod 8)"
    for x :: "'a word"
    by (simp add: bit_ucast_iff bit_drop_bit_eq)
  show "bit v n = bit w n"
    by (simp only: pick [of v] pick [of w] eq)
qed

lemma to_be_bytes_inject:
  "8 dvd LENGTH('a) \<Longrightarrow> to_be_bytes v = to_be_bytes w \<longleftrightarrow> v = (w :: 'a::len word)"
  using to_be_bytes_eqD by blast

subsection \<open>A hash that computes\<close>

text \<open>
  For the witnesses: the hash that keeps the first 32 bytes. It stands for no real hash; it
  shows that the hypotheses on a hash can hold, and it computes.
\<close>

definition toy_hash :: hash_fn where
  "toy_hash xs = pad_copy xs"

lemma toy_hash_bytes_of [simp]: "toy_hash (bytes_of (p :: b32)) = p"
  by (simp add: toy_hash_def)

end
