(* ===== verification/Kael_Verify.thy ===== *)
theory Kael_Verify
  imports Kael_Bytes
begin

section \<open>Verification of the counterparty leg\<close>

text \<open>
  Models \<open>swapkit/src/verify.rs\<close>: the roles, the observed lock, the expectation and the
  ordered list of checks \<open>verify_counterparty_leg\<close> runs, the timelock checks included.

  The lemmas give the decision in closed form (\<open>Safe\<close> exactly when every check passes), show
  that the reported reason is the first failing check of the documented order, and read the
  timelock checks as inequalities between naturals, with the saturation written out.
\<close>

datatype Role = Taker | Maker

record ObservedLock =
  ol_hashlock :: b32
  ol_token :: address
  ol_amount :: u128
  ol_recipient :: address
  ol_timelock :: u64
  ol_sender :: address
  ol_exists :: bool

record LegExpectation =
  expected_hashlock :: b32
  expected_token :: address
  expected_amount :: u128
  expected_recipient :: address
  le_my_timelock :: u64
  le_min_gap :: u64
  le_now :: u64
  le_role :: Role

datatype UnsafeReason =
    LockNotFound
  | HashlockMismatch
  | TokenMismatch
  | AmountMismatch
  | RecipientMismatch
  | TimelockGapTooSmall
  | TimelockInverted
  | CounterpartyExpiresTooSoon

datatype VerifyOutcome = Safe | Unsafe UnsafeReason

subsection \<open>The checks\<close>

text \<open>The role-dependent part of \<open>check_timelock_gap\<close> (its \<open>structural\<close>).\<close>

definition structural_gap :: "Role \<Rightarrow> u64 \<Rightarrow> u64 \<Rightarrow> u64 \<Rightarrow> UnsafeReason option" where
  "structural_gap role my opp gap =
     (case role of
        Maker \<Rightarrow>
          (if opp \<le> my then Some TimelockInverted
           else if opp < saturating_add my gap then Some TimelockGapTooSmall
           else None)
      | Taker \<Rightarrow>
          (if opp \<ge> my then Some TimelockInverted
           else if saturating_add opp gap > my then Some TimelockGapTooSmall
           else None))"

definition check_timelock_gap :: "LegExpectation \<Rightarrow> ObservedLock \<Rightarrow> UnsafeReason option" where
  "check_timelock_gap e ob =
     (let my = le_my_timelock e;
          opp = ol_timelock ob;
          gap = le_min_gap e;
          now = le_now e;
          structural = structural_gap (le_role e) my opp gap
      in if structural \<noteq> None then structural
         else if opp < saturating_add now gap then Some CounterpartyExpiresTooSoon
         else None)"

definition verify_counterparty_leg :: "LegExpectation \<Rightarrow> ObservedLock \<Rightarrow> VerifyOutcome" where
  "verify_counterparty_leg e ob =
     (if \<not> ol_exists ob then Unsafe LockNotFound
      else if ol_hashlock ob \<noteq> expected_hashlock e then Unsafe HashlockMismatch
      else if ol_token ob \<noteq> expected_token e then Unsafe TokenMismatch
      else if ol_amount ob \<noteq> expected_amount e then Unsafe AmountMismatch
      else if ol_recipient ob \<noteq> expected_recipient e then Unsafe RecipientMismatch
      else case check_timelock_gap e ob of
             Some reason \<Rightarrow> Unsafe reason
           | None \<Rightarrow> Safe)"

subsection \<open>A reference description: the ordered list of checks\<close>

text \<open>
  Each reason with the condition under which its check fails, in naturals, in the order the
  documentation lists them. The code's decision is the first failing entry.
\<close>

abbreviation u64_max :: nat where
  "u64_max \<equiv> 2 ^ 64 - 1"

definition inverted :: "LegExpectation \<Rightarrow> ObservedLock \<Rightarrow> bool" where
  "inverted e ob \<longleftrightarrow>
     (case le_role e of
        Maker \<Rightarrow> unat (ol_timelock ob) \<le> unat (le_my_timelock e)
      | Taker \<Rightarrow> unat (le_my_timelock e) \<le> unat (ol_timelock ob))"

definition gap_too_small :: "LegExpectation \<Rightarrow> ObservedLock \<Rightarrow> bool" where
  "gap_too_small e ob \<longleftrightarrow>
     (case le_role e of
        Maker \<Rightarrow>
          unat (ol_timelock ob) < min (unat (le_my_timelock e) + unat (le_min_gap e)) u64_max
      | Taker \<Rightarrow>
          unat (le_my_timelock e) < min (unat (ol_timelock ob) + unat (le_min_gap e)) u64_max)"

definition expires_too_soon :: "LegExpectation \<Rightarrow> ObservedLock \<Rightarrow> bool" where
  "expires_too_soon e ob \<longleftrightarrow>
     unat (ol_timelock ob) < min (unat (le_now e) + unat (le_min_gap e)) u64_max"

definition checks :: "LegExpectation \<Rightarrow> ObservedLock \<Rightarrow> (bool \<times> UnsafeReason) list" where
  "checks e ob =
     [(\<not> ol_exists ob, LockNotFound),
      (ol_hashlock ob \<noteq> expected_hashlock e, HashlockMismatch),
      (ol_token ob \<noteq> expected_token e, TokenMismatch),
      (ol_amount ob \<noteq> expected_amount e, AmountMismatch),
      (ol_recipient ob \<noteq> expected_recipient e, RecipientMismatch),
      (inverted e ob, TimelockInverted),
      (gap_too_small e ob, TimelockGapTooSmall),
      (expires_too_soon e ob, CounterpartyExpiresTooSoon)]"

subsection \<open>Lemmas\<close>

lemma structural_gap_eq:
  "structural_gap (le_role e) (le_my_timelock e) (ol_timelock ob) (le_min_gap e) =
     (if inverted e ob then Some TimelockInverted
      else if gap_too_small e ob then Some TimelockGapTooSmall
      else None)"
  by (cases "le_role e")
    (simp_all add: structural_gap_def inverted_def gap_too_small_def word_le_nat_alt
      word_less_nat_alt unat_saturating_add)

lemma check_timelock_gap_eq:
  "check_timelock_gap e ob =
     (if inverted e ob then Some TimelockInverted
      else if gap_too_small e ob then Some TimelockGapTooSmall
      else if expires_too_soon e ob then Some CounterpartyExpiresTooSoon
      else None)"
  by (simp add: check_timelock_gap_def structural_gap_eq expires_too_soon_def
      word_less_nat_alt unat_saturating_add)

lemma verify_Safe_iff:
  "verify_counterparty_leg e ob = Safe \<longleftrightarrow>
     ol_exists ob \<and>
     ol_hashlock ob = expected_hashlock e \<and>
     ol_token ob = expected_token e \<and>
     ol_amount ob = expected_amount e \<and>
     ol_recipient ob = expected_recipient e \<and>
     \<not> inverted e ob \<and> \<not> gap_too_small e ob \<and> \<not> expires_too_soon e ob"
  by (simp add: verify_counterparty_leg_def check_timelock_gap_eq)

lemma verify_SafeD:
  assumes "verify_counterparty_leg e ob = Safe"
  shows "ol_exists ob" "ol_hashlock ob = expected_hashlock e" "ol_token ob = expected_token e"
    "ol_amount ob = expected_amount e" "ol_recipient ob = expected_recipient e"
    "check_timelock_gap e ob = None"
  using assms by (auto simp: verify_Safe_iff check_timelock_gap_eq)

text \<open>Enough for \<open>Safe\<close>, with the sums taken in naturals.\<close>

lemma verify_SafeI:
  assumes "ol_exists ob" and "ol_hashlock ob = expected_hashlock e"
    and "ol_token ob = expected_token e" and "ol_amount ob = expected_amount e"
    and "ol_recipient ob = expected_recipient e"
    and order: "case le_role e of
        Taker \<Rightarrow> unat (ol_timelock ob) < unat (le_my_timelock e) \<and>
          unat (ol_timelock ob) + unat (le_min_gap e) \<le> unat (le_my_timelock e)
      | Maker \<Rightarrow> unat (le_my_timelock e) < unat (ol_timelock ob) \<and>
          unat (le_my_timelock e) + unat (le_min_gap e) \<le> unat (ol_timelock ob)"
    and soon: "unat (le_now e) + unat (le_min_gap e) \<le> unat (ol_timelock ob)"
  shows "verify_counterparty_leg e ob = Safe"
proof -
  have "\<not> inverted e ob" "\<not> gap_too_small e ob"
    using order by (simp_all add: inverted_def gap_too_small_def split: Role.splits)
  moreover have "\<not> expires_too_soon e ob"
    using soon by (simp add: expires_too_soon_def)
  ultimately show ?thesis using assms(1-5) by (simp add: verify_Safe_iff)
qed

lemma verify_not_Safe: "verify_counterparty_leg e ob \<noteq> Safe \<longleftrightarrow>
    (\<exists>r. verify_counterparty_leg e ob = Unsafe r)"
  by (cases "verify_counterparty_leg e ob") auto

text \<open>
  C26. The verifier is the first failing check. On every expectation and every observed lock,
  \<open>verify_counterparty_leg\<close> reports the first entry of the documented list of checks that
  fails, with the timelock conditions read over naturals and \<open>saturating_add\<close> capped at
  \<open>u64::MAX\<close>, and \<open>Safe\<close> when none fails.
\<close>

theorem verify_first_failing_check:
  "verify_counterparty_leg e ob =
     (case find fst (checks e ob) of None \<Rightarrow> Safe | Some (_, r) \<Rightarrow> Unsafe r)"
  by (simp add: verify_counterparty_leg_def check_timelock_gap_eq checks_def)

text \<open>
  C35. What \<open>Safe\<close> guarantees about time. A taker that verifies the opposite leg as safe has at
  least \<open>min_gap\<close> seconds left before that leg expires and at least \<open>min_gap\<close> more seconds
  between that expiry and its own; a maker's own leg expires at least \<open>min_gap\<close> seconds before
  the leg it is going to redeem. The additions are exact as soon as neither sum saturates.
\<close>

theorem safe_leaves_time:
  assumes safe: "verify_counterparty_leg e ob = Safe"
    and now_sat: "unat (le_now e) + unat (le_min_gap e) < u64_max"
    and my_sat: "unat (le_my_timelock e) + unat (le_min_gap e) < u64_max"
  shows "unat (le_now e) + unat (le_min_gap e) \<le> unat (ol_timelock ob) \<and>
    (case le_role e of
       Taker \<Rightarrow> unat (ol_timelock ob) + unat (le_min_gap e) \<le> unat (le_my_timelock e)
     | Maker \<Rightarrow> unat (le_my_timelock e) + unat (le_min_gap e) \<le> unat (ol_timelock ob))"
proof -
  from safe have gap: "\<not> gap_too_small e ob" and soon: "\<not> expires_too_soon e ob"
    by (simp_all add: verify_Safe_iff)
  have "unat (le_now e) + unat (le_min_gap e) \<le> unat (ol_timelock ob)"
    using soon now_sat by (simp add: expires_too_soon_def)
  with gap my_sat show ?thesis
    by (auto simp: gap_too_small_def min_def split: Role.splits if_splits)
qed

definition taker_expectation_example :: LegExpectation where
  "taker_expectation_example =
     \<lparr>expected_hashlock = fill 0xAB, expected_token = fill 0x11, expected_amount = 1000,
      expected_recipient = fill 0xEE, le_my_timelock = 2000, le_min_gap = 100, le_now = 1700,
      le_role = Taker\<rparr>"

definition maker_lock_example :: ObservedLock where
  "maker_lock_example =
     \<lparr>ol_hashlock = fill 0xAB, ol_token = fill 0x11, ol_amount = 1000,
      ol_recipient = fill 0xEE, ol_timelock = 1800, ol_sender = fill 2, ol_exists = True\<rparr>"

lemma example_safe:
  "verify_counterparty_leg taker_expectation_example maker_lock_example = Safe"
  by (simp add: verify_Safe_iff taker_expectation_example_def maker_lock_example_def
      inverted_def gap_too_small_def expires_too_soon_def)

lemma safe_leaves_time_witness:
  "unat (1700::u64) + unat (100::u64) \<le> unat (1800::u64) \<and>
   unat (1800::u64) + unat (100::u64) \<le> unat (2000::u64)"
  using safe_leaves_time [OF example_safe]
  by (simp add: taker_expectation_example_def maker_lock_example_def)

end
