(* ===== verification/Kael_SM.thy ===== *)
theory Kael_SM
  imports Kael_Verify
begin

section \<open>The wallet's state machine\<close>

text \<open>
  Models \<open>swapkit/src/sm.rs\<close>: the states, events and actions of one party, the context the
  machine decides from, \<open>next_action\<close> (the decision) and \<open>advance\<close> (the transition on an
  event). Constructors keep the source's names; the events carry the prefix \<open>E_\<close>, as under the
  source's alias \<open>E::\<close>, and the actions the prefix \<open>A_\<close>, because both share names with the states.

  The lemmas characterise when each dangerous action (locking, redeeming, refunding) can be
  decided, show that terminal states absorb every event, bound the length of a run through
  \<open>advance\<close>, and describe the runs a state machine can take as a step relation with an
  invariant.
\<close>

datatype AbortReason =
    UnsafeCounterparty UnsafeReason
  | MissingSecret
  | MissingHashlock
  | VerificationFailed
  | InvalidState
  | InvalidTransition

datatype SwapState =
    Start
  | SecretGenerated
  | MyLegLocked
  | WaitingForSecret
  | SecretLearned
  | CounterpartyRedeemed
  | Done
  | Refunding
  | Refunded
  | Aborted AbortReason

datatype NextAction =
    A_GenerateSecret
  | A_LockMyLeg (lock_recipient: address) (lock_token: address) (lock_amount: u128)
      (lock_hashlock: b32) (lock_timelock: u64)
  | A_VerifyCounterpartyLeg
  | A_RedeemCounterpartyLeg (redeem_secret: b32)
  | A_WaitForCounterpartyLock
  | A_WaitForSecretReveal
  | A_Refund
  | A_Done
  | A_Abort (abort_reason: AbortReason)

datatype SwapEvent =
    E_SecretGenerated
  | E_MyLegConfirmed
  | E_CounterpartyLockObserved
  | E_VerificationFailed
  | E_SecretObserved
  | E_TimelockExpired
  | E_RedeemConfirmed
  | E_RefundConfirmed

record SwapContext =
  ctx_role :: Role
  my_token :: address
  my_amount :: u128
  my_timelock :: u64
  my_recipient :: address
  cp_token :: address
  cp_amount :: u128
  ctx_me :: address
  min_gap :: u64
  ctx_hashlock :: "b32 option"
  ctx_secret :: "b32 option"
  my_leg_locked :: bool
  counterparty_lock :: "ObservedLock option"
  revealed_secret :: "b32 option"
  ctx_now :: u64

subsection \<open>The decision\<close>

definition expectation :: "SwapContext \<Rightarrow> LegExpectation" where
  "expectation c =
     \<lparr>expected_hashlock = (case ctx_hashlock c of Some h \<Rightarrow> h | None \<Rightarrow> 0),
      expected_token = cp_token c,
      expected_amount = cp_amount c,
      expected_recipient = ctx_me c,
      le_my_timelock = my_timelock c,
      le_min_gap = min_gap c,
      le_now = ctx_now c,
      le_role = ctx_role c\<rparr>"

definition lock_my_leg :: "SwapContext \<Rightarrow> b32 \<Rightarrow> NextAction" where
  "lock_my_leg c h =
     A_LockMyLeg (my_recipient c) (my_token c) (my_amount c) h (my_timelock c)"

definition taker_next :: "SwapState \<Rightarrow> SwapContext \<Rightarrow> NextAction" where
  "taker_next st c =
     (case st of
        Start \<Rightarrow> A_GenerateSecret
      | SecretGenerated \<Rightarrow>
          (case ctx_hashlock c of
             Some h \<Rightarrow> lock_my_leg c h
           | None \<Rightarrow> A_Abort MissingHashlock)
      | MyLegLocked \<Rightarrow>
          (case counterparty_lock c of
             None \<Rightarrow> (if ctx_now c \<ge> my_timelock c then A_Refund else A_WaitForCounterpartyLock)
           | Some ob \<Rightarrow>
               (case verify_counterparty_leg (expectation c) ob of
                  Safe \<Rightarrow>
                    (case ctx_secret c of
                       Some s \<Rightarrow> A_RedeemCounterpartyLeg s
                     | None \<Rightarrow> A_Abort MissingSecret)
                | Unsafe _ \<Rightarrow> A_Refund))
      | _ \<Rightarrow> A_Abort InvalidState)"

definition maker_next :: "SwapState \<Rightarrow> SwapContext \<Rightarrow> NextAction" where
  "maker_next st c =
     (case st of
        Start \<Rightarrow>
          (case counterparty_lock c of
             None \<Rightarrow> A_WaitForCounterpartyLock
           | Some ob \<Rightarrow>
               (case verify_counterparty_leg (expectation c) ob of
                  Safe \<Rightarrow>
                    (case ctx_hashlock c of
                       Some h \<Rightarrow> lock_my_leg c h
                     | None \<Rightarrow> A_Abort MissingHashlock)
                | Unsafe r \<Rightarrow> A_Abort (UnsafeCounterparty r)))
      | WaitingForSecret \<Rightarrow>
          (case revealed_secret c of
             Some s \<Rightarrow> A_RedeemCounterpartyLeg s
           | None \<Rightarrow> (if ctx_now c \<ge> my_timelock c then A_Refund else A_WaitForSecretReveal))
      | SecretLearned \<Rightarrow>
          (case revealed_secret c of
             Some s \<Rightarrow> A_RedeemCounterpartyLeg s
           | None \<Rightarrow> A_Abort MissingSecret)
      | _ \<Rightarrow> A_Abort InvalidState)"

definition next_action :: "SwapState \<Rightarrow> SwapContext \<Rightarrow> NextAction" where
  "next_action st c =
     (case st of
        Aborted r \<Rightarrow> A_Abort r
      | Done \<Rightarrow> A_Done
      | Refunded \<Rightarrow> A_Done
      | Refunding \<Rightarrow> A_Refund
      | CounterpartyRedeemed \<Rightarrow> A_Done
      | _ \<Rightarrow>
          (case ctx_role c of
             Taker \<Rightarrow> taker_next st c
           | Maker \<Rightarrow> maker_next st c))"

subsection \<open>The transition\<close>

definition advance :: "SwapState \<Rightarrow> SwapEvent \<Rightarrow> SwapState" where
  "advance st ev =
     (case st of
        Done \<Rightarrow> st
      | Refunded \<Rightarrow> st
      | Aborted r \<Rightarrow> Aborted r
      | _ \<Rightarrow>
        (case (st, ev) of
           (Start, E_SecretGenerated) \<Rightarrow> SecretGenerated
         | (SecretGenerated, E_MyLegConfirmed) \<Rightarrow> MyLegLocked
         | (SecretGenerated, E_TimelockExpired) \<Rightarrow> Refunding
         | (MyLegLocked, E_CounterpartyLockObserved) \<Rightarrow> MyLegLocked
         | (MyLegLocked, E_RedeemConfirmed) \<Rightarrow> CounterpartyRedeemed
         | (MyLegLocked, E_VerificationFailed) \<Rightarrow> Refunding
         | (MyLegLocked, E_TimelockExpired) \<Rightarrow> Refunding
         | (Start, E_CounterpartyLockObserved) \<Rightarrow> Start
         | (Start, E_MyLegConfirmed) \<Rightarrow> WaitingForSecret
         | (Start, E_VerificationFailed) \<Rightarrow> Aborted VerificationFailed
         | (WaitingForSecret, E_SecretObserved) \<Rightarrow> SecretLearned
         | (WaitingForSecret, E_TimelockExpired) \<Rightarrow> Refunding
         | (SecretLearned, E_RedeemConfirmed) \<Rightarrow> CounterpartyRedeemed
         | (CounterpartyRedeemed, _) \<Rightarrow> Done
         | (Refunding, E_RefundConfirmed) \<Rightarrow> Refunded
         | _ \<Rightarrow> Aborted InvalidTransition))"

fun advance_all :: "SwapState \<Rightarrow> SwapEvent list \<Rightarrow> SwapState" where
  "advance_all st [] = st"
| "advance_all st (e # es) = advance_all (advance st e) es"

subsection \<open>When each action is decided\<close>

text \<open>The gate: the observed opposite leg is verified as safe against this context.\<close>

definition gate_open :: "SwapContext \<Rightarrow> bool" where
  "gate_open c \<longleftrightarrow>
     (\<exists>ob. counterparty_lock c = Some ob \<and> verify_counterparty_leg (expectation c) ob = Safe)"

lemma gate_open_code [code]:
  "gate_open c \<longleftrightarrow>
     (case counterparty_lock c of
        None \<Rightarrow> False
      | Some ob \<Rightarrow> verify_counterparty_leg (expectation c) ob = Safe)"
  by (simp add: gate_open_def split: option.split)

lemmas next_defs = next_action_def taker_next_def maker_next_def lock_my_leg_def gate_open_def

lemma next_action_lock_iff:
  "next_action st c = A_LockMyLeg r t a h tm \<longleftrightarrow>
     r = my_recipient c \<and> t = my_token c \<and> a = my_amount c \<and> tm = my_timelock c \<and>
     ctx_hashlock c = Some h \<and>
     (ctx_role c = Taker \<and> st = SecretGenerated \<or>
      ctx_role c = Maker \<and> st = Start \<and> gate_open c)"
  by (cases st; cases "ctx_role c")
    (auto simp: next_defs split: option.splits VerifyOutcome.splits)

lemma next_action_redeem_iff:
  "next_action st c = A_RedeemCounterpartyLeg s \<longleftrightarrow>
     ctx_role c = Taker \<and> st = MyLegLocked \<and> gate_open c \<and> ctx_secret c = Some s \<or>
     ctx_role c = Maker \<and> st \<in> {WaitingForSecret, SecretLearned} \<and> revealed_secret c = Some s"
  by (cases st; cases "ctx_role c")
    (auto simp: next_defs split: option.splits VerifyOutcome.splits)

lemma next_action_refund_iff:
  "next_action st c = A_Refund \<longleftrightarrow>
     st = Refunding \<or>
     ctx_role c = Taker \<and> st = MyLegLocked \<and>
       (case counterparty_lock c of
          None \<Rightarrow> my_timelock c \<le> ctx_now c
        | Some ob \<Rightarrow> verify_counterparty_leg (expectation c) ob \<noteq> Safe) \<or>
     ctx_role c = Maker \<and> st = WaitingForSecret \<and> revealed_secret c = None \<and>
       my_timelock c \<le> ctx_now c"
  by (cases st; cases "ctx_role c")
    (auto simp: next_defs split: option.splits VerifyOutcome.splits)

lemma next_action_generate_iff:
  "next_action st c = A_GenerateSecret \<longleftrightarrow> ctx_role c = Taker \<and> st = Start"
  by (cases st; cases "ctx_role c")
    (auto simp: next_defs split: option.splits VerifyOutcome.splits)

lemma next_action_never_verify [simp]: "next_action st c \<noteq> A_VerifyCounterpartyLeg"
  by (cases st; cases "ctx_role c")
    (auto simp: next_defs split: option.splits VerifyOutcome.splits)

lemma next_action_Done_iff:
  "next_action st c = A_Done \<longleftrightarrow> st \<in> {Done, Refunded, CounterpartyRedeemed}"
  by (cases st; cases "ctx_role c")
    (auto simp: next_defs split: option.splits VerifyOutcome.splits)

lemma next_action_Abort_iff:
  "next_action st c = A_Abort r \<longleftrightarrow>
     st = Aborted r \<or>
     (ctx_role c = Taker \<and>
       (st = SecretGenerated \<and> ctx_hashlock c = None \<and> r = MissingHashlock \<or>
        st = MyLegLocked \<and> gate_open c \<and> ctx_secret c = None \<and> r = MissingSecret \<or>
        st \<in> {WaitingForSecret, SecretLearned} \<and> r = InvalidState)) \<or>
     (ctx_role c = Maker \<and>
       (st = Start \<and> gate_open c \<and> ctx_hashlock c = None \<and> r = MissingHashlock \<or>
        st = Start \<and> (\<exists>ob u. counterparty_lock c = Some ob \<and>
          verify_counterparty_leg (expectation c) ob = Unsafe u \<and> r = UnsafeCounterparty u) \<or>
        st = SecretLearned \<and> revealed_secret c = None \<and> r = MissingSecret \<or>
        st \<in> {SecretGenerated, MyLegLocked} \<and> r = InvalidState))"
  by (cases st; cases "ctx_role c")
    (auto simp: next_defs split: option.splits VerifyOutcome.splits)

lemmas next_action_iffs =
  next_action_lock_iff next_action_redeem_iff next_action_refund_iff next_action_generate_iff
  next_action_Done_iff next_action_Abort_iff

text \<open>
  C25. The redeem gate. The machine decides to reveal or use a secret in two situations only: a
  taker that has locked, holds that secret, and verifies the observed opposite leg as safe
  right now; or a maker that has locked and has seen that very secret revealed on chain.
\<close>

theorem redeem_decision:
  "next_action st c = A_RedeemCounterpartyLeg s \<longleftrightarrow>
     ctx_role c = Taker \<and> st = MyLegLocked \<and> ctx_secret c = Some s \<and>
       (\<exists>ob. counterparty_lock c = Some ob \<and>
         verify_counterparty_leg (expectation c) ob = Safe) \<or>
     ctx_role c = Maker \<and> (st = WaitingForSecret \<or> st = SecretLearned) \<and>
       revealed_secret c = Some s"
  by (auto simp: next_action_redeem_iff gate_open_def)

text \<open>
  The lock gate. A lock is decided only in the role's locking state, always for this
  context's own token, amount, timelock and recipient and the agreed hashlock, and for a maker
  only while the taker's leg verifies as safe.
\<close>

theorem lock_decision:
  "next_action st c = A_LockMyLeg r t a h tm \<longleftrightarrow>
     r = my_recipient c \<and> t = my_token c \<and> a = my_amount c \<and> tm = my_timelock c \<and>
     ctx_hashlock c = Some h \<and>
     (case ctx_role c of
        Taker \<Rightarrow> st = SecretGenerated
      | Maker \<Rightarrow> st = Start \<and>
          (\<exists>ob. counterparty_lock c = Some ob \<and>
            verify_counterparty_leg (expectation c) ob = Safe))"
  by (auto simp: next_action_lock_iff gate_open_def split: Role.splits)

text \<open>
  A maker that observes an unsafe leg before locking aborts with the verifier's reason, and
  a taker that observes an unsafe leg after locking refunds: neither locks, redeems nor waits.
\<close>

theorem unsafe_leg_decision:
  assumes "counterparty_lock c = Some ob"
    and "verify_counterparty_leg (expectation c) ob = Unsafe r"
  shows "next_action (case ctx_role c of Maker \<Rightarrow> Start | Taker \<Rightarrow> MyLegLocked) c =
    (case ctx_role c of Maker \<Rightarrow> A_Abort (UnsafeCounterparty r) | Taker \<Rightarrow> A_Refund)"
  using assms by (cases "ctx_role c") (simp_all add: next_defs)

definition maker_context_example :: SwapContext where
  "maker_context_example =
     \<lparr>ctx_role = Maker, my_token = fill 0x22, my_amount = 500, my_timelock = 1000,
      my_recipient = fill 0x7A, cp_token = fill 0x11, cp_amount = 1000, ctx_me = fill 0xEE,
      min_gap = 100, ctx_hashlock = Some (fill 0xAB), ctx_secret = None, my_leg_locked = False,
      counterparty_lock = None, revealed_secret = None, ctx_now = 0\<rparr>"

definition taker_lock_example :: "u64 \<Rightarrow> ObservedLock" where
  "taker_lock_example tm =
     \<lparr>ol_hashlock = fill 0xAB, ol_token = fill 0x11, ol_amount = 1000,
      ol_recipient = fill 0xEE, ol_timelock = tm, ol_sender = fill 1, ol_exists = True\<rparr>"

lemma unsafe_leg_decision_witness:
  "next_action Start (maker_context_example\<lparr>counterparty_lock := Some (taker_lock_example 1050)\<rparr>) =
     A_Abort (UnsafeCounterparty TimelockGapTooSmall)"
proof -
  let ?c = "maker_context_example\<lparr>counterparty_lock := Some (taker_lock_example 1050)\<rparr>"
  have "verify_counterparty_leg (expectation ?c) (taker_lock_example 1050) =
      Unsafe TimelockGapTooSmall"
    by (simp add: verify_counterparty_leg_def check_timelock_gap_eq checks_def inverted_def gap_too_small_def
        expires_too_soon_def expectation_def maker_context_example_def taker_lock_example_def)
  from unsafe_leg_decision [OF _ this]
  show ?thesis by (simp add: maker_context_example_def)
qed

subsection \<open>The protocol as a step relation\<close>

text \<open>
  The transitions the source groups under \<open>taker\<close>, \<open>maker\<close> and \<open>both\<close>, as a relation
  per role. \<open>advance\<close> implements it (\<open>advance_iff_sm_step\<close>), but does not know the role.
\<close>

inductive sm_step :: "Role \<Rightarrow> SwapState \<Rightarrow> SwapEvent \<Rightarrow> SwapState \<Rightarrow> bool" where
  taker_secret: "sm_step Taker Start E_SecretGenerated SecretGenerated"
| taker_locked: "sm_step Taker SecretGenerated E_MyLegConfirmed MyLegLocked"
| taker_expired_early: "sm_step Taker SecretGenerated E_TimelockExpired Refunding"
| taker_observed: "sm_step Taker MyLegLocked E_CounterpartyLockObserved MyLegLocked"
| taker_redeemed: "sm_step Taker MyLegLocked E_RedeemConfirmed CounterpartyRedeemed"
| taker_failed: "sm_step Taker MyLegLocked E_VerificationFailed Refunding"
| taker_expired: "sm_step Taker MyLegLocked E_TimelockExpired Refunding"
| maker_observed: "sm_step Maker Start E_CounterpartyLockObserved Start"
| maker_locked: "sm_step Maker Start E_MyLegConfirmed WaitingForSecret"
| maker_failed: "sm_step Maker Start E_VerificationFailed (Aborted VerificationFailed)"
| maker_learned: "sm_step Maker WaitingForSecret E_SecretObserved SecretLearned"
| maker_expired: "sm_step Maker WaitingForSecret E_TimelockExpired Refunding"
| maker_redeemed: "sm_step Maker SecretLearned E_RedeemConfirmed CounterpartyRedeemed"
| redeemed_done: "sm_step role CounterpartyRedeemed ev Done"
| refund_done: "sm_step role Refunding E_RefundConfirmed Refunded"

inductive_cases sm_step_StartE: "sm_step role Start ev st'"
inductive_cases sm_step_RefundingE: "sm_step role Refunding ev st'"
inductive_simps sm_step_simps:
  "sm_step role Start ev st'" "sm_step role SecretGenerated ev st'"
  "sm_step role MyLegLocked ev st'" "sm_step role WaitingForSecret ev st'"
  "sm_step role SecretLearned ev st'" "sm_step role CounterpartyRedeemed ev st'"
  "sm_step role Done ev st'" "sm_step role Refunding ev st'"
  "sm_step role Refunded ev st'" "sm_step role (Aborted r) ev st'"

definition terminal :: "SwapState \<Rightarrow> bool" where
  "terminal st \<longleftrightarrow> (case st of Done \<Rightarrow> True | Refunded \<Rightarrow> True | Aborted _ \<Rightarrow> True | _ \<Rightarrow> False)"

lemma advance_terminal: "terminal st \<Longrightarrow> advance st ev = st"
  by (cases st) (simp_all add: terminal_def advance_def)

lemma sm_step_advance: "sm_step role st ev st' \<Longrightarrow> advance st ev = st'"
  by (induction rule: sm_step.induct) (simp_all add: advance_def)

lemma advance_sm_step:
  assumes "\<not> terminal st" and "advance st ev \<noteq> Aborted InvalidTransition"
  shows "\<exists>role. sm_step role st ev (advance st ev)"
  using assms
  by (cases st; cases ev) (auto simp: advance_def terminal_def intro: sm_step.intros)

text \<open>
  \<open>advance\<close> implements the documented transitions: from a state that is not terminal it
  makes exactly the transitions of one of the two roles, and every other combination becomes
  \<open>Aborted(InvalidTransition)\<close>.
\<close>

theorem advance_refines_protocol:
  "advance st ev = st' \<longleftrightarrow>
     (if terminal st then st' = st
      else if \<exists>role st''. sm_step role st ev st'' then \<exists>role. sm_step role st ev st'
      else st' = Aborted InvalidTransition)"
proof (cases "terminal st")
  case True
  then show ?thesis by (auto simp: advance_terminal)
next
  case False
  show ?thesis
  proof (cases "\<exists>role st''. sm_step role st ev st''")
    case True
    with False show ?thesis by (auto dest: sm_step_advance)
  next
    case no_step: False
    then have "advance st ev = Aborted InvalidTransition"
      using advance_sm_step [OF False, of ev] by blast
    with False no_step show ?thesis by auto
  qed
qed

text \<open>
  Progress is measured by a rank: an event leaves the state or moves it to a higher rank.
\<close>

fun rank :: "SwapState \<Rightarrow> nat" where
  "rank Start = 0"
| "rank SecretGenerated = 1"
| "rank WaitingForSecret = 1"
| "rank MyLegLocked = 2"
| "rank SecretLearned = 2"
| "rank CounterpartyRedeemed = 3"
| "rank Refunding = 3"
| "rank Done = 4"
| "rank Refunded = 4"
| "rank (Aborted _) = 5"

lemma advance_rank: "advance st ev = st \<or> rank st < rank (advance st ev)"
  by (cases st; cases ev) (simp_all add: advance_def)

fun changes :: "SwapState \<Rightarrow> SwapEvent list \<Rightarrow> nat" where
  "changes st [] = 0"
| "changes st (e # es) = (if advance st e = st then 0 else 1) + changes (advance st e) es"

lemma changes_rank: "changes st es + rank st \<le> rank (advance_all st es)"
proof (induction es arbitrary: st)
  case Nil
  then show ?case by simp
next
  case (Cons e es)
  have "(if advance st e = st then 0 else 1) + rank st \<le> rank (advance st e)"
    using advance_rank [of st e] by auto
  with Cons [of "advance st e"] show ?case by simp
qed

lemma rank_bound: "rank st \<le> 5"
  by (cases st) simp_all

text \<open>
  However many events arrive, a run changes state at most five times, and an event list
  that starts in a terminal state changes nothing.
\<close>

theorem runs_settle:
  "changes st es \<le> 5 - rank st \<and> (terminal st \<longrightarrow> advance_all st es = st)"
proof
  show "changes st es \<le> 5 - rank st"
    using changes_rank [of st es] rank_bound [of "advance_all st es"] by simp
  show "terminal st \<longrightarrow> advance_all st es = st"
    by (induction es) (simp_all add: advance_terminal)
qed

lemma runs_settle_witness:
  "advance_all Refunded [E_MyLegConfirmed, E_RedeemConfirmed] = Refunded"
  using runs_settle [of Refunded "[E_MyLegConfirmed, E_RedeemConfirmed]"]
  by (simp add: terminal_def)

text \<open>What a state says was done with this party's own leg and with the opposite leg.\<close>

definition redeemed_side :: "SwapState \<Rightarrow> bool" where
  "redeemed_side st \<longleftrightarrow> st = CounterpartyRedeemed \<or> st = Done"

definition refund_side :: "SwapState \<Rightarrow> bool" where
  "refund_side st \<longleftrightarrow> st = Refunding \<or> st = Refunded"

lemma advance_redeemed_side: "redeemed_side st \<Longrightarrow> redeemed_side (advance st ev)"
  by (cases st) (auto simp: redeemed_side_def advance_def)

lemma advance_refund_side:
  "refund_side st \<Longrightarrow> refund_side (advance st ev) \<or> (\<exists>r. advance st ev = Aborted r)"
  by (cases st; cases ev) (auto simp: refund_side_def advance_def)

lemma advance_all_redeemed_side: "redeemed_side st \<Longrightarrow> redeemed_side (advance_all st es)"
  by (induction es arbitrary: st) (simp_all add: advance_redeemed_side)

lemma advance_all_Aborted: "advance_all (Aborted r) es = Aborted r"
  by (induction es) (simp_all add: advance_def)

lemma advance_all_refund_side:
  "refund_side st \<Longrightarrow>
     refund_side (advance_all st es) \<or> (\<exists>r. advance_all st es = Aborted r)"
proof (induction es arbitrary: st)
  case Nil
  then show ?case by simp
next
  case (Cons e es)
  from advance_refund_side [OF Cons.prems, of e] show ?case
  proof
    assume "refund_side (advance st e)"
    then show ?thesis using Cons.IH by simp
  next
    assume "\<exists>r. advance st e = Aborted r"
    then show ?thesis by (auto simp: advance_all_Aborted)
  qed
qed

text \<open>
  Redeeming the opposite leg and refunding the own leg exclude each other: no sequence of
  events leads from a redeemed state to a refunding or refunded one, or back.
\<close>

theorem redeem_refund_exclusive:
  "(redeemed_side st \<longrightarrow> \<not> refund_side (advance_all st es)) \<and>
   (refund_side st \<longrightarrow> \<not> redeemed_side (advance_all st es))"
  using advance_all_redeemed_side [of st es] advance_all_refund_side [of st es]
  by (auto simp: redeemed_side_def refund_side_def)

lemma redeem_refund_exclusive_witness:
  "\<not> refund_side (advance_all CounterpartyRedeemed [E_RefundConfirmed, E_TimelockExpired])"
  using redeem_refund_exclusive
    [of CounterpartyRedeemed "[E_RefundConfirmed, E_TimelockExpired]"]
  by (simp add: redeemed_side_def)

subsection \<open>Reachable states\<close>

inductive sm_reach :: "Role \<Rightarrow> SwapState \<Rightarrow> bool" for role where
  reach_start: "sm_reach role Start"
| reach_step: "sm_reach role st \<Longrightarrow> sm_step role st ev st' \<Longrightarrow> sm_reach role st'"

definition role_states :: "Role \<Rightarrow> SwapState \<Rightarrow> bool" where
  "role_states role st \<longleftrightarrow>
     (case role of
        Taker \<Rightarrow> st \<in> {Start, SecretGenerated, MyLegLocked, CounterpartyRedeemed, Done,
                       Refunding, Refunded}
      | Maker \<Rightarrow> st \<in> {Start, WaitingForSecret, SecretLearned, CounterpartyRedeemed, Done,
                       Refunding, Refunded, Aborted VerificationFailed})"

lemma sm_reach_role_states: "sm_reach role st \<Longrightarrow> role_states role st"
proof (induction rule: sm_reach.induct)
  case reach_start
  then show ?case by (simp add: role_states_def split: Role.split)
next
  case (reach_step st ev st')
  from reach_step.hyps(2) reach_step.IH show ?case
    by (cases rule: sm_step.cases) (auto simp: role_states_def split: Role.splits)
qed

text \<open>
  A party that follows its own role's transitions never meets the \<open>InvalidState\<close> branch:
  in every state it can reach, and for every context of that role, the decision is not
  \<open>Abort(InvalidState)\<close>.
\<close>

theorem reachable_never_invalid_state:
  assumes "sm_reach (ctx_role c) st"
  shows "next_action st c \<noteq> A_Abort InvalidState"
  using sm_reach_role_states [OF assms]
  by (cases "ctx_role c")
    (auto simp: role_states_def next_defs split: option.splits VerifyOutcome.splits if_splits)

lemma reachable_never_invalid_state_witness:
  "next_action WaitingForSecret maker_context_example \<noteq> A_Abort InvalidState"
proof -
  have "sm_reach Maker WaitingForSecret"
    by (rule reach_step [OF reach_start maker_locked])
  then have "sm_reach (ctx_role maker_context_example) WaitingForSecret"
    by (simp add: maker_context_example_def)
  then show ?thesis by (rule reachable_never_invalid_state)
qed

text \<open>
  The verification gate guards one action per role. The module's documentation says that
  the machine never emits \<open>LockMyLeg\<close> or \<open>RedeemCounterpartyLeg\<close> unless the opposite leg
  verifies as safe; the code releases two more: the taker's lock, which comes first and has
  nothing to verify yet, and the maker's redeem, which uses a secret that is already public.
  Both are decided here while the observed opposite leg is unsafe.
\<close>

theorem ungated_actions:
  "\<exists>taker maker ob s h.
     counterparty_lock taker = Some ob \<and> counterparty_lock maker = Some ob \<and>
     verify_counterparty_leg (expectation taker) ob \<noteq> Safe \<and>
     verify_counterparty_leg (expectation maker) ob \<noteq> Safe \<and>
     next_action SecretGenerated taker = lock_my_leg taker h \<and>
     next_action WaitingForSecret maker = A_RedeemCounterpartyLeg s"
proof -
  let ?ob = "taker_lock_example 0"
  let ?maker = "maker_context_example\<lparr>counterparty_lock := Some ?ob,
    revealed_secret := Some (fill 7)\<rparr>"
  let ?taker = "?maker\<lparr>ctx_role := Taker\<rparr>"
  have "verify_counterparty_leg (expectation c) ?ob \<noteq> Safe" if "c \<in> {?maker, ?taker}" for c
    using that
    by (auto simp: verify_Safe_iff inverted_def gap_too_small_def expires_too_soon_def
        expectation_def maker_context_example_def taker_lock_example_def)
  then show ?thesis
    by (intro exI [of _ ?taker] exI [of _ ?maker] exI [of _ ?ob] exI [of _ "fill 7"]
        exI [of _ "fill 0xAB"])
      (simp add: next_defs maker_context_example_def)
qed

end
