(* ===== verification/Kael_Text.thy ===== *)
theory Kael_Text
  imports Kael_Bytes
begin

section \<open>Strings: trimming, integers, external formats\<close>

text \<open>
  The operations of Rust's standard library on strings that the sources use, on ASCII text:
  \<open>trim\<close>, \<open>strip_prefix\<close>, \<open>trim_start_matches\<close>, the decimal printing of unsigned integers and
  \<open>str::parse\<close> for them with its three errors. The record \<open>crates\<close> holds what comes from
  libraries outside the repository: the \<open>hex\<close> crate and the text forms and the ABI encoder of
  \<open>alloy\<close>'s primitives.

  The lemmas show that parsing inverts printing, at any width, and how the parser fails.
\<close>

definition is_whitespace :: "char \<Rightarrow> bool" where
  "is_whitespace c \<longleftrightarrow> (let n = (of_char c :: nat) in 9 \<le> n \<and> n \<le> 13 \<or> n = 32)"

definition trim :: "string \<Rightarrow> string" where
  "trim s = rev (dropWhile is_whitespace (rev (dropWhile is_whitespace s)))"

fun strip_prefix :: "string \<Rightarrow> string \<Rightarrow> string option" where
  "strip_prefix [] s = Some s"
| "strip_prefix (p # ps) [] = None"
| "strip_prefix (p # ps) (c # cs) = (if p = c then strip_prefix ps cs else None)"

text \<open>\<open>s.trim_start_matches("0x")\<close> removes the prefix as often as it occurs.\<close>

fun trim_0x :: "string \<Rightarrow> string" where
  "trim_0x (CHR ''0'' # CHR ''x'' # s) = trim_0x s"
| "trim_0x s = s"

text \<open>\<open>s.trim().strip_prefix("0x").unwrap_or(s.trim())\<close>.\<close>

definition strip_key :: "string \<Rightarrow> string" where
  "strip_key s = (case strip_prefix ''0x'' (trim s) of Some r \<Rightarrow> r | None \<Rightarrow> trim s)"

datatype IntError = EmptyInt | InvalidDigit | PosOverflow

definition int_error_text :: "IntError \<Rightarrow> string" where
  "int_error_text e =
     (case e of
        EmptyInt \<Rightarrow> ''cannot parse integer from empty string''
      | InvalidDigit \<Rightarrow> ''invalid digit found in string''
      | PosOverflow \<Rightarrow> ''number too large to fit in target type'')"

definition digit_of :: "char \<Rightarrow> nat option" where
  "digit_of c = (let n = (of_char c :: nat) in if 48 \<le> n \<and> n \<le> 57 then Some (n - 48) else None)"

fun parse_digits :: "nat \<Rightarrow> nat \<Rightarrow> string \<Rightarrow> IntError + nat" where
  "parse_digits bound acc [] = Inr acc"
| "parse_digits bound acc (c # cs) =
     (case digit_of c of
        None \<Rightarrow> Inl InvalidDigit
      | Some d \<Rightarrow>
          if bound \<le> acc * 10 then Inl PosOverflow
          else if bound \<le> acc * 10 + d then Inl PosOverflow
          else parse_digits bound (acc * 10 + d) cs)"

text \<open>\<open>s.parse::<uN>()\<close>: one leading plus sign is allowed, a minus sign is not.\<close>

definition parse_uint :: "string \<Rightarrow> IntError + 'a::len word" where
  "parse_uint s =
     (if s = [] then Inl EmptyInt
      else if s = ''+'' \<or> s = ''-'' then Inl InvalidDigit
      else
        and_then (parse_digits (2 ^ LENGTH('a)) 0 (if hd s = CHR ''+'' then drop 1 s else s))
          (\<lambda>n. Inr (of_nat n)))"

fun dec :: "nat \<Rightarrow> string" where
  "dec n = (if n < 10 then [char_of (48 + n)] else dec (n div 10) @ [char_of (48 + n mod 10)])"

declare dec.simps [simp del]

text \<open>The \<open>Debug\<close> form of an ASCII string.\<close>

definition hex_digit :: "nat \<Rightarrow> char" where
  "hex_digit n = (if n < 10 then char_of (48 + n) else char_of (87 + n))"

definition escape_debug :: "char \<Rightarrow> string" where
  "escape_debug c =
     (let n = (of_char c :: nat) in
      if n = 0 then [CHR 0x5C, CHR ''0'']
      else if n = 9 then [CHR 0x5C, CHR ''t'']
      else if n = 10 then [CHR 0x5C, CHR ''n'']
      else if n = 13 then [CHR 0x5C, CHR ''r'']
      else if n = 34 \<or> n = 92 then [CHR 0x5C, c]
      else if n < 16 then [CHR 0x5C, CHR ''u'', CHR 0x7B, hex_digit n, CHR 0x7D]
      else if n < 32 \<or> n = 127 then
        [CHR 0x5C, CHR ''u'', CHR 0x7B, hex_digit (n div 16), hex_digit (n mod 16), CHR 0x7D]
      else [c])"

definition debug_str :: "string \<Rightarrow> string" where
  "debug_str s = CHR 0x22 # concat (map escape_debug s) @ [CHR 0x22]"

record crates =
  hex_decode :: "string \<Rightarrow> string + u8 list"
  hex_encode :: "u8 list \<Rightarrow> string"
  parse_evm_address :: "string \<Rightarrow> string + address"
  show_address :: "address \<Rightarrow> string"
  parse_u256 :: "string \<Rightarrow> string + u256"
  show_u256 :: "u256 \<Rightarrow> string"
  abi_encode_lock :: "address \<Rightarrow> address \<Rightarrow> address \<Rightarrow> u256 \<Rightarrow> b32 \<Rightarrow> u256 \<Rightarrow> u8 list"

subsection \<open>Parsing inverts printing\<close>

lemma digit_of_char: "d < 10 \<Longrightarrow> digit_of (char_of (48 + d)) = Some d"
  by (simp add: digit_of_def)

lemma parse_digits_append:
  "parse_digits bound acc (xs @ ys) =
     and_then (parse_digits bound acc xs) (\<lambda>n. parse_digits bound n ys)"
  by (induction xs arbitrary: acc) (auto split: option.split)

lemma parse_digits_dec: "n < bound \<Longrightarrow> parse_digits bound 0 (dec n) = Inr n"
proof (induction n rule: dec.induct)
  case (1 n)
  show ?case
  proof (cases "n < 10")
    case True
    with 1 show ?thesis by (simp add: dec.simps [of n] digit_of_char)
  next
    case False
    have "parse_digits bound 0 (dec (n div 10)) = Inr (n div 10)"
      using 1 False by simp
    moreover have "n div 10 * 10 < bound" "n div 10 * 10 + n mod 10 = n"
      using 1(2) by (simp_all add: order_le_less_trans [OF div_times_less_eq_dividend])
    ultimately show ?thesis
      using False 1(2)
      by (simp add: dec.simps [of n] parse_digits_append digit_of_char)
  qed
qed

lemma dec_digits: "c \<in> set (dec n) \<Longrightarrow> \<exists>d < (10 :: nat). c = char_of (48 + d)"
proof (induction n rule: dec.induct)
  case (1 n)
  show ?case
  proof (cases "n < 10")
    case True
    with 1(2) show ?thesis by (auto simp: dec.simps [of n])
  next
    case False
    from 1(2) False have "c \<in> set (dec (n div 10)) \<or> c = char_of (48 + n mod 10)"
      by (auto simp: dec.simps [of n])
    then show ?thesis
    proof
      assume "c \<in> set (dec (n div 10))"
      then show ?thesis using 1(1) False by blast
    next
      assume "c = char_of (48 + n mod 10)"
      then show ?thesis by (intro exI [of _ "n mod 10"]) simp
    qed
  qed
qed

lemma dec_not_Nil [simp]: "dec n \<noteq> []"
  by (simp add: dec.simps [of n])

lemma digit_of_signs [simp]: "digit_of (CHR ''+'') = None" "digit_of (CHR ''-'') = None"
  by (simp_all add: digit_of_def)

lemma dec_signs: "c \<in> set (dec n) \<Longrightarrow> c \<noteq> CHR ''+'' \<and> c \<noteq> CHR ''-''"
  by (metis dec_digits digit_of_char digit_of_signs option.distinct(1))

text \<open>Parsing the decimal text of an integer gives the integer back, at every width.\<close>

lemma parse_uint_dec: "parse_uint (dec (unat w)) = Inr (w :: 'a::len word)"
proof -
  have hd: "hd (dec (unat w)) \<noteq> CHR ''+''"
    using dec_signs [of "hd (dec (unat w))" "unat w"] by simp
  have "dec (unat w) \<noteq> ''+''" "dec (unat w) \<noteq> ''-''"
    using dec_signs [of "CHR ''+''" "unat w"] dec_signs [of "CHR ''-''" "unat w"] by auto
  with hd show ?thesis
    by (simp add: parse_uint_def parse_digits_dec)
qed

lemma parse_digits_bound: "parse_digits bound acc cs = Inr n \<Longrightarrow> acc < bound \<Longrightarrow> n < bound"
  by (induction cs arbitrary: acc) (auto split: option.splits if_splits)

lemma strip_prefix_Some: "strip_prefix p s = Some r \<longleftrightarrow> s = p @ r"
  by (induction p s rule: strip_prefix.induct) auto

lemma trim_0x_no_prefix: "strip_prefix ''0x'' (trim_0x s) = None"
  by (induction s rule: trim_0x.induct) (auto split: if_splits)

end
