(* ===== verification/Kael_Debug.thy ===== *)
theory Kael_Debug
  imports Kael_SM Kael_Text
begin

section \<open>The debug text of an action\<close>

text \<open>
  Models \<open>impl Debug for NextAction\<close> of \<open>swapkit/src/sm.rs\<close>, which keeps the secret out of logs:
  the text of a redeem is the same for every secret. The texts of the fields are those of the
  standard library and of the derived implementations.
\<close>

fun join :: "string \<Rightarrow> string list \<Rightarrow> string" where
  "join sep [] = []"
| "join sep [x] = x"
| "join sep (x # xs) = x @ sep @ join sep xs"

definition debug_bytes :: "'n::len barr \<Rightarrow> string" where
  "debug_bytes b = ''['' @ join '', '' (map (\<lambda>x. dec (unat x)) (bytes_of b)) @ '']''"

definition debug_struct :: "string \<Rightarrow> (string \<times> string) list \<Rightarrow> string" where
  "debug_struct name fs =
     name @ '' { '' @ join '', '' (map (\<lambda>(n, v). n @ '': '' @ v) fs) @ '' }''"

definition debug_str :: "string \<Rightarrow> string" where
  "debug_str s = CHR 0x22 # s @ [CHR 0x22]"

fun unsafe_reason_debug :: "UnsafeReason \<Rightarrow> string" where
  "unsafe_reason_debug LockNotFound = ''LockNotFound''"
| "unsafe_reason_debug HashlockMismatch = ''HashlockMismatch''"
| "unsafe_reason_debug TokenMismatch = ''TokenMismatch''"
| "unsafe_reason_debug AmountMismatch = ''AmountMismatch''"
| "unsafe_reason_debug RecipientMismatch = ''RecipientMismatch''"
| "unsafe_reason_debug TimelockGapTooSmall = ''TimelockGapTooSmall''"
| "unsafe_reason_debug TimelockInverted = ''TimelockInverted''"
| "unsafe_reason_debug CounterpartyExpiresTooSoon = ''CounterpartyExpiresTooSoon''"

fun abort_reason_debug :: "AbortReason \<Rightarrow> string" where
  "abort_reason_debug (UnsafeCounterparty r) = ''UnsafeCounterparty('' @ unsafe_reason_debug r @ '')''"
| "abort_reason_debug MissingSecret = ''MissingSecret''"
| "abort_reason_debug MissingHashlock = ''MissingHashlock''"
| "abort_reason_debug VerificationFailed = ''VerificationFailed''"
| "abort_reason_debug InvalidState = ''InvalidState''"
| "abort_reason_debug InvalidTransition = ''InvalidTransition''"

fun next_action_debug :: "NextAction \<Rightarrow> string" where
  "next_action_debug A_GenerateSecret = ''GenerateSecret''"
| "next_action_debug (A_LockMyLeg recipient token amount hashlock tm) =
     debug_struct ''LockMyLeg''
       [(''recipient'', debug_bytes recipient), (''token'', debug_bytes token),
        (''amount'', dec (unat amount)), (''hashlock'', debug_bytes hashlock),
        (''timelock'', dec (unat tm))]"
| "next_action_debug A_VerifyCounterpartyLeg = ''VerifyCounterpartyLeg''"
| "next_action_debug (A_RedeemCounterpartyLeg _) =
     debug_struct ''RedeemCounterpartyLeg'' [(''secret'', debug_str ''<redacted>'')]"
| "next_action_debug A_WaitForCounterpartyLock = ''WaitForCounterpartyLock''"
| "next_action_debug A_WaitForSecretReveal = ''WaitForSecretReveal''"
| "next_action_debug A_Refund = ''Refund''"
| "next_action_debug A_Done = ''Done''"
| "next_action_debug (A_Abort reason) = debug_struct ''Abort'' [(''reason'', abort_reason_debug reason)]"

lemma redeem_text:
  "next_action_debug (A_RedeemCounterpartyLeg s) =
     ''RedeemCounterpartyLeg { secret: '' @ [CHR 0x22] @ ''<redacted>'' @ [CHR 0x22] @ '' }''"
  by (simp add: debug_struct_def debug_str_def)

end
