(* ===== verification/Kael_Order.thy ===== *)
theory Kael_Order
  imports Kael_Bytes "HOL-Library.Multiset"
begin

section \<open>Orders and price-time matching\<close>

text \<open>
  Models \<open>orderbook/src/order.rs\<close> and \<open>orderbook/src/matching.rs\<close>: the order record, expiry,
  the mirror and crossing conditions, the total order among maker candidates, and the two
  selection loops \<open>best_match_for\<close> and \<open>find_match\<close>.

  The comparison is an instance of the locale \<open>total_cmp\<close>, the contract Rust's \<open>sort_by\<close> asks
  of a comparator. In the locale, the selection loop both functions write out is shown to
  return the earliest best candidate, and \<open>sort_by\<close> (a stable sort) to be a sorted, stable
  permutation; the interpretation \<open>price_time\<close> brings both to the orderbook.
\<close>

record Order =
  o_maker :: address
  o_sell_token :: address
  o_sell_chain_id :: u64
  o_sell_amount :: u128
  o_buy_token :: address
  o_buy_chain_id :: u64
  o_buy_amount :: u128
  o_valid_until :: u64
  o_nonce :: u64
  o_created_at :: u64

definition is_expired :: "Order \<Rightarrow> u64 \<Rightarrow> bool" where
  "is_expired o1 now \<longleftrightarrow> o_valid_until o1 < now"

definition mirrors :: "Order \<Rightarrow> Order \<Rightarrow> bool" where
  "mirrors a b \<longleftrightarrow>
     o_sell_token a = o_buy_token b \<and>
     o_sell_chain_id a = o_buy_chain_id b \<and>
     o_buy_token a = o_sell_token b \<and>
     o_buy_chain_id a = o_sell_chain_id b"

definition crosses :: "Order \<Rightarrow> Order \<Rightarrow> bool" where
  "crosses a b \<longleftrightarrow> o_sell_amount a \<ge> o_buy_amount b \<and> o_sell_amount b \<ge> o_buy_amount a"

definition compatible :: "Order \<Rightarrow> Order \<Rightarrow> u64 \<Rightarrow> bool" where
  "compatible a b now \<longleftrightarrow>
     \<not> is_expired a now \<and> \<not> is_expired b now \<and> mirrors a b \<and> crosses a b"

definition cmp_makers_for_taker :: "Order \<Rightarrow> Order \<Rightarrow> ordering" where
  "cmp_makers_for_taker a b =
     then_with
       (then_with
         (cmp (o_sell_amount b) (o_sell_amount a))
         (cmp (o_created_at a) (o_created_at b)))
       (cmp (o_nonce a) (o_nonce b))"

definition better_for_taker :: "Order \<Rightarrow> Order \<Rightarrow> bool" where
  "better_for_taker cand cur \<longleftrightarrow> cmp_makers_for_taker cand cur = Less"

subsection \<open>The selection loop\<close>

text \<open>
  \<open>best_match_for\<close> and the inner loop of \<open>find_match\<close> run the same loop over an indexed slice:
  skip what is not a candidate, and keep the index of the best candidate so far, replacing it
  only by a strictly better one. \<open>ok\<close> is the candidate test, \<open>i\<close> the index of the first of the
  remaining elements \<open>ms\<close>, and \<open>xs\<close> the whole slice, which the loop indexes by \<open>best\<close>.
\<close>

fun best_loop ::
  "('a \<Rightarrow> 'a \<Rightarrow> bool) \<Rightarrow> (nat \<Rightarrow> 'a \<Rightarrow> bool) \<Rightarrow> 'a list \<Rightarrow> nat \<Rightarrow> 'a list \<Rightarrow> nat option \<Rightarrow> nat option"
where
  "best_loop better ok xs i [] best = best"
| "best_loop better ok xs i (m # ms) best =
     (if \<not> ok i m then best_loop better ok xs (Suc i) ms best
      else best_loop better ok xs (Suc i) ms
        (Some (case best of
                 None \<Rightarrow> i
               | Some b \<Rightarrow> (if better m (xs ! b) then i else b))))"

definition best_match_for :: "Order \<Rightarrow> Order list \<Rightarrow> u64 \<Rightarrow> nat option" where
  "best_match_for taker makers now =
     (if is_expired taker now then None
      else best_loop better_for_taker (\<lambda>_ m. compatible taker m now) makers 0 makers None)"

definition best_for :: "Order list \<Rightarrow> u64 \<Rightarrow> nat \<Rightarrow> Order \<Rightarrow> nat option" where
  "best_for orders now i taker =
     best_loop better_for_taker (\<lambda>j maker. \<not> (i = j \<or> \<not> compatible taker maker now))
       orders 0 orders None"

fun find_match_loop :: "Order list \<Rightarrow> u64 \<Rightarrow> nat \<Rightarrow> Order list \<Rightarrow> (nat \<times> nat) option" where
  "find_match_loop orders now i [] = None"
| "find_match_loop orders now i (taker # rest) =
     (case best_for orders now i taker of
        Some j \<Rightarrow> Some (i, j)
      | None \<Rightarrow> find_match_loop orders now (Suc i) rest)"

definition find_match :: "Order list \<Rightarrow> u64 \<Rightarrow> (nat \<times> nat) option" where
  "find_match orders now = find_match_loop orders now 0 orders"

subsection \<open>Rust's stable \<open>sort_by\<close>\<close>

fun insert_by :: "('a \<Rightarrow> 'a \<Rightarrow> ordering) \<Rightarrow> 'a \<Rightarrow> 'a list \<Rightarrow> 'a list" where
  "insert_by c x [] = [x]"
| "insert_by c x (y # ys) = (if c x y = Greater then y # insert_by c x ys else x # y # ys)"

fun sort_by :: "('a \<Rightarrow> 'a \<Rightarrow> ordering) \<Rightarrow> 'a list \<Rightarrow> 'a list" where
  "sort_by c [] = []"
| "sort_by c (x # xs) = insert_by c x (sort_by c xs)"

lemma mset_insert_by [simp]: "mset (insert_by c x xs) = add_mset x (mset xs)"
  by (induction xs) auto

lemma mset_sort_by [simp]: "mset (sort_by c xs) = mset xs"
  by (induction xs) auto

lemma set_insert_by [simp]: "set (insert_by c x xs) = insert x (set xs)"
  by (induction xs) auto

lemma set_sort_by [simp]: "set (sort_by c xs) = set xs"
  by (induction xs) auto

lemma length_sort_by [simp]: "length (sort_by c xs) = length xs"
  by (metis mset_sort_by size_mset)

subsection \<open>Comparators\<close>

text \<open>
  What a comparator promises: swapping the arguments swaps the answer, and "not greater" is
  transitive. Rust's documentation asks exactly this of the argument of \<open>sort_by\<close>.
\<close>

text \<open>
  \<open>earliest_best c ok xs j\<close>: \<open>j\<close> is a candidate, none beats it, and it beats the
  earlier ones.
\<close>

definition earliest_best ::
  "('a \<Rightarrow> 'a \<Rightarrow> ordering) \<Rightarrow> (nat \<Rightarrow> 'a \<Rightarrow> bool) \<Rightarrow> 'a list \<Rightarrow> nat \<Rightarrow> bool" where
  "earliest_best c ok xs j \<longleftrightarrow>
     j < length xs \<and> ok j (xs ! j) \<and>
     (\<forall>k < length xs. ok k (xs ! k) \<longrightarrow> c (xs ! k) (xs ! j) \<noteq> Less) \<and>
     (\<forall>k < j. ok k (xs ! k) \<longrightarrow> c (xs ! j) (xs ! k) = Less)"

locale total_cmp =
  fixes c :: "'a \<Rightarrow> 'a \<Rightarrow> ordering"
  assumes c_swap: "c a b = Greater \<longleftrightarrow> c b a = Less"
    and c_trans: "c a b \<noteq> Greater \<Longrightarrow> c b d \<noteq> Greater \<Longrightarrow> c a d \<noteq> Greater"
begin

abbreviation less :: "'a \<Rightarrow> 'a \<Rightarrow> bool" where
  "less a b \<equiv> c a b = Less"

lemma c_refl: "c a a = Equal"
  using c_swap [of a a] by (cases "c a a") auto

lemma c_Equal_sym: "c a b = Equal \<longleftrightarrow> c b a = Equal"
  by (metis c_swap ordering.exhaust ordering.distinct(1,3,5))

lemma c_Less_trans: "c a b = Less \<Longrightarrow> c b d \<noteq> Greater \<Longrightarrow> c a d = Less"
  by (metis c_swap c_trans ordering.distinct(3))

lemma c_trans_Less: "c a b \<noteq> Greater \<Longrightarrow> c b d = Less \<Longrightarrow> c a d = Less"
  by (metis c_swap c_trans ordering.distinct(3))

lemma c_Less_Less: "c a b = Less \<Longrightarrow> c b d = Less \<Longrightarrow> c a d = Less"
  by (metis c_Less_trans ordering.distinct(3))

lemma sorted_insert_by:
  "sorted_wrt (\<lambda>x y. c x y \<noteq> Greater) xs \<Longrightarrow>
     sorted_wrt (\<lambda>x y. c x y \<noteq> Greater) (insert_by c x xs)"
proof (induction xs)
  case Nil
  then show ?case by simp
next
  case (Cons y ys)
  then show ?case
    using c_swap [of x y] by (auto dest: c_trans [of x y])
qed

lemma sorted_sort_by: "sorted_wrt (\<lambda>x y. c x y \<noteq> Greater) (sort_by c xs)"
  by (induction xs) (simp_all add: sorted_insert_by)

lemma stable_insert_by:
  "filter (\<lambda>y. c z y = Equal) (insert_by c x xs) =
     (if c z x = Equal then x # filter (\<lambda>y. c z y = Equal) xs
      else filter (\<lambda>y. c z y = Equal) xs)"
proof (induction xs)
  case Nil
  then show ?case by simp
next
  case (Cons y ys)
  have "c z x = Equal \<Longrightarrow> c x y = Greater \<Longrightarrow> c z y \<noteq> Equal"
    by (metis c_Equal_sym c_swap c_trans ordering.distinct(5))
  with Cons show ?case by auto
qed

lemma stable_sort_by: "filter (\<lambda>y. c z y = Equal) (sort_by c xs) = filter (\<lambda>y. c z y = Equal) xs"
  by (induction xs) (simp_all add: stable_insert_by)

text \<open>
  The loop invariant: \<open>best\<close> is the earliest best candidate among the first \<open>i\<close> elements.
\<close>

lemma best_loop_invariant:
  assumes "drop i xs = ms" and "i \<le> length xs"
    and "case best of
           None \<Rightarrow> \<forall>k < i. \<not> ok k (xs ! k)
         | Some b \<Rightarrow> earliest_best c ok (take i xs) b"
  shows "case best_loop less ok xs i ms best of
           None \<Rightarrow> \<forall>k < length xs. \<not> ok k (xs ! k)
         | Some b \<Rightarrow> earliest_best c ok xs b"
  using assms
proof (induction ms arbitrary: i best)
  case Nil
  then show ?case by (auto split: option.splits)
next
  case (Cons m ms)
  have i: "i < length xs"
    using Cons.prems(1) by (metis drop_all linorder_not_le list.distinct(1))
  then have m: "m = xs ! i"
    using Cons.prems(1) by (metis Cons_nth_drop_Suc list.inject)
  have rest: "drop (Suc i) xs = ms"
    using Cons.prems(1) by (metis drop_Suc list.sel(3) tl_drop)
  let ?best = "if \<not> ok i m then best
    else Some (case best of None \<Rightarrow> i | Some b \<Rightarrow> if c m (xs ! b) = Less then i else b)"
  have "case ?best of
      None \<Rightarrow> \<forall>k < Suc i. \<not> ok k (xs ! k)
    | Some b \<Rightarrow> earliest_best c ok (take (Suc i) xs) b"
    using Cons.prems(3) i m
    by (auto simp: earliest_best_def less_Suc_eq c_refl c_swap split: option.splits if_splits
        intro: c_Less_trans c_trans_Less dest: c_Less_Less)
  then have "case best_loop less ok xs (Suc i) ms ?best of
      None \<Rightarrow> \<forall>k < length xs. \<not> ok k (xs ! k)
    | Some b \<Rightarrow> earliest_best c ok xs b"
    using Cons.IH [OF rest] i by simp
  then show ?case by (cases "ok i m") (simp_all only: best_loop.simps if_True if_False simp_thms)
qed

lemma earliest_best_unique:
  "earliest_best c ok xs i \<Longrightarrow> earliest_best c ok xs j \<Longrightarrow> i = j"
  unfolding earliest_best_def by (metis linorder_neqE_nat)

lemma best_loop_eq_Some:
  "best_loop less ok xs 0 xs None = Some j \<longleftrightarrow> earliest_best c ok xs j"
  using best_loop_invariant [where i = 0 and xs = xs and ms = xs and best = None and ok = ok] earliest_best_unique [of ok xs]
  by (auto simp: earliest_best_def split: option.splits)

lemma best_loop_eq_None:
  "best_loop less ok xs 0 xs None = None \<longleftrightarrow> (\<forall>k < length xs. \<not> ok k (xs ! k))"
  using best_loop_invariant [where i = 0 and xs = xs and ms = xs and best = None and ok = ok]
  by (auto simp: earliest_best_def split: option.splits)

end

subsection \<open>Price-time priority\<close>

lemma cmp_makers_iffs:
  "cmp_makers_for_taker a b = Less \<longleftrightarrow>
     o_sell_amount b < o_sell_amount a \<or>
     o_sell_amount b = o_sell_amount a \<and>
       (o_created_at a < o_created_at b \<or>
        o_created_at a = o_created_at b \<and> o_nonce a < o_nonce b)"
  "cmp_makers_for_taker a b = Equal \<longleftrightarrow>
     o_sell_amount b = o_sell_amount a \<and> o_created_at a = o_created_at b \<and>
     o_nonce a = o_nonce b"
  "cmp_makers_for_taker a b = Greater \<longleftrightarrow> cmp_makers_for_taker b a = Less"
  by (auto simp: cmp_makers_for_taker_def)

interpretation price_time: total_cmp cmp_makers_for_taker
  by unfold_locales (auto simp: cmp_makers_iffs)

lemma better_for_taker_eq: "better_for_taker = price_time.less"
  by (simp add: fun_eq_iff better_for_taker_def)

text \<open>Comparing positions through the orders they hold, as \<open>matches_for\<close> does.\<close>

interpretation positions: total_cmp "\<lambda>x y. cmp_makers_for_taker (orders ! x) (orders ! y)"
  for orders
  by unfold_locales (auto simp: cmp_makers_iffs)

lemma compatible_commute: "compatible a b now \<longleftrightarrow> compatible b a now"
  by (auto simp: compatible_def mirrors_def crosses_def)

lemma find_match_loop_Some:
  "find_match_loop orders now i rest = Some (p, q) \<longleftrightarrow>
     (\<exists>n < length rest. p = i + n \<and> best_for orders now p (rest ! n) = Some q \<and>
        (\<forall>m < n. best_for orders now (i + m) (rest ! m) = None))"
proof (induction rest arbitrary: i)
  case Nil
  then show ?case by simp
next
  case (Cons t ts)
  show ?case
  proof (cases "best_for orders now i t")
    case None
    then show ?thesis
      by (auto simp: Cons.IH Ex_less_Suc2 All_less_Suc2)
  next
    case (Some j)
    then show ?thesis by (auto simp: Ex_less_Suc2 All_less_Suc2)
  qed
qed

lemma find_match_loop_None:
  "find_match_loop orders now i rest = None \<longleftrightarrow>
     (\<forall>n < length rest. best_for orders now (i + n) (rest ! n) = None)"
  by (induction rest arbitrary: i) (auto simp: All_less_Suc2 split: option.split)

text \<open>
  \<open>best_match_for\<close> is price-time priority: it returns index \<open>j\<close> exactly when order \<open>j\<close> is
  compatible with the taker, no compatible maker is strictly better (larger amount given, then
  older, then lower nonce), and every compatible maker before it is strictly worse.
\<close>

theorem best_match_for_price_time:
  "best_match_for taker makers now = Some j \<longleftrightarrow>
     earliest_best cmp_makers_for_taker (\<lambda>_ m. compatible taker m now) makers j"
  by (auto simp: best_match_for_def better_for_taker_eq price_time.best_loop_eq_Some earliest_best_def compatible_def)

lemma find_match_iffs:
  "(find_match orders now = Some (i, j) \<longleftrightarrow>
      i < length orders \<and>
      earliest_best cmp_makers_for_taker
        (\<lambda>k m. k \<noteq> i \<and> compatible (orders ! i) m now) orders j \<and>
      (\<forall>p < i. \<forall>k < length orders. k \<noteq> p \<longrightarrow> \<not> compatible (orders ! p) (orders ! k) now)) \<and>
   (find_match orders now = None \<longleftrightarrow>
      (\<forall>p < length orders. \<forall>k < length orders. k \<noteq> p \<longrightarrow>
         \<not> compatible (orders ! p) (orders ! k) now))"
proof -
  have some: "best_for orders now p t = Some q \<longleftrightarrow>
      earliest_best cmp_makers_for_taker (\<lambda>k m. k \<noteq> p \<and> compatible t m now) orders q"
    for p q t
    by (auto simp: best_for_def better_for_taker_eq price_time.best_loop_eq_Some earliest_best_def)
  have none: "best_for orders now p t = None \<longleftrightarrow>
      (\<forall>k < length orders. k \<noteq> p \<longrightarrow> \<not> compatible t (orders ! k) now)" for p t
    by (auto simp: best_for_def better_for_taker_eq price_time.best_loop_eq_None)
  show ?thesis
    by (auto simp: find_match_def find_match_loop_Some find_match_loop_None some none)
qed

text \<open>
  C27. \<open>find_match\<close> is deterministic price-time matching over the whole book: it returns the
  first order that has any other compatible order, paired with the earliest best such order;
  it returns nothing exactly when no two distinct orders are compatible.
\<close>

theorem find_match_spec:
  "(find_match orders now = Some (i, j) \<longleftrightarrow>
      i < length orders \<and>
      earliest_best cmp_makers_for_taker
        (\<lambda>k m. k \<noteq> i \<and> compatible (orders ! i) m now) orders j \<and>
      (\<forall>p < i. \<forall>k < length orders. k \<noteq> p \<longrightarrow> \<not> compatible (orders ! p) (orders ! k) now)) \<and>
   (find_match orders now = None \<longleftrightarrow>
      (\<forall>p < length orders. \<forall>k < length orders. k \<noteq> p \<longrightarrow>
         \<not> compatible (orders ! p) (orders ! k) now))"
  by (rule find_match_iffs)

text \<open>
  A match that \<open>find_match\<close> reports is a real trade: two different orders, both still valid,
  that mirror each other's tokens and chains, and in which each side gives at least what the
  other asked for.
\<close>

theorem find_match_sound:
  assumes "find_match orders now = Some (i, j)"
  shows "i < length orders \<and> j < length orders \<and> i \<noteq> j \<and>
    \<not> is_expired (orders ! i) now \<and> \<not> is_expired (orders ! j) now \<and>
    mirrors (orders ! i) (orders ! j) \<and>
    o_buy_amount (orders ! i) \<le> o_sell_amount (orders ! j) \<and>
    o_buy_amount (orders ! j) \<le> o_sell_amount (orders ! i)"
  using assms find_match_iffs [of orders now i j]
  by (auto simp: earliest_best_def compatible_def crosses_def)

definition sell_order_example :: Order where
  "sell_order_example =
     \<lparr>o_maker = fill 0xAA, o_sell_token = fill 0x11, o_sell_chain_id = 1, o_sell_amount = 100,
      o_buy_token = fill 0x22, o_buy_chain_id = 10, o_buy_amount = 200,
      o_valid_until = 1000, o_nonce = 0, o_created_at = 1\<rparr>"

definition mirror_order_example :: "u128 \<Rightarrow> u64 \<Rightarrow> u64 \<Rightarrow> Order" where
  "mirror_order_example sell created nonce =
     \<lparr>o_maker = fill 0xBB, o_sell_token = fill 0x22, o_sell_chain_id = 10, o_sell_amount = sell,
      o_buy_token = fill 0x11, o_buy_chain_id = 1, o_buy_amount = 100,
      o_valid_until = 1000, o_nonce = nonce, o_created_at = created\<rparr>"

lemmas matching_eval =
  find_match_def best_for_def better_for_taker_def compatible_def mirrors_def crosses_def is_expired_def
  cmp_makers_for_taker_def then_with_def cmp_def sell_order_example_def mirror_order_example_def

lemma find_match_example:
  "find_match [sell_order_example, mirror_order_example 200 5 1, mirror_order_example 300 9 2] 500 =
     Some (0, 2)"
  by (simp add: matching_eval)

lemma find_match_spec_witness:
  "earliest_best cmp_makers_for_taker
     (\<lambda>k m. k \<noteq> 0 \<and> compatible sell_order_example m 500)
     [sell_order_example, mirror_order_example 200 5 1, mirror_order_example 300 9 2] 2"
  using find_match_spec [where i = 0 and j = 2 and now = 500 and
      orders = "[sell_order_example, mirror_order_example 200 5 1, mirror_order_example 300 9 2]"]
    find_match_example
  by simp

lemma find_match_sound_witness:
  "mirrors sell_order_example (mirror_order_example 300 9 2) \<and>
   o_buy_amount sell_order_example \<le> o_sell_amount (mirror_order_example 300 9 2)"
  using find_match_sound [OF find_match_example] by simp

end
