(* ===== verification/Kael_Eip712.thy ===== *)
theory Kael_Eip712
  imports Kael_Order
begin

section \<open>EIP-712 hashing, verification and signing of orders\<close>

text \<open>
  Models \<open>orderbook/src/eip712.rs\<close>. Keccak-256 (crate \<open>sha3\<close>) and secp256k1 (crate \<open>k256\<close>) are not
  part of the repository: the hash is the parameter \<open>kc\<close> and the curve operations the record
  \<open>k256\<close>, arguments of every definition that uses them. What the file does itself, the ABI
  encoding, the order of the checks, the malleability test and the layout of a signature, is
  defined.

  The lemmas show that the encoding has a fixed length and is injective on the signed fields
  (so two orders with the same digest have the same signed fields or exhibit a collision of the
  hash), characterise the accepted signatures, give the error of every failing check, and show
  that what \<open>sign\<close> produces is accepted under the documented behaviour of the signing library.
\<close>

datatype VerifyError =
    BadSignatureLength
  | MalleableS
  | InvalidV
  | BadSignature
  | ZeroSigner
  | SignerNotMaker
  | OrderExpired

record ('sig, 'rid, 'vk, 'sk) k256 =
  sig_from_slice :: "u8 list \<Rightarrow> 'sig option"
  recid_from_byte :: "u8 \<Rightarrow> 'rid option"
  recover_from_prehash :: "b32 \<Rightarrow> 'sig \<Rightarrow> 'rid \<Rightarrow> 'vk option"
  to_encoded_point :: "'vk \<Rightarrow> u8 list"
  sk_from_slice :: "b32 \<Rightarrow> 'sk option"
  verifying_key :: "'sk \<Rightarrow> 'vk"
  sign_prehash_recoverable :: "'sk \<Rightarrow> b32 \<Rightarrow> ('sig \<times> 'rid) option"
  sig_to_bytes :: "'sig \<Rightarrow> u8 list"
  recid_to_byte :: "'rid \<Rightarrow> u8"

text \<open>\<open>n/2\<close> for secp256k1, big-endian.\<close>

definition SECP256K1_HALF_N :: "u8 list" where
  "SECP256K1_HALF_N =
     [0x7F, 0xFF, 0xFF, 0xFF, 0xFF, 0xFF, 0xFF, 0xFF, 0xFF, 0xFF, 0xFF, 0xFF, 0xFF, 0xFF, 0xFF, 0xFF,
      0x5D, 0x57, 0x6E, 0x73, 0x57, 0xA4, 0x50, 0x1D, 0xDF, 0xE9, 0x2F, 0x46, 0x68, 0x1B, 0x20, 0xA0]"

definition ascii :: "string \<Rightarrow> u8 list" where
  "ascii s = map of_char s"

definition enc_addr :: "address \<Rightarrow> u8 list" where
  "enc_addr a = replicate 12 0 @ bytes_of a"

definition enc_u128 :: "u128 \<Rightarrow> u8 list" where
  "enc_u128 v = replicate 16 0 @ to_be_bytes v"

definition enc_u64 :: "u64 \<Rightarrow> u8 list" where
  "enc_u64 v = replicate 24 0 @ to_be_bytes v"

definition domain_typehash :: "hash_fn \<Rightarrow> b32" where
  "domain_typehash kc = kc (ascii ''EIP712Domain(string name,string version)'')"

definition order_typehash :: "hash_fn \<Rightarrow> b32" where
  "order_typehash kc = kc (ascii
     ''Order(address maker,address sellToken,uint256 sellChainId,uint256 sellAmount,address buyToken,uint256 buyChainId,uint256 buyAmount,uint256 validUntil,uint256 nonce)'')"

definition domain_separator :: "hash_fn \<Rightarrow> b32" where
  "domain_separator kc =
     kc (bytes_of (domain_typehash kc) @ bytes_of (kc (ascii ''Kael'')) @
         bytes_of (kc (ascii ''1'')))"

text \<open>The buffer \<open>hash_struct\<close> fills, field by field.\<close>

definition encode_order :: "hash_fn \<Rightarrow> Order \<Rightarrow> u8 list" where
  "encode_order kc o1 =
     bytes_of (order_typehash kc) @
     enc_addr (o_maker o1) @
     enc_addr (o_sell_token o1) @
     enc_u64 (o_sell_chain_id o1) @
     enc_u128 (o_sell_amount o1) @
     enc_addr (o_buy_token o1) @
     enc_u64 (o_buy_chain_id o1) @
     enc_u128 (o_buy_amount o1) @
     enc_u64 (o_valid_until o1) @
     enc_u64 (o_nonce o1)"

definition hash_struct :: "hash_fn \<Rightarrow> Order \<Rightarrow> b32" where
  "hash_struct kc o1 = kc (encode_order kc o1)"

definition encode_digest :: "hash_fn \<Rightarrow> Order \<Rightarrow> u8 list" where
  "encode_digest kc o1 =
     [0x19, 0x01] @ bytes_of (domain_separator kc) @ bytes_of (hash_struct kc o1)"

definition digest :: "hash_fn \<Rightarrow> Order \<Rightarrow> b32" where
  "digest kc o1 = kc (encode_digest kc o1)"

definition address_of :: "hash_fn \<Rightarrow> ('sig, 'rid, 'vk, 'sk) k256 \<Rightarrow> 'vk \<Rightarrow> address" where
  "address_of kc k vk =
     (let hash = kc (drop 1 (to_encoded_point k vk)) in pad_copy (drop 12 (bytes_of hash)))"

definition is_high_s :: "u8 list \<Rightarrow> bool" where
  "is_high_s s \<longleftrightarrow> s > SECP256K1_HALF_N"

definition eip712_verify ::
  "hash_fn \<Rightarrow> ('sig, 'rid, 'vk, 'sk) k256 \<Rightarrow> Order \<Rightarrow> u8 list \<Rightarrow> u64 \<Rightarrow> VerifyError + b32"
where
  "eip712_verify kc k o1 signature now =
     (if length signature \<noteq> 65 then Inl BadSignatureLength
      else
        let s = take 32 (drop 32 signature);
            v = signature ! 64
        in
          if is_high_s s then Inl MalleableS
          else if v \<noteq> 27 \<and> v \<noteq> 28 then Inl InvalidV
          else
            and_then (ok_or BadSignature (sig_from_slice k (take 64 signature))) (\<lambda>sg.
            and_then (ok_or InvalidV (recid_from_byte k (v - 27))) (\<lambda>recid.
            let dig = digest kc o1 in
            and_then (ok_or BadSignature (recover_from_prehash k dig sg recid)) (\<lambda>vk.
            let signer = address_of kc k vk in
              if signer = 0 then Inl ZeroSigner
              else if signer \<noteq> o_maker o1 then Inl SignerNotMaker
              else if now > o_valid_until o1 then Inl OrderExpired
              else Inr dig))))"

text \<open>\<open>expect\<close> panics on an invalid key: \<open>None\<close>.\<close>

definition address_from_private_key ::
  "hash_fn \<Rightarrow> ('sig, 'rid, 'vk, 'sk) k256 \<Rightarrow> b32 \<Rightarrow> address option" where
  "address_from_private_key kc k private_key =
     (case sk_from_slice k private_key of
        None \<Rightarrow> None
      | Some sk \<Rightarrow> Some (address_of kc k (verifying_key k sk)))"

definition eip712_sign ::
  "hash_fn \<Rightarrow> ('sig, 'rid, 'vk, 'sk) k256 \<Rightarrow> Order \<Rightarrow> b32 \<Rightarrow> u8 list option" where
  "eip712_sign kc k o1 private_key =
     (case sk_from_slice k private_key of
        None \<Rightarrow> None
      | Some sk \<Rightarrow>
          (case sign_prehash_recoverable k sk (digest kc o1) of
             None \<Rightarrow> None
           | Some (sg, recid) \<Rightarrow> Some (sig_to_bytes k sg @ [27 + recid_to_byte k recid])))"

subsection \<open>The encoding\<close>

lemma length_enc [simp]:
  "length (enc_addr a) = 32" "length (enc_u128 v) = 32" "length (enc_u64 n) = 32"
  by (simp_all add: enc_addr_def enc_u128_def enc_u64_def)

lemma enc_inject [simp]:
  "enc_addr a = enc_addr b \<longleftrightarrow> a = b"
  "enc_u128 v = enc_u128 w \<longleftrightarrow> v = w"
  "enc_u64 m = enc_u64 n \<longleftrightarrow> m = n"
  by (simp_all add: enc_addr_def enc_u128_def enc_u64_def to_be_bytes_inject)

lemma length_encode_order: "length (encode_order kc o1) = 320"
  by (simp add: encode_order_def)

text \<open>The fields the signature covers: all of them but the arrival stamp.\<close>

definition same_signed_fields :: "Order \<Rightarrow> Order \<Rightarrow> bool" where
  "same_signed_fields a b \<longleftrightarrow> a\<lparr>o_created_at := 0\<rparr> = b\<lparr>o_created_at := 0\<rparr>"

lemma same_signed_fields_iff:
  "same_signed_fields a b \<longleftrightarrow>
     o_maker a = o_maker b \<and> o_sell_token a = o_sell_token b \<and>
     o_sell_chain_id a = o_sell_chain_id b \<and> o_sell_amount a = o_sell_amount b \<and>
     o_buy_token a = o_buy_token b \<and> o_buy_chain_id a = o_buy_chain_id b \<and>
     o_buy_amount a = o_buy_amount b \<and> o_valid_until a = o_valid_until b \<and>
     o_nonce a = o_nonce b"
  by (cases a; cases b) (auto simp: same_signed_fields_def)

lemma encode_order_inject:
  "encode_order kc a = encode_order kc b \<longleftrightarrow> same_signed_fields a b"
  by (auto simp: encode_order_def same_signed_fields_iff)

lemma digest_created_at [simp]: "digest kc (a\<lparr>o_created_at := t\<rparr>) = digest kc a"
  by (simp add: digest_def encode_digest_def hash_struct_def encode_order_def)

lemma same_signed_fields_digest: "same_signed_fields a b \<Longrightarrow> digest kc a = digest kc b"
  by (simp add: digest_def encode_digest_def hash_struct_def flip: encode_order_inject [of kc])

definition collision :: "hash_fn \<Rightarrow> u8 list \<Rightarrow> u8 list \<Rightarrow> bool" where
  "collision kc x y \<longleftrightarrow> x \<noteq> y \<and> kc x = kc y"

lemma digest_eq_iff:
  "digest kc a = digest kc b \<longleftrightarrow>
     same_signed_fields a b \<or>
     collision kc (encode_order kc a) (encode_order kc b) \<or>
     collision kc (encode_digest kc a) (encode_digest kc b)"
proof -
  have "encode_digest kc a = encode_digest kc b \<longleftrightarrow> hash_struct kc a = hash_struct kc b"
    by (simp add: encode_digest_def)
  then show ?thesis
    by (auto simp: digest_def hash_struct_def collision_def simp flip: encode_order_inject [of kc])
qed

text \<open>
  C32. The digest identifies the signed content. For every hash function, two orders have the
  same digest exactly when their signed fields agree or the two encodings the code builds are
  an explicit collision of the hash; the arrival stamp \<open>created_at\<close> never matters.
\<close>

theorem digest_identifies_order:
  "digest kc a = digest kc b \<longleftrightarrow>
     same_signed_fields a b \<or>
     collision kc (encode_order kc a) (encode_order kc b) \<or>
     collision kc (encode_digest kc a) (encode_digest kc b)"
  by (rule digest_eq_iff)

subsection \<open>Acceptance\<close>

lemma verify_Inr:
  "eip712_verify kc k o1 signature now = Inr h \<longleftrightarrow>
     h = digest kc o1 \<and>
     length signature = 65 \<and>
     \<not> is_high_s (take 32 (drop 32 signature)) \<and>
     (signature ! 64 = 27 \<or> signature ! 64 = 28) \<and>
     (\<exists>sg recid vk.
        sig_from_slice k (take 64 signature) = Some sg \<and>
        recid_from_byte k (signature ! 64 - 27) = Some recid \<and>
        recover_from_prehash k (digest kc o1) sg recid = Some vk \<and>
        address_of kc k vk = o_maker o1) \<and>
     o_maker o1 \<noteq> 0 \<and>
     now \<le> o_valid_until o1"
  by (auto simp: eip712_verify_def Let_def and_then_eq_Inr not_less)

text \<open>
  C31. The accepted signatures. \<open>verify\<close> returns \<open>Ok(h)\<close> exactly when \<open>h\<close> is the order's digest,
  the signature has 65 bytes with a low \<open>s\<close> and \<open>v\<close> 27 or 28, the key recovered from it over
  this digest has the maker's non-zero address, and the order has not expired at \<open>now\<close>.
\<close>

theorem verify_accepts_iff:
  "eip712_verify kc k o1 signature now = Inr h \<longleftrightarrow>
     h = digest kc o1 \<and>
     length signature = 65 \<and>
     \<not> is_high_s (take 32 (drop 32 signature)) \<and>
     (signature ! 64 = 27 \<or> signature ! 64 = 28) \<and>
     (\<exists>sg recid vk.
        sig_from_slice k (take 64 signature) = Some sg \<and>
        recid_from_byte k (signature ! 64 - 27) = Some recid \<and>
        recover_from_prehash k (digest kc o1) sg recid = Some vk \<and>
        address_of kc k vk = o_maker o1) \<and>
     o_maker o1 \<noteq> 0 \<and>
     now \<le> o_valid_until o1"
  by (rule verify_Inr)

lemma verify_digest: "eip712_verify kc k o1 signature now = Inr h \<Longrightarrow> h = digest kc o1"
  by (simp add: verify_Inr)

lemma verify_not_expired:
  "eip712_verify kc k o1 signature now = Inr h \<Longrightarrow> \<not> is_expired o1 now"
  by (simp add: verify_Inr is_expired_def not_less)

lemma verify_error_length:
  "length signature \<noteq> 65 \<Longrightarrow> eip712_verify kc k o1 signature now = Inl BadSignatureLength"
  by (simp add: eip712_verify_def)

text \<open>
  Malleability. Whatever the curve library answers, a signature of the right length is
  rejected as malleable exactly when its \<open>s\<close> half exceeds \<open>n/2\<close>, so of a signature \<open>(r, s)\<close> and
  its twin \<open>(r, n - s)\<close> at most one can be accepted.
\<close>

theorem malleable_rejected:
  assumes "length signature = 65"
  shows "eip712_verify kc k o1 signature now = Inl MalleableS \<longleftrightarrow>
    SECP256K1_HALF_N < take 32 (drop 32 signature)"
  using assms
  by (auto simp: eip712_verify_def is_high_s_def Let_def and_then_def ok_or_def
      split: option.splits)

subsection \<open>Signing\<close>

text \<open>
  What \<open>sign\<close> relies on in \<open>k256\<close>, for one key and one digest: signing succeeds, the signature
  survives its 64-byte form, \<open>s\<close> is normalised to the low half, the recovery id is 0 or 1 and
  survives its byte form, and recovery returns the signer's key.
\<close>

definition signing_contract ::
  "('sig, 'rid, 'vk, 'sk) k256 \<Rightarrow> 'sk \<Rightarrow> b32 \<Rightarrow> bool" where
  "signing_contract k sk d \<longleftrightarrow>
     (case sign_prehash_recoverable k sk d of
        None \<Rightarrow> False
      | Some (sg, recid) \<Rightarrow>
          length (sig_to_bytes k sg) = 64 \<and>
          sig_from_slice k (sig_to_bytes k sg) = Some sg \<and>
          \<not> is_high_s (drop 32 (sig_to_bytes k sg)) \<and>
          (recid_to_byte k recid = 0 \<or> recid_to_byte k recid = 1) \<and>
          recid_from_byte k (recid_to_byte k recid) = Some recid \<and>
          recover_from_prehash k d sg recid = Some (verifying_key k sk))"

lemma sign_then_verify:
  assumes key: "sk_from_slice k pk = Some sk"
    and contract: "signing_contract k sk (digest kc o1)"
    and maker: "address_from_private_key kc k pk = Some (o_maker o1)" "o_maker o1 \<noteq> 0"
    and valid: "now \<le> o_valid_until o1"
  shows "\<exists>signature. eip712_sign kc k o1 pk = Some signature \<and>
    eip712_verify kc k o1 signature now = Inr (digest kc o1)"
proof -
  obtain sg recid where sign: "sign_prehash_recoverable k sk (digest kc o1) = Some (sg, recid)"
    using contract by (auto simp: signing_contract_def split: option.splits)
  let ?signature = "sig_to_bytes k sg @ [27 + recid_to_byte k recid]"
  have "eip712_sign kc k o1 pk = Some ?signature"
    by (simp add: eip712_sign_def key sign)
  moreover have "eip712_verify kc k o1 ?signature now = Inr (digest kc o1)"
    using contract key maker valid
    by (auto simp: verify_Inr signing_contract_def sign nth_append
        address_from_private_key_def)
  ultimately show ?thesis by blast
qed

text \<open>
  C33. Sign then verify. If the private key is valid, the library keeps its contract for it,
  the order names the key's non-zero address as maker and has not expired, then the 65 bytes
  \<open>sign\<close> returns are accepted by \<open>verify\<close> and yield the order's digest.
\<close>

theorem sign_verify_roundtrip:
  assumes key: "sk_from_slice k pk = Some sk"
    and contract: "signing_contract k sk (digest kc o1)"
    and maker: "address_from_private_key kc k pk = Some (o_maker o1)" "o_maker o1 \<noteq> 0"
    and valid: "now \<le> o_valid_until o1"
  shows "\<exists>signature. eip712_sign kc k o1 pk = Some signature \<and>
    eip712_verify kc k o1 signature now = Inr (digest kc o1)"
  using assms by (rule sign_then_verify)

subsection \<open>A concrete library, for the witnesses\<close>

text \<open>
  With \<open>toy_hash\<close>, a signature scheme whose signature is the key itself: not secure, but a model
  of the parameters in which everything computes.
\<close>

definition toy_k256 :: "(u8 list, u8, b32, b32) k256" where
  "toy_k256 =
     \<lparr>sig_from_slice = Some,
      recid_from_byte = Some,
      recover_from_prehash = (\<lambda>d sg rid. Some (pad_copy sg)),
      to_encoded_point = (\<lambda>vk. 4 # bytes_of vk @ replicate 32 0),
      sk_from_slice = Some,
      verifying_key = (\<lambda>sk. sk),
      sign_prehash_recoverable = (\<lambda>sk d. Some (bytes_of sk @ replicate 32 0, 0)),
      sig_to_bytes = (\<lambda>sg. sg),
      recid_to_byte = (\<lambda>r. r)\<rparr>"

lemma toy_address_of: "address_of toy_hash toy_k256 (fill b) = fill b"
proof -
  have "bytes_of (address_of toy_hash toy_k256 (fill b)) = bytes_of (fill b :: address)"
    by (simp add: address_of_def toy_hash_def toy_k256_def bytes_of_pad_copy_take bytes_of_fill
        take_replicate)
  then show ?thesis by simp
qed

lemma low_s_zeros: "\<not> is_high_s (replicate 32 0)"
proof -
  have "replicate 32 (0 :: u8) = 0 # replicate 31 0"
    by (simp flip: replicate_Suc)
  then show ?thesis by (simp add: is_high_s_def SECP256K1_HALF_N_def)
qed

lemma malleable_rejected_witness:
  "eip712_verify toy_hash toy_k256 sell_order_example (replicate 65 0xFF) 0 = Inl MalleableS"
proof -
  have "replicate 32 (0xFF :: u8) = 0xFF # replicate 31 0xFF"
    by (simp flip: replicate_Suc)
  then have "SECP256K1_HALF_N < take 32 (drop 32 (replicate 65 (0xFF :: u8)))"
    by (simp add: SECP256K1_HALF_N_def)
  then show ?thesis
    using malleable_rejected [of "replicate 65 0xFF"] by simp
qed

lemma toy_key:
  "sk_from_slice toy_k256 (fill b) = Some (fill b)"
  "address_from_private_key toy_hash toy_k256 (fill b) = Some (fill b)"
  using toy_address_of [of b] by (simp_all add: address_from_private_key_def toy_k256_def)

lemma example_key:
  "sk_from_slice toy_k256 (fill 0xAA) = Some (fill 0xAA)"
  "address_from_private_key toy_hash toy_k256 (fill 0xAA) = Some (o_maker sell_order_example)"
  by (simp_all add: toy_key sell_order_example_def)

lemma example_contract: "signing_contract toy_k256 (fill b) d"
proof -
  have "pad_copy (bytes_of (fill b :: b32) @ ys) = (fill b :: b32)" for ys
    by (simp flip: bytes_of_inject add: bytes_of_pad_copy_take)
  then show ?thesis
    using low_s_zeros by (simp add: signing_contract_def toy_k256_def)
qed

lemma example_signature:
  "\<exists>signature. eip712_verify toy_hash toy_k256 sell_order_example signature 500 =
     Inr (digest toy_hash sell_order_example)"
  using sign_then_verify [OF example_key(1) example_contract example_key(2), where now = 500]
  by (auto simp: sell_order_example_def)

lemma sign_verify_roundtrip_witness:
  "\<exists>signature. eip712_sign toy_hash toy_k256 sell_order_example (fill 0xAA) = Some signature \<and>
     eip712_verify toy_hash toy_k256 sell_order_example signature 500 =
       Inr (digest toy_hash sell_order_example)"
  by (rule sign_verify_roundtrip [OF example_key(1) example_contract example_key(2)])
    (simp_all add: sell_order_example_def)

end
