(* ===== verification/Kael_Book.thy ===== *)
theory Kael_Book
  imports Kael_Eip712
begin

section \<open>The in-memory orderbook\<close>

text \<open>
  Models \<open>orderbook/src/book.rs\<close>: the book's three fields, verified ingestion (\<open>submit\<close>) and the
  served matches (\<open>matches_for\<close>). The trait \<open>SignatureVerifier\<close> is the argument \<open>verify\<close> of
  the operations; what the book needs of it is the locale \<open>signature_verifier\<close>, interpreted on
  the EIP-712 verifier.

  The lemmas give the book's invariant (parallel vectors, hashes are the digests of the orders,
  no digest twice, the seen set is the set of hashes), the outcome of every submission, and the
  content and order of the served matches, whose first entry is what \<open>find_match\<close> picks.
\<close>

datatype SubmitError = Verify VerifyError | Duplicate

record MatchPair =
  taker_hash :: b32
  maker_hash :: b32

record Book =
  b_orders :: "Order list"
  b_hashes :: "b32 list"
  b_seen :: "b32 set"

definition book_new :: Book where
  "book_new = \<lparr>b_orders = [], b_hashes = [], b_seen = {}\<rparr>"

definition book_len :: "Book \<Rightarrow> nat" where
  "book_len b = length (b_orders b)"

definition book_is_empty :: "Book \<Rightarrow> bool" where
  "book_is_empty b \<longleftrightarrow> b_orders b = []"

type_synonym verifier = "Order \<Rightarrow> u8 list \<Rightarrow> u64 \<Rightarrow> VerifyError + b32"

definition submit ::
  "verifier \<Rightarrow> Order \<Rightarrow> u8 list \<Rightarrow> u64 \<Rightarrow> (Book, SubmitError, b32) eff" where
  "submit verify o1 signature now =
     bindE (of_result (map_err Verify (verify o1 signature now))) (\<lambda>h.
     bindE (gets (\<lambda>b. h \<in> b_seen b)) (\<lambda>dup.
     if dup then throw Duplicate
     else
       thenE (modify (\<lambda>b. b\<lparr>b_seen := insert h (b_seen b)\<rparr>))
      (thenE (modify (\<lambda>b. b\<lparr>b_orders := b_orders b @ [o1]\<rparr>))
      (thenE (modify (\<lambda>b. b\<lparr>b_hashes := b_hashes b @ [h]\<rparr>))
      (ret h)))))"

definition candidates :: "Order list \<Rightarrow> u64 \<Rightarrow> nat \<Rightarrow> Order \<Rightarrow> nat list" where
  "candidates orders now i taker =
     sort_by (\<lambda>x y. cmp_makers_for_taker (orders ! x) (orders ! y))
       (filter (\<lambda>j. j \<noteq> i \<and> compatible taker (orders ! j) now) [0..<length orders])"

fun matches_loop :: "Book \<Rightarrow> address \<Rightarrow> u64 \<Rightarrow> nat \<Rightarrow> Order list \<Rightarrow> MatchPair list" where
  "matches_loop b maker now i [] = []"
| "matches_loop b maker now i (taker # rest) =
     (if o_maker taker \<noteq> maker then matches_loop b maker now (Suc i) rest
      else map (\<lambda>j. \<lparr>taker_hash = b_hashes b ! i, maker_hash = b_hashes b ! j\<rparr>)
             (candidates (b_orders b) now i taker) @
           matches_loop b maker now (Suc i) rest)"

definition matches_for :: "Book \<Rightarrow> address \<Rightarrow> u64 \<Rightarrow> MatchPair list" where
  "matches_for b maker now = matches_loop b maker now 0 (b_orders b)"

text \<open>A sequence of submissions, failed ones included.\<close>

fun submit_all :: "verifier \<Rightarrow> (Order \<times> u8 list \<times> u64) list \<Rightarrow> Book \<Rightarrow> Book" where
  "submit_all verify [] b = b"
| "submit_all verify ((o1, sg, now) # reqs) b =
     submit_all verify reqs (snd (submit verify o1 sg now b))"

lemma submit_eq:
  "submit verify o1 sg now b =
     (case verify o1 sg now of
        Inl e \<Rightarrow> (Inl (Verify e), b)
      | Inr h \<Rightarrow>
          if h \<in> b_seen b then (Inl Duplicate, b)
          else (Inr h, \<lparr>b_orders = b_orders b @ [o1], b_hashes = b_hashes b @ [h],
                        b_seen = insert h (b_seen b)\<rparr>))"
  by (simp add: submit_def eff_simps split: sum.split)

subsection \<open>The contract of a verifier\<close>

definition book_inv :: "(Order \<Rightarrow> b32) \<Rightarrow> Book \<Rightarrow> bool" where
  "book_inv dig b \<longleftrightarrow>
     b_hashes b = map dig (b_orders b) \<and> distinct (b_hashes b) \<and> b_seen b = set (b_hashes b)"

lemma book_inv_new: "book_inv dig book_new"
  by (simp add: book_inv_def book_new_def)

locale signature_verifier =
  fixes verify :: verifier
    and dig :: "Order \<Rightarrow> b32"
  assumes verify_dig: "verify o1 sg now = Inr h \<Longrightarrow> h = dig o1"
    and verify_live: "verify o1 sg now = Inr h \<Longrightarrow> \<not> is_expired o1 now"
begin

lemma submit_inv: "book_inv dig b \<Longrightarrow> book_inv dig (snd (submit verify o1 sg now b))"
  by (auto simp: submit_eq book_inv_def dest: verify_dig split: sum.split)

lemma submit_all_inv: "book_inv dig b \<Longrightarrow> book_inv dig (submit_all verify reqs b)"
proof (induction reqs arbitrary: b)
  case Nil
  then show ?case by simp
next
  case (Cons req reqs)
  then show ?case by (cases req) (simp add: submit_inv)
qed

lemma submit_member:
  "o2 \<in> set (b_orders (snd (submit verify o1 sg now b))) \<Longrightarrow>
     o2 \<in> set (b_orders b) \<or> o2 = o1 \<and> verify o1 sg now = Inr (dig o1)"
  by (auto simp: submit_eq dest: verify_dig split: sum.splits if_splits)

lemma submit_seen_mono: "b_seen b \<subseteq> b_seen (snd (submit verify o1 sg now b))"
  by (auto simp: submit_eq split: sum.split)

lemma submit_all_seen_mono: "b_seen b \<subseteq> b_seen (submit_all verify reqs b)"
proof (induction reqs arbitrary: b)
  case Nil
  then show ?case by simp
next
  case (Cons req reqs)
  obtain o1 sg now where req: "req = (o1, sg, now)" by (cases req)
  show ?case
    using submit_seen_mono [of b o1 sg now] Cons.IH [of "snd (submit verify o1 sg now b)"]
    by (simp add: req)
qed

lemma submit_seen_rejects:
  "dig o1 \<in> b_seen b \<Longrightarrow> \<exists>e. submit verify o1 sg now b = (Inl e, b)"
  by (auto simp: submit_eq dest: verify_dig split: sum.split)

lemma submit_seen: "submit verify o1 sg now b = (Inr h, b1) \<Longrightarrow> h = dig o1 \<and> dig o1 \<in> b_seen b1"
  by (auto simp: submit_eq dest!: verify_dig split: sum.splits if_splits)

lemma submit_no_replay:
  assumes "submit verify o1 sg now b = (Inr h, b1)" and "dig o2 = dig o1"
  shows "\<exists>e. submit verify o2 sg2 now2 (submit_all verify reqs b1) =
    (Inl e, submit_all verify reqs b1)"
proof (rule submit_seen_rejects)
  show "dig o2 \<in> b_seen (submit_all verify reqs b1)"
    using submit_seen [OF assms(1)] assms(2) submit_all_seen_mono [of b1 reqs] by auto
qed

lemma submit_all_member:
  "o2 \<in> set (b_orders (submit_all verify reqs b)) \<Longrightarrow>
     o2 \<in> set (b_orders b) \<or>
     (\<exists>sg now. (o2, sg, now) \<in> set reqs \<and> verify o2 sg now = Inr (dig o2))"
proof (induction reqs arbitrary: b)
  case Nil
  then show ?case by simp
next
  case (Cons req reqs)
  obtain o1 sg now where req: "req = (o1, sg, now)" by (cases req)
  have "o2 \<in> set (b_orders (submit_all verify reqs (snd (submit verify o1 sg now b))))"
    using Cons.prems by (simp add: req)
  from Cons.IH [OF this] show ?case
    using submit_member [of o2 o1 sg now b] by (auto simp: req)
qed

end

interpretation eip712: signature_verifier "eip712_verify kc k" "digest kc" for kc k
  by unfold_locales (rule verify_digest, assumption, rule verify_not_expired)

subsection \<open>What is served\<close>

text \<open>
  C28. The book after any sequence of submissions, refused ones included: the vector of hashes is
  the vector of the digests of the stored orders, no digest is stored twice, the anti-replay
  set is exactly the set of stored digests, and every stored order was submitted with a
  signature that verified at its time of submission.
\<close>

theorem book_invariant:
  "book_inv (digest kc) (submit_all (eip712_verify kc k) reqs book_new) \<and>
   set (b_orders (submit_all (eip712_verify kc k) reqs book_new)) \<subseteq>
     {o1. \<exists>sg now. (o1, sg, now) \<in> set reqs \<and> eip712_verify kc k o1 sg now = Inr (digest kc o1)}"
  using eip712.submit_all_inv [OF book_inv_new, of kc k reqs]
    eip712.submit_all_member [of _ kc k reqs book_new]
  by (auto simp: book_new_def)

text \<open>
  C29. Anti-replay. Once an order was accepted, no order with the same signed fields is accepted
  again, whatever its signature, its arrival stamp, its time, and whatever was submitted in
  between; the refused submission leaves the book as it was.
\<close>

theorem accepted_once:
  assumes "submit (eip712_verify kc k) o1 sg now b = (Inr h, b1)"
    and "same_signed_fields o2 o1"
  shows "\<exists>e. submit (eip712_verify kc k) o2 sg2 now2 (submit_all (eip712_verify kc k) reqs b1) =
    (Inl e, submit_all (eip712_verify kc k) reqs b1)"
  using assms same_signed_fields_digest by (blast intro: eip712.submit_no_replay)

subsection \<open>What is served\<close>

lemma candidates_sorted:
  "sorted_wrt (\<lambda>x y. cmp_makers_for_taker (orders ! x) (orders ! y) \<noteq> Greater)
     (candidates orders now i taker)"
  unfolding candidates_def by (rule positions.sorted_sort_by)

lemma set_candidates:
  "set (candidates orders now i taker) =
     {j. j < length orders \<and> j \<noteq> i \<and> compatible taker (orders ! j) now}"
  by (auto simp: candidates_def)

lemma distinct_candidates: "distinct (candidates orders now i taker)"
proof -
  have "mset (candidates orders now i taker) =
      mset (filter (\<lambda>j. j \<noteq> i \<and> compatible taker (orders ! j) now) [0..<length orders])"
    unfolding candidates_def by (rule mset_sort_by)
  from mset_eq_imp_distinct_iff [OF this] show ?thesis by simp
qed

lemma candidates_head:
  assumes "candidates orders now i taker = j # js"
  shows "earliest_best cmp_makers_for_taker (\<lambda>k m. k \<noteq> i \<and> compatible taker m now) orders j"
proof -
  let ?c = "\<lambda>x y. cmp_makers_for_taker (orders ! x) (orders ! y)"
  let ?ok = "\<lambda>k. k \<noteq> i \<and> compatible taker (orders ! k) now"
  have mem: "k = j \<or> k \<in> set js \<longleftrightarrow> k < length orders \<and> ?ok k" for k
    using set_candidates [of orders now i taker] unfolding assms by auto
  have best: "?c j k \<noteq> Greater" if "k < length orders" "?ok k" for k
    using candidates_sorted [of orders now i taker] that mem [of k]
    unfolding assms by (auto simp: price_time.c_refl)
  have "filter (\<lambda>y. ?c j y = Equal) (j # js) =
      filter (\<lambda>y. ?c j y = Equal) (filter ?ok [0..<length orders])"
    using positions.stable_sort_by [of orders j "filter ?ok [0..<length orders]"]
    unfolding assms [unfolded candidates_def] by simp
  moreover have "sorted (filter (\<lambda>y. ?c j y = Equal) (filter ?ok [0..<length orders]))"
    by (intro sorted_wrt_filter) simp
  ultimately have "sorted (filter (\<lambda>y. ?c j y = Equal) (j # js))"
    by simp
  then have "j \<le> k" if "k < length orders" "?ok k" "?c j k = Equal" for k
    using that mem [of k] by (auto simp: price_time.c_refl)
  with best show ?thesis
    using mem [of j] ordering.exhaust [of "?c j _"] unfolding earliest_best_def
    by (auto simp flip: positions.c_swap) (meson linorder_not_le order_less_trans ordering.exhaust)
qed

lemma best_for_Some:
  "best_for orders now i taker = Some j \<longleftrightarrow>
     earliest_best cmp_makers_for_taker (\<lambda>k m. k \<noteq> i \<and> compatible taker m now) orders j"
  by (auto simp: best_for_def better_for_taker_eq price_time.best_loop_eq_Some earliest_best_def)

lemma best_for_None:
  "best_for orders now i taker = None \<longleftrightarrow>
     (\<forall>k < length orders. k \<noteq> i \<longrightarrow> \<not> compatible taker (orders ! k) now)"
  by (auto simp: best_for_def better_for_taker_eq price_time.best_loop_eq_None)

text \<open>
  The candidates served for one taker order come in price-time order, none twice, and the
  first of them is the order the deterministic matcher picks for that taker: sorting all
  candidates and scanning for the best one agree, ties included.
\<close>

theorem served_in_price_time_order:
  "sorted_wrt (\<lambda>x y. cmp_makers_for_taker (orders ! x) (orders ! y) \<noteq> Greater)
     (candidates orders now i taker) \<and>
   distinct (candidates orders now i taker) \<and>
   (case candidates orders now i taker of [] \<Rightarrow> None | j # js \<Rightarrow> Some j) =
     best_for orders now i taker"
proof -
  have "(case candidates orders now i taker of [] \<Rightarrow> None | j # js \<Rightarrow> Some j) =
      best_for orders now i taker"
  proof (cases "candidates orders now i taker")
    case Nil
    then have "best_for orders now i taker = None"
      using set_candidates [of orders now i taker] by (auto simp: best_for_None)
    then show ?thesis by (simp add: Nil)
  next
    case (Cons j js)
    then show ?thesis
      using best_for_Some [THEN iffD2, OF candidates_head [OF Cons]] by simp
  qed
  then show ?thesis using candidates_sorted distinct_candidates by blast
qed

lemma matches_loop_set:
  "drop i (b_orders b) = takers \<Longrightarrow>
   set (matches_loop b maker now i takers) =
     {\<lparr>taker_hash = b_hashes b ! p, maker_hash = b_hashes b ! q\<rparr> | p q.
        i \<le> p \<and> p < length (b_orders b) \<and> o_maker (b_orders b ! p) = maker \<and>
        q \<in> set (candidates (b_orders b) now p (b_orders b ! p))}"
proof (induction takers arbitrary: i)
  case Nil
  then show ?case by auto
next
  case (Cons t ts)
  have i: "i < length (b_orders b)"
    using Cons.prems by (metis drop_all linorder_not_le list.distinct(1))
  then have t: "t = b_orders b ! i" and ts: "drop (Suc i) (b_orders b) = ts"
    using Cons.prems by (metis Cons_nth_drop_Suc list.inject)+
  have split: "i \<le> p \<longleftrightarrow> p = i \<or> Suc i \<le> p" for p by auto
  show ?case
    using Cons.IH [OF ts] i unfolding t split by auto
qed

lemma matches_for_set:
  "set (matches_for b maker now) =
     {\<lparr>taker_hash = b_hashes b ! p, maker_hash = b_hashes b ! q\<rparr> | p q.
        p < length (b_orders b) \<and> q < length (b_orders b) \<and> p \<noteq> q \<and>
        o_maker (b_orders b ! p) = maker \<and>
        compatible (b_orders b ! p) (b_orders b ! q) now}"
  unfolding matches_for_def
  by (subst matches_loop_set [of 0]) (auto simp: set_candidates)

text \<open>
  What \<open>GET /matches\<close> serves for a maker: exactly the pairs of hashes of an order of that
  maker and a different stored order compatible with it at the time of the request.
\<close>

theorem matches_for_members:
  "set (matches_for b maker now) =
     {\<lparr>taker_hash = b_hashes b ! p, maker_hash = b_hashes b ! q\<rparr> | p q.
        p < length (b_orders b) \<and> q < length (b_orders b) \<and> p \<noteq> q \<and>
        o_maker (b_orders b ! p) = maker \<and>
        compatible (b_orders b ! p) (b_orders b ! q) now}"
  by (rule matches_for_set)

lemma accepted_once_witness:
  "\<exists>sg e b1. submit (eip712_verify toy_hash toy_k256) sell_order_example sg 501 b1 = (Inl e, b1)"
proof -
  obtain sg where "eip712_verify toy_hash toy_k256 sell_order_example sg 500 =
      Inr (digest toy_hash sell_order_example)"
    using example_signature by blast
  then have "submit (eip712_verify toy_hash toy_k256) sell_order_example sg 500 book_new =
      (Inr (digest toy_hash sell_order_example),
       \<lparr>b_orders = [sell_order_example], b_hashes = [digest toy_hash sell_order_example],
        b_seen = {digest toy_hash sell_order_example}\<rparr>)"
    by (simp add: submit_eq book_new_def)
  from accepted_once [OF this, of sell_order_example sg 501 "[]"] show ?thesis
    by (auto simp: same_signed_fields_def)
qed

end
