(* ===== verification/Kael_Handshake.thy ===== *)
theory Kael_Handshake
  imports Kael_SM Kael_Eip712
begin

section \<open>From matched orders to contexts\<close>

text \<open>
  Models \<open>swapkit/src/handshake.rs\<close>: the role each wallet computes for itself from the two
  matched orders, and the context it derives. The order digest is that of the orderbook, over
  the hash parameter \<open>kc\<close>.

  The lemmas show when the two wallets compute different roles, and that the two contexts fit:
  the leg each party locks is one the other party's verifier accepts, for every policy that
  leaves the gap the documentation asks for.
\<close>

record TimelockPolicy =
  taker_lock_secs :: u64
  maker_lock_secs :: u64
  policy_min_gap :: u64

definition assign_role :: "hash_fn \<Rightarrow> Order \<Rightarrow> Order \<Rightarrow> Role" where
  "assign_role kc order_self order_cp =
     (case cmp (o_created_at order_self) (o_created_at order_cp) of
        Less \<Rightarrow> Maker
      | Greater \<Rightarrow> Taker
      | Equal \<Rightarrow> (if digest kc order_self < digest kc order_cp then Maker else Taker))"

definition derive_context ::
  "Order \<Rightarrow> Order \<Rightarrow> Role \<Rightarrow> b32 option \<Rightarrow> b32 option \<Rightarrow> TimelockPolicy \<Rightarrow> u64 \<Rightarrow> SwapContext" where
  "derive_context order_self order_cp role hashlock secret policy now =
     (let my_lock = (case role of Taker \<Rightarrow> taker_lock_secs policy | Maker \<Rightarrow> maker_lock_secs policy)
      in
        \<lparr>ctx_role = role,
         my_token = o_sell_token order_self,
         my_amount = o_sell_amount order_self,
         my_timelock = saturating_add now my_lock,
         my_recipient = o_maker order_cp,
         cp_token = o_sell_token order_cp,
         cp_amount = o_sell_amount order_cp,
         ctx_me = o_maker order_self,
         min_gap = policy_min_gap policy,
         ctx_hashlock = hashlock,
         ctx_secret = secret,
         my_leg_locked = False,
         counterparty_lock = None,
         revealed_secret = None,
         ctx_now = now\<rparr>)"

subsection \<open>Roles\<close>

lemma assign_role_Maker:
  "assign_role kc a b = Maker \<longleftrightarrow>
     o_created_at a < o_created_at b \<or> o_created_at a = o_created_at b \<and> digest kc a < digest kc b"
  by (auto simp: assign_role_def cmp_def)

lemma assign_role_same:
  "assign_role kc a b = assign_role kc b a \<longleftrightarrow>
     o_created_at a = o_created_at b \<and> digest kc a = digest kc b"
proof -
  have "assign_role kc a b = assign_role kc b a \<longleftrightarrow>
      (assign_role kc a b = Maker \<longleftrightarrow> assign_role kc b a = Maker)"
    by (metis Role.exhaust)
  then show ?thesis
    unfolding assign_role_Maker by (metis less_asym neqE)
qed

text \<open>
  The two wallets take different roles. Whenever the two matched orders really trade one
  asset for another (they mirror each other and the first does not sell what it buys on the
  same chain), the two wallets compute opposite roles from the same two orders, unless the
  orders arrived at the same second and the encodings of the two orders are a collision of the
  hash.
\<close>

theorem roles_are_complementary:
  assumes "mirrors a b"
    and "o_sell_token a \<noteq> o_buy_token a \<or> o_sell_chain_id a \<noteq> o_buy_chain_id a"
    and "assign_role kc a b = assign_role kc b a"
  shows "o_created_at a = o_created_at b \<and>
    (collision kc (encode_order kc a) (encode_order kc b) \<or>
     collision kc (encode_digest kc a) (encode_digest kc b))"
proof -
  have "\<not> same_signed_fields a b"
    using assms(1,2) by (auto simp: mirrors_def same_signed_fields_iff)
  then show ?thesis
    using assms(3) by (simp add: assign_role_same digest_eq_iff)
qed

subsection \<open>Contexts that fit\<close>

text \<open>The lock that carrying out \<open>lock_my_leg\<close> of a context puts on chain.\<close>

definition leg_of :: "SwapContext \<Rightarrow> b32 \<Rightarrow> address \<Rightarrow> ObservedLock" where
  "leg_of c h sender =
     \<lparr>ol_hashlock = h, ol_token = my_token c, ol_amount = my_amount c,
      ol_recipient = my_recipient c, ol_timelock = my_timelock c, ol_sender = sender,
      ol_exists = True\<rparr>"

text \<open>The seconds after which a party's leg expires, in naturals.\<close>

definition expiry :: "Role \<Rightarrow> TimelockPolicy \<Rightarrow> u64 \<Rightarrow> nat" where
  "expiry role policy now =
     unat now + unat (case role of Taker \<Rightarrow> taker_lock_secs policy | Maker \<Rightarrow> maker_lock_secs policy)"

lemma unat_my_timelock:
  assumes "expiry role policy now < 2 ^ 64"
  shows "unat (my_timelock (derive_context o1 o2 role h s policy now)) = expiry role policy now"
  using assms by (auto simp: derive_context_def expiry_def unat_saturating_add split: Role.split)

text \<open>
  What one party locks, the other accepts. Two wallets with opposite roles derive their
  contexts from the same matched orders, hashlock and policy, at times \<open>now1\<close> and \<open>now2\<close> that may
  differ. If the taker's leg expires later than the maker's by at least the gap, then the leg
  the second wallet locks is verified as safe by the first, in either role, at every time \<open>t\<close>
  that leaves the gap before that leg expires.
\<close>

theorem derived_legs_are_safe:
  assumes roles: "role1 \<noteq> role2"
    and fits: "expiry Taker policy (if role1 = Taker then now1 else now2) + unat (policy_min_gap policy) < 2 ^ 64"
    and gap: "expiry Maker policy (if role1 = Taker then now2 else now1) + unat (policy_min_gap policy)
      \<le> expiry Taker policy (if role1 = Taker then now1 else now2)"
    and positive: "policy_min_gap policy \<noteq> 0"
    and time: "unat t + unat (policy_min_gap policy) \<le> expiry role2 policy now2"
  shows "verify_counterparty_leg
      (expectation (derive_context o1 o2 role1 (Some h) s1 policy now1\<lparr>ctx_now := t\<rparr>))
      (leg_of (derive_context o2 o1 role2 (Some h) s2 policy now2) h sender) = Safe"
proof -
  let ?c1 = "derive_context o1 o2 role1 (Some h) s1 policy now1"
  let ?c2 = "derive_context o2 o1 role2 (Some h) s2 policy now2"
  let ?e = "expectation (?c1\<lparr>ctx_now := t\<rparr>)" and ?ob = "leg_of ?c2 h sender"
  have g: "0 < unat (policy_min_gap policy)"
    using positive by (simp add: unat_gt_0)
  have tl: "unat (my_timelock ?c1) = expiry role1 policy now1"
    "unat (my_timelock ?c2) = expiry role2 policy now2"
    using roles fits gap by (auto intro!: unat_my_timelock split: if_splits)
      (cases role1; cases role2; simp)+
  have e: "le_role ?e = role1" "le_min_gap ?e = policy_min_gap policy" "le_now ?e = t"
    "unat (le_my_timelock ?e) = expiry role1 policy now1"
    "unat (ol_timelock ?ob) = expiry role2 policy now2"
    using tl by (simp_all add: expectation_def leg_of_def derive_context_def)
  have order: "case role1 of
      Taker \<Rightarrow> expiry role2 policy now2 < expiry role1 policy now1 \<and>
        expiry role2 policy now2 + unat (policy_min_gap policy) \<le> expiry role1 policy now1
    | Maker \<Rightarrow> expiry role1 policy now1 < expiry role2 policy now2 \<and>
        expiry role1 policy now1 + unat (policy_min_gap policy) \<le> expiry role2 policy now2"
    using roles gap g by (cases role1; cases role2) simp_all
  show ?thesis
  proof (rule verify_SafeI)
    show "ol_exists ?ob" "ol_hashlock ?ob = expected_hashlock ?e"
      "ol_token ?ob = expected_token ?e" "ol_amount ?ob = expected_amount ?e"
      "ol_recipient ?ob = expected_recipient ?e"
      by (simp_all add: expectation_def leg_of_def derive_context_def)
  qed (use order time in \<open>simp_all only: e\<close>)
qed

definition policy_example :: TimelockPolicy where
  "policy_example = \<lparr>taker_lock_secs = 7200, maker_lock_secs = 3600, policy_min_gap = 1800\<rparr>"

lemma derived_legs_are_safe_witness:
  "verify_counterparty_leg
     (expectation (derive_context sell_order_example (mirror_order_example 200 5 1) Taker
        (Some (fill 9)) (Some (fill 7)) policy_example 1000\<lparr>ctx_now := 2000\<rparr>))
     (leg_of (derive_context (mirror_order_example 200 5 1) sell_order_example Maker
        (Some (fill 9)) None policy_example 1060) (fill 9) (fill 0xBB)) = Safe"
  by (rule derived_legs_are_safe) (simp_all add: expiry_def policy_example_def)

lemma roles_are_complementary_witness:
  "collision (\<lambda>_. 0) (encode_order (\<lambda>_. 0) (sell_order_example\<lparr>o_created_at := 5\<rparr>))
      (encode_order (\<lambda>_. 0) (mirror_order_example 200 5 1)) \<or>
   collision (\<lambda>_. 0) (encode_digest (\<lambda>_. 0) (sell_order_example\<lparr>o_created_at := 5\<rparr>))
      (encode_digest (\<lambda>_. 0) (mirror_order_example 200 5 1))"
proof -
  let ?a = "sell_order_example\<lparr>o_created_at := 5\<rparr>" and ?b = "mirror_order_example 200 5 1"
  have "mirrors ?a ?b" "o_sell_token ?a \<noteq> o_buy_token ?a \<or> o_sell_chain_id ?a \<noteq> o_buy_chain_id ?a"
    by (simp_all add: mirrors_def sell_order_example_def mirror_order_example_def)
  moreover have "assign_role (\<lambda>_. 0) ?a ?b = assign_role (\<lambda>_. 0) ?b ?a"
    by (simp add: assign_role_same digest_def sell_order_example_def mirror_order_example_def)
  ultimately show ?thesis using roles_are_complementary by blast
qed

end
