(* ===== verification/Kael_Server.thy ===== *)
theory Kael_Server
  imports Kael_Book Kael_Text
begin

section \<open>The orderbook's HTTP interface\<close>

text \<open>
  Models \<open>orderbook/src/wire.rs\<close> and \<open>server.rs\<close>: the wire form of an order and its conversion,
  the two handlers with their status codes and messages, and the router's effect on the shared
  book. Each handler runs under the book's lock (\<open>write\<close> for a submission, \<open>read\<close> for the
  matches), so the requests act on the book one after the other; \<open>serve\<close> is such a sequence, each
  request with the time the handler reads. The hex codec is the record \<open>crates\<close>.

  The lemmas show that every order can be submitted in its wire form, that the book behind the
  server keeps its invariant under any traffic, and what the pairs served are worth.
\<close>

subsection \<open>Wire forms\<close>

record OrderDto =
  d_maker :: string
  d_sell_token :: string
  d_sell_chain_id :: u64
  d_sell_amount :: string
  d_buy_token :: string
  d_buy_chain_id :: u64
  d_buy_amount :: string
  d_valid_until :: u64
  d_nonce :: u64

record SubmitRequest =
  rq_order :: OrderDto
  rq_signature :: string

record SubmitResponse =
  rs_accepted :: bool
  rs_order_hash :: string

datatype DtoError = BadAddress string | BadAmount string | BadHex

definition parse_addr :: "crates \<Rightarrow> string \<Rightarrow> string \<Rightarrow> DtoError + address" where
  "parse_addr cr s field =
     and_then (map_err (\<lambda>_. BadAddress field) (hex_decode cr (trim_0x s))) (\<lambda>bytes.
       if length bytes \<noteq> 20 then Inl (BadAddress field) else Inr (pad_copy bytes))"

definition parse_u128 :: "string \<Rightarrow> string \<Rightarrow> DtoError + u128" where
  "parse_u128 s field = map_err (\<lambda>_. BadAmount field) (parse_uint s)"

definition into_order :: "crates \<Rightarrow> OrderDto \<Rightarrow> u64 \<Rightarrow> DtoError + Order" where
  "into_order cr d created_at =
     and_then (parse_addr cr (d_maker d) ''maker'') (\<lambda>maker.
     and_then (parse_addr cr (d_sell_token d) ''sell_token'') (\<lambda>sell_token.
     and_then (parse_u128 (d_sell_amount d) ''sell_amount'') (\<lambda>sell_amount.
     and_then (parse_addr cr (d_buy_token d) ''buy_token'') (\<lambda>buy_token.
     and_then (parse_u128 (d_buy_amount d) ''buy_amount'') (\<lambda>buy_amount.
     Inr \<lparr>o_maker = maker, o_sell_token = sell_token, o_sell_chain_id = d_sell_chain_id d,
          o_sell_amount = sell_amount, o_buy_token = buy_token,
          o_buy_chain_id = d_buy_chain_id d, o_buy_amount = buy_amount,
          o_valid_until = d_valid_until d, o_nonce = d_nonce d, o_created_at = created_at\<rparr>)))))"

definition parse_signature :: "crates \<Rightarrow> string \<Rightarrow> DtoError + u8 list" where
  "parse_signature cr s = map_err (\<lambda>_. BadHex) (hex_decode cr (trim_0x s))"

definition parse_address :: "crates \<Rightarrow> string \<Rightarrow> DtoError + address" where
  "parse_address cr s = parse_addr cr s ''address''"

subsection \<open>Handlers\<close>

datatype StatusCode = BAD_REQUEST | CONFLICT | UNPROCESSABLE_ENTITY

type_synonym rejection = "StatusCode \<times> string"

text \<open>The derived \<open>Debug\<close> forms that appear in messages.\<close>

definition dto_error_debug :: "DtoError \<Rightarrow> string" where
  "dto_error_debug e =
     (case e of
        BadAddress f \<Rightarrow> ''BadAddress('' @ debug_str f @ '')''
      | BadAmount f \<Rightarrow> ''BadAmount('' @ debug_str f @ '')''
      | BadHex \<Rightarrow> ''BadHex'')"

definition verify_error_debug :: "VerifyError \<Rightarrow> string" where
  "verify_error_debug e =
     (case e of
        BadSignatureLength \<Rightarrow> ''BadSignatureLength''
      | MalleableS \<Rightarrow> ''MalleableS''
      | InvalidV \<Rightarrow> ''InvalidV''
      | BadSignature \<Rightarrow> ''BadSignature''
      | ZeroSigner \<Rightarrow> ''ZeroSigner''
      | SignerNotMaker \<Rightarrow> ''SignerNotMaker''
      | OrderExpired \<Rightarrow> ''OrderExpired'')"

definition verify_msg :: "VerifyError \<Rightarrow> string" where
  "verify_msg v =
     (case v of
        OrderExpired \<Rightarrow> ''expired order''
      | SignerNotMaker \<Rightarrow> ''signature does not match maker''
      | MalleableS \<Rightarrow> ''malleable signature (high s)''
      | other \<Rightarrow> ''signature rejected: '' @ verify_error_debug other)"

definition submit_order ::
  "crates \<Rightarrow> hash_fn \<Rightarrow> ('sig, 'rid, 'vk, 'sk) k256 \<Rightarrow> u64 \<Rightarrow> SubmitRequest \<Rightarrow>
     (Book, rejection, SubmitResponse) eff" where
  "submit_order cr kc k now req =
     bindE (of_result (map_err (\<lambda>e. (BAD_REQUEST, ''invalid order: '' @ dto_error_debug e))
              (into_order cr (rq_order req) now))) (\<lambda>o1.
     bindE (of_result (map_err (\<lambda>e. (BAD_REQUEST, ''invalid signature: '' @ dto_error_debug e))
              (parse_signature cr (rq_signature req)))) (\<lambda>sg.
     bindE (map_errE
              (\<lambda>e. case e of
                     Duplicate \<Rightarrow> (CONFLICT, ''duplicate order'')
                   | Verify v \<Rightarrow> (UNPROCESSABLE_ENTITY, verify_msg v))
              (submit (eip712_verify kc k) o1 sg now)) (\<lambda>hash.
     ret \<lparr>rs_accepted = True, rs_order_hash = ''0x'' @ hex_encode cr (bytes_of hash)\<rparr>)))"

definition get_matches ::
  "crates \<Rightarrow> string \<Rightarrow> u64 \<Rightarrow> (Book, rejection, MatchPair list) eff" where
  "get_matches cr q_maker now =
     bindE (of_result (map_err (\<lambda>e. (BAD_REQUEST, ''invalid maker: '' @ dto_error_debug e))
              (parse_address cr q_maker))) (\<lambda>maker.
     gets (\<lambda>book. matches_for book maker now))"

datatype api_call = PostOrders SubmitRequest | GetMatches string | GetHealth

datatype api_reply =
    Accepted SubmitResponse
  | Matches "MatchPair list"
  | Healthy string
  | Refused rejection

definition handle ::
  "crates \<Rightarrow> hash_fn \<Rightarrow> ('sig, 'rid, 'vk, 'sk) k256 \<Rightarrow> u64 \<Rightarrow> api_call \<Rightarrow> Book \<Rightarrow> api_reply \<times> Book" where
  "handle cr kc k now call book =
     (case call of
        PostOrders req \<Rightarrow>
          (case submit_order cr kc k now req book of
             (Inr rs, book') \<Rightarrow> (Accepted rs, book')
           | (Inl rj, book') \<Rightarrow> (Refused rj, book'))
      | GetMatches q \<Rightarrow>
          (case get_matches cr q now book of
             (Inr ms, book') \<Rightarrow> (Matches ms, book')
           | (Inl rj, book') \<Rightarrow> (Refused rj, book'))
      | GetHealth \<Rightarrow> (Healthy ''ok'', book))"

fun serve ::
  "crates \<Rightarrow> hash_fn \<Rightarrow> ('sig, 'rid, 'vk, 'sk) k256 \<Rightarrow> (u64 \<times> api_call) list \<Rightarrow> Book \<Rightarrow> Book" where
  "serve cr kc k [] book = book"
| "serve cr kc k ((now, call) # calls) book =
     serve cr kc k calls (snd (handle cr kc k now call book))"

subsection \<open>Every order has a wire form\<close>

definition wire_form :: "crates \<Rightarrow> Order \<Rightarrow> OrderDto" where
  "wire_form cr o1 =
     \<lparr>d_maker = ''0x'' @ hex_encode cr (bytes_of (o_maker o1)),
      d_sell_token = ''0x'' @ hex_encode cr (bytes_of (o_sell_token o1)),
      d_sell_chain_id = o_sell_chain_id o1, d_sell_amount = dec (unat (o_sell_amount o1)),
      d_buy_token = ''0x'' @ hex_encode cr (bytes_of (o_buy_token o1)),
      d_buy_chain_id = o_buy_chain_id o1, d_buy_amount = dec (unat (o_buy_amount o1)),
      d_valid_until = o_valid_until o1, d_nonce = o_nonce o1\<rparr>"

text \<open>What the wire uses of the \<open>hex\<close> crate: decoding inverts encoding, and no \<open>x\<close> is a digit.\<close>

definition hex_codec :: "crates \<Rightarrow> bool" where
  "hex_codec cr \<longleftrightarrow>
     (\<forall>b. hex_decode cr (hex_encode cr b) = Inr b \<and> CHR ''x'' \<notin> set (hex_encode cr b))"

lemma trim_0x_no_x: "CHR ''x'' \<notin> set s \<Longrightarrow> trim_0x s = s"
  by (cases s rule: trim_0x.cases) auto

lemma parse_addr_wire:
  assumes "hex_codec cr"
  shows "parse_addr cr (''0x'' @ hex_encode cr (bytes_of a)) f = Inr a"
  using assms by (simp add: parse_addr_def hex_codec_def trim_0x_no_x)

lemma into_order_wire:
  assumes "hex_codec cr"
  shows "into_order cr (wire_form cr o1) now = Inr (o1\<lparr>o_created_at := now\<rparr>)"
  using assms
  by (simp add: into_order_def wire_form_def parse_addr_wire [simplified] parse_u128_def
      parse_uint_dec)

text \<open>
  Every order can be submitted. For a hex codec that inverts itself, reading back the wire
  form of an order gives the order, stamped with the time of arrival.
\<close>

theorem wire_roundtrip:
  assumes "hex_codec cr"
  shows "into_order cr (wire_form cr o1) now = Inr (o1\<lparr>o_created_at := now\<rparr>)"
  using assms by (rule into_order_wire)

subsection \<open>The book behind the server\<close>

text \<open>The submissions among a sequence of calls that get past parsing.\<close>

fun submissions ::
  "crates \<Rightarrow> (u64 \<times> api_call) list \<Rightarrow> (Order \<times> u8 list \<times> u64) list" where
  "submissions cr [] = []"
| "submissions cr ((now, call) # calls) =
     (case call of
        PostOrders req \<Rightarrow>
          (case (into_order cr (rq_order req) now, parse_signature cr (rq_signature req)) of
             (Inr o1, Inr sg) \<Rightarrow> (o1, sg, now) # submissions cr calls
           | _ \<Rightarrow> submissions cr calls)
      | _ \<Rightarrow> submissions cr calls)"

lemma handle_book:
  "snd (handle cr kc k now call book) =
     (case call of
        PostOrders req \<Rightarrow>
          (case (into_order cr (rq_order req) now, parse_signature cr (rq_signature req)) of
             (Inr o1, Inr sg) \<Rightarrow> snd (submit (eip712_verify kc k) o1 sg now book)
           | _ \<Rightarrow> book)
      | _ \<Rightarrow> book)"
  by (auto simp: handle_def submit_order_def get_matches_def eff_simps map_err_def
      split: api_call.split sum.split prod.split)

lemma serve_book: "serve cr kc k calls book = submit_all (eip712_verify kc k) (submissions cr calls) book"
  by (induction cr kc k calls book rule: serve.induct)
    (auto simp: handle_book split: api_call.split sum.split)

lemma serve_inv: "book_inv (digest kc) (serve cr kc k calls book_new)"
  unfolding serve_book by (rule eip712.submit_all_inv [OF book_inv_new])

text \<open>
  C30. What a served pair is worth. After any traffic, every pair the server returns for a maker
  names two different stored orders by their digests: the first belongs to that maker, the two
  mirror and cross each other and are unexpired at the time of the request, and both were
  submitted with a signature of their maker that verified when they were stored.
\<close>

theorem served_pairs_are_signed_orders:
  assumes "handle cr kc k now (GetMatches q) (serve cr kc k calls book_new) = (Matches ms, book)"
    and "m \<in> set ms"
  shows "\<exists>a b. parse_address cr q = Inr (o_maker a) \<and>
    taker_hash m = digest kc a \<and> maker_hash m = digest kc b \<and> taker_hash m \<noteq> maker_hash m \<and>
    compatible a b now \<and>
    (\<exists>sg t. (a, sg, t) \<in> set (submissions cr calls) \<and> eip712_verify kc k a sg t = Inr (digest kc a)) \<and>
    (\<exists>sg t. (b, sg, t) \<in> set (submissions cr calls) \<and> eip712_verify kc k b sg t = Inr (digest kc b))"
proof -
  let ?book = "serve cr kc k calls book_new"
  obtain maker where maker: "parse_address cr q = Inr maker" and m: "m \<in> set (matches_for ?book maker now)"
    using assms by (auto simp: handle_def get_matches_def eff_simps map_err_def split: sum.splits)
  then obtain i j where ij: "m = \<lparr>taker_hash = b_hashes ?book ! i, maker_hash = b_hashes ?book ! j\<rparr>"
    "i < length (b_orders ?book)" "j < length (b_orders ?book)" "i \<noteq> j"
    "o_maker (b_orders ?book ! i) = maker" "compatible (b_orders ?book ! i) (b_orders ?book ! j) now"
    unfolding matches_for_set by blast
  have inv: "b_hashes ?book = map (digest kc) (b_orders ?book)" "distinct (b_hashes ?book)"
    using serve_inv [of kc cr k calls] unfolding book_inv_def by blast+
  have stored: "\<exists>sg t. (b_orders ?book ! p, sg, t) \<in> set (submissions cr calls) \<and>
      eip712_verify kc k (b_orders ?book ! p) sg t = Inr (digest kc (b_orders ?book ! p))"
    if "p < length (b_orders ?book)" for p
    using eip712.submit_all_member [of "b_orders ?book ! p" kc k "submissions cr calls" book_new]
      that by (simp add: serve_book book_new_def)
  have "b_hashes ?book ! i \<noteq> b_hashes ?book ! j"
    using inv(2) nth_eq_iff_index_eq [OF inv(2), of i j] ij(2-4) inv(1) by simp
  then show ?thesis
    using maker ij inv(1) stored by (intro exI [of _ "b_orders ?book ! i"] exI [of _ "b_orders ?book ! j"]) auto
qed

subsection \<open>Two orders that meet\<close>

text \<open>
  For the witnesses: a codec with sixteen letters for digits, a hash that keeps the last 32
  bytes, so that a digest is the order's nonce, and the curve of the earlier witnesses.
\<close>

definition letters_encode :: "u8 list \<Rightarrow> string" where
  "letters_encode bs =
     concat (map (\<lambda>b. [char_of (97 + unat b div 16), char_of (97 + unat b mod 16)]) bs)"

fun letters_decode :: "string \<Rightarrow> string + u8 list" where
  "letters_decode (c # d # s) =
     and_then (letters_decode s) (\<lambda>bs.
       Inr (of_nat ((of_char c - 97) * 16 + (of_char d - 97)) # bs))"
| "letters_decode [] = Inr []"
| "letters_decode [c] = Inl ''odd length''"

definition letters_crates :: crates where
  "letters_crates =
     \<lparr>hex_decode = letters_decode, hex_encode = letters_encode,
      parse_evm_address = (\<lambda>s. Inl ''unused''), show_address = (\<lambda>a. []),
      parse_u256 = (\<lambda>s. Inl ''unused''), show_u256 = (\<lambda>v. dec (unat v)),
      abi_encode_lock = (\<lambda>sender r t a h tm. bytes_of h)\<rparr>"

lemma letters_inverse: "letters_decode (letters_encode bs) = Inr bs"
proof (induction bs)
  case Nil
  then show ?case by (simp add: letters_encode_def)
next
  case (Cons b bs)
  have "unat b < 256" using unat_lt_pow [of b] by simp
  then have "unat b div 16 < 16" "unat b mod 16 < 16" by simp_all
  moreover have "unat b div 16 * 16 + unat b mod 16 = unat b" by simp
  ultimately show ?case
    using Cons by (simp add: letters_encode_def)
qed

lemma letters_codec: "hex_codec letters_crates"
proof -
  have "CHR ''x'' \<notin> set (letters_encode bs)" for bs
  proof -
    have digit: "CHR ''x'' \<noteq> char_of (97 + n)" if "n < (16 :: nat)" for n
    proof
      assume "CHR ''x'' = char_of (97 + n)"
      then have "(of_char (CHR ''x'') :: nat) = of_char (char_of (97 + n) :: char)" by simp
      then show False using that by simp
    qed
    have "unat b div 16 < 16" for b :: u8
      using unat_lt_pow [of b] by simp
    then show ?thesis by (auto simp: letters_encode_def digit)
  qed
  then show ?thesis by (simp add: hex_codec_def letters_crates_def letters_inverse)
qed

lemma wire_roundtrip_witness:
  "into_order letters_crates (wire_form letters_crates sell_order_example) 77 =
     Inr (sell_order_example\<lparr>o_created_at := 77\<rparr>)"
  by (rule wire_roundtrip [OF letters_codec])

definition tail_hash :: hash_fn where
  "tail_hash xs = pad_copy (drop (length xs - 32) xs)"

definition tail_k256 :: "(u8 list, u8, b32, b32) k256" where
  "tail_k256 = toy_k256\<lparr>to_encoded_point := \<lambda>vk. 4 # replicate 32 0 @ bytes_of vk\<rparr>"

definition key_signature :: "u8 \<Rightarrow> u8 list" where
  "key_signature b = replicate 32 b @ replicate 32 0 @ [27]"

lemma tail_digest: "bytes_of (digest tail_hash o1) = enc_u64 (o_nonce o1)"
  by (simp add: digest_def encode_digest_def hash_struct_def tail_hash_def encode_order_def
      bytes_of_pad_copy)

lemma tail_accepts:
  assumes "o_maker o1 = fill b" and "b \<noteq> 0" and "now \<le> o_valid_until o1"
  shows "eip712_verify tail_hash tail_k256 o1 (key_signature b) now = Inr (digest tail_hash o1)"
proof -
  have pad: "pad_copy (replicate 32 b @ xs) = (fill b :: b32)" for xs
    by (simp flip: bytes_of_inject add: bytes_of_pad_copy_take bytes_of_fill)
  have "bytes_of (address_of tail_hash tail_k256 (fill b)) = bytes_of (fill b :: address)"
    by (simp add: address_of_def tail_hash_def tail_k256_def bytes_of_pad_copy_take bytes_of_fill
        take_replicate)
  then have "address_of tail_hash tail_k256 (fill b) = fill b" by simp
  then show ?thesis
    using assms low_s_zeros
    by (simp add: verify_Inr key_signature_def nth_append tail_k256_def toy_k256_def pad)
qed

definition post :: "Order \<Rightarrow> u8 \<Rightarrow> api_call" where
  "post o1 b = PostOrders
     \<lparr>rq_order = wire_form letters_crates o1,
      rq_signature = letters_encode (key_signature b)\<rparr>"

definition traffic :: "(u64 \<times> api_call) list" where
  "traffic = [(5, post sell_order_example 0xAA), (6, post (mirror_order_example 300 0 3) 0xBB)]"

lemma letters_plain: "letters_decode (trim_0x (letters_encode bs)) = Inr bs"
  using letters_codec by (simp add: hex_codec_def letters_crates_def trim_0x_no_x)

lemma post_submission:
  "submissions letters_crates ((now, post o1 b) # calls) =
     (o1\<lparr>o_created_at := now\<rparr>, key_signature b, now) # submissions letters_crates calls"
proof -
  have "parse_signature letters_crates (letters_encode (key_signature b)) = Inr (key_signature b)"
    by (simp add: parse_signature_def letters_crates_def letters_plain)
  then show ?thesis by (simp add: post_def into_order_wire [OF letters_codec])
qed

lemma traffic_book:
  "serve letters_crates tail_hash tail_k256 traffic book_new =
     \<lparr>b_orders = [sell_order_example\<lparr>o_created_at := 5\<rparr>, mirror_order_example 300 6 3],
      b_hashes = map (digest tail_hash) [sell_order_example, mirror_order_example 300 6 3],
      b_seen = {digest tail_hash (mirror_order_example 300 6 3), digest tail_hash sell_order_example}\<rparr>"
proof -
  let ?a = "sell_order_example\<lparr>o_created_at := 5\<rparr>" and ?b = "mirror_order_example 300 6 3"
  have upd: "mirror_order_example 300 0 3\<lparr>o_created_at := 6\<rparr> = ?b"
    by (simp add: mirror_order_example_def)
  have a: "eip712_verify tail_hash tail_k256 ?a (key_signature 0xAA) 5 = Inr (digest tail_hash sell_order_example)"
    by (subst tail_accepts) (simp_all add: sell_order_example_def digest_def encode_digest_def
        hash_struct_def encode_order_def)
  have b: "eip712_verify tail_hash tail_k256 ?b (key_signature 0xBB) 6 = Inr (digest tail_hash ?b)"
    by (subst tail_accepts) (simp_all add: mirror_order_example_def)
  have "bytes_of (digest tail_hash ?b) \<noteq> bytes_of (digest tail_hash sell_order_example)"
    by (simp add: tail_digest mirror_order_example_def sell_order_example_def)
  then have "digest tail_hash ?b \<noteq> digest tail_hash sell_order_example" by auto
  moreover have "submissions letters_crates traffic =
      [(?a, key_signature 0xAA, 5), (?b, key_signature 0xBB, 6)]"
    by (simp only: traffic_def post_submission submissions.simps(1) upd)
  ultimately show ?thesis
    by (simp add: serve_book submit_eq a b book_new_def)
qed

lemma served_pairs_are_signed_orders_witness:
  "\<exists>a b. parse_address letters_crates (letters_encode (replicate 20 0xAA)) = Inr (o_maker a) \<and>
     digest tail_hash sell_order_example = digest tail_hash a \<and>
     digest tail_hash (mirror_order_example 300 6 3) = digest tail_hash b \<and> compatible a b 10"
proof -
  let ?q = "letters_encode (replicate 20 0xAA)"
  let ?book = "serve letters_crates tail_hash tail_k256 traffic book_new"
  let ?m = "\<lparr>taker_hash = digest tail_hash sell_order_example,
    maker_hash = digest tail_hash (mirror_order_example 300 6 3)\<rparr>"
  have "pad_copy (replicate 20 (0xAA :: u8)) = (fill 0xAA :: address)"
    by (simp flip: bytes_of_inject add: bytes_of_pad_copy_take bytes_of_fill)
  then have "parse_address letters_crates ?q = Inr (fill 0xAA)"
    by (simp add: parse_address_def parse_addr_def letters_crates_def letters_plain)
  then have "handle letters_crates tail_hash tail_k256 10 (GetMatches ?q) ?book =
      (Matches (matches_for ?book (fill 0xAA) 10), ?book)"
    by (simp add: handle_def get_matches_def eff_simps)
  moreover have "matches_for ?book (fill 0xAA) 10 = [?m]"
    by (simp add: traffic_book matches_for_def candidates_def upt_rec matching_eval)
  ultimately have run: "handle letters_crates tail_hash tail_k256 10 (GetMatches ?q)
      (serve letters_crates tail_hash tail_k256 traffic book_new) = (Matches [?m], ?book)"
    by simp
  from served_pairs_are_signed_orders [OF run, of ?m] show ?thesis by fastforce
qed

end
