(* ===== verification/Kael_Node.thy ===== *)
theory Kael_Node
  imports Kael_Bytes
begin

section \<open>The world outside: nodes, clock, randomness\<close>

text \<open>
  What the wallet and the watcher call but do not implement: JSON-RPC nodes through \<open>alloy\<close>, the
  contracts behind them, the injected clock, the operating system's random bytes, and the
  iteration order of a \<open>HashMap\<close>. All of it is one record \<open>net\<close> of functions on an abstract
  world \<open>'w\<close>; a provider (\<open>DynProvider\<close>) is a value of \<open>'p\<close>. Every call may change the world and
  may answer anything its type allows, so a theorem without a hypothesis on the record holds
  for every node, honest or not.

  The state of a computation carries the world and, as a ghost, the list \<open>sent\<close> of the
  transactions handed to \<open>send\<close>, in order, whether or not the node accepted them. The
  transactions are the calls of the bindings in \<open>swapkit/src/exec/tx.rs\<close>, and
  \<open>htlc_event\<close> the three events of \<open>HashedTimelock\<close> the sources decode.

  A call that panics is the error \<open>Panicked\<close>; an \<open>Err(e)\<close> of the source is \<open>Failed e\<close>.
\<close>

datatype 'e fault = Panicked | Failed 'e

record SolOrder =
  so_maker :: address
  so_sellToken :: address
  so_sellChainId :: u256
  so_sellAmount :: u256
  so_buyToken :: address
  so_buyChainId :: u256
  so_buyAmount :: u256
  so_validUntil :: u256
  so_nonce :: u256

datatype tx =
    NewSwap (ns_htlc: address) (ns_recipient: address) (ns_token: address) (ns_amount: u256)
      (ns_hashlock: b32) (ns_timelock: u256) (ns_value: u256)
  | Redeem (rd_htlc: address) (rd_contract: b32) (rd_preimage: b32)
  | RefundTx (rf_htlc: address) (rf_contract: b32)
  | SettleLeg (sl_settlement: address) (sl_order: SolOrder) (sl_signature: "u8 list")
      (sl_recipient: address) (sl_hashlock: b32) (sl_timelock: u256) (sl_value: u256)
  | RefundLeg (rl_settlement: address) (rl_contract: b32)
  | Approve (ap_token: address) (ap_spender: address) (ap_amount: u256)

record receipt =
  r_transaction_hash :: b32
  r_block_number :: "u64 option"
  r_status :: bool

datatype htlc_event =
    LogNewSwap (ev_contract: b32) (ev_sender: address) (ev_recipient: address) (ev_token: address)
      (ev_amount: u256) (ev_hashlock: b32) (ev_timelock: u256)
  | LogRedeem (ev_contract: b32) (ev_preimage: b32)
  | LogRefund (ev_contract: b32)

text \<open>\<open>log_event\<close>: what \<open>decode_log\<close> finds; the signatures of the three events differ.\<close>

record log =
  log_event :: "htlc_event option"
  log_block_number :: "u64 option"

record log_filter =
  lf_address :: address
  lf_new_swap_only :: bool
  lf_topic1 :: "b32 option"
  lf_from_block :: u64
  lf_to_block :: "u64 option"

record SolSwap =
  sw_sender :: address
  sw_recipient :: address
  sw_token :: address
  sw_amount :: u256
  sw_hashlock :: b32
  sw_timelock :: u256
  sw_withdrawn :: bool
  sw_refunded :: bool

record ('p, 'w) net =
  get_chain_id :: "'p \<Rightarrow> 'w \<Rightarrow> (string + u64) \<times> 'w"
  get_block_number :: "'p \<Rightarrow> 'w \<Rightarrow> (string + u64) \<times> 'w"
  get_code_at :: "'p \<Rightarrow> address \<Rightarrow> 'w \<Rightarrow> (string + u8 list) \<times> 'w"
  get_balance :: "'p \<Rightarrow> address \<Rightarrow> 'w \<Rightarrow> (string + u256) \<times> 'w"
  get_logs :: "'p \<Rightarrow> log_filter \<Rightarrow> 'w \<Rightarrow> (string + log list) \<times> 'w"
  get_transaction_receipt :: "'p \<Rightarrow> b32 \<Rightarrow> 'w \<Rightarrow> (string + receipt option) \<times> 'w"
  call_getSwap :: "'p \<Rightarrow> address \<Rightarrow> b32 \<Rightarrow> 'w \<Rightarrow> (string + SolSwap) \<times> 'w"
  call_htlc :: "'p \<Rightarrow> address \<Rightarrow> 'w \<Rightarrow> (string + address) \<times> 'w"
  call_allowance :: "'p \<Rightarrow> address \<Rightarrow> address \<Rightarrow> address \<Rightarrow> 'w \<Rightarrow> (string + u256) \<times> 'w"
  call_balanceOf :: "'p \<Rightarrow> address \<Rightarrow> address \<Rightarrow> 'w \<Rightarrow> (string + u256) \<times> 'w"
  send_transaction :: "'p \<Rightarrow> tx \<Rightarrow> 'w \<Rightarrow> (string + b32) \<times> 'w"
  await_receipt :: "'p \<Rightarrow> b32 \<Rightarrow> 'w \<Rightarrow> (string + receipt) \<times> 'w"
  clock_now :: "'w \<Rightarrow> u64 \<times> 'w"
  os_random32 :: "'w \<Rightarrow> b32 \<times> 'w"
  os_next_u64 :: "'w \<Rightarrow> u64 \<times> 'w"

record ('p, 'w) env =
  world :: 'w
  sent :: "('p \<times> tx) list"

subsection \<open>Calls\<close>

text \<open>A read-only request: the world moves, nothing is sent.\<close>

definition rpc :: "('w \<Rightarrow> (string + 'a) \<times> 'w) \<Rightarrow> (('p, 'w) env, string, 'a) eff" where
  "rpc q v = (fst (q (world v)), v\<lparr>world := snd (q (world v))\<rparr>)"

definition ask :: "('w \<Rightarrow> 'a \<times> 'w) \<Rightarrow> (('p, 'w) env, 'e, 'a) eff" where
  "ask q v = (Inr (fst (q (world v))), v\<lparr>world := snd (q (world v))\<rparr>)"

text \<open>\<open>call.send().await\<close>: the transaction is recorded before the node answers.\<close>

definition send :: "('p, 'w) net \<Rightarrow> 'p \<Rightarrow> tx \<Rightarrow> (('p, 'w) env, string, b32) eff" where
  "send n p t v =
     (let (r, w) = send_transaction n p t (world v)
      in (r, \<lparr>world = w, sent = sent v @ [(p, t)]\<rparr>))"

lemma rpc_apply [eff_simps]:
  "rpc q v = (fst (q (world v)), v\<lparr>world := snd (q (world v))\<rparr>)"
  by (simp add: rpc_def)

lemma ask_apply [eff_simps]:
  "ask q v = (Inr (fst (q (world v))), v\<lparr>world := snd (q (world v))\<rparr>)"
  by (simp add: ask_def)

lemma send_apply [eff_simps]:
  "send n p t v =
     (fst (send_transaction n p t (world v)),
      \<lparr>world = snd (send_transaction n p t (world v)), sent = sent v @ [(p, t)]\<rparr>)"
  by (simp add: send_def split: prod.split)

subsection \<open>Frames on what was sent\<close>

text \<open>
  \<open>silent sel\<close>: nothing is sent; \<open>sends_only sel P\<close>: what was sent is kept and what is added
  satisfies \<open>P\<close>. \<open>sel\<close> reads the ghost out of the state at hand. Both are frames, so they pass
  from the calls to everything composed of them.
\<close>

definition silent :: "('s \<Rightarrow> 'a list) \<Rightarrow> 's \<Rightarrow> 's \<Rightarrow> bool" where
  "silent sel s t \<longleftrightarrow> sel t = sel s"

definition sends_only :: "('s \<Rightarrow> 'a list) \<Rightarrow> ('a \<Rightarrow> bool) \<Rightarrow> 's \<Rightarrow> 's \<Rightarrow> bool" where
  "sends_only sel P s t \<longleftrightarrow> (\<exists>xs. sel t = sel s @ xs \<and> list_all P xs)"

interpretation quiet: frame "silent sel" for sel :: "'s \<Rightarrow> 'a list"
  by unfold_locales (simp_all add: silent_def)

interpretation sending: frame "sends_only sel P" for sel :: "'s \<Rightarrow> 'a list" and P
proof
  fix s t u
  show "sends_only sel P s s" by (simp add: sends_only_def)
  assume "sends_only sel P s t" and "sends_only sel P t u"
  then obtain xs ys where "sel t = sel s @ xs" "sel u = sel t @ ys" "list_all P (xs @ ys)"
    by (auto simp: sends_only_def)
  then show "sends_only sel P s u"
    by (auto simp: sends_only_def intro: exI [of _ "xs @ ys"])
qed

lemma silent_sends_only: "keeps (silent sel) m \<Longrightarrow> keeps (sends_only sel P) m"
  by (simp add: keeps_def silent_def sends_only_def)

lemma keeps_rpc: "keeps (silent sent) (rpc q)"
  by (simp add: keeps_def silent_def rpc_def)

lemma keeps_ask: "keeps (silent sent) (ask q)"
  by (simp add: keeps_def silent_def ask_def)

lemma keeps_send: "P (p, t) \<Longrightarrow> keeps (sends_only sent P) (send n p t)"
  by (simp add: keeps_def sends_only_def send_apply)

lemma keeps_zoom_silent:
  assumes "keeps (silent sel) m" and "\<And>s t. sel' (put s t) = sel s" and "\<And>t. sel (get t) = sel' t"
  shows "keeps (silent sel') (zoom get put m)"
  using assms by (simp add: keeps_def silent_def zoom_apply)

lemma keeps_modify_silent: "(\<And>s. sel (f s) = sel s) \<Longrightarrow> keeps (silent sel) (modify f)"
  by (simp add: keeps_def silent_def modify_def)

text \<open>A computation on the environment, inside one that also carries a component's own state.\<close>

definition with_env :: "('v, 'e, 'a) eff \<Rightarrow> ('s \<times> 'v, 'e, 'a) eff" where
  "with_env m = zoom snd (\<lambda>v (s, _). (s, v)) m"

lemma with_env_apply [eff_simps]: "with_env m (s, v) = (fst (m v), (s, snd (m v)))"
  by (simp add: with_env_def zoom_apply)

lemma with_env_Inr:
  "with_env m (s, v) = (Inr a, sv') \<longleftrightarrow> (\<exists>v'. m v = (Inr a, v') \<and> sv' = (s, v'))"
  by (cases "m v") (auto simp: with_env_apply)

lemma keeps_with_env: "keeps (silent sent) m \<Longrightarrow> keeps (silent (sent \<circ> snd)) (with_env m)"
  unfolding with_env_def by (rule keeps_zoom_silent) auto

subsection \<open>A world that computes\<close>

text \<open>
  For the witnesses: a node on the local test chain 31337 with no logs and no contracts, which
  accepts every transaction. Scenarios override the fields they need.
\<close>

definition quiet_net :: "('p, 'w) net" where
  "quiet_net =
     \<lparr>get_chain_id = (\<lambda>p w. (Inr 31337, w)),
      get_block_number = (\<lambda>p w. (Inr 10, w)),
      get_code_at = (\<lambda>p a w. (Inr [], w)),
      get_balance = (\<lambda>p a w. (Inr 0, w)),
      get_logs = (\<lambda>p f w. (Inr [], w)),
      get_transaction_receipt = (\<lambda>p h w. (Inr None, w)),
      call_getSwap = (\<lambda>p a c w. (Inl ''no contract'', w)),
      call_htlc = (\<lambda>p a w. (Inl ''no contract'', w)),
      call_allowance = (\<lambda>p t a b w. (Inr 0, w)),
      call_balanceOf = (\<lambda>p t a w. (Inr 0, w)),
      send_transaction = (\<lambda>p t w. (Inr 0, w)),
      await_receipt =
        (\<lambda>p h w. (Inr \<lparr>r_transaction_hash = h, r_block_number = Some 10, r_status = True\<rparr>, w)),
      clock_now = (\<lambda>w. (0, w)),
      os_random32 = (\<lambda>w. (fill 7, w)),
      os_next_u64 = (\<lambda>w. (42, w))\<rparr>"

end
