(* ===== verification/Kael_Tracker.thy ===== *)
theory Kael_Tracker
  imports Kael_Node
begin

section \<open>The maestro: correlating legs by hashlock\<close>

text \<open>
  Models \<open>maestro/src/correlate.rs\<close>, \<open>hashlock.rs\<close>, \<open>watcher.rs\<close> and the observation loop of
  \<open>bin/maestro.rs\<close>. The tracker is the \<open>HashMap\<close> from hashlocks to the legs seen and the
  preimage revealed; SHA-256 is the parameter \<open>sha\<close>. Where the code iterates over the map, the
  iteration order is the parameter \<open>iter\<close>, and the lemmas hold for every order.

  \<open>poll_into_tracker\<close> folds the decoded logs into the tracker. \<open>ev.timelock.to::<u64>()\<close> and
  \<open>ev.amount.to::<u128>()\<close> panic when the value does not fit, which is the error \<open>Panicked\<close>.

  The lemmas give the tracker's invariant (each leg is filed under its own hashlock, no leg
  twice, a stored preimage hashes to its key), what each event changes and leaves alone, the
  watchdog's list, and the two ways an adversary's lock disturbs an observer.
\<close>

definition hashlock_from_preimage :: "hash_fn \<Rightarrow> b32 \<Rightarrow> b32" where
  "hashlock_from_preimage sha preimage = sha (bytes_of preimage)"

datatype LegKind = First | Second

record Leg =
  leg_chain_id :: u64
  leg_contract_id :: b32
  leg_hashlock :: b32
  leg_timelock :: u64
  leg_amount :: u128
  leg_redeemed :: bool
  leg_refunded :: bool

record Tracked =
  tr_legs :: "Leg list"
  tr_preimage :: "b32 option"

type_synonym tracker = "b32 \<rightharpoonup> Tracked"
type_synonym iteration = "tracker \<Rightarrow> b32 list"

definition correlated :: "Tracked \<Rightarrow> bool" where
  "correlated s \<longleftrightarrow>
     length (tr_legs s) \<ge> 2 \<and> length (remdups_adj (sort (map leg_chain_id (tr_legs s)))) \<ge> 2"

definition tracked_default :: Tracked where
  "tracked_default = \<lparr>tr_legs = [], tr_preimage = None\<rparr>"

definition is_leg :: "u64 \<Rightarrow> b32 \<Rightarrow> Leg \<Rightarrow> bool" where
  "is_leg chain_id cid l \<longleftrightarrow> leg_chain_id l = chain_id \<and> leg_contract_id l = cid"

definition tracker_new :: tracker where
  "tracker_new = (\<lambda>_. None)"

definition on_new_swap ::
  "u64 \<Rightarrow> b32 \<Rightarrow> b32 \<Rightarrow> u64 \<Rightarrow> u128 \<Rightarrow> tracker \<Rightarrow> LegKind \<times> tracker" where
  "on_new_swap chain_id cid hashlock tm amount t =
     (let state = (case t hashlock of Some s \<Rightarrow> s | None \<Rightarrow> tracked_default);
          kind = (if tr_legs state = [] then First else Second);
          state' =
            (if \<not> list_ex (is_leg chain_id cid) (tr_legs state)
             then state\<lparr>tr_legs := tr_legs state @
               [\<lparr>leg_chain_id = chain_id, leg_contract_id = cid, leg_hashlock = hashlock,
                 leg_timelock = tm, leg_amount = amount,
                 leg_redeemed = False, leg_refunded = False\<rparr>]\<rparr>
             else state)
      in (kind, t(hashlock \<mapsto> state')))"

definition on_redeem :: "hash_fn \<Rightarrow> u64 \<Rightarrow> b32 \<Rightarrow> b32 \<Rightarrow> tracker \<Rightarrow> b32 option \<times> tracker" where
  "on_redeem sha chain_id cid preimage t =
     (let hashlock = hashlock_from_preimage sha preimage in
      case t hashlock of
        None \<Rightarrow> (None, t)
      | Some state \<Rightarrow>
          (Some hashlock,
           t(hashlock \<mapsto> state
              \<lparr>tr_preimage := Some preimage,
               tr_legs := map (\<lambda>l. if is_leg chain_id cid l then l\<lparr>leg_redeemed := True\<rparr> else l)
                            (tr_legs state)\<rparr>)))"

definition on_refund :: "u64 \<Rightarrow> b32 \<Rightarrow> b32 \<Rightarrow> tracker \<Rightarrow> tracker" where
  "on_refund chain_id cid hashlock t =
     (case t hashlock of
        None \<Rightarrow> t
      | Some state \<Rightarrow>
          t(hashlock \<mapsto> state
              \<lparr>tr_legs := map (\<lambda>l. if is_leg chain_id cid l then l\<lparr>leg_refunded := True\<rparr> else l)
                            (tr_legs state)\<rparr>))"

definition hashlock_of :: "iteration \<Rightarrow> u64 \<Rightarrow> b32 \<Rightarrow> tracker \<Rightarrow> b32 option" where
  "hashlock_of iter chain_id cid t =
     find (\<lambda>h. case t h of None \<Rightarrow> False | Some s \<Rightarrow> list_ex (is_leg chain_id cid) (tr_legs s))
       (iter t)"

definition preimage_for :: "b32 \<Rightarrow> tracker \<Rightarrow> b32 option" where
  "preimage_for hashlock t = (case t hashlock of None \<Rightarrow> None | Some s \<Rightarrow> tr_preimage s)"

definition correlated_hashlocks :: "iteration \<Rightarrow> tracker \<Rightarrow> b32 list" where
  "correlated_hashlocks iter t =
     filter (\<lambda>h. case t h of None \<Rightarrow> False | Some s \<Rightarrow> correlated s) (iter t)"

definition timed_out :: "iteration \<Rightarrow> u64 \<Rightarrow> tracker \<Rightarrow> (b32 \<times> u64 \<times> b32) list" where
  "timed_out iter now t =
     concat (map (\<lambda>h. case t h of
         None \<Rightarrow> []
       | Some s \<Rightarrow> map (\<lambda>l. (h, leg_chain_id l, leg_contract_id l))
           (filter (\<lambda>l. now \<ge> leg_timelock l \<and> \<not> leg_redeemed l \<and> \<not> leg_refunded l)
             (tr_legs s)))
       (iter t))"

subsection \<open>The watcher\<close>

text \<open>\<open>U256::to\<close>: the value if it fits, a panic if not.\<close>

definition u256_to :: "u256 \<Rightarrow> 'a::len word option" where
  "u256_to v = (if unat v < 2 ^ LENGTH('a) then Some (ucast v) else None)"

definition handle_event ::
  "hash_fn \<Rightarrow> iteration \<Rightarrow> u64 \<Rightarrow> htlc_event \<Rightarrow> tracker \<Rightarrow> tracker option" where
  "handle_event sha iter chain_id ev t =
     (case ev of
        LogNewSwap cid sender recipient token amount hashlock tm \<Rightarrow>
          (case u256_to tm of
             None \<Rightarrow> None
           | Some tm64 \<Rightarrow>
               (case u256_to amount of
                  None \<Rightarrow> None
                | Some amount128 \<Rightarrow>
                    Some (snd (on_new_swap chain_id cid hashlock tm64 amount128 t))))
      | LogRedeem cid preimage \<Rightarrow> Some (snd (on_redeem sha chain_id cid preimage t))
      | LogRefund cid \<Rightarrow>
          (case hashlock_of iter chain_id cid t of
             Some hashlock \<Rightarrow> Some (on_refund chain_id cid hashlock t)
           | None \<Rightarrow> Some t))"

fun process_logs ::
  "hash_fn \<Rightarrow> iteration \<Rightarrow> u64 \<Rightarrow> log list \<Rightarrow> nat \<Rightarrow> (tracker, string fault, nat) eff" where
  "process_logs sha iter chain_id [] count = ret count"
| "process_logs sha iter chain_id (l # logs) count =
     (case log_event l of
        None \<Rightarrow> process_logs sha iter chain_id logs count
      | Some ev \<Rightarrow>
          (\<lambda>t. case handle_event sha iter chain_id ev t of
                 None \<Rightarrow> (Inl Panicked, t)
               | Some t' \<Rightarrow> process_logs sha iter chain_id logs (count + 1) t'))"

definition poll_into_tracker ::
  "('p, 'w) net \<Rightarrow> hash_fn \<Rightarrow> iteration \<Rightarrow> 'p \<Rightarrow> address \<Rightarrow> u64 \<Rightarrow> u64 \<Rightarrow> u64 \<Rightarrow>
     (tracker \<times> ('p, 'w) env, string fault, nat) eff" where
  "poll_into_tracker n sha iter provider addr chain_id from_block to_block =
     bindE (map_errE Failed (with_env (rpc (get_logs n provider
        \<lparr>lf_address = addr, lf_new_swap_only = False, lf_topic1 = None,
         lf_from_block = from_block, lf_to_block = Some to_block\<rparr>))))
       (\<lambda>logs. zoom fst (\<lambda>t (_, v). (t, v)) (process_logs sha iter chain_id logs 0))"

text \<open>
  One turn of the maestro's loop, without its log lines and its sleep: both heads are read,
  then each chain is polled from its last block when there is something new. The loop itself
  never ends; \<open>watch\<close> runs \<open>k\<close> turns of it.
\<close>

record Maestro =
  last_a :: u64
  last_b :: u64
  m_tracker :: tracker

record 'p maestro_config =
  mc_provider_a :: 'p
  mc_chain_a :: u64
  mc_htlc_a :: address
  mc_provider_b :: 'p
  mc_chain_b :: u64
  mc_htlc_b :: address

definition on_tracker ::
  "(tracker \<times> 'v, 'e, 'a) eff \<Rightarrow> (Maestro \<times> 'v, 'e, 'a) eff" where
  "on_tracker m =
     zoom (\<lambda>(ms, v). (m_tracker ms, v)) (\<lambda>(t, v) (ms, _). (ms\<lparr>m_tracker := t\<rparr>, v)) m"

definition watch_chain_a ::
  "('p, 'w) net \<Rightarrow> hash_fn \<Rightarrow> iteration \<Rightarrow> 'p maestro_config \<Rightarrow> u64 \<Rightarrow>
     (Maestro \<times> ('p, 'w) env, string fault, unit) eff" where
  "watch_chain_a n sha iter c head_a =
     bindE (gets (last_a \<circ> fst)) (\<lambda>from.
       if head_a \<ge> from then
         thenE (on_tracker (poll_into_tracker n sha iter (mc_provider_a c) (mc_htlc_a c)
                  (mc_chain_a c) from head_a))
           (modify (\<lambda>(ms, v). (ms\<lparr>last_a := head_a + 1\<rparr>, v)))
       else ret ())"

definition watch_chain_b ::
  "('p, 'w) net \<Rightarrow> hash_fn \<Rightarrow> iteration \<Rightarrow> 'p maestro_config \<Rightarrow> u64 \<Rightarrow>
     (Maestro \<times> ('p, 'w) env, string fault, unit) eff" where
  "watch_chain_b n sha iter c head_b =
     bindE (gets (last_b \<circ> fst)) (\<lambda>from.
       if head_b \<ge> from then
         thenE (on_tracker (poll_into_tracker n sha iter (mc_provider_b c) (mc_htlc_b c)
                  (mc_chain_b c) from head_b))
           (modify (\<lambda>(ms, v). (ms\<lparr>last_b := head_b + 1\<rparr>, v)))
       else ret ())"

definition watch_turn ::
  "('p, 'w) net \<Rightarrow> hash_fn \<Rightarrow> iteration \<Rightarrow> 'p maestro_config \<Rightarrow>
     (Maestro \<times> ('p, 'w) env, string fault, (b32 \<times> b32 option) list \<times> (b32 \<times> u64 \<times> b32) list) eff"
where
  "watch_turn n sha iter c =
     bindE (map_errE Failed (with_env (rpc (get_block_number n (mc_provider_a c))))) (\<lambda>head_a.
     bindE (map_errE Failed (with_env (rpc (get_block_number n (mc_provider_b c))))) (\<lambda>head_b.
     thenE (watch_chain_a n sha iter c head_a)
    (thenE (watch_chain_b n sha iter c head_b)
    (bindE (gets (m_tracker \<circ> fst)) (\<lambda>t.
     bindE (with_env (ask (clock_now n))) (\<lambda>now.
     ret (map (\<lambda>h. (h, preimage_for h t)) (correlated_hashlocks iter t), timed_out iter now t)))))))"

fun watch ::
  "nat \<Rightarrow> ('p, 'w) net \<Rightarrow> hash_fn \<Rightarrow> iteration \<Rightarrow> 'p maestro_config \<Rightarrow>
     (Maestro \<times> ('p, 'w) env, string fault, unit) eff" where
  "watch 0 n sha iter c = ret ()"
| "watch (Suc k) n sha iter c = thenE (watch_turn n sha iter c) (watch k n sha iter c)"

definition maestro_start :: Maestro where
  "maestro_start = \<lparr>last_a = 0, last_b = 0, m_tracker = tracker_new\<rparr>"

subsection \<open>The invariant\<close>

definition leg_key :: "Leg \<Rightarrow> u64 \<times> b32" where
  "leg_key l = (leg_chain_id l, leg_contract_id l)"

definition tracked_ok :: "hash_fn \<Rightarrow> b32 \<Rightarrow> Tracked \<Rightarrow> bool" where
  "tracked_ok sha h s \<longleftrightarrow>
     tr_legs s \<noteq> [] \<and>
     list_all (\<lambda>l. leg_hashlock l = h) (tr_legs s) \<and>
     distinct (map leg_key (tr_legs s)) \<and>
     (case tr_preimage s of None \<Rightarrow> True | Some p \<Rightarrow> hashlock_from_preimage sha p = h)"

definition tracker_inv :: "hash_fn \<Rightarrow> tracker \<Rightarrow> bool" where
  "tracker_inv sha t \<longleftrightarrow> (\<forall>h s. t h = Some s \<longrightarrow> tracked_ok sha h s)"

lemma tracker_invD: "tracker_inv sha t \<Longrightarrow> t h = Some s \<Longrightarrow> tracked_ok sha h s"
  by (simp add: tracker_inv_def)

lemma tracker_inv_upd:
  "tracker_inv sha t \<Longrightarrow> tracked_ok sha h s \<Longrightarrow> tracker_inv sha (t(h \<mapsto> s))"
  by (simp add: tracker_inv_def)

lemma is_leg_key: "is_leg chain_id cid l \<longleftrightarrow> leg_key l = (chain_id, cid)"
  by (simp add: is_leg_def leg_key_def)

lemma leg_flags_key [simp]:
  "leg_key (l\<lparr>leg_redeemed := b\<rparr>) = leg_key l" "leg_key (l\<lparr>leg_refunded := b\<rparr>) = leg_key l"
  by (simp_all add: leg_key_def)

lemma tracked_ok_flags:
  assumes "tracked_ok sha h s" and "\<And>l. leg_key (f l) = leg_key l"
    and "\<And>l. leg_hashlock (f l) = leg_hashlock l"
  shows "tracked_ok sha h (s\<lparr>tr_legs := map f (tr_legs s)\<rparr>)"
  using assms by (simp add: tracked_ok_def list_all_iff comp_def)

lemma tracked_ok_preimage:
  "tracked_ok sha h s \<Longrightarrow> hashlock_from_preimage sha p = h \<Longrightarrow>
     tracked_ok sha h (s\<lparr>tr_preimage := Some p\<rparr>)"
  by (simp add: tracked_ok_def)

lemma on_new_swap_inv:
  assumes "tracker_inv sha t"
  shows "tracker_inv sha (snd (on_new_swap chain_id cid h tm amount t))"
proof -
  let ?s = "case t h of Some s \<Rightarrow> s | None \<Rightarrow> tracked_default"
  have s: "t h = Some ?s \<and> tracked_ok sha h ?s \<or> ?s = tracked_default"
    using tracker_invD [OF assms] by (auto split: option.split)
  show ?thesis
    unfolding on_new_swap_def Let_def snd_conv
    using s by (intro tracker_inv_upd [OF assms])
      (auto simp: tracked_ok_def tracked_default_def is_leg_key list_ex_iff list_all_iff leg_key_def)
qed

lemma on_redeem_inv:
  assumes "tracker_inv sha t"
  shows "tracker_inv sha (snd (on_redeem sha chain_id cid p t))"
proof (cases "t (hashlock_from_preimage sha p)")
  case None
  then show ?thesis using assms by (simp add: on_redeem_def)
next
  case (Some s)
  from tracked_ok_flags [OF tracked_ok_preimage [OF tracker_invD [OF assms Some] refl],
      of "\<lambda>l. if is_leg chain_id cid l then l\<lparr>leg_redeemed := True\<rparr> else l"]
  have "tracked_ok sha (hashlock_from_preimage sha p)
      (s\<lparr>tr_preimage := Some p,
         tr_legs := map (\<lambda>l. if is_leg chain_id cid l then l\<lparr>leg_redeemed := True\<rparr> else l)
           (tr_legs s)\<rparr>)"
    by simp
  then show ?thesis
    by (simp add: on_redeem_def Let_def Some tracker_inv_upd [OF assms])
qed

lemma on_refund_inv:
  assumes "tracker_inv sha t"
  shows "tracker_inv sha (on_refund chain_id cid h t)"
proof (cases "t h")
  case None
  then show ?thesis using assms by (simp add: on_refund_def)
next
  case (Some s)
  from tracked_ok_flags [OF tracker_invD [OF assms Some],
      of "\<lambda>l. if is_leg chain_id cid l then l\<lparr>leg_refunded := True\<rparr> else l"]
  show ?thesis by (simp add: on_refund_def Some tracker_inv_upd [OF assms])
qed

lemma handle_event_inv:
  "tracker_inv sha t \<Longrightarrow> handle_event sha iter chain_id ev t = Some t' \<Longrightarrow> tracker_inv sha t'"
  by (auto simp: handle_event_def on_new_swap_inv on_redeem_inv on_refund_inv
      split: htlc_event.splits option.splits)

text \<open>An invariant is a frame, so it passes through the monad.\<close>

interpretation keeping: frame "\<lambda>s t. inv s \<longrightarrow> inv t" for inv :: "'s \<Rightarrow> bool"
  by unfold_locales auto

lemma process_logs_inv:
  "tracker_inv sha t \<Longrightarrow> tracker_inv sha (snd (process_logs sha iter chain_id logs count t))"
proof (induction logs arbitrary: count t)
  case Nil
  then show ?case by (simp add: ret_def)
next
  case (Cons l logs)
  then show ?case
    by (auto split: option.split intro: handle_event_inv)
qed

lemma poll_into_tracker_inv:
  "keeps (\<lambda>s t. tracker_inv sha (fst s) \<longrightarrow> tracker_inv sha (fst t))
     (poll_into_tracker n sha iter provider addr chain_id from_block to_block)"
  unfolding poll_into_tracker_def
  by (intro keeping.keeps_bindE keeping.keeps_map_errE)
    (auto simp: keeps_def eff_simps process_logs_inv)

lemma on_tracker_inv:
  "keeps (\<lambda>s t. tracker_inv sha (fst s) \<longrightarrow> tracker_inv sha (fst t)) m \<Longrightarrow>
     keeps (\<lambda>s t. tracker_inv sha (m_tracker (fst s)) \<longrightarrow> tracker_inv sha (m_tracker (fst t)))
       (on_tracker m)"
  by (auto simp: keeps_def on_tracker_def eff_simps case_prod_unfold)

lemma watch_turn_inv:
  "keeps (\<lambda>s t. tracker_inv sha (m_tracker (fst s)) \<longrightarrow> tracker_inv sha (m_tracker (fst t)))
     (watch_turn n sha iter c)"
  unfolding watch_turn_def watch_chain_a_def watch_chain_b_def
  by (intro keeping.keeps_rules on_tracker_inv poll_into_tracker_inv)
    (auto simp: keeps_def eff_simps)

lemma watch_inv:
  "keeps (\<lambda>s t. tracker_inv sha (m_tracker (fst s)) \<longrightarrow> tracker_inv sha (m_tracker (fst t)))
     (watch k n sha iter c)"
  by (induction k) (auto intro: keeping.keeps_rules watch_turn_inv)

text \<open>
  The maestro's tracker, after any number of turns of the loop, for any answers of the two
  nodes and any iteration order of its map: every entry holds at least one leg, all filed under
  the entry's own hashlock, no leg (chain and contract) twice, and the preimage stored in an
  entry hashes to the entry's key.
\<close>

theorem maestro_tracker_invariant:
  "tracker_inv sha (m_tracker (fst (snd (watch k n sha iter c (maestro_start, v)))))"
proof -
  have "tracker_inv sha (m_tracker (fst (maestro_start, v)))"
    by (simp add: tracker_inv_def maestro_start_def tracker_new_def)
  then show ?thesis using keepsD [OF watch_inv, of sha "(maestro_start, v)"] by blast
qed

subsection \<open>The watchdog\<close>

text \<open>
  The watchdog reports exactly the legs that are past their timelock and were neither
  redeemed nor refunded, in whatever order the map is iterated.
\<close>

theorem timed_out_exact:
  assumes "set (iter t) = dom t"
  shows "set (timed_out iter now t) =
    {(h, leg_chain_id l, leg_contract_id l) | h s l.
       t h = Some s \<and> l \<in> set (tr_legs s) \<and> leg_timelock l \<le> now \<and>
       \<not> leg_redeemed l \<and> \<not> leg_refunded l}"
proof -
  have entry: "x \<in> set (case t h of
         None \<Rightarrow> []
       | Some s \<Rightarrow> map (\<lambda>l. (h, leg_chain_id l, leg_contract_id l))
           (filter (\<lambda>l. now \<ge> leg_timelock l \<and> \<not> leg_redeemed l \<and> \<not> leg_refunded l)
             (tr_legs s))) \<longleftrightarrow>
      (\<exists>s l. t h = Some s \<and> x = (h, leg_chain_id l, leg_contract_id l) \<and> l \<in> set (tr_legs s) \<and>
         leg_timelock l \<le> now \<and> \<not> leg_redeemed l \<and> \<not> leg_refunded l)" for x h
    by (cases "t h") auto
  show ?thesis
    unfolding timed_out_def set_concat set_map assms
    by (auto simp: entry)
qed

subsection \<open>Learning the secret\<close>

lemma on_new_swap_preimage:
  "preimage_for h (snd (on_new_swap chain_id cid h' tm amount t)) = preimage_for h t"
  by (simp add: on_new_swap_def preimage_for_def Let_def tracked_default_def split: option.split)

lemma on_refund_preimage: "preimage_for h (on_refund chain_id cid h' t) = preimage_for h t"
  by (simp add: on_refund_def preimage_for_def split: option.split)

lemma on_redeem_preimage:
  "preimage_for h (snd (on_redeem sha chain_id cid p t)) =
     (if h = hashlock_from_preimage sha p \<and> t h \<noteq> None then Some p else preimage_for h t)"
  by (auto simp: on_redeem_def preimage_for_def Let_def split: option.split)

lemma on_redeem_dom [simp]: "dom (snd (on_redeem sha chain_id cid p t)) = dom t"
  by (auto simp: on_redeem_def Let_def split: option.split)

lemma on_refund_dom [simp]: "dom (on_refund chain_id cid h t) = dom t"
  by (auto simp: on_refund_def split: option.split)

lemma on_new_swap_dom [simp]: "dom (snd (on_new_swap chain_id cid h tm amount t)) = insert h (dom t)"
  by (simp add: on_new_swap_def Let_def)

lemma handle_event_dom:
  "handle_event sha iter chain_id ev t = Some t' \<Longrightarrow>
     dom t' = dom t \<union> (case ev of LogNewSwap _ _ _ _ _ h _ \<Rightarrow> {h} | _ \<Rightarrow> {})"
  by (cases ev) (clarsimp simp: handle_event_def split: option.splits)+

lemma handle_event_preimage:
  "handle_event sha iter chain_id ev t = Some t' \<Longrightarrow>
     preimage_for h t \<noteq> None \<Longrightarrow> preimage_for h t' \<noteq> None"
  by (auto simp: handle_event_def on_new_swap_preimage on_refund_preimage on_redeem_preimage
      split: htlc_event.splits option.splits if_splits)

lemma handle_event_known:
  "handle_event sha iter chain_id ev t = Some t' \<Longrightarrow> dom t \<subseteq> dom t' \<and>
     (preimage_for h t \<noteq> None \<longrightarrow> preimage_for h t' \<noteq> None)"
  using handle_event_dom [of sha iter chain_id ev t t']
    handle_event_preimage [of sha iter chain_id ev t t' h]
  by blast

lemma process_logs_known:
  "process_logs sha iter chain_id logs count t = (r, t') \<Longrightarrow> dom t \<subseteq> dom t' \<and>
     (preimage_for h t \<noteq> None \<longrightarrow> preimage_for h t' \<noteq> None)"
proof (induction logs arbitrary: count t)
  case Nil
  then show ?case by (simp add: ret_def)
next
  case (Cons l logs)
  show ?case
  proof (cases "log_event l")
    case None
    with Cons show ?thesis by auto
  next
    case (Some ev)
    show ?thesis
    proof (cases "handle_event sha iter chain_id ev t")
      case None
      with Cons.prems Some show ?thesis by auto
    next
      case t1: (Some t1)
      then have "process_logs sha iter chain_id logs (count + 1) t1 = (r, t')"
        using Cons.prems Some by simp
      from Cons.IH [OF this] handle_event_known [OF t1, of h] show ?thesis by blast
    qed
  qed
qed

lemma process_logs_learns:
  assumes "process_logs sha iter chain_id logs count t = (Inr c, t')"
    and "l \<in> set logs" and "log_event l = Some (LogRedeem cid p)"
    and "t (hashlock_from_preimage sha p) \<noteq> None"
  shows "preimage_for (hashlock_from_preimage sha p) t' \<noteq> None"
  using assms(1,2,4)
proof (induction logs arbitrary: count t)
  case Nil
  then show ?case by simp
next
  case (Cons l' logs)
  let ?h = "hashlock_from_preimage sha p"
  show ?case
  proof (cases "log_event l'")
    case None
    with Cons assms(3) show ?thesis by auto
  next
    case (Some ev)
    then obtain t1 where t1: "handle_event sha iter chain_id ev t = Some t1"
      and rest: "process_logs sha iter chain_id logs (count + 1) t1 = (Inr c, t')"
      using Cons.prems(1) by (auto split: option.splits)
    have "t1 ?h \<noteq> None"
      using handle_event_known [OF t1] Cons.prems(3) by blast
    show ?thesis
    proof (cases "l = l'")
      case False
      with Cons.IH [OF rest] Cons.prems(2) \<open>t1 ?h \<noteq> None\<close> show ?thesis by simp
    next
      case True
      then have "preimage_for ?h t1 = Some p"
        using t1 Some assms(3) Cons.prems(3)
        by (auto simp: handle_event_def on_redeem_preimage)
      then show ?thesis using process_logs_known [OF rest, of ?h] by simp
    qed
  qed
qed

text \<open>
  Learning the secret. If a poll succeeds and the node's logs contain the redeem of any
  contract with a preimage of a hashlock the tracker already followed, then after the poll the
  tracker holds a preimage of that hashlock, which is what an executor reads back.
\<close>

theorem watcher_learns_secret:
  assumes "tracker_inv sha t"
    and "poll_into_tracker n sha iter provider addr chain_id from_block to_block (t, v) =
      (Inr c, (t', v'))"
    and "fst (get_logs n provider
        \<lparr>lf_address = addr, lf_new_swap_only = False, lf_topic1 = None,
         lf_from_block = from_block, lf_to_block = Some to_block\<rparr> (world v)) = Inr logs"
    and "l \<in> set logs" and "log_event l = Some (LogRedeem cid p)"
    and "t (hashlock_from_preimage sha p) \<noteq> None"
  shows "\<exists>p'. preimage_for (hashlock_from_preimage sha p) t' = Some p' \<and>
    hashlock_from_preimage sha p' = hashlock_from_preimage sha p"
proof -
  let ?h = "hashlock_from_preimage sha p"
  have run: "process_logs sha iter chain_id logs 0 t = (Inr c, t')"
    using assms(2,3) by (auto simp: poll_into_tracker_def eff_simps prod_eq_iff split: sum.splits)
  from process_logs_learns [OF run assms(4,5,6)] obtain p' where p': "preimage_for ?h t' = Some p'"
    by blast
  have "tracker_inv sha t'"
    using process_logs_inv [OF assms(1), of iter chain_id logs 0] run by simp
  then have "hashlock_from_preimage sha p' = ?h"
    using p' by (auto simp: preimage_for_def tracked_ok_def dest!: tracker_invD split: option.splits)
  with p' show ?thesis by blast
qed

definition leg_example :: Leg where
  "leg_example =
     \<lparr>leg_chain_id = 31337, leg_contract_id = fill 1, leg_hashlock = fill 9, leg_timelock = 100,
      leg_amount = 5, leg_redeemed = False, leg_refunded = False\<rparr>"

definition tracker_example :: tracker where
  "tracker_example = [fill 9 \<mapsto> \<lparr>tr_legs = [leg_example], tr_preimage = None\<rparr>]"

lemma tracker_example_inv: "tracker_inv sha tracker_example"
  by (simp add: tracker_inv_def tracker_example_def tracked_ok_def leg_example_def)

lemma timed_out_exact_witness:
  "(fill 9, 31337, fill 1) \<in> set (timed_out (\<lambda>_. [fill 9]) 100 tracker_example)"
proof -
  have "set [fill 9] = dom tracker_example"
    by (simp add: tracker_example_def)
  from timed_out_exact [of "\<lambda>_. [fill 9]", OF this, of 100] show ?thesis
    by (simp add: tracker_example_def leg_example_def)
qed

definition redeem_log_example :: log where
  "redeem_log_example =
     \<lparr>log_event = Some (LogRedeem (fill 1) (fill 9)), log_block_number = Some 3\<rparr>"

lemma watcher_learns_secret_witness:
  "\<exists>t' v'. snd (poll_into_tracker
       (quiet_net\<lparr>get_logs := \<lambda>p f w. (Inr [redeem_log_example], w)\<rparr>) toy_hash (\<lambda>_. [fill 9])
       () (fill 2) 31337 0 10 (tracker_example, \<lparr>world = (), sent = []\<rparr>)) = (t', v') \<and>
     preimage_for (fill 9) t' \<noteq> None"
proof -
  let ?n = "quiet_net\<lparr>get_logs := \<lambda>p f w. (Inr [redeem_log_example], w)\<rparr> :: (unit, unit) net"
  let ?s = "(tracker_example, \<lparr>world = (), sent = []\<rparr>)"
  let ?poll = "poll_into_tracker ?n toy_hash (\<lambda>_. [fill 9]) () (fill 2) 31337 0 10 ?s"
  have "fst ?poll = Inr 1"
    by (simp add: poll_into_tracker_def eff_simps redeem_log_example_def handle_event_def)
  then obtain t' v' where "?poll = (Inr 1, (t', v'))"
    by (metis prod.collapse)
  with watcher_learns_secret [OF tracker_example_inv this, of "[redeem_log_example]"
      redeem_log_example "fill 1" "fill 9"]
  show ?thesis
    by (auto simp: redeem_log_example_def hashlock_from_preimage_def tracker_example_def)
qed

subsection \<open>Logs that stop the watcher\<close>

definition oversized :: "log \<Rightarrow> bool" where
  "oversized l \<longleftrightarrow>
     (case log_event l of
        Some (LogNewSwap _ _ _ _ amount _ tm) \<Rightarrow> 2 ^ 64 \<le> unat tm \<or> 2 ^ 128 \<le> unat amount
      | _ \<Rightarrow> False)"

lemma oversized_iff:
  "oversized l \<longleftrightarrow>
     (\<exists>cid sender recipient token amount hashlock tm.
        log_event l = Some (LogNewSwap cid sender recipient token amount hashlock tm) \<and>
        (2 ^ 64 \<le> unat tm \<or> 2 ^ 128 \<le> unat amount))"
proof (cases "log_event l")
  case None
  then show ?thesis by (simp add: oversized_def)
next
  case (Some ev)
  then show ?thesis by (cases ev) (simp_all add: oversized_def)
qed

lemma u256_to_None: "(u256_to v :: 'a::len word option) = None \<longleftrightarrow> 2 ^ LENGTH('a) \<le> unat v"
  by (simp add: u256_to_def not_less)

lemma u256_to_Some:
  "u256_to v = Some (w :: 'a::len word) \<longleftrightarrow> unat v < 2 ^ LENGTH('a) \<and> w = ucast v"
  by (auto simp: u256_to_def)

lemma handle_event_None:
  "handle_event sha iter chain_id ev t = None \<longleftrightarrow>
     (case ev of LogNewSwap _ _ _ _ amount _ tm \<Rightarrow> 2 ^ 64 \<le> unat tm \<or> 2 ^ 128 \<le> unat amount
      | _ \<Rightarrow> False)"
  by (cases ev) (auto simp: handle_event_def u256_to_None u256_to_Some split: option.splits)

lemma process_logs_panics:
  "fst (process_logs sha iter chain_id logs count t) =
     (if list_ex oversized logs then Inl Panicked
      else Inr (count + length (filter (\<lambda>l. log_event l \<noteq> None) logs)))"
proof (induction logs arbitrary: count t)
  case Nil
  then show ?case by (simp add: ret_def)
next
  case (Cons l logs)
  show ?case
  proof (cases "log_event l")
    case None
    then show ?thesis by (simp add: Cons.IH oversized_def)
  next
    case (Some ev)
    show ?thesis
      using handle_event_None [of sha iter chain_id ev t] Some
      by (auto simp: Cons.IH oversized_def split: option.splits htlc_event.splits)
  qed
qed

text \<open>
  C37. The watcher panics exactly when one of the logs it fetched is a \<open>LogNewSwap\<close> whose
  timelock needs more than 64 bits or whose amount needs more than 128; nothing else about the
  logs, its own swap or the tracker matters. Both fields are 256-bit in the contract, which
  does not bound them, so anyone can emit such a log.
\<close>

theorem watcher_panics_iff:
  "fst (poll_into_tracker n sha iter provider addr chain_id from_block to_block (t, v)) =
      Inl Panicked \<longleftrightarrow>
   (\<exists>logs. fst (get_logs n provider
        \<lparr>lf_address = addr, lf_new_swap_only = False, lf_topic1 = None,
         lf_from_block = from_block, lf_to_block = Some to_block\<rparr> (world v)) = Inr logs \<and>
      (\<exists>l cid sender recipient token amount hashlock tm.
         l \<in> set logs \<and>
         log_event l = Some (LogNewSwap cid sender recipient token amount hashlock tm) \<and>
         (2 ^ 64 \<le> unat tm \<or> 2 ^ 128 \<le> unat amount)))"
proof -
  have "list_ex oversized logs \<longleftrightarrow>
      (\<exists>l cid sender recipient token amount hashlock tm.
         l \<in> set logs \<and>
         log_event l = Some (LogNewSwap cid sender recipient token amount hashlock tm) \<and>
         (2 ^ 64 \<le> unat tm \<or> 2 ^ 128 \<le> unat amount))" for logs
    unfolding list_ex_iff oversized_iff by blast
  then show ?thesis
    by (auto simp: poll_into_tracker_def eff_simps process_logs_panics map_err_eq_Inl
        split: sum.splits)
qed

end
