(* ===== verification/Kael_Chain.thy ===== *)
theory Kael_Chain
  imports Kael_Verify Kael_Tracker
begin

section \<open>Reading the chain: locks, confirmations, discovery\<close>

text \<open>
  Models \<open>swapkit/src/chain.rs\<close>, \<open>exec/confirm.rs\<close> and \<open>exec/observe.rs\<close>: the mapping from the
  contract's swap to an observed lock, the confirmation depth, the RPC verifier, and the
  observer that discovers the opposite contract through the maestro's tracker and reads it
  through a verifier.

  The trait \<open>ChainVerifier\<close> is the argument \<open>observe_lock\<close> of the observer's operations. Its
  contract is the locale \<open>chain_verifier\<close>, in which what the executor needs of an observation is
  proved, and which the RPC verifier of \<open>chain.rs\<close> satisfies.
\<close>

datatype ChainError =
    BadUrl string
  | Rpc string
  | Decode string
  | AmountOverflow
  | TimelockOverflow

datatype LockObservation = Confirmed ObservedLock | Shallow | Absent

text \<open>The addition wraps, as in a release build, for a head of \<open>u64::MAX\<close> and block 0.\<close>

definition confirmations :: "u64 \<Rightarrow> u64 \<Rightarrow> u64" where
  "confirmations head block = saturating_sub head block + 1"

definition for_gate :: "LockObservation \<Rightarrow> ObservedLock option" where
  "for_gate ob = (case ob of Confirmed l \<Rightarrow> Some l | Shallow \<Rightarrow> None | Absent \<Rightarrow> None)"

record RawSwap =
  raw_sender :: address
  raw_recipient :: address
  raw_token :: address
  raw_amount :: u128
  raw_hashlock :: b32
  raw_timelock :: u64
  raw_withdrawn :: bool
  raw_refunded :: bool

definition observed_from_swap :: "RawSwap \<Rightarrow> ObservedLock" where
  "observed_from_swap s =
     (let active = raw_sender s \<noteq> 0 \<and> \<not> raw_withdrawn s \<and> \<not> raw_refunded s in
      \<lparr>ol_hashlock = raw_hashlock s, ol_token = raw_token s, ol_amount = raw_amount s,
       ol_recipient = raw_recipient s, ol_timelock = raw_timelock s, ol_sender = raw_sender s,
       ol_exists = active\<rparr>)"

record 'p RpcVerifier =
  rv_provider :: 'p

definition u256_to_u128 :: "u256 \<Rightarrow> ChainError + u128" where
  "u256_to_u128 v = ok_or AmountOverflow (u256_to v)"

definition u256_to_u64 :: "u256 \<Rightarrow> ChainError + u64" where
  "u256_to_u64 v = ok_or TimelockOverflow (u256_to v)"

definition creation_filter :: "address \<Rightarrow> b32 \<Rightarrow> log_filter" where
  "creation_filter htlc cid =
     \<lparr>lf_address = htlc, lf_new_swap_only = True, lf_topic1 = Some cid,
      lf_from_block = 0, lf_to_block = None\<rparr>"

definition creation_block ::
  "('p, 'w) net \<Rightarrow> 'p RpcVerifier \<Rightarrow> address \<Rightarrow> b32 \<Rightarrow>
     (('p, 'w) env, ChainError, u64 option) eff" where
  "creation_block n rv htlc cid =
     bindE (map_errE Rpc (rpc (get_logs n (rv_provider rv) (creation_filter htlc cid)))) (\<lambda>logs.
     ret (case logs of [] \<Rightarrow> None | l # _ \<Rightarrow> log_block_number l))"

definition rpc_observe_lock ::
  "('p, 'w) net \<Rightarrow> 'p RpcVerifier \<Rightarrow> address \<Rightarrow> b32 \<Rightarrow> u64 \<Rightarrow>
     (('p, 'w) env, ChainError, LockObservation) eff" where
  "rpc_observe_lock n rv htlc cid min_confirmations =
     bindE (map_errE Rpc (rpc (call_getSwap n (rv_provider rv) htlc cid))) (\<lambda>swap.
     bindE (of_result (u256_to_u128 (sw_amount swap))) (\<lambda>amount.
     bindE (of_result (u256_to_u64 (sw_timelock swap))) (\<lambda>tm.
     let raw =
           \<lparr>raw_sender = sw_sender swap, raw_recipient = sw_recipient swap,
            raw_token = sw_token swap, raw_amount = amount, raw_hashlock = sw_hashlock swap,
            raw_timelock = tm, raw_withdrawn = sw_withdrawn swap,
            raw_refunded = sw_refunded swap\<rparr>;
         observed = observed_from_swap raw
     in
       if \<not> ol_exists observed then ret Absent
       else
         bindE (map_errE Rpc (rpc (get_block_number n (rv_provider rv)))) (\<lambda>head.
         bindE (creation_block n rv htlc cid) (\<lambda>cb.
         let confs = (case cb of Some b \<Rightarrow> confirmations head b | None \<Rightarrow> 0)
         in
           if confs \<ge> min_confirmations then ret (Confirmed observed) else ret Shallow)))))"

subsection \<open>Confirmations of an own transaction\<close>

definition confirmations_of ::
  "('p, 'w) net \<Rightarrow> 'p \<Rightarrow> b32 \<Rightarrow> (('p, 'w) env, ChainError, u64) eff" where
  "confirmations_of n provider tx_hash =
     bindE (map_errE Rpc (rpc (get_transaction_receipt n provider tx_hash))) (\<lambda>rcpt.
     case Option.bind rcpt r_block_number of
       None \<Rightarrow> ret 0
     | Some block \<Rightarrow>
         bindE (map_errE Rpc (rpc (get_block_number n provider))) (\<lambda>head.
         ret (confirmations head block)))"

definition is_confirmed ::
  "('p, 'w) net \<Rightarrow> 'p \<Rightarrow> b32 \<Rightarrow> u64 \<Rightarrow> (('p, 'w) env, ChainError, bool) eff" where
  "is_confirmed n provider tx_hash min_confirmations =
     bindE (confirmations_of n provider tx_hash) (\<lambda>c. ret (c \<ge> min_confirmations))"

subsection \<open>The observer\<close>

record ('v, 'p) CounterpartyObserver =
  co_verifier :: 'v
  co_provider :: 'p
  co_htlc :: address
  co_chain_id :: u64
  co_tracker :: tracker
  co_next_block :: u64

definition observer_new ::
  "'v \<Rightarrow> 'p \<Rightarrow> address \<Rightarrow> u64 \<Rightarrow> ('v, 'p) CounterpartyObserver" where
  "observer_new verifier provider cp_htlc cp_chain_id =
     \<lparr>co_verifier = verifier, co_provider = provider, co_htlc = cp_htlc,
      co_chain_id = cp_chain_id, co_tracker = tracker_new, co_next_block = 0\<rparr>"

definition poll_error :: "string fault \<Rightarrow> ChainError fault" where
  "poll_error e = (case e of Panicked \<Rightarrow> Panicked | Failed m \<Rightarrow> Failed (Rpc m))"

definition on_co_tracker ::
  "(tracker \<times> 'e, 'f, 'a) eff \<Rightarrow> (('v, 'p) CounterpartyObserver \<times> 'e, 'f, 'a) eff" where
  "on_co_tracker m =
     zoom (\<lambda>(ob, v). (co_tracker ob, v)) (\<lambda>(t, v) (ob, _). (ob\<lparr>co_tracker := t\<rparr>, v)) m"

definition observer_poll ::
  "('p, 'w) net \<Rightarrow> hash_fn \<Rightarrow> iteration \<Rightarrow>
     (('v, 'p) CounterpartyObserver \<times> ('p, 'w) env, ChainError fault, unit) eff" where
  "observer_poll n sha iter =
     bindE (gets fst) (\<lambda>ob.
     bindE (map_errE (Failed \<circ> Rpc) (with_env (rpc (get_block_number n (co_provider ob))))) (\<lambda>head.
     if head < co_next_block ob then ret ()
     else
       thenE (map_errE poll_error (on_co_tracker
                (poll_into_tracker n sha iter (co_provider ob) (co_htlc ob) (co_chain_id ob)
                   (co_next_block ob) head)))
         (modify (\<lambda>(ob, v). (ob\<lparr>co_next_block := head + 1\<rparr>, v)))))"

definition discover_contract_id :: "b32 \<Rightarrow> ('v, 'p) CounterpartyObserver \<Rightarrow> b32 option" where
  "discover_contract_id hashlock ob =
     (case co_tracker ob hashlock of
        None \<Rightarrow> None
      | Some s \<Rightarrow>
          map_option leg_contract_id
            (find (\<lambda>l. leg_chain_id l = co_chain_id ob) (tr_legs s)))"

type_synonym ('v, 'p, 'w) lock_reader =
  "'v \<Rightarrow> address \<Rightarrow> b32 \<Rightarrow> u64 \<Rightarrow> (('p, 'w) env, ChainError, LockObservation) eff"

definition observe ::
  "('p, 'w) net \<Rightarrow> hash_fn \<Rightarrow> iteration \<Rightarrow> ('v, 'p, 'w) lock_reader \<Rightarrow> b32 \<Rightarrow> u64 \<Rightarrow>
     (('v, 'p) CounterpartyObserver \<times> ('p, 'w) env, ChainError fault, LockObservation) eff" where
  "observe n sha iter observe_lock hashlock min_confirmations =
     thenE (observer_poll n sha iter)
    (bindE (gets fst) (\<lambda>ob.
     case discover_contract_id hashlock ob of
       Some cid \<Rightarrow>
         map_errE Failed (with_env (observe_lock (co_verifier ob) (co_htlc ob) cid min_confirmations))
     | None \<Rightarrow> ret Absent))"

definition observer_revealed_secret :: "b32 \<Rightarrow> ('v, 'p) CounterpartyObserver \<Rightarrow> b32 option" where
  "observer_revealed_secret hashlock ob = preimage_for hashlock (co_tracker ob)"

subsection \<open>What a confirmed observation means\<close>

lemma u256_conversions:
  "u256_to_u128 v = Inr a \<longleftrightarrow> unat v < 2 ^ 128 \<and> a = ucast v"
  "u256_to_u64 v = Inr b \<longleftrightarrow> unat v < 2 ^ 64 \<and> b = ucast v"
  by (simp_all add: u256_to_u128_def u256_to_u64_def u256_to_Some)

lemma confirmations_exact:
  "b \<le> h \<Longrightarrow> unat h - unat b < 2 ^ 64 - 1 \<Longrightarrow>
     unat (confirmations h b) = unat h - unat b + 1"
  by (simp add: confirmations_def unat_word_ariths unat_saturating_sub)

lemma for_gate_Some: "for_gate r = Some ob \<longleftrightarrow> r = Confirmed ob"
  by (cases r) (simp_all add: for_gate_def)

definition swap_observation :: "SolSwap \<Rightarrow> ObservedLock" where
  "swap_observation sw =
     \<lparr>ol_hashlock = sw_hashlock sw, ol_token = sw_token sw, ol_amount = ucast (sw_amount sw),
      ol_recipient = sw_recipient sw, ol_timelock = ucast (sw_timelock sw),
      ol_sender = sw_sender sw, ol_exists = True\<rparr>"

definition swap_active :: "SolSwap \<Rightarrow> bool" where
  "swap_active sw \<longleftrightarrow>
     sw_sender sw \<noteq> 0 \<and> \<not> sw_withdrawn sw \<and> \<not> sw_refunded sw \<and>
     unat (sw_amount sw) < 2 ^ 128 \<and> unat (sw_timelock sw) < 2 ^ 64"

text \<open>The depth the reader computes from the head and the creation logs.\<close>

definition depth :: "u64 \<Rightarrow> log list \<Rightarrow> u64" where
  "depth head logs =
     (case logs of
        [] \<Rightarrow> 0
      | l # _ \<Rightarrow> (case log_block_number l of None \<Rightarrow> 0 | Some b \<Rightarrow> confirmations head b))"

lemma depth_eq:
  "depth head logs =
     (case (case logs of [] \<Rightarrow> None | l # _ \<Rightarrow> log_block_number l) of
        Some b \<Rightarrow> confirmations head b
      | None \<Rightarrow> 0)"
  by (simp add: depth_def split: list.split option.split)

lemma rpc_Inr:
  "rpc q v = (Inr a, v') \<longleftrightarrow> fst (q (world v)) = Inr a \<and> v' = v\<lparr>world := snd (q (world v))\<rparr>"
  by (auto simp: rpc_def)

lemma rpc_observe_lock_Confirmed:
  "rpc_observe_lock n rv htlc cid mc v = (Inr (Confirmed ob), v') \<longleftrightarrow>
     (\<exists>sw head logs.
        fst (call_getSwap n (rv_provider rv) htlc cid (world v)) = Inr sw \<and>
        swap_active sw \<and> ob = swap_observation sw \<and>
        (let w1 = snd (call_getSwap n (rv_provider rv) htlc cid (world v));
             w2 = snd (get_block_number n (rv_provider rv) w1);
             w3 = snd (get_logs n (rv_provider rv) (creation_filter htlc cid) w2)
         in
           fst (get_block_number n (rv_provider rv) w1) = Inr head \<and>
           fst (get_logs n (rv_provider rv) (creation_filter htlc cid) w2) = Inr logs \<and>
           mc \<le> depth head logs \<and> v' = v\<lparr>world := w3\<rparr>))"
  unfolding rpc_observe_lock_def creation_block_def
  by (auto simp: eff_Inr rpc_Inr u256_conversions Let_def depth_eq swap_active_def
      swap_observation_def observed_from_swap_def split: if_splits)

text \<open>
  What a confirmed lock is. For any node, \<open>observe_lock\<close> answers \<open>Confirmed\<close> with a lock
  exactly when the contract's swap exists and is neither withdrawn nor refunded, its amount
  and timelock fit the wallet's integers, the lock has exactly the swap's fields, and the
  creation log found is at least \<open>min_confirmations\<close> deep at the head read after the swap.
\<close>

theorem confirmed_lock_iff:
  "(\<exists>v'. rpc_observe_lock n rv htlc cid mc v = (Inr (Confirmed ob), v')) \<longleftrightarrow>
     (\<exists>sw head logs.
        fst (call_getSwap n (rv_provider rv) htlc cid (world v)) = Inr sw \<and>
        swap_active sw \<and> ob = swap_observation sw \<and>
        (let w1 = snd (call_getSwap n (rv_provider rv) htlc cid (world v));
             w2 = snd (get_block_number n (rv_provider rv) w1)
         in
           fst (get_block_number n (rv_provider rv) w1) = Inr head \<and>
           fst (get_logs n (rv_provider rv) (creation_filter htlc cid) w2) = Inr logs \<and>
           mc \<le> depth head logs))"
  unfolding rpc_observe_lock_Confirmed by (auto simp: Let_def)

subsection \<open>The contract of a verifier\<close>

lemma keeps_map_errE_rpc: "keeps (silent sent) (map_errE g (rpc q))"
  by (intro quiet.keeps_map_errE keeps_rpc)

lemma creation_block_silent: "keeps (silent sent) (creation_block n rv htlc cid)"
  unfolding creation_block_def by (intro quiet.keeps_rules keeps_map_errE_rpc)

lemma rpc_observe_lock_silent: "keeps (silent sent) (rpc_observe_lock n rv htlc cid mc)"
  unfolding rpc_observe_lock_def Let_def
  by (intro quiet.keeps_rules keeps_map_errE_rpc creation_block_silent)

text \<open>
  What the executor relies on: a confirmed lock is an active one, and observing sends nothing.
\<close>

locale chain_verifier =
  fixes observe_lock :: "'v \<Rightarrow> address \<Rightarrow> b32 \<Rightarrow> u64 \<Rightarrow> (('p, 'w) env, ChainError, LockObservation) eff"
  assumes confirmed_exists:
      "observe_lock vf htlc cid mc v = (Inr (Confirmed ob), v') \<Longrightarrow> ol_exists ob"
    and observe_lock_silent: "keeps (silent sent) (observe_lock vf htlc cid mc)"
begin

lemma observe_confirmed:
  assumes "observe n sha iter observe_lock h mc (ob, v) = (Inr r, (ob', v'))"
    and "for_gate r = Some l"
  shows "ol_exists l \<and>
    (\<exists>cid v1. discover_contract_id h ob' = Some cid \<and>
       observe_lock (co_verifier ob') (co_htlc ob') cid mc v1 = (Inr (Confirmed l), v'))"
proof -
  have r: "r = Confirmed l" using assms(2) by (simp add: for_gate_Some)
  from assms(1) obtain cid v1 where
    "discover_contract_id h ob' = Some cid"
    "observe_lock (co_verifier ob') (co_htlc ob') cid mc v1 = (Inr (Confirmed l), v')"
    by (auto simp: observe_def eff_Inr with_env_Inr r split: option.splits)
  then show ?thesis using confirmed_exists by blast
qed

end

interpretation rpc_verifier: chain_verifier "rpc_observe_lock n" for n :: "('p, 'w) net"
proof
  fix vf :: "'p RpcVerifier" and htlc cid mc and v v' :: "('p, 'w) env" and ob
  assume "rpc_observe_lock n vf htlc cid mc v = (Inr (Confirmed ob), v')"
  then show "ol_exists ob"
    by (auto simp: rpc_observe_lock_Confirmed swap_observation_def)
qed (rule rpc_observe_lock_silent)

subsection \<open>The observer's own state\<close>

lemma keeps_with_env': "keeps (silent sent) m \<Longrightarrow> keeps (silent (\<lambda>s. sent (snd s))) (with_env m)"
  using keeps_with_env [of m] by (simp add: comp_def)

lemma poll_into_tracker_silent:
  "keeps (silent (\<lambda>s. sent (snd s)))
     (poll_into_tracker n sha iter provider addr chain_id from_block to_block)"
  unfolding poll_into_tracker_def
  by (intro quiet.keeps_rules keeps_with_env' keeps_rpc)
    (auto simp: keeps_def silent_def eff_simps split: prod.split)

lemma on_co_tracker_silent:
  "keeps (silent (\<lambda>s. sent (snd s))) m \<Longrightarrow>
     keeps (silent (\<lambda>s. sent (snd s))) (on_co_tracker m)"
  unfolding on_co_tracker_def by (rule keeps_zoom_silent) (auto split: prod.splits)

lemma observer_poll_silent: "keeps (silent (\<lambda>s. sent (snd s))) (observer_poll n sha iter)"
  unfolding observer_poll_def
  by (intro quiet.keeps_rules on_co_tracker_silent poll_into_tracker_silent keeps_with_env'
      keeps_rpc keeps_modify_silent) (simp split: prod.split)

lemma observe_silent:
  assumes "\<And>vf htlc cid mc. keeps (silent sent) (observe_lock vf htlc cid mc)"
  shows "keeps (silent (\<lambda>s. sent (snd s))) (observe n sha iter observe_lock h mc)"
  unfolding observe_def
  by (intro quiet.keeps_rules observer_poll_silent keeps_with_env' assms)

text \<open>
  What every operation of an observer keeps: the invariant of its tracker, its addresses, and
  the contract it has discovered for a hashlock.
\<close>

definition observer_grows ::
  "hash_fn \<Rightarrow> ('v, 'p) CounterpartyObserver \<Rightarrow> ('v, 'p) CounterpartyObserver \<Rightarrow> bool" where
  "observer_grows sha a b \<longleftrightarrow>
     (tracker_inv sha (co_tracker a) \<longrightarrow> tracker_inv sha (co_tracker b)) \<and>
     co_verifier b = co_verifier a \<and> co_provider b = co_provider a \<and> co_htlc b = co_htlc a \<and>
     co_chain_id b = co_chain_id a \<and>
     (\<forall>h cid. discover_contract_id h a = Some cid \<longrightarrow> discover_contract_id h b = Some cid)"

interpretation growing: frame "\<lambda>s t. observer_grows sha (fst s) (fst t)" for sha
  by unfold_locales (auto simp: observer_grows_def)

definition first_on_chain :: "u64 \<Rightarrow> tracker \<Rightarrow> b32 \<Rightarrow> b32 option" where
  "first_on_chain chain_id t h =
     (case t h of
        None \<Rightarrow> None
      | Some s \<Rightarrow> map_option leg_contract_id (find (\<lambda>l. leg_chain_id l = chain_id) (tr_legs s)))"

lemma discover_eq:
  "discover_contract_id h ob = first_on_chain (co_chain_id ob) (co_tracker ob) h"
  by (simp add: discover_contract_id_def first_on_chain_def)

lemma find_map_same:
  assumes "\<And>x. P (f x) = P x"
  shows "find P (map f xs) = map_option f (find P xs)"
  using assms by (induction xs) auto

lemma find_append: "find P xs = Some x \<Longrightarrow> find P (xs @ ys) = Some x"
  by (induction xs) auto

lemma first_on_chain_new_swap:
  assumes "first_on_chain c t h = Some cid"
  shows "first_on_chain c (snd (on_new_swap chain_id k h' tm amount t)) h = Some cid"
proof (cases "h = h'")
  case True
  obtain s l where "t h = Some s" "find (\<lambda>l. leg_chain_id l = c) (tr_legs s) = Some l"
    "leg_contract_id l = cid"
    using assms by (auto simp: first_on_chain_def split: option.splits)
  with True show ?thesis
    by (simp add: on_new_swap_def first_on_chain_def Let_def find_append)
next
  case False
  then show ?thesis using assms by (simp add: on_new_swap_def first_on_chain_def Let_def)
qed

lemma first_on_chain_event:
  assumes "handle_event sha iter chain_id ev t = Some t'"
    and "first_on_chain c t h = Some cid"
  shows "first_on_chain c t' h = Some cid"
proof -
  obtain s where s: "t h = Some s"
    "map_option leg_contract_id (find (\<lambda>l. leg_chain_id l = c) (tr_legs s)) = Some cid"
    using assms(2) by (auto simp: first_on_chain_def split: option.splits)
  have flags: "map_option leg_contract_id (find (\<lambda>l. leg_chain_id l = c)
      (map (\<lambda>l. if is_leg d k l then f l else l) (tr_legs s))) = Some cid"
    if "\<And>l. leg_key (f l) = leg_key l" for d k and f :: "Leg \<Rightarrow> Leg"
  proof -
    have f: "leg_chain_id (f l) = leg_chain_id l" "leg_contract_id (f l) = leg_contract_id l" for l
      using that [of l] by (simp_all add: leg_key_def)
    have "find (\<lambda>l. leg_chain_id l = c) (map (\<lambda>l. if is_leg d k l then f l else l) (tr_legs s)) =
        map_option (\<lambda>l. if is_leg d k l then f l else l)
          (find (\<lambda>l. leg_chain_id l = c) (tr_legs s))"
      by (rule find_map_same) (simp add: f)
    then have "map_option leg_contract_id (find (\<lambda>l. leg_chain_id l = c)
          (map (\<lambda>l. if is_leg d k l then f l else l) (tr_legs s))) =
        map_option leg_contract_id (find (\<lambda>l. leg_chain_id l = c) (tr_legs s))"
      by (simp only: option.map_comp) (rule option.map_cong0, simp add: f)
    then show ?thesis using s(2) by (rule trans)
  qed
  show ?thesis
  proof (cases ev)
    case LogNewSwap
    then show ?thesis
      using assms first_on_chain_new_swap by (auto simp: handle_event_def split: option.splits)
  next
    case (LogRedeem k p)
    then show ?thesis
      using assms(1) s flags [of "leg_redeemed_update (\<lambda>_. True)" chain_id k]
      by (auto simp: handle_event_def on_redeem_def first_on_chain_def Let_def
          split: option.splits if_splits)
  next
    case (LogRefund k)
    then show ?thesis
      using assms(1) s flags [of "leg_refunded_update (\<lambda>_. True)" chain_id k]
      by (auto simp: handle_event_def on_refund_def first_on_chain_def
          split: option.splits if_splits)
  qed
qed

lemma first_on_chain_logs:
  "first_on_chain c t h = Some cid \<Longrightarrow>
     first_on_chain c (snd (process_logs sha iter chain_id logs count t)) h = Some cid"
proof (induction logs arbitrary: count t)
  case Nil
  then show ?case by (simp add: ret_def)
next
  case (Cons l logs)
  then show ?case by (auto split: option.split intro: first_on_chain_event)
qed

definition tracker_grows :: "hash_fn \<Rightarrow> tracker \<Rightarrow> tracker \<Rightarrow> bool" where
  "tracker_grows sha s t \<longleftrightarrow>
     (tracker_inv sha s \<longrightarrow> tracker_inv sha t) \<and>
     (\<forall>c h cid. first_on_chain c s h = Some cid \<longrightarrow> first_on_chain c t h = Some cid)"

interpretation tracking: frame "\<lambda>s t. tracker_grows sha (fst s) (fst t)" for sha
  by unfold_locales (auto simp: tracker_grows_def)

lemma poll_into_tracker_grows:
  "keeps (\<lambda>s t. tracker_grows sha (fst s) (fst t))
     (poll_into_tracker n sha iter provider addr chain_id from_block to_block)"
proof -
  have "tracker_grows sha t (snd (process_logs sha iter chain_id logs c t))" for t logs c
    by (simp add: tracker_grows_def process_logs_inv first_on_chain_logs)
  then show ?thesis
    unfolding poll_into_tracker_def
    by (intro tracking.keeps_rules)
      (auto simp: keeps_def eff_simps tracking.frame_refl [where s = "(_, ())", simplified])
qed

lemma on_co_tracker_grows:
  "keeps (\<lambda>s t. tracker_grows sha (fst s) (fst t)) m \<Longrightarrow>
     keeps (\<lambda>s t. observer_grows sha (fst s) (fst t)) (on_co_tracker m)"
  by (auto simp: keeps_def on_co_tracker_def eff_simps case_prod_unfold observer_grows_def
      tracker_grows_def discover_eq)

lemma with_env_grows: "keeps (\<lambda>s t. observer_grows sha (fst s) (fst t)) (with_env m)"
  by (auto simp: keeps_def eff_simps observer_grows_def)

lemma observer_poll_grows:
  "keeps (\<lambda>s t. observer_grows sha (fst s) (fst t)) (observer_poll n sha iter)"
  unfolding observer_poll_def
  by (intro growing.keeps_rules on_co_tracker_grows with_env_grows poll_into_tracker_grows)
    (auto simp: keeps_def eff_simps observer_grows_def discover_eq)

lemma observe_grows:
  "keeps (\<lambda>s t. observer_grows sha (fst s) (fst t)) (observe n sha iter observe_lock h mc)"
  unfolding observe_def
  by (intro growing.keeps_rules observer_poll_grows with_env_grows)

text \<open>
  First come, first read. Once an observer has discovered a contract for a hashlock, every
  later observation of that hashlock reads the same contract: no lock that appears on the chain
  afterwards, under whatever logs, replaces it. Whoever locks first under a hashlock therefore
  decides which contract the wallet verifies, so a worthless lock posted before the
  counterparty's hides the counterparty's.
\<close>

theorem discovery_is_stable:
  assumes "discover_contract_id h ob = Some cid"
  shows "discover_contract_id h
      (fst (snd (observe n sha iter observe_lock h' mc (ob, v)))) = Some cid"
  using keepsD [OF observe_grows, of sha "(ob, v)" n iter observe_lock h' mc] assms
  by (simp add: observer_grows_def)

lemma discovery_is_stable_witness:
  "discover_contract_id (fill 9) (fst (snd (observe quiet_net toy_hash (\<lambda>_. [])
     (rpc_observe_lock quiet_net) (fill 9) 1
     (observer_new \<lparr>rv_provider = ()\<rparr> () (fill 2) 31337 \<lparr>co_tracker := tracker_example\<rparr>,
      \<lparr>world = (), sent = []\<rparr>)))) = Some (fill 1)"
  by (rule discovery_is_stable)
    (simp add: discover_contract_id_def observer_new_def tracker_example_def leg_example_def)

text \<open>What an observer reveals for a hashlock is a preimage of it.\<close>

lemma revealed_secret_hash:
  "tracker_inv sha (co_tracker ob) \<Longrightarrow> observer_revealed_secret h ob = Some s \<Longrightarrow>
     hashlock_from_preimage sha s = h"
  by (auto simp: observer_revealed_secret_def preimage_for_def tracked_ok_def
      dest!: tracker_invD split: option.splits)

end
