(* ===== verification/Kael_Tx.thy ===== *)
theory Kael_Tx
  imports Kael_Eip712 Kael_Node Kael_Text
begin

section \<open>The signer and the transactions it sends\<close>

text \<open>
  Models \<open>swapkit/src/exec/signer.rs\<close> and \<open>exec/tx.rs\<close>: the allowlist of test chains, the
  construction of a signer, the contract id, and the five operations that broadcast. Keys, URLs
  and connections are opaque values made by the record \<open>clients\<close>; Keccak-256, the curve and the
  ABI encoder are the parameters \<open>kc\<close>, \<open>k\<close> and \<open>abi_encode_lock\<close>.

  The lemmas show that a signer exists for an allowlisted chain only, and give for each
  operation the plan of transactions it follows: what is handed to the node is a prefix of the
  plan, all of it when the operation succeeds, nothing for a zero amount.
\<close>

subsection \<open>The signer\<close>

definition ENV_KEY :: string where
  "ENV_KEY = ''KAEL_SIGNER_KEY''"

definition ALLOWED_TEST_CHAINS :: "u64 list" where
  "ALLOWED_TEST_CHAINS =
     [31337, 31338, 1337, 11155111, 17000, 11155420, 84532, 421614, 80002]"

datatype SignerError =
    S_MissingKey
  | S_BadKey string
  | S_BadUrl string
  | S_Rpc string
  | S_MainnetForbidden u64

text \<open>The texts \<open>Display\<close> gives these errors.\<close>

definition signer_error_text :: "SignerError \<Rightarrow> string" where
  "signer_error_text e =
     (case e of
        S_MissingKey \<Rightarrow> ''variable '' @ ENV_KEY @ '' is not set''
      | S_BadKey e \<Rightarrow> ''invalid key: '' @ e
      | S_BadUrl e \<Rightarrow> ''invalid RPC URL: '' @ e
      | S_Rpc e \<Rightarrow> ''failed to query chain-id: '' @ e
      | S_MainnetForbidden chain_id \<Rightarrow>
          ''REFUSED: chain-id '' @ dec (unat chain_id) @ '' is outside the test allowlist: '' @
          ''the executor does not sign where real value could be touched'')"

record 'p Signer =
  sg_provider :: 'p
  sg_address :: address
  sg_chain_id :: u64

record ('u, 'k, 'p) clients =
  parse_url :: "string \<Rightarrow> string + 'u"
  connect_http :: "'u \<Rightarrow> 'p"
  connect_wallet :: "'k \<Rightarrow> 'u \<Rightarrow> 'p"
  parse_key :: "string \<Rightarrow> string + 'k"
  key_address :: "'k \<Rightarrow> address"

text \<open>\<open>NotUnicode\<close> carries the text the error displays.\<close>

datatype VarError = NotPresent | NotUnicode string

type_synonym environment = "string \<Rightarrow> VarError + string"

definition assert_chain_allowed :: "u64 \<Rightarrow> SignerError + unit" where
  "assert_chain_allowed chain_id =
     (if chain_id \<in> set ALLOWED_TEST_CHAINS then Inr () else Inl (S_MainnetForbidden chain_id))"

definition from_key_str ::
  "('p, 'w) net \<Rightarrow> ('u, 'k, 'p) clients \<Rightarrow> string \<Rightarrow> string \<Rightarrow>
     (('p, 'w) env, SignerError, 'p Signer) eff" where
  "from_key_str n cl key_hex rpc_url =
     bindE (of_result (map_err S_BadKey (parse_key cl (strip_key key_hex)))) (\<lambda>signer.
     bindE (of_result (map_err S_BadUrl (parse_url cl rpc_url))) (\<lambda>url.
     let provider = connect_wallet cl signer url in
     bindE (map_errE S_Rpc (rpc (get_chain_id n provider))) (\<lambda>chain_id.
     thenE (of_result (assert_chain_allowed chain_id))
     (ret \<lparr>sg_provider = provider, sg_address = key_address cl signer, sg_chain_id = chain_id\<rparr>))))"

definition from_env ::
  "('p, 'w) net \<Rightarrow> ('u, 'k, 'p) clients \<Rightarrow> environment \<Rightarrow> string \<Rightarrow>
     (('p, 'w) env, SignerError, 'p Signer) eff" where
  "from_env n cl var rpc_url =
     bindE (of_result (map_err (\<lambda>_. S_MissingKey) (var ENV_KEY))) (\<lambda>raw.
     from_key_str n cl raw rpc_url)"

subsection \<open>Transactions\<close>

datatype TxError = ZeroAmount | Send string

definition tx_error_text :: "TxError \<Rightarrow> string" where
  "tx_error_text e =
     (case e of
        ZeroAmount \<Rightarrow> ''amount must be greater than zero''
      | Send e \<Rightarrow> ''failed to send/mine tx: '' @ e)"

record Locked =
  lk_contract_id :: b32
  lk_tx_hash :: b32

record SettlementLockConfig =
  st_settlement :: address
  st_maker_private_key :: b32
  st_sell_chain_id :: u64
  st_buy_token :: address
  st_buy_chain_id :: u64
  st_buy_amount :: u128
  st_valid_until :: u64
  st_nonce :: u64

definition compute_contract_id ::
  "crates \<Rightarrow> hash_fn \<Rightarrow> address \<Rightarrow> address \<Rightarrow> address \<Rightarrow> u128 \<Rightarrow> b32 \<Rightarrow> u64 \<Rightarrow> b32" where
  "compute_contract_id cr kc sender recipient token amount hashlock tm =
     kc (abi_encode_lock cr sender recipient token (ucast amount) hashlock (ucast tm))"

text \<open>\<open>call.send().await?.get_receipt().await?\<close>: the receipt's status is not looked at.\<close>

definition send_and_wait ::
  "('p, 'w) net \<Rightarrow> 'p \<Rightarrow> tx \<Rightarrow> (('p, 'w) env, TxError fault, receipt) eff" where
  "send_and_wait n p t =
     bindE (map_errE (Failed \<circ> Send) (send n p t)) (\<lambda>pending.
     map_errE (Failed \<circ> Send) (rpc (await_receipt n p pending)))"

definition approve_exact ::
  "('p, 'w) net \<Rightarrow> crates \<Rightarrow> 'p Signer \<Rightarrow> address \<Rightarrow> address \<Rightarrow> u128 \<Rightarrow>
     (('p, 'w) env, TxError fault, unit) eff" where
  "approve_exact n cr signer token spender amount =
     thenE (send_and_wait n (sg_provider signer) (Approve token spender (ucast amount)))
    (bindE (map_errE (Failed \<circ> Send)
        (rpc (call_allowance n (sg_provider signer) token (sg_address signer) spender)))
      (\<lambda>allowance.
        if allowance \<noteq> ucast amount then
          throw (Failed (Send (''ERC-20 allowance mismatch after approve: expected '' @
            dec (unat amount) @ '', got '' @ show_u256 cr allowance)))
        else ret ()))"

definition lock ::
  "('p, 'w) net \<Rightarrow> crates \<Rightarrow> hash_fn \<Rightarrow> 'p Signer \<Rightarrow> address \<Rightarrow> address \<Rightarrow> address \<Rightarrow> u128 \<Rightarrow>
     b32 \<Rightarrow> u64 \<Rightarrow> (('p, 'w) env, TxError fault, Locked) eff" where
  "lock n cr kc signer htlc recipient token amount hashlock tm =
     (if amount = 0 then throw (Failed ZeroAmount)
      else
        let contract_id =
              compute_contract_id cr kc (sg_address signer) recipient token amount hashlock tm;
            call = (\<lambda>value. NewSwap htlc recipient token (ucast amount) hashlock (ucast tm) value)
        in
          bindE (if token = 0 then ret (ucast amount)
                 else thenE (approve_exact n cr signer token htlc amount) (ret 0)) (\<lambda>value.
          bindE (send_and_wait n (sg_provider signer) (call value)) (\<lambda>rcpt.
          ret \<lparr>lk_contract_id = contract_id, lk_tx_hash = r_transaction_hash rcpt\<rparr>)))"

definition settlement_order ::
  "'p Signer \<Rightarrow> SettlementLockConfig \<Rightarrow> address \<Rightarrow> u128 \<Rightarrow> Order" where
  "settlement_order signer config token amount =
     \<lparr>o_maker = sg_address signer, o_sell_token = token, o_sell_chain_id = st_sell_chain_id config,
      o_sell_amount = amount, o_buy_token = st_buy_token config,
      o_buy_chain_id = st_buy_chain_id config, o_buy_amount = st_buy_amount config,
      o_valid_until = st_valid_until config, o_nonce = st_nonce config, o_created_at = 0\<rparr>"

definition sol_order :: "Order \<Rightarrow> SolOrder" where
  "sol_order o1 =
     \<lparr>so_maker = o_maker o1, so_sellToken = o_sell_token o1,
      so_sellChainId = ucast (o_sell_chain_id o1), so_sellAmount = ucast (o_sell_amount o1),
      so_buyToken = o_buy_token o1, so_buyChainId = ucast (o_buy_chain_id o1),
      so_buyAmount = ucast (o_buy_amount o1), so_validUntil = ucast (o_valid_until o1),
      so_nonce = ucast (o_nonce o1)\<rparr>"

definition lock_via_settlement ::
  "('p, 'w) net \<Rightarrow> crates \<Rightarrow> hash_fn \<Rightarrow> ('sig, 'rid, 'vk, 'sk) k256 \<Rightarrow> 'p Signer \<Rightarrow>
     SettlementLockConfig \<Rightarrow> address \<Rightarrow> address \<Rightarrow> u128 \<Rightarrow> b32 \<Rightarrow> u64 \<Rightarrow>
     (('p, 'w) env, TxError fault, Locked) eff" where
  "lock_via_settlement n cr kc k signer config recipient token amount hashlock tm =
     (if amount = 0 then throw (Failed ZeroAmount)
      else
        let o1 = settlement_order signer config token amount in
        bindE (of_result (ok_or Panicked (eip712_sign kc k o1 (st_maker_private_key config))))
          (\<lambda>signature.
        let contract_id = compute_contract_id cr kc (st_settlement config) recipient token amount
                            hashlock tm;
            call = (\<lambda>value. SettleLeg (st_settlement config) (sol_order o1) signature recipient
                             hashlock (ucast tm) value)
        in
          bindE (if token = 0 then ret (ucast amount)
                 else thenE (approve_exact n cr signer token (st_settlement config) amount) (ret 0))
            (\<lambda>value.
          bindE (send_and_wait n (sg_provider signer) (call value)) (\<lambda>rcpt.
          ret \<lparr>lk_contract_id = contract_id, lk_tx_hash = r_transaction_hash rcpt\<rparr>))))"

definition redeem ::
  "('p, 'w) net \<Rightarrow> 'p Signer \<Rightarrow> address \<Rightarrow> b32 \<Rightarrow> b32 \<Rightarrow> (('p, 'w) env, TxError fault, b32) eff"
where
  "redeem n signer htlc contract_id secret =
     bindE (send_and_wait n (sg_provider signer) (Redeem htlc contract_id secret)) (\<lambda>rcpt.
     ret (r_transaction_hash rcpt))"

definition refund ::
  "('p, 'w) net \<Rightarrow> 'p Signer \<Rightarrow> address \<Rightarrow> b32 \<Rightarrow> (('p, 'w) env, TxError fault, b32) eff" where
  "refund n signer htlc contract_id =
     bindE (send_and_wait n (sg_provider signer) (RefundTx htlc contract_id)) (\<lambda>rcpt.
     ret (r_transaction_hash rcpt))"

definition refund_via_settlement ::
  "('p, 'w) net \<Rightarrow> 'p Signer \<Rightarrow> address \<Rightarrow> b32 \<Rightarrow> (('p, 'w) env, TxError fault, b32) eff" where
  "refund_via_settlement n signer settlement contract_id =
     bindE (send_and_wait n (sg_provider signer) (RefundLeg settlement contract_id)) (\<lambda>rcpt.
     ret (r_transaction_hash rcpt))"

subsection \<open>Following a plan\<close>

text \<open>
  \<open>follows p plan m\<close>: on provider \<open>p\<close>, the computation hands the transactions of the plan to the
  node in order, possibly stopping early, and stops early only with an error.
\<close>

definition follows :: "'p \<Rightarrow> tx list \<Rightarrow> (('p, 'w) env, 'e, 'a) eff \<Rightarrow> bool" where
  "follows p plan m \<longleftrightarrow>
     (\<forall>v. \<exists>k. sent (snd (m v)) = sent v @ map (Pair p) (take k plan) \<and>
        (case fst (m v) of Inl _ \<Rightarrow> True | Inr _ \<Rightarrow> k = length plan))"

lemma followsI:
  "(\<And>v. \<exists>k. sent (snd (m v)) = sent v @ map (Pair p) (take k plan) \<and>
      (case fst (m v) of Inl _ \<Rightarrow> True | Inr _ \<Rightarrow> k = length plan)) \<Longrightarrow> follows p plan m"
  by (simp add: follows_def)

lemma followsE:
  assumes "follows p plan m" and "m v = (r, v')"
  obtains k where "sent v' = sent v @ map (Pair p) (take k plan)"
    and "case r of Inl _ \<Rightarrow> True | Inr _ \<Rightarrow> k = length plan"
  using assms unfolding follows_def by (metis fst_conv snd_conv)

lemma follows_silent: "keeps (silent sent) m \<Longrightarrow> follows p [] m"
  by (rule followsI) (auto simp: keeps_def silent_def split: sum.split)

lemma follows_ret: "follows p [] (ret a)"
  by (rule follows_silent) (rule quiet.keeps_ret)

lemma follows_throw: "follows p plan (throw e)"
  by (rule followsI) (auto simp: throw_def intro: exI [of _ 0])

lemma follows_of_result_Inl: "follows p plan (of_result (Inl e))"
  by (rule followsI) (auto simp: of_result_def intro: exI [of _ 0])

lemma follows_map_errE: "follows p plan m \<Longrightarrow> follows p plan (map_errE g m)"
  unfolding follows_def map_errE_def
  by (auto simp: map_err_def split: sum.splits)

lemma follows_bindE:
  assumes m: "follows p xs m" and f: "\<And>a. follows p ys (f a)"
  shows "follows p (xs @ ys) (bindE m f)"
proof (rule followsI)
  fix v
  obtain r v1 where mv: "m v = (r, v1)" by force
  from m mv obtain k where k: "sent v1 = sent v @ map (Pair p) (take k xs)"
    "case r of Inl _ \<Rightarrow> True | Inr _ \<Rightarrow> k = length xs"
    by (rule followsE)
  show "\<exists>k. sent (snd (bindE m f v)) = sent v @ map (Pair p) (take k (xs @ ys)) \<and>
      (case fst (bindE m f v) of Inl _ \<Rightarrow> True | Inr _ \<Rightarrow> k = length (xs @ ys))"
  proof (cases r)
    case (Inl e)
    have "take (min k (length xs)) (xs @ ys) = take k xs" by (simp add: min_def)
    then show ?thesis using k Inl by (intro exI [of _ "min k (length xs)"]) (simp add: bindE_def mv)
  next
    case (Inr a)
    obtain r' v2 where fv: "f a v1 = (r', v2)" by force
    from f fv obtain j where j: "sent v2 = sent v1 @ map (Pair p) (take j ys)"
      "case r' of Inl _ \<Rightarrow> True | Inr _ \<Rightarrow> j = length ys"
      by (rule followsE)
    show ?thesis
      using k j Inr by (intro exI [of _ "length xs + j"]) (auto simp: bindE_def mv fv split: sum.splits)
  qed
qed

lemma follows_thenE: "follows p xs m \<Longrightarrow> follows p ys m' \<Longrightarrow> follows p (xs @ ys) (thenE m m')"
  unfolding thenE_def by (rule follows_bindE)

lemma follows_send: "follows p [t] (send n p t)"
  by (rule followsI) (auto simp: send_apply split: sum.split intro: exI [of _ 1])

lemma follows_send_and_wait: "follows p [t] (send_and_wait n p t)"
proof -
  have "follows p ([t] @ []) (send_and_wait n p t)"
    unfolding send_and_wait_def
    by (intro follows_bindE follows_map_errE follows_send follows_silent keeps_rpc)
  then show ?thesis by simp
qed

lemma follows_approve_exact:
  "follows (sg_provider signer) [Approve token spender (ucast amount)]
     (approve_exact n cr signer token spender amount)"
proof -
  have "follows (sg_provider signer) ([Approve token spender (ucast amount)] @ [] @ [])
      (approve_exact n cr signer token spender amount)"
    unfolding approve_exact_def
    by (intro follows_thenE follows_bindE follows_map_errE follows_send_and_wait follows_silent
        keeps_rpc quiet.keeps_rules)
  then show ?thesis by simp
qed

definition approval_plan :: "address \<Rightarrow> address \<Rightarrow> u128 \<Rightarrow> tx list" where
  "approval_plan token spender amount =
     (if token = 0 then [] else [Approve token spender (ucast amount)])"

definition native_value :: "address \<Rightarrow> u128 \<Rightarrow> u256" where
  "native_value token amount = (if token = 0 then ucast amount else 0)"

lemma follows_approval:
  assumes "\<And>value. value = native_value token amount \<Longrightarrow> follows (sg_provider signer) plan (f value)"
  shows "follows (sg_provider signer) (approval_plan token spender amount @ plan)
    (bindE (if token = 0 then ret (ucast amount)
            else thenE (approve_exact n cr signer token spender amount) (ret 0)) f)"
proof (cases "token = 0")
  case True
  then have "bindE (ret (ucast amount)) f = f (native_value token amount)"
    by (simp add: fun_eq_iff bindE_def ret_def native_value_def)
  then show ?thesis using assms True by (simp add: approval_plan_def)
next
  case False
  then have "bindE (thenE (approve_exact n cr signer token spender amount) (ret 0)) f =
      thenE (approve_exact n cr signer token spender amount) (f (native_value token amount))"
    by (auto simp: fun_eq_iff bindE_def thenE_def ret_def native_value_def split: prod.splits sum.splits)
  moreover have "follows (sg_provider signer) ([Approve token spender (ucast amount)] @ plan)
      (thenE (approve_exact n cr signer token spender amount) (f (native_value token amount)))"
    by (intro follows_thenE follows_approve_exact assms refl)
  ultimately show ?thesis using False by (simp add: approval_plan_def)
qed

subsection \<open>The two ways of locking\<close>

text \<open>
  The executor locks directly or through Settlement, and relies on the same contract for both:
  a zero amount is refused before anything is sent, what is sent follows the plan, and the
  contract id of a successful lock is the one computed from the terms.
\<close>

locale locking =
  fixes lock_op :: "address \<Rightarrow> address \<Rightarrow> u128 \<Rightarrow> b32 \<Rightarrow> u64 \<Rightarrow> (('p, 'w) env, TxError fault, Locked) eff"
    and plan :: "address \<Rightarrow> address \<Rightarrow> u128 \<Rightarrow> b32 \<Rightarrow> u64 \<Rightarrow> tx list"
    and cid :: "address \<Rightarrow> address \<Rightarrow> u128 \<Rightarrow> b32 \<Rightarrow> u64 \<Rightarrow> b32"
    and p :: 'p
  assumes zero: "lock_op recipient token 0 h tm v = (Inl (Failed ZeroAmount), v)"
    and planned: "amount \<noteq> 0 \<Longrightarrow>
      follows p (plan recipient token amount h tm) (lock_op recipient token amount h tm)"
    and lock_id: "lock_op recipient token amount h tm v = (Inr l, v') \<Longrightarrow>
      lk_contract_id l = cid recipient token amount h tm"
begin

lemma planned_any:
  "follows p (plan recipient token amount h tm) (lock_op recipient token amount h tm)"
proof (cases "amount = 0")
  case True
  then show ?thesis by (auto simp: follows_def zero intro: exI [of _ 0])
next
  case False
  then show ?thesis by (rule planned)
qed

lemma lock_outcome:
  assumes "lock_op recipient token amount h tm v = (r, v')"
  shows "\<exists>k. sent v' = sent v @ map (Pair p) (take k (plan recipient token amount h tm)) \<and>
    (case r of
       Inl _ \<Rightarrow> True
     | Inr l \<Rightarrow> k = length (plan recipient token amount h tm) \<and> amount \<noteq> 0 \<and>
         lk_contract_id l = cid recipient token amount h tm)"
proof -
  from planned_any assms obtain k where
    "sent v' = sent v @ map (Pair p) (take k (plan recipient token amount h tm))"
    "case r of Inl _ \<Rightarrow> True | Inr _ \<Rightarrow> k = length (plan recipient token amount h tm)"
    by (rule followsE)
  then show ?thesis
    using assms zero lock_id by (cases r; cases "amount = 0") (auto intro!: exI [of _ k])
qed

end

definition direct_plan :: "address \<Rightarrow> address \<Rightarrow> address \<Rightarrow> u128 \<Rightarrow> b32 \<Rightarrow> u64 \<Rightarrow> tx list" where
  "direct_plan htlc recipient token amount h tm =
     approval_plan token htlc amount @
     [NewSwap htlc recipient token (ucast amount) h (ucast tm) (native_value token amount)]"

definition settlement_plan ::
  "hash_fn \<Rightarrow> ('sig, 'rid, 'vk, 'sk) k256 \<Rightarrow> 'p Signer \<Rightarrow> SettlementLockConfig \<Rightarrow>
     address \<Rightarrow> address \<Rightarrow> u128 \<Rightarrow> b32 \<Rightarrow> u64 \<Rightarrow> tx list" where
  "settlement_plan kc k signer config recipient token amount h tm =
     (let o1 = settlement_order signer config token amount in
      case eip712_sign kc k o1 (st_maker_private_key config) of
        None \<Rightarrow> []
      | Some sg \<Rightarrow>
          approval_plan token (st_settlement config) amount @
          [SettleLeg (st_settlement config) (sol_order o1) sg recipient h (ucast tm)
             (native_value token amount)])"

lemma follows_call:
  "follows (sg_provider signer) [t]
     (bindE (send_and_wait n (sg_provider signer) t) (\<lambda>rcpt. ret (g rcpt)))"
  using follows_bindE [OF follows_send_and_wait follows_ret, of "sg_provider signer" t n g]
  by simp

interpretation direct: locking "lock n cr kc signer htlc" "direct_plan htlc"
  "compute_contract_id cr kc (sg_address signer)" "sg_provider signer"
  for n :: "('p, 'w) net" and cr kc signer htlc
proof
  fix recipient token amount h tm and v v' :: "('p, 'w) env" and l
  show "lock n cr kc signer htlc recipient token 0 h tm v = (Inl (Failed ZeroAmount), v)"
    by (simp add: lock_def throw_def)
  show "follows (sg_provider signer) (direct_plan htlc recipient token amount h tm)
      (lock n cr kc signer htlc recipient token amount h tm)" if "amount \<noteq> 0"
    using that unfolding lock_def direct_plan_def Let_def
    by (simp only: if_False) (intro follows_approval, simp only: follows_call)
  show "lk_contract_id l = compute_contract_id cr kc (sg_address signer) recipient token amount h tm"
    if "lock n cr kc signer htlc recipient token amount h tm v = (Inr l, v')"
    using that by (auto simp: lock_def Let_def eff_Inr split: if_splits)
qed

interpretation settled: locking "lock_via_settlement n cr kc k signer config"
  "settlement_plan kc k signer config"
  "compute_contract_id cr kc (st_settlement config)" "sg_provider signer"
  for n :: "('p, 'w) net" and cr kc k signer config
proof
  fix recipient token amount h tm and v v' :: "('p, 'w) env" and l
  let ?o = "settlement_order signer config token amount"
  show "lock_via_settlement n cr kc k signer config recipient token 0 h tm v =
      (Inl (Failed ZeroAmount), v)"
    by (simp add: lock_via_settlement_def throw_def)
  show "follows (sg_provider signer) (settlement_plan kc k signer config recipient token amount h tm)
      (lock_via_settlement n cr kc k signer config recipient token amount h tm)" if "amount \<noteq> 0"
  proof (cases "eip712_sign kc k ?o (st_maker_private_key config)")
    case None
    then show ?thesis
      using that by (auto simp: lock_via_settlement_def follows_def eff_simps Let_def
          intro: exI [of _ 0])
  next
    case (Some sg)
    have "bindE (of_result (Inr sg)) f = f sg" for f :: "_ \<Rightarrow> (('p, 'w) env, TxError fault, Locked) eff"
      by (simp add: fun_eq_iff bindE_def of_result_def)
    then show ?thesis
      using that Some unfolding lock_via_settlement_def settlement_plan_def Let_def
      by (simp only: if_False ok_or_simps option.case)
        (intro follows_approval, simp only: follows_call)
  qed
  show "lk_contract_id l = compute_contract_id cr kc (st_settlement config) recipient token amount h tm"
    if "lock_via_settlement n cr kc k signer config recipient token amount h tm v = (Inr l, v')"
    using that by (auto simp: lock_via_settlement_def Let_def eff_Inr split: if_splits)
qed

subsection \<open>What is broadcast, and where\<close>

lemma from_key_str_Inr:
  "from_key_str n cl key_hex rpc_url v = (Inr sg, v') \<longleftrightarrow>
     (\<exists>key u. parse_key cl (strip_key key_hex) = Inr key \<and> parse_url cl rpc_url = Inr u \<and>
        fst (get_chain_id n (connect_wallet cl key u) (world v)) = Inr (sg_chain_id sg) \<and>
        sg_chain_id sg \<in> set ALLOWED_TEST_CHAINS \<and>
        sg_address sg = key_address cl key \<and> sg_provider sg = connect_wallet cl key u \<and>
        v' = v\<lparr>world := snd (get_chain_id n (connect_wallet cl key u) (world v))\<rparr>)"
  by (cases sg) (auto simp: from_key_str_def eff_Inr rpc_def Let_def assert_chain_allowed_def
      split: if_splits)

lemma from_key_str_silent: "keeps (silent sent) (from_key_str n cl key_hex rpc_url)"
  unfolding from_key_str_def Let_def
  by (intro quiet.keeps_rules keeps_rpc)

text \<open>
  The allowlist. Building a signer succeeds exactly when the key and the URL parse and the
  node behind the URL reports a chain id of the test allowlist, and then the signer carries
  that id; building one sends nothing. In particular no signer exists for the main networks of
  Ethereum, Optimism, BNB Chain, Polygon, Base and Arbitrum.
\<close>

theorem signer_only_on_test_chains:
  "((\<exists>v'. from_key_str n cl key_hex rpc_url v = (Inr sg, v')) \<longleftrightarrow>
      (\<exists>key u. parse_key cl (strip_key key_hex) = Inr key \<and> parse_url cl rpc_url = Inr u \<and>
         fst (get_chain_id n (connect_wallet cl key u) (world v)) = Inr (sg_chain_id sg) \<and>
         sg_chain_id sg \<in> set ALLOWED_TEST_CHAINS \<and>
         sg_address sg = key_address cl key \<and> sg_provider sg = connect_wallet cl key u)) \<and>
   sent (snd (from_key_str n cl key_hex rpc_url v)) = sent v \<and>
   {1, 10, 56, 137, 8453, 42161} \<inter> set ALLOWED_TEST_CHAINS = {}"
  using keepsD [OF from_key_str_silent, of v n cl key_hex rpc_url]
  by (auto simp: from_key_str_Inr silent_def ALLOWED_TEST_CHAINS_def)

text \<open>
  What locking hands to the node. Direct locking and locking through Settlement send, in
  order and on the signer's own connection, a prefix of their plan: for a token first the
  approval of exactly the amount, then the lock with the terms given and the amount as value
  for native coins and nothing as value for tokens. A successful lock has sent the whole plan,
  has a positive amount, and returns the contract id computed from the terms and from the
  address that will be the contract's sender.
\<close>

theorem locks_follow_plan:
  "(\<exists>i. sent (snd (lock n cr kc signer htlc recipient token amount h tm v)) =
       sent v @ map (Pair (sg_provider signer)) (take i (direct_plan htlc recipient token amount h tm)) \<and>
     (case fst (lock n cr kc signer htlc recipient token amount h tm v) of
        Inl _ \<Rightarrow> True
      | Inr l \<Rightarrow> i = length (direct_plan htlc recipient token amount h tm) \<and> amount \<noteq> 0 \<and>
          lk_contract_id l =
            compute_contract_id cr kc (sg_address signer) recipient token amount h tm)) \<and>
   (\<exists>j. sent (snd (lock_via_settlement n cr kc k signer config recipient token amount h tm v)) =
       sent v @ map (Pair (sg_provider signer))
         (take j (settlement_plan kc k signer config recipient token amount h tm)) \<and>
     (case fst (lock_via_settlement n cr kc k signer config recipient token amount h tm v) of
        Inl _ \<Rightarrow> True
      | Inr l \<Rightarrow> j = length (settlement_plan kc k signer config recipient token amount h tm) \<and>
          amount \<noteq> 0 \<and>
          lk_contract_id l =
            compute_contract_id cr kc (st_settlement config) recipient token amount h tm))"
  using direct.lock_outcome [of n cr kc signer htlc recipient token amount h tm v]
    settled.lock_outcome [of n cr kc k signer config recipient token amount h tm v]
  by (metis prod.collapse)

end
