(* ===== verification/Kael_Executor.thy ===== *)
theory Kael_Executor
  imports Kael_SM Kael_Chain Kael_Tx
begin

section \<open>The executor\<close>

text \<open>
  Models \<open>swapkit/src/exec/mod.rs\<close>: the wallet's executor, which observes, asks the state
  machine, observes again immediately before a lock or a redeem, and broadcasts only if the
  action planned is still the action decided. The arms of the \<open>match\<close> in \<open>step\<close> are
  \<open>step_generate\<close>, \<open>step_lock\<close>, \<open>step_redeem\<close> and \<open>step_refund\<close>; the sleeping in \<open>run\<close> has no effect
  on the state and is left out, as time passes in the world at every reading of the clock.

  Everything outside is gathered in the record \<open>outside\<close>. The environment, with the ghost list of
  what was sent, is the executor's field \<open>x_env\<close>.
\<close>

record ('p, 'w, 'sig, 'rid, 'vk, 'sk) outside =
  out_net :: "('p, 'w) net"
  out_crates :: crates
  out_keccak :: hash_fn
  out_sha :: hash_fn
  out_iter :: iteration
  out_k256 :: "('sig, 'rid, 'vk, 'sk) k256"

datatype ExecutorError =
    X_MissingHashlock
  | X_MissingOwnContractId
  | X_MissingCounterpartyContractId
  | X_Chain ChainError
  | X_Tx TxError
  | X_MaxStepsExceeded

datatype StepOutcome =
    S_GeneratedSecret
  | S_LockedMyLeg b32
  | S_RedeemedCounterpartyLeg
  | S_RefundedMyLeg
  | S_Waiting
  | S_Terminal
  | S_Aborted AbortReason

type_synonym 'p rpc_observer = "('p RpcVerifier, 'p) CounterpartyObserver"

record ('p, 'w) WalletExecutor =
  x_state :: SwapState
  x_ctx :: SwapContext
  x_own_signer :: "'p Signer"
  x_cp_signer :: "'p Signer"
  x_own_htlc :: address
  x_cp_htlc :: address
  x_settlement :: "SettlementLockConfig option"
  x_own_observer :: "'p rpc_observer"
  x_cp_observer :: "'p rpc_observer"
  x_min_confirmations :: u64
  x_own_contract_id :: "b32 option"
  x_cp_contract_id :: "b32 option"
  x_env :: "('p, 'w) env"

record 'p WalletExecutorConfig =
  cf_state :: SwapState
  cf_ctx :: SwapContext
  cf_own_signer :: "'p Signer"
  cf_cp_signer :: "'p Signer"
  cf_own_htlc :: address
  cf_cp_htlc :: address
  cf_settlement :: "SettlementLockConfig option"
  cf_own_observer :: "'p rpc_observer"
  cf_cp_observer :: "'p rpc_observer"
  cf_min_confirmations :: u64

definition executor_new ::
  "'p WalletExecutorConfig \<Rightarrow> ('p, 'w) env \<Rightarrow> ('p, 'w) WalletExecutor" where
  "executor_new c v =
     \<lparr>x_state = cf_state c, x_ctx = cf_ctx c, x_own_signer = cf_own_signer c,
      x_cp_signer = cf_cp_signer c, x_own_htlc = cf_own_htlc c, x_cp_htlc = cf_cp_htlc c,
      x_settlement = cf_settlement c, x_own_observer = cf_own_observer c,
      x_cp_observer = cf_cp_observer c, x_min_confirmations = cf_min_confirmations c,
      x_own_contract_id = None, x_cp_contract_id = None, x_env = v\<rparr>"

type_synonym ('p, 'w, 'a) exec = "(('p, 'w) WalletExecutor, ExecutorError fault, 'a) eff"

definition chain_error :: "ChainError fault \<Rightarrow> ExecutorError fault" where
  "chain_error e = (case e of Panicked \<Rightarrow> Panicked | Failed c \<Rightarrow> Failed (X_Chain c))"

definition tx_error :: "TxError fault \<Rightarrow> ExecutorError fault" where
  "tx_error e = (case e of Panicked \<Rightarrow> Panicked | Failed t \<Rightarrow> Failed (X_Tx t))"

definition on_x_env :: "(('p, 'w) env, 'e, 'a) eff \<Rightarrow> (('p, 'w) WalletExecutor, 'e, 'a) eff" where
  "on_x_env m = zoom x_env (\<lambda>v x. x\<lparr>x_env := v\<rparr>) m"

definition on_cp_observer ::
  "('p rpc_observer \<times> ('p, 'w) env, 'e, 'a) eff \<Rightarrow> (('p, 'w) WalletExecutor, 'e, 'a) eff" where
  "on_cp_observer m =
     zoom (\<lambda>x. (x_cp_observer x, x_env x)) (\<lambda>(ob, v) x. x\<lparr>x_cp_observer := ob, x_env := v\<rparr>) m"

definition on_own_observer ::
  "('p rpc_observer \<times> ('p, 'w) env, 'e, 'a) eff \<Rightarrow> (('p, 'w) WalletExecutor, 'e, 'a) eff" where
  "on_own_observer m =
     zoom (\<lambda>x. (x_own_observer x, x_env x)) (\<lambda>(ob, v) x. x\<lparr>x_own_observer := ob, x_env := v\<rparr>) m"

definition set_ctx :: "(SwapContext \<Rightarrow> SwapContext) \<Rightarrow> ('p, 'w, unit) exec" where
  "set_ctx f = modify (\<lambda>x. x\<lparr>x_ctx := f (x_ctx x)\<rparr>)"

definition set_state :: "(SwapState \<Rightarrow> SwapState) \<Rightarrow> ('p, 'w, unit) exec" where
  "set_state f = modify (\<lambda>x. x\<lparr>x_state := f (x_state x)\<rparr>)"

definition refresh_observations ::
  "('p, 'w, 'sig, 'rid, 'vk, 'sk) outside \<Rightarrow> ('p, 'w, unit) exec" where
  "refresh_observations u =
     bindE (on_x_env (ask (clock_now (out_net u)))) (\<lambda>now.
     thenE (set_ctx (\<lambda>c. c\<lparr>ctx_now := now\<rparr>))
    (bindE (gets x_ctx) (\<lambda>c.
     bindE (of_result (ok_or (Failed X_MissingHashlock) (ctx_hashlock c))) (\<lambda>hashlock.
     bindE (gets x_min_confirmations) (\<lambda>mc.
     bindE (map_errE chain_error (on_cp_observer
        (observe (out_net u) (out_sha u) (out_iter u) (rpc_observe_lock (out_net u)) hashlock mc)))
       (\<lambda>cp.
     thenE (set_ctx (\<lambda>c. c\<lparr>counterparty_lock := for_gate cp\<rparr>))
    (thenE (modify (\<lambda>x. x\<lparr>x_cp_contract_id := discover_contract_id hashlock (x_cp_observer x)\<rparr>))
    (thenE (map_errE chain_error (on_own_observer
        (observer_poll (out_net u) (out_sha u) (out_iter u))))
    (bindE (gets (\<lambda>x. observer_revealed_secret hashlock (x_own_observer x))) (\<lambda>revealed.
     thenE (case revealed of
              Some secret \<Rightarrow> set_ctx (\<lambda>c. c\<lparr>revealed_secret := Some secret\<rparr>)
            | None \<Rightarrow> ret ())
    (bindE (gets x_own_contract_id) (\<lambda>own.
     if own \<noteq> None then set_ctx (\<lambda>c. c\<lparr>my_leg_locked := True\<rparr>) else ret ()))))))))))))"

definition reverified_action ::
  "('p, 'w, 'sig, 'rid, 'vk, 'sk) outside \<Rightarrow> ('p, 'w, NextAction) exec" where
  "reverified_action u =
     thenE (refresh_observations u) (gets (\<lambda>x. next_action (x_state x) (x_ctx x)))"

definition reverified_action_matches :: "NextAction \<Rightarrow> NextAction \<Rightarrow> bool" where
  "reverified_action_matches planned current =
     (case (planned, current) of
        (A_LockMyLeg r1 t1 a1 h1 tm1, A_LockMyLeg r2 t2 a2 h2 tm2) \<Rightarrow>
          r1 = r2 \<and> t1 = t2 \<and> a1 = a2 \<and> h1 = h2 \<and> tm1 = tm2
      | (A_RedeemCounterpartyLeg s1, A_RedeemCounterpartyLeg s2) \<Rightarrow> s1 = s2
      | (A_Refund, A_Refund) \<Rightarrow> True
      | _ \<Rightarrow> False)"

definition is_terminal :: "SwapState \<Rightarrow> bool" where
  "is_terminal st \<longleftrightarrow>
     (case st of Done \<Rightarrow> True | Refunded \<Rightarrow> True | CounterpartyRedeemed \<Rightarrow> True
      | Aborted _ \<Rightarrow> True | _ \<Rightarrow> False)"

subsection \<open>One step\<close>

definition step_generate ::
  "('p, 'w, 'sig, 'rid, 'vk, 'sk) outside \<Rightarrow> ('p, 'w, StepOutcome) exec" where
  "step_generate u =
     bindE (gets x_ctx) (\<lambda>c.
     thenE (if ctx_secret c = None then
              bindE (on_x_env (ask (os_random32 (out_net u)))) (\<lambda>secret.
              set_ctx (\<lambda>c. c\<lparr>ctx_hashlock := Some (hashlock_from_preimage (out_sha u) secret),
                             ctx_secret := Some secret\<rparr>))
            else ret ())
    (thenE (set_state (\<lambda>st. advance st E_SecretGenerated))
     (ret S_GeneratedSecret)))"

definition broadcast_lock ::
  "('p, 'w, 'sig, 'rid, 'vk, 'sk) outside \<Rightarrow> address \<Rightarrow> address \<Rightarrow> u128 \<Rightarrow> b32 \<Rightarrow> u64 \<Rightarrow>
     ('p, 'w, Locked) exec" where
  "broadcast_lock u recipient token amount hashlock tm =
     bindE (gets id) (\<lambda>x.
     map_errE tx_error (on_x_env
       (case x_settlement x of
          Some settlement \<Rightarrow>
            lock_via_settlement (out_net u) (out_crates u) (out_keccak u) (out_k256 u)
              (x_own_signer x) settlement recipient token amount hashlock tm
        | None \<Rightarrow>
            lock (out_net u) (out_crates u) (out_keccak u) (x_own_signer x) (x_own_htlc x)
              recipient token amount hashlock tm)))"

definition step_lock ::
  "('p, 'w, 'sig, 'rid, 'vk, 'sk) outside \<Rightarrow> NextAction \<Rightarrow>
     address \<Rightarrow> address \<Rightarrow> u128 \<Rightarrow> b32 \<Rightarrow> u64 \<Rightarrow> ('p, 'w, StepOutcome) exec" where
  "step_lock u planned recipient token amount hashlock tm =
     bindE (reverified_action u) (\<lambda>current.
     if \<not> reverified_action_matches planned current then ret S_Waiting
     else
       bindE (gets x_own_contract_id) (\<lambda>own.
       if own \<noteq> None then
         thenE (set_ctx (\<lambda>c. c\<lparr>my_leg_locked := True\<rparr>))
        (thenE (set_state (\<lambda>st. advance st E_MyLegConfirmed))
         (ret S_Waiting))
       else
         bindE (broadcast_lock u recipient token amount hashlock tm) (\<lambda>locked.
         thenE (modify (\<lambda>x. x\<lparr>x_own_contract_id := Some (lk_contract_id locked)\<rparr>))
        (thenE (set_ctx (\<lambda>c. c\<lparr>my_leg_locked := True\<rparr>))
        (thenE (set_state (\<lambda>st. advance st E_MyLegConfirmed))
         (ret (S_LockedMyLeg (lk_contract_id locked))))))))"

definition step_redeem ::
  "('p, 'w, 'sig, 'rid, 'vk, 'sk) outside \<Rightarrow> NextAction \<Rightarrow> b32 \<Rightarrow> ('p, 'w, StepOutcome) exec" where
  "step_redeem u planned secret =
     bindE (reverified_action u) (\<lambda>current.
     if \<not> reverified_action_matches planned current then ret S_Waiting
     else
       bindE (gets id) (\<lambda>x.
       bindE (of_result (ok_or (Failed X_MissingCounterpartyContractId) (x_cp_contract_id x)))
         (\<lambda>cid.
       thenE (map_errE tx_error (on_x_env
                (redeem (out_net u) (x_cp_signer x) (x_cp_htlc x) cid secret)))
      (thenE (set_state (\<lambda>st. if st = WaitingForSecret then advance st E_SecretObserved else st))
      (thenE (set_state (\<lambda>st. advance st E_RedeemConfirmed))
       (ret S_RedeemedCounterpartyLeg))))))"

definition step_refund ::
  "('p, 'w, 'sig, 'rid, 'vk, 'sk) outside \<Rightarrow> ('p, 'w, StepOutcome) exec" where
  "step_refund u =
     bindE (gets id) (\<lambda>x.
     if ctx_now (x_ctx x) < my_timelock (x_ctx x) then ret S_Waiting
     else
       bindE (of_result (ok_or (Failed X_MissingOwnContractId) (x_own_contract_id x))) (\<lambda>cid.
       thenE (map_errE tx_error (on_x_env
                (case x_settlement x of
                   Some settlement \<Rightarrow>
                     refund_via_settlement (out_net u) (x_own_signer x) (st_settlement settlement) cid
                 | None \<Rightarrow> refund (out_net u) (x_own_signer x) (x_own_htlc x) cid)))
      (thenE (set_state (\<lambda>_. advance Refunding E_RefundConfirmed))
       (ret S_RefundedMyLeg))))"

definition step ::
  "('p, 'w, 'sig, 'rid, 'vk, 'sk) outside \<Rightarrow> ('p, 'w, StepOutcome) exec" where
  "step u =
     thenE (refresh_observations u)
    (bindE (gets (\<lambda>x. next_action (x_state x) (x_ctx x))) (\<lambda>planned.
     case planned of
       A_GenerateSecret \<Rightarrow> step_generate u
     | A_LockMyLeg recipient token amount hashlock tm \<Rightarrow>
         step_lock u planned recipient token amount hashlock tm
     | A_RedeemCounterpartyLeg secret \<Rightarrow> step_redeem u planned secret
     | A_Refund \<Rightarrow> step_refund u
     | A_WaitForCounterpartyLock \<Rightarrow> ret S_Waiting
     | A_WaitForSecretReveal \<Rightarrow> ret S_Waiting
     | A_VerifyCounterpartyLeg \<Rightarrow> ret S_Waiting
     | A_Done \<Rightarrow> ret S_Terminal
     | A_Abort reason \<Rightarrow>
         thenE (set_state (\<lambda>_. Aborted reason)) (ret (S_Aborted reason))))"

fun run ::
  "nat \<Rightarrow> ('p, 'w, 'sig, 'rid, 'vk, 'sk) outside \<Rightarrow> ('p, 'w, SwapState) exec" where
  "run 0 u = throw (Failed X_MaxStepsExceeded)"
| "run (Suc max_steps) u =
     bindE (step u) (\<lambda>outcome.
     bindE (gets x_state) (\<lambda>st.
     case outcome of
       S_Terminal \<Rightarrow> ret st
     | S_Aborted _ \<Rightarrow> ret st
     | _ \<Rightarrow> if is_terminal st then ret st else run max_steps u))"

definition rpc_verifier_new ::
  "('u, 'k, 'p) clients \<Rightarrow> string \<Rightarrow> ChainError + 'p RpcVerifier" where
  "rpc_verifier_new cl rpc_url =
     and_then (map_err BadUrl (parse_url cl rpc_url)) (\<lambda>url.
     Inr \<lparr>rv_provider = connect_http cl url\<rparr>)"

definition rpc_observer ::
  "('u, 'k, 'p) clients \<Rightarrow> string \<Rightarrow> address \<Rightarrow> u64 \<Rightarrow> ChainError + 'p rpc_observer" where
  "rpc_observer cl rpc_url htlc chain_id =
     and_then (rpc_verifier_new cl rpc_url) (\<lambda>verifier.
     and_then (map_err BadUrl (parse_url cl rpc_url)) (\<lambda>url.
     Inr (observer_new verifier (connect_http cl url) htlc chain_id)))"

end
