(* ===== verification/Kael_Executor_Safety.thy ===== *)
theory Kael_Executor_Safety
  imports Kael_Executor
begin

section \<open>What the executor broadcasts\<close>

text \<open>
  The safety of \<open>step\<close> and \<open>run\<close> for every outside world: observing changes the observations
  only and sends nothing; a step sends at most one lock plan, one redeem or one refund, each
  only while the state machine, on the observations of that very step, decides it; and a whole
  run sends nothing else than the transactions of its own swap.
\<close>

subsection \<open>Observing\<close>

text \<open>The context without its observations: what both parties agreed on.\<close>

definition terms :: "SwapContext \<Rightarrow> SwapContext" where
  "terms c = c\<lparr>my_leg_locked := False, counterparty_lock := None, revealed_secret := None,
               ctx_now := 0\<rparr>"

lemma terms_eqD:
  assumes "terms c = terms d"
  shows "ctx_role c = ctx_role d" "my_token c = my_token d" "my_amount c = my_amount d"
    "my_timelock c = my_timelock d" "my_recipient c = my_recipient d" "cp_token c = cp_token d"
    "cp_amount c = cp_amount d" "ctx_me c = ctx_me d" "min_gap c = min_gap d"
    "ctx_hashlock c = ctx_hashlock d" "ctx_secret c = ctx_secret d"
  using assms by (cases c; cases d; simp add: terms_def)+

lemma terms_upd [simp]:
  "terms (c\<lparr>my_leg_locked := b\<rparr>) = terms c" "terms (c\<lparr>counterparty_lock := l\<rparr>) = terms c"
  "terms (c\<lparr>revealed_secret := s\<rparr>) = terms c" "terms (c\<lparr>ctx_now := n\<rparr>) = terms c"
  by (simp_all add: terms_def)

text \<open>The parts of an executor no operation ever changes.\<close>

definition same_setup :: "('p, 'w) WalletExecutor \<Rightarrow> ('p, 'w) WalletExecutor \<Rightarrow> bool" where
  "same_setup x y \<longleftrightarrow>
     x_own_signer y = x_own_signer x \<and> x_cp_signer y = x_cp_signer x \<and>
     x_own_htlc y = x_own_htlc x \<and> x_cp_htlc y = x_cp_htlc x \<and>
     x_settlement y = x_settlement x \<and> x_min_confirmations y = x_min_confirmations x"

definition observing ::
  "hash_fn \<Rightarrow> ('p, 'w) WalletExecutor \<Rightarrow> ('p, 'w) WalletExecutor \<Rightarrow> bool" where
  "observing sha x y \<longleftrightarrow>
     same_setup x y \<and> x_state y = x_state x \<and> x_own_contract_id y = x_own_contract_id x \<and>
     terms (x_ctx y) = terms (x_ctx x) \<and> sent (x_env y) = sent (x_env x) \<and>
     observer_grows sha (x_own_observer x) (x_own_observer y) \<and>
     observer_grows sha (x_cp_observer x) (x_cp_observer y)"

interpretation observing: frame "observing sha" for sha
  by unfold_locales (auto simp: observing_def same_setup_def observer_grows_def)

lemma observer_grows_refl [simp]: "observer_grows sha ob ob"
  by (simp add: observer_grows_def)

lemma observing_ask: "keeps (observing sha) (on_x_env (ask q))"
  by (simp add: keeps_def on_x_env_def eff_simps observing_def same_setup_def)

lemma observing_set_ctx: "(\<And>c. terms (f c) = terms c) \<Longrightarrow> keeps (observing sha) (set_ctx f)"
  by (simp add: keeps_def set_ctx_def eff_simps observing_def same_setup_def)

lemma observing_cp_id: "keeps (observing sha) (modify (\<lambda>x. x\<lparr>x_cp_contract_id := f x\<rparr>))"
  by (simp add: keeps_def eff_simps observing_def same_setup_def)

lemma observing_observers:
  assumes "keeps (silent (\<lambda>s. sent (snd s))) m"
    and "keeps (\<lambda>s t. observer_grows sha (fst s) (fst t)) m"
  shows "keeps (observing sha) (on_cp_observer m)" "keeps (observing sha) (on_own_observer m)"
  using assms
  by (auto simp: keeps_def on_cp_observer_def on_own_observer_def eff_simps observing_def
      same_setup_def silent_def case_prod_unfold)

lemma refresh_observing: "keeps (observing (out_sha u)) (refresh_observations u)"
  unfolding refresh_observations_def
  by (intro observing.keeps_rules observing_ask observing_set_ctx observing_cp_id
      observing_observers observe_silent observe_grows rpc_observe_lock_silent
      observer_poll_silent observer_poll_grows terms_upd)

lemma reverified_observing: "keeps (observing (out_sha u)) (reverified_action u)"
  unfolding reverified_action_def by (intro observing.keeps_rules refresh_observing)

text \<open>
  What the context says about the opposite leg after a refresh was read in that refresh: the
  contract id is the observer's, and a lock offered to the gate is the confirmed lock the
  verifier answered for that contract.
\<close>

definition fresh_lock ::
  "('p, 'w, 'sig, 'rid, 'vk, 'sk) outside \<Rightarrow> ('p, 'w) WalletExecutor \<Rightarrow> ObservedLock \<Rightarrow> bool" where
  "fresh_lock u x l \<longleftrightarrow>
     (\<exists>cid v v'. x_cp_contract_id x = Some cid \<and>
        rpc_observe_lock (out_net u) (co_verifier (x_cp_observer x)) (co_htlc (x_cp_observer x))
          cid (x_min_confirmations x) v = (Inr (Confirmed l), v'))"

definition refreshed ::
  "('p, 'w, 'sig, 'rid, 'vk, 'sk) outside \<Rightarrow> ('p, 'w) WalletExecutor \<Rightarrow> bool" where
  "refreshed u x \<longleftrightarrow>
     ctx_hashlock (x_ctx x) \<noteq> None \<and>
     (case counterparty_lock (x_ctx x) of None \<Rightarrow> True | Some l \<Rightarrow> fresh_lock u x l) \<and>
     (x_own_contract_id x \<noteq> None \<longrightarrow> my_leg_locked (x_ctx x))"

lemma on_cp_observer_Inr:
  "on_cp_observer m x = (Inr a, x') \<longleftrightarrow>
     (\<exists>ob v. m (x_cp_observer x, x_env x) = (Inr a, (ob, v)) \<and>
        x' = x\<lparr>x_cp_observer := ob, x_env := v\<rparr>)"
  by (auto simp: on_cp_observer_def zoom_apply prod_eq_iff case_prod_unfold)

lemma on_own_observer_Inr:
  "on_own_observer m x = (Inr a, x') \<longleftrightarrow>
     (\<exists>ob v. m (x_own_observer x, x_env x) = (Inr a, (ob, v)) \<and>
        x' = x\<lparr>x_own_observer := ob, x_env := v\<rparr>)"
  by (auto simp: on_own_observer_def zoom_apply prod_eq_iff case_prod_unfold)

lemma on_x_env_Inr:
  "on_x_env m x = (Inr a, x') \<longleftrightarrow>
     (\<exists>v. m (x_env x) = (Inr a, v) \<and> x' = x\<lparr>x_env := v\<rparr>)"
  by (auto simp: on_x_env_def zoom_apply prod_eq_iff)

lemma set_ctx_Inr: "set_ctx f x = (Inr a, x') \<longleftrightarrow> x' = x\<lparr>x_ctx := f (x_ctx x)\<rparr>"
  by (simp add: set_ctx_def modify_Inr)

lemma set_state_Inr: "set_state f x = (Inr a, x') \<longleftrightarrow> x' = x\<lparr>x_state := f (x_state x)\<rparr>"
  by (simp add: set_state_def modify_Inr)

lemmas exec_Inr = eff_Inr on_cp_observer_Inr on_own_observer_Inr on_x_env_Inr set_ctx_Inr
  set_state_Inr

lemma observe_fresh:
  assumes "observe n sha iter (rpc_observe_lock n) h mc (ob, v) = (Inr r, (ob', v'))"
    and "for_gate r = Some l"
  shows "\<exists>cid v1. discover_contract_id h ob' = Some cid \<and>
    rpc_observe_lock n (co_verifier ob') (co_htlc ob') cid mc v1 = (Inr (Confirmed l), v')"
  using rpc_verifier.observe_confirmed [OF assms] by blast

lemma refresh_refreshed:
  assumes "refresh_observations u x = (Inr (), x')"
  shows "refreshed u x'"
proof -
  have fresh: "fresh_lock u y l"
    if "observe (out_net u) (out_sha u) (out_iter u) (rpc_observe_lock (out_net u)) h
        (x_min_confirmations y) (ob, v) = (Inr r, (x_cp_observer y, v'))"
      and "for_gate r = Some l"
      and "x_cp_contract_id y = discover_contract_id h (x_cp_observer y)"
    for y l r h ob v v'
    using observe_fresh [OF that(1,2)] that(3) by (auto simp: fresh_lock_def)
  show ?thesis
    using assms unfolding refresh_observations_def
    by (auto simp: exec_Inr ask_def refreshed_def split: option.splits if_splits intro!: fresh)
qed

subsection \<open>The wallet's invariant\<close>

text \<open>
  \<open>wallet_ok sha h x\<close>: the hashlock agreed on is \<open>h\<close>, a taker holds a preimage of it, and what
  the wallet takes for the revealed secret is a preimage of it too. The second follows from the
  tracker's invariant, which is why observing keeps it.
\<close>

definition wallet_ok :: "hash_fn \<Rightarrow> b32 \<Rightarrow> ('p, 'w) WalletExecutor \<Rightarrow> bool" where
  "wallet_ok sha h x \<longleftrightarrow>
     ctx_hashlock (x_ctx x) = Some h \<and>
     tracker_inv sha (co_tracker (x_own_observer x)) \<and>
     (ctx_role (x_ctx x) = Taker \<longrightarrow>
        (\<exists>s. ctx_secret (x_ctx x) = Some s \<and> hashlock_from_preimage sha s = h)) \<and>
     (\<forall>s. revealed_secret (x_ctx x) = Some s \<longrightarrow> hashlock_from_preimage sha s = h)"

lemma wallet_ok_env [simp]: "wallet_ok sha h (x\<lparr>x_env := v\<rparr>) = wallet_ok sha h x"
  by (simp add: wallet_ok_def)

lemma refresh_revealed:
  assumes "refresh_observations u x = (r, x')"
  shows "revealed_secret (x_ctx x') = revealed_secret (x_ctx x) \<or>
    (\<exists>h. ctx_hashlock (x_ctx x) = Some h \<and>
       revealed_secret (x_ctx x') = observer_revealed_secret h (x_own_observer x'))"
  using assms unfolding refresh_observations_def
  by (auto simp: eff_simps on_x_env_def on_cp_observer_def on_own_observer_def set_ctx_def
      split: prod.splits sum.splits option.splits if_splits)

lemma refresh_wallet_ok:
  assumes "refresh_observations u x = (r, x')" and "wallet_ok (out_sha u) h x"
  shows "wallet_ok (out_sha u) h x'"
proof -
  have ob: "observing (out_sha u) x x'"
    using refresh_observing assms(1) by (rule keepsE)
  then have "ctx_hashlock (x_ctx x') = Some h" "ctx_role (x_ctx x') = ctx_role (x_ctx x)"
    "ctx_secret (x_ctx x') = ctx_secret (x_ctx x)"
    using assms(2) terms_eqD [of "x_ctx x'" "x_ctx x"] by (simp_all add: observing_def wallet_ok_def)
  moreover have tr: "tracker_inv (out_sha u) (co_tracker (x_own_observer x'))"
    using ob assms(2) by (simp add: observing_def observer_grows_def wallet_ok_def)
  moreover have "hashlock_from_preimage (out_sha u) s = h"
    if "revealed_secret (x_ctx x') = Some s" for s
    using refresh_revealed [OF assms(1)] assms(2) that revealed_secret_hash [OF tr]
    by (auto simp: wallet_ok_def)
  ultimately show ?thesis using assms(2) by (simp add: wallet_ok_def)
qed

definition observes ::
  "hash_fn \<Rightarrow> ('p, 'w) WalletExecutor \<Rightarrow> ('p, 'w) WalletExecutor \<Rightarrow> bool" where
  "observes sha x y \<longleftrightarrow> observing sha x y \<and> (\<forall>h. wallet_ok sha h x \<longrightarrow> wallet_ok sha h y)"

subsection \<open>The step as a relation\<close>

text \<open>
  What a step may do, as one rule per outcome: the executor observes (\<open>y\<close>), and then does
  nothing, or acts on the decision taken on \<open>y\<close>. The list is what the step sent.
\<close>

definition lock_plan_of ::
  "('p, 'w, 'sig, 'rid, 'vk, 'sk) outside \<Rightarrow> ('p, 'w) WalletExecutor \<Rightarrow>
     address \<Rightarrow> address \<Rightarrow> u128 \<Rightarrow> b32 \<Rightarrow> u64 \<Rightarrow> tx list" where
  "lock_plan_of u x =
     (case x_settlement x of
        Some st \<Rightarrow> settlement_plan (out_keccak u) (out_k256 u) (x_own_signer x) st
      | None \<Rightarrow> direct_plan (x_own_htlc x))"

definition lock_id_of ::
  "('p, 'w, 'sig, 'rid, 'vk, 'sk) outside \<Rightarrow> ('p, 'w) WalletExecutor \<Rightarrow>
     address \<Rightarrow> address \<Rightarrow> u128 \<Rightarrow> b32 \<Rightarrow> u64 \<Rightarrow> b32" where
  "lock_id_of u x =
     compute_contract_id (out_crates u) (out_keccak u)
       (case x_settlement x of Some st \<Rightarrow> st_settlement st | None \<Rightarrow> sg_address (x_own_signer x))"

definition refund_tx :: "('p, 'w) WalletExecutor \<Rightarrow> b32 \<Rightarrow> tx" where
  "refund_tx x cid =
     (case x_settlement x of
        Some st \<Rightarrow> RefundLeg (st_settlement st) cid
      | None \<Rightarrow> RefundTx (x_own_htlc x) cid)"

abbreviation own_node :: "('p, 'w) WalletExecutor \<Rightarrow> 'p" where
  "own_node x \<equiv> sg_provider (x_own_signer x)"

abbreviation cp_node :: "('p, 'w) WalletExecutor \<Rightarrow> 'p" where
  "cp_node x \<equiv> sg_provider (x_cp_signer x)"

abbreviation decision :: "('p, 'w) WalletExecutor \<Rightarrow> NextAction" where
  "decision x \<equiv> next_action (x_state x) (x_ctx x)"

definition redeemed_state :: "SwapState \<Rightarrow> SwapState" where
  "redeemed_state st =
     advance (if st = WaitingForSecret then advance st E_SecretObserved else st) E_RedeemConfirmed"

inductive wallet_step ::
  "('p, 'w, 'sig, 'rid, 'vk, 'sk) outside \<Rightarrow> ('p, 'w) WalletExecutor \<Rightarrow>
     ExecutorError fault + StepOutcome \<Rightarrow> ('p \<times> tx) list \<Rightarrow> ('p, 'w) WalletExecutor \<Rightarrow> bool"
  for u x where
  failed: "observes (out_sha u) x y \<Longrightarrow> wallet_step u x (Inl e) [] y"
| waited: "observes (out_sha u) x y \<Longrightarrow> wallet_step u x (Inr S_Waiting) [] y"
| finished: "observes (out_sha u) x y \<Longrightarrow> decision y = A_Done \<Longrightarrow>
    wallet_step u x (Inr S_Terminal) [] y"
| aborted: "observes (out_sha u) x y \<Longrightarrow> decision y = A_Abort reason \<Longrightarrow>
    wallet_step u x (Inr (S_Aborted reason)) [] (y\<lparr>x_state := Aborted reason\<rparr>)"
| generated: "observes (out_sha u) x y \<Longrightarrow> refreshed u y \<Longrightarrow> decision y = A_GenerateSecret \<Longrightarrow>
    sent v = sent (x_env y) \<Longrightarrow>
    c = (if ctx_secret (x_ctx y) = None
         then (x_ctx y)\<lparr>ctx_hashlock := Some (hashlock_from_preimage (out_sha u) secret),
                        ctx_secret := Some secret\<rparr>
         else x_ctx y) \<Longrightarrow>
    wallet_step u x (Inr S_GeneratedSecret) []
      (y\<lparr>x_env := v, x_ctx := c, x_state := advance (x_state y) E_SecretGenerated\<rparr>)"
| lock_known: "observes (out_sha u) x y \<Longrightarrow> x_own_contract_id y \<noteq> None \<Longrightarrow>
    decision y = A_LockMyLeg r t a h tm \<Longrightarrow>
    wallet_step u x (Inr S_Waiting) []
      (y\<lparr>x_ctx := (x_ctx y)\<lparr>my_leg_locked := True\<rparr>,
         x_state := advance (x_state y) E_MyLegConfirmed\<rparr>)"
| lock_failed: "observes (out_sha u) x y \<Longrightarrow> refreshed u y \<Longrightarrow>
    decision y = A_LockMyLeg r t a h tm \<Longrightarrow> x_own_contract_id y = None \<Longrightarrow>
    txs = map (Pair (own_node x)) (take k (lock_plan_of u x r t a h tm)) \<Longrightarrow>
    sent v = sent (x_env y) @ txs \<Longrightarrow>
    wallet_step u x (Inl e) txs (y\<lparr>x_env := v\<rparr>)"
| locked: "observes (out_sha u) x y \<Longrightarrow> refreshed u y \<Longrightarrow>
    decision y = A_LockMyLeg r t a h tm \<Longrightarrow> x_own_contract_id y = None \<Longrightarrow> a \<noteq> 0 \<Longrightarrow>
    txs = map (Pair (own_node x)) (lock_plan_of u x r t a h tm) \<Longrightarrow>
    sent v = sent (x_env y) @ txs \<Longrightarrow> cid = lock_id_of u x r t a h tm \<Longrightarrow>
    wallet_step u x (Inr (S_LockedMyLeg cid)) txs
      (y\<lparr>x_env := v, x_own_contract_id := Some cid, x_ctx := (x_ctx y)\<lparr>my_leg_locked := True\<rparr>,
         x_state := advance (x_state y) E_MyLegConfirmed\<rparr>)"
| redeem_failed: "observes (out_sha u) x y \<Longrightarrow> refreshed u y \<Longrightarrow>
    decision y = A_RedeemCounterpartyLeg s \<Longrightarrow> x_cp_contract_id y = Some cid \<Longrightarrow>
    txs = [(cp_node x, Redeem (x_cp_htlc x) cid s)] \<Longrightarrow> sent v = sent (x_env y) @ txs \<Longrightarrow>
    wallet_step u x (Inl e) txs (y\<lparr>x_env := v\<rparr>)"
| redeemed: "observes (out_sha u) x y \<Longrightarrow> refreshed u y \<Longrightarrow>
    decision y = A_RedeemCounterpartyLeg s \<Longrightarrow> x_cp_contract_id y = Some cid \<Longrightarrow>
    txs = [(cp_node x, Redeem (x_cp_htlc x) cid s)] \<Longrightarrow> sent v = sent (x_env y) @ txs \<Longrightarrow>
    wallet_step u x (Inr S_RedeemedCounterpartyLeg) txs
      (y\<lparr>x_env := v, x_state := redeemed_state (x_state y)\<rparr>)"
| refund_failed: "observes (out_sha u) x y \<Longrightarrow> refreshed u y \<Longrightarrow> decision y = A_Refund \<Longrightarrow>
    my_timelock (x_ctx y) \<le> ctx_now (x_ctx y) \<Longrightarrow> x_own_contract_id y = Some cid \<Longrightarrow>
    txs = [(own_node x, refund_tx x cid)] \<Longrightarrow> sent v = sent (x_env y) @ txs \<Longrightarrow>
    wallet_step u x (Inl e) txs (y\<lparr>x_env := v\<rparr>)"
| refunded: "observes (out_sha u) x y \<Longrightarrow> refreshed u y \<Longrightarrow> decision y = A_Refund \<Longrightarrow>
    my_timelock (x_ctx y) \<le> ctx_now (x_ctx y) \<Longrightarrow> x_own_contract_id y = Some cid \<Longrightarrow>
    txs = [(own_node x, refund_tx x cid)] \<Longrightarrow> sent v = sent (x_env y) @ txs \<Longrightarrow>
    wallet_step u x (Inr S_RefundedMyLeg) txs (y\<lparr>x_env := v, x_state := Refunded\<rparr>)"

lemma observing_trans: "observes sha x y \<Longrightarrow> observes sha y z \<Longrightarrow> observes sha x z"
  unfolding observes_def using observing.frame_trans by blast

lemma reverified_action_matches_eq:
  "reverified_action_matches planned current \<Longrightarrow> current = planned"
  by (cases planned; cases current) (simp_all add: reverified_action_matches_def)

lemma refresh_cases:
  obtains (error) e y where "refresh_observations u x = (Inl e, y)" "observes (out_sha u) x y"
  | (fresh) y where "refresh_observations u x = (Inr (), y)" "observes (out_sha u) x y"
      "refreshed u y"
proof -
  obtain r y where run: "refresh_observations u x = (r, y)" by force
  with refresh_observing have "observing (out_sha u) x y" by (rule keepsE)
  with refresh_wallet_ok [OF run] have "observes (out_sha u) x y" by (simp add: observes_def)
  with run refresh_refreshed that show thesis by (cases r) auto
qed

lemma reverified_cases:
  obtains (error) e y where "reverified_action u x = (Inl e, y)" "observes (out_sha u) x y"
  | (fresh) y where "reverified_action u x = (Inr (decision y), y)" "observes (out_sha u) x y"
      "refreshed u y"
proof (cases rule: refresh_cases [of u x])
  case (error e y)
  then show thesis using that(1) by (simp add: reverified_action_def eff_simps)
next
  case (fresh y)
  then show thesis using that(2) by (simp add: reverified_action_def eff_simps)
qed

text \<open>The transactions of each arm.\<close>

lemma follows_one:
  assumes "follows p [t] m" and "m v = (r, v')"
  shows "sent v' = sent v \<and> (\<exists>e. r = Inl e) \<or> sent v' = sent v @ [(p, t)]"
proof -
  from assms obtain k where "sent v' = sent v @ map (Pair p) (take k [t])"
    "case r of Inl _ \<Rightarrow> True | Inr _ \<Rightarrow> k = length [t]"
    by (rule followsE)
  then show ?thesis by (cases k; cases r) auto
qed

lemma follows_redeem: "follows (sg_provider signer) [Redeem htlc cid s] (redeem n signer htlc cid s)"
  unfolding redeem_def by (rule follows_call)

lemma follows_refund:
  "follows (own_node x) [refund_tx x cid]
     (case x_settlement x of
        Some settlement \<Rightarrow> refund_via_settlement n (x_own_signer x) (st_settlement settlement) cid
      | None \<Rightarrow> refund n (x_own_signer x) (x_own_htlc x) cid)"
  by (simp add: refund_tx_def refund_via_settlement_def refund_def follows_call split: option.split)

lemma broadcast_lock_outcome:
  assumes "broadcast_lock u r t a h tm x = (res, x')"
  shows "\<exists>k v. x' = x\<lparr>x_env := v\<rparr> \<and>
    sent v = sent (x_env x) @ map (Pair (own_node x)) (take k (lock_plan_of u x r t a h tm)) \<and>
    (case res of
       Inl _ \<Rightarrow> True
     | Inr l \<Rightarrow> k = length (lock_plan_of u x r t a h tm) \<and> a \<noteq> 0 \<and>
         lk_contract_id l = lock_id_of u x r t a h tm)"
proof (cases "x_settlement x")
  case None
  obtain res0 v where run: "lock (out_net u) (out_crates u) (out_keccak u) (x_own_signer x)
      (x_own_htlc x) r t a h tm (x_env x) = (res0, v)" by force
  from direct.lock_outcome [OF run] obtain k where k: "sent v = sent (x_env x) @ map (Pair (own_node x)) (take k (direct_plan (x_own_htlc x) r t a h tm))"
    "case res0 of Inl _ \<Rightarrow> True
     | Inr l \<Rightarrow> k = length (direct_plan (x_own_htlc x) r t a h tm) \<and> a \<noteq> 0 \<and>
         lk_contract_id l = compute_contract_id (out_crates u) (out_keccak u)
           (sg_address (x_own_signer x)) r t a h tm"
    by blast
  show ?thesis
    using k assms run None
    by (cases res0) (auto simp: broadcast_lock_def eff_simps on_x_env_def lock_plan_of_def
        lock_id_of_def intro!: exI [of _ k] exI [of _ v])
next
  case (Some st)
  obtain res0 v where run: "lock_via_settlement (out_net u) (out_crates u) (out_keccak u)
      (out_k256 u) (x_own_signer x) st r t a h tm (x_env x) = (res0, v)" by force
  from settled.lock_outcome [OF run] obtain k where k: "sent v = sent (x_env x) @ map (Pair (own_node x))
      (take k (settlement_plan (out_keccak u) (out_k256 u) (x_own_signer x) st r t a h tm))"
    "case res0 of Inl _ \<Rightarrow> True
     | Inr l \<Rightarrow> k = length (settlement_plan (out_keccak u) (out_k256 u) (x_own_signer x) st r t a h tm) \<and>
         a \<noteq> 0 \<and>
         lk_contract_id l = compute_contract_id (out_crates u) (out_keccak u)
           (st_settlement st) r t a h tm"
    by blast
  show ?thesis
    using k assms run Some
    by (cases res0) (auto simp: broadcast_lock_def eff_simps on_x_env_def lock_plan_of_def
        lock_id_of_def intro!: exI [of _ k] exI [of _ v])
qed

lemma observing_env:
  "observes sha x y \<Longrightarrow> sent v = sent (x_env y) \<Longrightarrow> observes sha x (y\<lparr>x_env := v\<rparr>)"
  by (simp add: observes_def observing_def same_setup_def)

lemma observing_setup:
  assumes "observes sha x y"
  shows "own_node y = own_node x" "cp_node y = cp_node x" "x_cp_htlc y = x_cp_htlc x"
    "x_state y = x_state x" "x_own_contract_id y = x_own_contract_id x"
    "refund_tx y = refund_tx x" "lock_plan_of u y = lock_plan_of u x"
    "lock_id_of u y = lock_id_of u x"
  using assms [unfolded observes_def, THEN conjunct1]
  by (simp_all add: observing_def same_setup_def refund_tx_def lock_plan_of_def
      lock_id_of_def fun_eq_iff cong: option.case_cong)

text \<open>The arms, each from an observed state \<open>y\<close> on.\<close>

lemma step_generate_wallet:
  assumes "observes (out_sha u) x y" "refreshed u y" "decision y = A_GenerateSecret"
    and "step_generate u y = (r, x')"
  shows "wallet_step u x r [] x'"
proof (cases "ctx_secret (x_ctx y)")
  case None
  then show ?thesis
    using assms(4) wallet_step.generated [OF assms(1-3), of
        "(x_env y)\<lparr>world := snd (os_random32 (out_net u) (world (x_env y)))\<rparr>" _
        "fst (os_random32 (out_net u) (world (x_env y)))"]
    by (auto simp: step_generate_def eff_simps on_x_env_def set_ctx_def set_state_def)
next
  case (Some s)
  then show ?thesis
    using assms(4) wallet_step.generated [OF assms(1-3), of "x_env y" "x_ctx y"]
    by (auto simp: step_generate_def eff_simps set_state_def)
qed

lemma step_lock_wallet:
  assumes y: "observes (out_sha u) x y" and d: "decision y = A_LockMyLeg rc t a h tm"
    and run: "step_lock u (decision y) rc t a h tm y = (r, x')"
  shows "\<exists>txs. wallet_step u x r txs x'"
proof (cases rule: reverified_cases [of u y])
  case (error e z)
  then have "observes (out_sha u) x z" using y observing_trans by blast
  then show ?thesis
    using run error by (auto simp: step_lock_def eff_simps intro: wallet_step.failed)
next
  case (fresh z)
  have z: "observes (out_sha u) x z" using y fresh observing_trans by blast
  show ?thesis
  proof (cases "reverified_action_matches (decision y) (decision z)")
    case False
    then show ?thesis
      using run fresh z by (auto simp: step_lock_def eff_simps intro: wallet_step.waited)
  next
    case True
    then have dz: "decision z = A_LockMyLeg rc t a h tm"
      using d reverified_action_matches_eq by metis
    show ?thesis
    proof (cases "x_own_contract_id z")
      case (Some cid)
      then show ?thesis
        using run fresh z dz True
        by (auto simp: step_lock_def eff_simps set_ctx_def set_state_def
            intro: wallet_step.lock_known)
    next
      case None
      obtain res z' where b: "broadcast_lock u rc t a h tm z = (res, z')" by force
      from broadcast_lock_outcome [OF b] obtain k v where
        z': "z' = z\<lparr>x_env := v\<rparr>" and
        v: "sent v = sent (x_env z) @ map (Pair (own_node x)) (take k (lock_plan_of u x rc t a h tm))"
        and res: "case res of
            Inl _ \<Rightarrow> True
          | Inr l \<Rightarrow> k = length (lock_plan_of u x rc t a h tm) \<and> a \<noteq> 0 \<and>
              lk_contract_id l = lock_id_of u x rc t a h tm"
        unfolding observing_setup [OF z] by blast
      show ?thesis
      proof (cases res)
        case (Inl e)
        then show ?thesis
          using run fresh True None b z' wallet_step.lock_failed [OF z fresh(3) dz None refl v]
          by (auto simp: step_lock_def eff_simps)
      next
        case (Inr l)
        then show ?thesis
          using run fresh True None b z' v res
            wallet_step.locked [OF z fresh(3) dz None _ refl, of v "lk_contract_id l"]
          by (auto simp: step_lock_def eff_simps set_ctx_def set_state_def)
      qed
    qed
  qed
qed

lemma step_redeem_wallet:
  assumes y: "observes (out_sha u) x y" and d: "decision y = A_RedeemCounterpartyLeg s"
    and run: "step_redeem u (decision y) s y = (r, x')"
  shows "\<exists>txs. wallet_step u x r txs x'"
proof (cases rule: reverified_cases [of u y])
  case (error e z)
  then have "observes (out_sha u) x z" using y observing_trans by blast
  then show ?thesis
    using run error by (auto simp: step_redeem_def eff_simps intro: wallet_step.failed)
next
  case (fresh z)
  have z: "observes (out_sha u) x z" using y fresh observing_trans by blast
  show ?thesis
  proof (cases "reverified_action_matches (decision y) (decision z)")
    case False
    then show ?thesis
      using run fresh z by (auto simp: step_redeem_def eff_simps intro: wallet_step.waited)
  next
    case True
    then have dz: "decision z = A_RedeemCounterpartyLeg s"
      using d reverified_action_matches_eq by metis
    show ?thesis
    proof (cases "x_cp_contract_id z")
      case None
      then show ?thesis
        using run fresh z True by (auto simp: step_redeem_def eff_simps intro: wallet_step.failed)
    next
      case (Some cid)
      obtain res v where b: "redeem (out_net u) (x_cp_signer z) (x_cp_htlc z) cid s (x_env z) = (res, v)"
        by force
      have sends: "sent v = sent (x_env z) \<and> (\<exists>e. res = Inl e) \<or>
          sent v = sent (x_env z) @ [(cp_node x, Redeem (x_cp_htlc x) cid s)]"
        using follows_one [OF follows_redeem b] by (simp only: observing_setup [OF z])
      show ?thesis
      proof (cases res)
        case (Inl e)
        then have "r = Inl (tx_error e)" "x' = z\<lparr>x_env := v\<rparr>"
          using run fresh True Some b by (auto simp: step_redeem_def eff_simps on_x_env_def)
        then show ?thesis
          using sends z fresh dz Some
          by (auto intro: wallet_step.failed observing_env wallet_step.redeem_failed)
      next
        case (Inr hash)
        then have "r = Inr S_RedeemedCounterpartyLeg"
          "x' = z\<lparr>x_env := v, x_state := redeemed_state (x_state z)\<rparr>"
          using run fresh True Some b
          by (auto simp: step_redeem_def eff_simps on_x_env_def set_state_def redeemed_state_def)
        then show ?thesis
          using Inr sends wallet_step.redeemed [OF z fresh(3) dz Some refl] by auto
      qed
    qed
  qed
qed

lemma step_refund_wallet:
  assumes y: "observes (out_sha u) x y" and ref: "refreshed u y" and d: "decision y = A_Refund"
    and run: "step_refund u y = (r, x')"
  shows "\<exists>txs. wallet_step u x r txs x'"
proof (cases "ctx_now (x_ctx y) < my_timelock (x_ctx y)")
  case True
  then show ?thesis
    using run y by (auto simp: step_refund_def eff_simps intro: wallet_step.waited)
next
  case late: False
  show ?thesis
  proof (cases "x_own_contract_id y")
    case None
    then show ?thesis
      using run late y by (auto simp: step_refund_def eff_simps intro: wallet_step.failed)
  next
    case (Some cid)
    let ?refund = "case x_settlement y of
        Some settlement \<Rightarrow>
          refund_via_settlement (out_net u) (x_own_signer y) (st_settlement settlement) cid
      | None \<Rightarrow> refund (out_net u) (x_own_signer y) (x_own_htlc y) cid"
    obtain res v where b: "?refund (x_env y) = (res, v)" by force
    have sends: "sent v = sent (x_env y) \<and> (\<exists>e. res = Inl e) \<or>
        sent v = sent (x_env y) @ [(own_node x, refund_tx x cid)]"
      using follows_one [OF follows_refund b] by (simp only: observing_setup [OF y])
    have late': "my_timelock (x_ctx y) \<le> ctx_now (x_ctx y)" using late by simp
    show ?thesis
    proof (cases res)
      case (Inl e)
      then have "r = Inl (tx_error e)" "x' = y\<lparr>x_env := v\<rparr>"
        using run late Some b by (auto simp: step_refund_def eff_simps on_x_env_def)
      then show ?thesis
        using sends y ref d late' Some
        by (auto intro: wallet_step.failed observing_env wallet_step.refund_failed)
    next
      case (Inr hash)
      then have "r = Inr S_RefundedMyLeg" "x' = y\<lparr>x_env := v, x_state := Refunded\<rparr>"
        using run late Some b
        by (auto simp: step_refund_def eff_simps on_x_env_def set_state_def advance_def)
      then show ?thesis
        using Inr sends wallet_step.refunded [OF y ref d late' Some refl] by auto
    qed
  qed
qed

text \<open>Every step of the code is a step of the relation.\<close>

lemma step_wallet: "step u x = (r, x') \<Longrightarrow> \<exists>txs. wallet_step u x r txs x'"
proof (cases rule: refresh_cases [of u x])
  case (error e y)
  assume "step u x = (r, x')"
  with error show ?thesis by (auto simp: step_def eff_simps intro: wallet_step.failed)
next
  case (fresh y)
  assume "step u x = (r, x')"
  with fresh have run: "(case decision y of
       A_GenerateSecret \<Rightarrow> step_generate u
     | A_LockMyLeg recipient token amount hashlock tm \<Rightarrow>
         step_lock u (decision y) recipient token amount hashlock tm
     | A_RedeemCounterpartyLeg secret \<Rightarrow> step_redeem u (decision y) secret
     | A_Refund \<Rightarrow> step_refund u
     | A_WaitForCounterpartyLock \<Rightarrow> ret S_Waiting
     | A_WaitForSecretReveal \<Rightarrow> ret S_Waiting
     | A_VerifyCounterpartyLeg \<Rightarrow> ret S_Waiting
     | A_Done \<Rightarrow> ret S_Terminal
     | A_Abort reason \<Rightarrow>
         thenE (set_state (\<lambda>_. Aborted reason)) (ret (S_Aborted reason))) y = (r, x')"
    by (simp add: step_def eff_simps)
  show ?thesis
  proof (cases "decision y")
    case A_GenerateSecret
    then show ?thesis using run fresh step_generate_wallet by fastforce
  next
    case (A_LockMyLeg rc t a h tm)
    then show ?thesis using run step_lock_wallet [OF fresh(2) A_LockMyLeg] by simp
  next
    case (A_RedeemCounterpartyLeg s)
    then show ?thesis using run step_redeem_wallet [OF fresh(2) A_RedeemCounterpartyLeg] by simp
  next
    case A_Refund
    then show ?thesis using run step_refund_wallet [OF fresh(2,3) A_Refund] by simp
  next
    case (A_Abort reason)
    then show ?thesis
      using run wallet_step.aborted [OF fresh(2) A_Abort]
      by (auto simp: set_state_def eff_simps)
  qed (use run fresh in \<open>auto simp: eff_simps intro: wallet_step.waited wallet_step.finished\<close>)
qed

lemma wallet_step_sent: "wallet_step u x r txs x' \<Longrightarrow> sent (x_env x') = sent (x_env x) @ txs"
  by (induction rule: wallet_step.induct) (auto simp: observes_def observing_def)

text \<open>
  C20. \<open>step\<close> refines the guarded protocol. Whatever the nodes, the clock and the random source
  answer, a call of \<open>step\<close> is one of the rules of \<open>wallet_step\<close>: it observes, and then it does
  nothing, fails, or performs exactly the action the state machine decides on the observations
  just made, and what was sent is extended by exactly the transactions of that rule.
\<close>

theorem step_refines_wallet_step:
  "\<exists>txs. wallet_step u x (fst (step u x)) txs (snd (step u x)) \<and>
     sent (x_env (snd (step u x))) = sent (x_env x) @ txs"
proof -
  obtain r x' where run: "step u x = (r, x')" by force
  from step_wallet [OF this] obtain txs where w: "wallet_step u x r txs x'" by blast
  with wallet_step_sent [OF w] show ?thesis by (auto simp: run)
qed

subsection \<open>Redeeming and refunding\<close>

definition sent_by ::
  "('p, 'w) WalletExecutor \<Rightarrow> ('p, 'w) WalletExecutor \<Rightarrow> ('p \<times> tx) list" where
  "sent_by x x' = drop (length (sent (x_env x))) (sent (x_env x'))"

lemma sent_by_step:
  assumes "step u x = (r, x')"
  shows "wallet_step u x r (sent_by x x') x'"
proof -
  from step_wallet [OF assms] obtain txs where w: "wallet_step u x r txs x'" by blast
  with wallet_step_sent [OF w] show ?thesis by (simp add: sent_by_def)
qed

fun is_redeem :: "tx \<Rightarrow> bool" where
  "is_redeem (Redeem _ _ _) = True"
| "is_redeem _ = False"

fun is_refund :: "tx \<Rightarrow> bool" where
  "is_refund (RefundTx _ _) = True"
| "is_refund (RefundLeg _ _) = True"
| "is_refund _ = False"

fun is_lock :: "tx \<Rightarrow> bool" where
  "is_lock (NewSwap _ _ _ _ _ _ _) = True"
| "is_lock (SettleLeg _ _ _ _ _ _ _) = True"
| "is_lock (Approve _ _ _) = True"
| "is_lock _ = False"

lemma lock_plan_is_lock: "t \<in> set (lock_plan_of u x r tk a h tm) \<Longrightarrow> is_lock t"
  by (auto simp: lock_plan_of_def direct_plan_def settlement_plan_def approval_plan_def Let_def
      split: option.splits if_splits)

lemma lock_not_other: "is_lock t \<Longrightarrow> \<not> is_redeem t \<and> \<not> is_refund t"
  by (cases t) simp_all

lemma refund_tx_is_refund [simp]: "is_refund (refund_tx x cid)" "\<not> is_redeem (refund_tx x cid)"
    "\<not> is_lock (refund_tx x cid)"
  by (simp_all add: refund_tx_def split: option.split)

lemma take_plan_is_lock:
  "(p, t) \<in> set (map (Pair q) (take k (lock_plan_of u x r tk a h tm))) \<Longrightarrow> is_lock t"
  by (auto dest: in_set_takeD intro: lock_plan_is_lock)

lemma wallet_step_redeem:
  assumes "wallet_step u x res txs x'" and "(p, t) \<in> set txs" and "is_redeem t"
  shows "\<exists>s cid. p = cp_node x \<and> t = Redeem (x_cp_htlc x) cid s \<and> x_cp_contract_id x' = Some cid \<and>
    next_action (x_state x) (x_ctx x') = A_RedeemCounterpartyLeg s \<and> refreshed u x' \<and>
    terms (x_ctx x') = terms (x_ctx x)"
  using assms
  by (induction rule: wallet_step.induct)
    (auto simp: observes_def observing_def refreshed_def fresh_lock_def split: option.splits
      dest!: take_plan_is_lock in_set_takeD lock_plan_is_lock lock_not_other)

lemma observing_timelock: "observes sha x y \<Longrightarrow> my_timelock (x_ctx y) = my_timelock (x_ctx x)"
  by (auto simp: observes_def observing_def dest: terms_eqD)

lemma wallet_step_refund:
  assumes "wallet_step u x res txs x'" and "(p, t) \<in> set txs" and "is_refund t"
  shows "\<exists>cid. p = own_node x \<and> t = refund_tx x cid \<and> x_own_contract_id x = Some cid \<and>
    next_action (x_state x) (x_ctx x') = A_Refund \<and> my_timelock (x_ctx x) \<le> ctx_now (x_ctx x')"
  using assms
  by (induction rule: wallet_step.induct)
    (auto simp: observing_timelock observing_setup dest!: take_plan_is_lock in_set_takeD
      lock_plan_is_lock lock_not_other)

text \<open>
  C11. The secret is revealed only against a leg verified on the spot. If a step of a taker hands
  a redeem to a node, then the taker had locked its own leg, the transaction carries its own
  secret and goes to the opposite contract over the opposite connection, and the contract id
  it names was read within this step as a confirmed, active lock that \<open>verify_counterparty_leg\<close>
  judges safe for the agreed terms at the time just read from the clock.
\<close>

theorem taker_redeems_only_safe_legs:
  assumes "ctx_role (x_ctx x) = Taker"
    and "(p, t) \<in> set (sent_by x (snd (step u x)))" and "is_redeem t"
  shows "\<exists>s cid l. x_state x = MyLegLocked \<and> ctx_secret (x_ctx x) = Some s \<and>
    p = cp_node x \<and> t = Redeem (x_cp_htlc x) cid s \<and>
    x_cp_contract_id (snd (step u x)) = Some cid \<and>
    counterparty_lock (x_ctx (snd (step u x))) = Some l \<and>
    verify_counterparty_leg (expectation (x_ctx (snd (step u x)))) l = Safe \<and>
    fresh_lock u (snd (step u x)) l \<and>
    terms (x_ctx (snd (step u x))) = terms (x_ctx x)"
proof -
  obtain r x' where run: "step u x = (r, x')" by force
  from wallet_step_redeem [OF sent_by_step [OF run], of p t] assms(2,3) obtain s cid where
    red: "p = cp_node x" "t = Redeem (x_cp_htlc x) cid s" "x_cp_contract_id x' = Some cid"
    "next_action (x_state x) (x_ctx x') = A_RedeemCounterpartyLeg s" "refreshed u x'"
    "terms (x_ctx x') = terms (x_ctx x)"
    by (auto simp: run)
  have "ctx_role (x_ctx x') = Taker" "ctx_secret (x_ctx x') = ctx_secret (x_ctx x)"
    using terms_eqD [OF red(6)] assms(1) by simp_all
  then show ?thesis
    using red by (auto simp: run next_action_redeem_iff gate_open_def refreshed_def)
qed

text \<open>
  Refunds wait for the timelock. If a step hands a refund to a node, it refunds the contract
  this executor locked itself, over its own connection and the way it locked it, the state
  machine decides a refund on the observations of this step, and the clock read in this step
  has reached the own leg's timelock.
\<close>

theorem refund_only_after_timelock:
  assumes "(p, t) \<in> set (sent_by x (snd (step u x)))" and "is_refund t"
  shows "\<exists>cid. p = own_node x \<and> t = refund_tx x cid \<and> x_own_contract_id x = Some cid \<and>
    next_action (x_state x) (x_ctx (snd (step u x))) = A_Refund \<and>
    my_timelock (x_ctx x) \<le> ctx_now (x_ctx (snd (step u x)))"
proof -
  obtain r x' where run: "step u x = (r, x')" by force
  from wallet_step_refund [OF sent_by_step [OF run]] assms show ?thesis by (simp add: run)
qed

text \<open>
  Without a hashlock nothing happens. A step of an executor whose context has no hashlock
  fails with \<open>MissingHashlock\<close>, sends nothing and leaves the state, so the branch of
  \<open>GenerateSecret\<close> that draws a secret and derives the hashlock from it is never reached from a
  context that lacks both.
\<close>

theorem step_needs_hashlock:
  assumes "ctx_hashlock (x_ctx x) = None"
  shows "fst (step u x) = Inl (Failed X_MissingHashlock) \<and>
    sent (x_env (snd (step u x))) = sent (x_env x) \<and> x_state (snd (step u x)) = x_state x"
  using assms
  by (simp add: step_def refresh_observations_def eff_simps on_x_env_def set_ctx_def)

subsection \<open>The state a step leaves\<close>

lemma next_action_my_leg_locked [simp]:
  "next_action st (c\<lparr>my_leg_locked := b\<rparr>) = next_action st c"
proof -
  have "expectation (c\<lparr>my_leg_locked := b\<rparr>) = expectation c" by (simp add: expectation_def)
  then show ?thesis
    by (cases st; cases "ctx_role c")
      (auto simp: next_action_def taker_next_def maker_next_def lock_my_leg_def
        split: option.split VerifyOutcome.split)
qed

lemma observing_role: "observes sha x y \<Longrightarrow> ctx_role (x_ctx y) = ctx_role (x_ctx x)"
  by (auto simp: observes_def observing_def dest: terms_eqD)

text \<open>
  The table of the executor's moves: for a role, whether the own leg's contract id is known, and a
  state, which outcomes a step can have and the one state each leads to.
\<close>

fun waits_to :: "Role \<Rightarrow> bool \<Rightarrow> SwapState \<Rightarrow> SwapState \<Rightarrow> bool" where
  "waits_to role known st st' \<longleftrightarrow>
     st' = st \<or>
     known \<and> (role, st, st') \<in> {(Taker, SecretGenerated, MyLegLocked), (Maker, Start, WaitingForSecret)}"

fun aborts_for :: "Role \<Rightarrow> SwapState \<Rightarrow> AbortReason \<Rightarrow> bool" where
  "aborts_for role (Aborted r) r' \<longleftrightarrow> r' = r"
| "aborts_for Taker SecretGenerated r \<longleftrightarrow> r = MissingHashlock"
| "aborts_for Taker MyLegLocked r \<longleftrightarrow> r = MissingSecret"
| "aborts_for Taker WaitingForSecret r \<longleftrightarrow> r = InvalidState"
| "aborts_for Taker SecretLearned r \<longleftrightarrow> r = InvalidState"
| "aborts_for Maker Start r \<longleftrightarrow> r = MissingHashlock \<or> (\<exists>why. r = UnsafeCounterparty why)"
| "aborts_for Maker SecretLearned r \<longleftrightarrow> r = MissingSecret"
| "aborts_for Maker SecretGenerated r \<longleftrightarrow> r = InvalidState"
| "aborts_for Maker MyLegLocked r \<longleftrightarrow> r = InvalidState"
| "aborts_for _ _ _ \<longleftrightarrow> False"

fun moves :: "Role \<Rightarrow> bool \<Rightarrow> SwapState \<Rightarrow> ExecutorError fault + StepOutcome \<Rightarrow> SwapState \<Rightarrow> bool" where
  "moves role known st (Inl e) st' \<longleftrightarrow> st' = st"
| "moves role known st (Inr S_Waiting) st' \<longleftrightarrow> waits_to role known st st'"
| "moves role known st (Inr S_GeneratedSecret) st' \<longleftrightarrow>
     (role, st, st') = (Taker, Start, SecretGenerated)"
| "moves role known st (Inr (S_LockedMyLeg cid)) st' \<longleftrightarrow>
     \<not> known \<and>
     (role, st, st') \<in> {(Taker, SecretGenerated, MyLegLocked), (Maker, Start, WaitingForSecret)}"
| "moves role known st (Inr S_RedeemedCounterpartyLeg) st' \<longleftrightarrow>
     (role, st) \<in> {(Taker, MyLegLocked), (Maker, WaitingForSecret), (Maker, SecretLearned)} \<and>
     st' = CounterpartyRedeemed"
| "moves role known st (Inr S_RefundedMyLeg) st' \<longleftrightarrow>
     known \<and> (st = Refunding \<or> (role, st) \<in> {(Taker, MyLegLocked), (Maker, WaitingForSecret)}) \<and>
     st' = Refunded"
| "moves role known st (Inr S_Terminal) st' \<longleftrightarrow>
     st \<in> {Done, Refunded, CounterpartyRedeemed} \<and> st' = st"
| "moves role known st (Inr (S_Aborted r)) st' \<longleftrightarrow> aborts_for role st r \<and> st' = Aborted r"

lemma next_action_aborts:
  "next_action st c = A_Abort r \<Longrightarrow> aborts_for (ctx_role c) st r"
  by (auto simp: next_action_Abort_iff)

lemma wallet_step_moves:
  assumes "wallet_step u x r txs x'"
  shows "moves (ctx_role (x_ctx x)) (x_own_contract_id x \<noteq> None) (x_state x) r (x_state x') \<and>
    x_own_contract_id x' = (case r of Inr (S_LockedMyLeg cid) \<Rightarrow> Some cid | _ \<Rightarrow> x_own_contract_id x)"
  using assms
proof (induction rule: wallet_step.induct)
  case (aborted y reason)
  with next_action_aborts [OF aborted(2)] show ?case by (simp add: observing_role observing_setup)
qed (auto simp: observing_role observing_setup next_action_iffs redeemed_state_def advance_def)

text \<open>
  C39. The executor's moves. Whatever the nodes answer, a step takes one of the moves of its role:
  a secret is drawn from \<open>Start\<close> only, a lock reported from the role's locking state and only when
  none was known, a redeem reported from a state with the own leg locked and always into
  \<open>CounterpartyRedeemed\<close>, a refund always of a known leg and into \<open>Refunded\<close>; an abort has one of
  the reasons of its state; waiting moves on only past a lock that is already known; and an error
  moves nothing. The contract id of the own leg changes with a reported lock, to its id, and
  with nothing else.
\<close>

theorem step_follows_table:
  "moves (ctx_role (x_ctx x)) (x_own_contract_id x \<noteq> None) (x_state x) (fst (step u x))
     (x_state (snd (step u x))) \<and>
   x_own_contract_id (snd (step u x)) =
     (case fst (step u x) of Inr (S_LockedMyLeg cid) \<Rightarrow> Some cid | _ \<Rightarrow> x_own_contract_id x)"
proof -
  obtain r x' where run: "step u x = (r, x')" by force
  from wallet_step_moves [OF sent_by_step [OF run]] show ?thesis by (simp add: run)
qed

text \<open>
  C36. Errors change nothing but observations. When a step returns an error, whatever it had sent
  before failing, the state machine's state, the agreed terms and the known contract id of the
  own leg are what they were. A lock that was sent but whose receipt could not be fetched thus
  leaves no trace in the executor.
\<close>

theorem failed_step_keeps_state:
  assumes "step u x = (Inl e, x')"
  shows "x_state x' = x_state x \<and> x_own_contract_id x' = x_own_contract_id x \<and>
    terms (x_ctx x') = terms (x_ctx x) \<and> same_setup x x'"
  using sent_by_step [OF assms]
  by (cases rule: wallet_step.cases)
    (auto simp: observes_def observing_def same_setup_def)

end
