(* ===== verification/Kael_Executor_Runs.thy ===== *)
theory Kael_Executor_Runs
  imports Kael_Executor_Safety
begin

section \<open>Whole runs of the executor\<close>

text \<open>
  What holds of \<open>run\<close>, for any number of steps and any outside world: the transactions of a run
  are the swap's own ones, a leg is locked at most once, a run that returns is settled. The
  locale \<open>executor_frame\<close> extends the monad's frames: a frame that every step keeps is kept by
  every run.

  The last part holds two observations on the code: the status of a receipt is never looked
  at, and a lock whose receipt cannot be fetched is forgotten.
\<close>

locale executor_frame = frame R
  for R :: "('p, 'w) WalletExecutor \<Rightarrow> ('p, 'w) WalletExecutor \<Rightarrow> bool" +
  fixes u :: "('p, 'w, 'sig, 'rid, 'vk, 'sk) outside"
  assumes step_keeps: "wallet_step u x r txs x' \<Longrightarrow> R x x'"
begin

lemma keeps_step: "keeps R (step u)"
proof (rule keepsI)
  fix x
  obtain r x' where run: "step u x = (r, x')" by force
  show "R x (snd (step u x))"
    using step_keeps [OF sent_by_step [OF run]] by (simp add: run)
qed

lemma keeps_run: "keeps R (run k u)"
proof (induction k)
  case 0
  show ?case by (simp add: keeps_throw)
next
  case (Suc k)
  then show ?case
    by (auto intro!: keeps_bindE keeps_step keeps_gets keeps_ret split: StepOutcome.split)
qed

end

subsection \<open>Only this swap's transactions\<close>

definition spender_of :: "('p, 'w) WalletExecutor \<Rightarrow> address" where
  "spender_of x = (case x_settlement x of Some st \<Rightarrow> st_settlement st | None \<Rightarrow> x_own_htlc x)"

text \<open>The transactions a swap with hashlock \<open>h\<close> may send, on which connection and with which terms.\<close>

definition own_tx :: "hash_fn \<Rightarrow> b32 \<Rightarrow> ('p, 'w) WalletExecutor \<Rightarrow> 'p \<times> tx \<Rightarrow> bool" where
  "own_tx sha h x pt =
     (let c = x_ctx x in
      case pt of (p, t) \<Rightarrow>
      (case t of
         NewSwap htlc r tk a hl tm val \<Rightarrow>
           p = own_node x \<and> x_settlement x = None \<and> htlc = x_own_htlc x \<and> r = my_recipient c \<and>
           tk = my_token c \<and> a = ucast (my_amount c) \<and> hl = h \<and> tm = ucast (my_timelock c) \<and>
           val = native_value (my_token c) (my_amount c)
       | SettleLeg st od sg r hl tm val \<Rightarrow>
           p = own_node x \<and>
           (case x_settlement x of
              None \<Rightarrow> False
            | Some cf \<Rightarrow> st = st_settlement cf \<and>
                od = sol_order (settlement_order (x_own_signer x) cf (my_token c) (my_amount c))) \<and>
           r = my_recipient c \<and> hl = h \<and> tm = ucast (my_timelock c) \<and>
           val = native_value (my_token c) (my_amount c)
       | Approve tk sp a \<Rightarrow>
           p = own_node x \<and> tk = my_token c \<and> a = ucast (my_amount c) \<and> sp = spender_of x
       | Redeem htlc cid s \<Rightarrow>
           p = cp_node x \<and> htlc = x_cp_htlc x \<and> hashlock_from_preimage sha s = h
       | RefundTx _ _ \<Rightarrow> p = own_node x \<and> (\<exists>cid. t = refund_tx x cid)
       | RefundLeg _ _ \<Rightarrow> p = own_node x \<and> (\<exists>cid. t = refund_tx x cid)))"

definition same_swap :: "('p, 'w) WalletExecutor \<Rightarrow> ('p, 'w) WalletExecutor \<Rightarrow> bool" where
  "same_swap x y \<longleftrightarrow> same_setup x y \<and> terms (x_ctx y) = terms (x_ctx x)"

lemma observes_same_swap: "observes sha x y \<Longrightarrow> same_swap x y"
  by (simp add: observes_def observing_def same_swap_def)

lemma own_tx_same_swap:
  assumes "same_swap x y"
  shows "own_tx sha h y = own_tx sha h x"
proof -
  have "terms (x_ctx y) = terms (x_ctx x)" and same: "same_setup x y"
    using assms by (simp_all add: same_swap_def)
  note eqs = terms_eqD [OF this(1)]
  from same have "refund_tx y = refund_tx x" "spender_of y = spender_of x"
    by (simp_all add: same_setup_def refund_tx_def spender_of_def fun_eq_iff cong: option.case_cong)
  with same have "own_tx sha h y (p, t) = own_tx sha h x (p, t)" for p t
    by (cases t) (simp_all add: own_tx_def same_setup_def Let_def eqs cong: option.case_cong)
  then show ?thesis by (simp add: fun_eq_iff)
qed

lemma lock_plan_own_tx:
  assumes "decision y = A_LockMyLeg r t a hl tm" and "wallet_ok sha h y"
  shows "list_all (own_tx sha h y) (map (Pair (own_node y)) (lock_plan_of u y r t a hl tm))"
  using assms
  by (auto simp: next_action_lock_iff wallet_ok_def lock_plan_of_def direct_plan_def
      settlement_plan_def approval_plan_def own_tx_def spender_of_def Let_def split: option.split)

lemma redeem_own_tx:
  assumes "decision y = A_RedeemCounterpartyLeg s" and "wallet_ok sha h y"
  shows "own_tx sha h y (cp_node y, Redeem (x_cp_htlc y) cid s)"
  using assms by (auto simp: next_action_redeem_iff wallet_ok_def own_tx_def)

lemma refund_own_tx: "own_tx sha h y (own_node y, refund_tx y cid)"
  by (auto simp: own_tx_def refund_tx_def split: option.split)

text \<open>Everything a step of a sound wallet does to the wallet.\<close>

definition conforms ::
  "hash_fn \<Rightarrow> ('p, 'w) WalletExecutor \<Rightarrow> ('p, 'w) WalletExecutor \<Rightarrow> bool" where
  "conforms sha x y \<longleftrightarrow>
     (\<forall>h. wallet_ok sha h x \<longrightarrow>
        wallet_ok sha h y \<and> same_swap x y \<and>
        (\<exists>txs. sent (x_env y) = sent (x_env x) @ txs \<and> list_all (own_tx sha h x) txs))"

lemma wallet_ok_upd [simp]:
  "wallet_ok sha h (x\<lparr>x_state := st\<rparr>) = wallet_ok sha h x"
  "wallet_ok sha h (x\<lparr>x_own_contract_id := cid\<rparr>) = wallet_ok sha h x"
  "wallet_ok sha h (x\<lparr>x_ctx := (x_ctx x)\<lparr>my_leg_locked := b\<rparr>\<rparr>) = wallet_ok sha h x"
  by (simp_all add: wallet_ok_def)

lemma same_swap_upd [simp]:
  "same_swap x (y\<lparr>x_state := st\<rparr>) = same_swap x y"
  "same_swap x (y\<lparr>x_own_contract_id := cid\<rparr>) = same_swap x y"
  "same_swap x (y\<lparr>x_env := v\<rparr>) = same_swap x y"
  "same_swap x (y\<lparr>x_ctx := (x_ctx y)\<lparr>my_leg_locked := b\<rparr>\<rparr>) = same_swap x y"
  by (simp_all add: same_swap_def same_setup_def)

lemma generate_keeps_ctx:
  assumes "decision y = A_GenerateSecret" and "wallet_ok sha h y"
  shows "ctx_secret (x_ctx y) \<noteq> None"
  using assms by (auto simp: next_action_generate_iff wallet_ok_def)

lemma wallet_step_observes:
  assumes "wallet_step u x r txs x'"
  obtains y where "observes (out_sha u) x y"
    and "wallet_ok (out_sha u) h y \<longrightarrow> wallet_ok (out_sha u) h x' \<and> (same_swap x y \<longrightarrow> same_swap x x')"
  using assms
proof (cases rule: wallet_step.cases)
  case (generated y v c secret)
  have "wallet_ok (out_sha u) h x' \<and> (same_swap x y \<longrightarrow> same_swap x x')"
    if "wallet_ok (out_sha u) h y"
  proof -
    have "c = x_ctx y"
      using generate_keeps_ctx [OF generated(6) that] generated(8) by auto
    then have "x' = y\<lparr>x_env := v, x_state := advance (x_state y) E_SecretGenerated\<rparr>"
      using generated by simp
    then show ?thesis using that by simp
  qed
  with generated that show thesis by blast
next
  case (lock_known y rc t a hl tm)
  have "x' = y\<lparr>x_ctx := (x_ctx y)\<lparr>my_leg_locked := True\<rparr>\<rparr>\<lparr>x_state := advance (x_state y) E_MyLegConfirmed\<rparr>"
    using lock_known by simp
  with lock_known that show thesis by (metis wallet_ok_upd(1,3) same_swap_upd(1,4))
next
  case (locked y rc t a hl tm v cid)
  have "x' = y\<lparr>x_ctx := (x_ctx y)\<lparr>my_leg_locked := True\<rparr>\<rparr>\<lparr>x_env := v\<rparr>\<lparr>x_own_contract_id := Some cid\<rparr>
      \<lparr>x_state := advance (x_state y) E_MyLegConfirmed\<rparr>"
    using locked by simp
  with locked that show thesis
    by (metis wallet_ok_upd wallet_ok_env same_swap_upd)
qed (use that in auto)

lemma wallet_step_ok:
  assumes "wallet_step u x r txs x'" and "wallet_ok (out_sha u) h x"
  shows "wallet_ok (out_sha u) h x' \<and> same_swap x x'"
proof -
  from assms(1) obtain y where y: "observes (out_sha u) x y"
    and x': "wallet_ok (out_sha u) h y \<longrightarrow>
      wallet_ok (out_sha u) h x' \<and> (same_swap x y \<longrightarrow> same_swap x x')"
    by (rule wallet_step_observes [where h = h])
  have "wallet_ok (out_sha u) h y" using y assms(2) by (simp add: observes_def)
  then show ?thesis using x' observes_same_swap [OF y] by blast
qed

lemma wallet_step_own_txs:
  assumes "wallet_step u x r txs x'" and "wallet_ok (out_sha u) h x"
  shows "list_all (own_tx (out_sha u) h x) txs"
proof -
  have ok: "wallet_ok (out_sha u) h y" "own_tx (out_sha u) h y = own_tx (out_sha u) h x"
    if "observes (out_sha u) x y" for y
    using that assms(2) own_tx_same_swap [OF observes_same_swap [OF that]]
    by (simp_all add: observes_def)
  show ?thesis
    using assms(1)
  proof (cases rule: wallet_step.cases)
    case (lock_failed y rc t a hl tm k v e)
    then show ?thesis
      using lock_plan_own_tx [OF lock_failed(5) ok(1), of u] ok(2) [OF lock_failed(3)]
      by (auto simp: observing_setup [OF lock_failed(3)] list_all_iff dest: in_set_takeD)
  next
    case (locked y rc t a hl tm v cid)
    then show ?thesis
      using lock_plan_own_tx [OF locked(5) ok(1), of u] ok(2) [OF locked(3)]
      by (simp add: observing_setup [OF locked(3)])
  next
    case (redeem_failed y s cid v e)
    then show ?thesis
      using redeem_own_tx [OF redeem_failed(5) ok(1), of cid] ok(2) [OF redeem_failed(3)]
      by (simp add: observing_setup [OF redeem_failed(3)])
  next
    case (redeemed y s cid v)
    then show ?thesis
      using redeem_own_tx [OF redeemed(5) ok(1), of cid] ok(2) [OF redeemed(3)]
      by (simp add: observing_setup [OF redeemed(3)])
  qed (auto simp: refund_own_tx)
qed

lemma wallet_step_conforms: "wallet_step u x r txs x' \<Longrightarrow> conforms (out_sha u) x x'"
  using wallet_step_ok wallet_step_own_txs wallet_step_sent by (fastforce simp: conforms_def)

lemma conforms_trans:
  assumes "conforms sha x y" and "conforms sha y z"
  shows "conforms sha x z"
  unfolding conforms_def
proof (intro allI impI)
  fix h
  assume "wallet_ok sha h x"
  with assms(1) obtain xs where y: "wallet_ok sha h y" "same_swap x y"
    "sent (x_env y) = sent (x_env x) @ xs" "list_all (own_tx sha h x) xs"
    by (auto simp: conforms_def)
  with assms(2) obtain ys where z: "wallet_ok sha h z" "same_swap y z"
    "sent (x_env z) = sent (x_env y) @ ys" "list_all (own_tx sha h y) ys"
    by (auto simp: conforms_def)
  have "same_swap x z" using y(2) z(2) by (simp add: same_swap_def same_setup_def)
  then show "wallet_ok sha h z \<and> same_swap x z \<and>
      (\<exists>txs. sent (x_env z) = sent (x_env x) @ txs \<and> list_all (own_tx sha h x) txs)"
    using y z own_tx_same_swap [OF y(2)] by (auto intro!: exI [of _ "xs @ ys"])
qed

lemma conforms_refl: "conforms sha x x"
  by (simp add: conforms_def same_swap_def same_setup_def)

interpretation conforming: executor_frame "conforms (out_sha u)" u for u
  by unfold_locales (auto intro: conforms_refl conforms_trans wallet_step_conforms)

text \<open>
  C14. A run sends this swap's transactions and nothing else. For a wallet whose taker knows a
  preimage of the agreed hashlock and whose observers start sound, whatever the nodes answer
  and however long it runs, every transaction handed to a node is one of: an approval of
  exactly the own amount for the contract the wallet locks through; the lock of the own leg with
  the agreed recipient, token, amount, hashlock and timelock; a redeem on the opposite contract
  with a preimage of the agreed hashlock; a refund the way the leg was locked; each on its own
  connection. At the end the wallet is still sound, for the same swap.
\<close>

theorem run_sends_only_this_swap:
  assumes "wallet_ok (out_sha u) h x"
  shows "list_all (own_tx (out_sha u) h x) (sent_by x (snd (run k u x))) \<and>
    wallet_ok (out_sha u) h (snd (run k u x)) \<and> same_swap x (snd (run k u x))"
  using keepsD [OF conforming.keeps_run, of u x k] assms
  by (auto simp: conforms_def sent_by_def)

subsection \<open>At most one lock\<close>

definition locks_no_more :: "('p, 'w) WalletExecutor \<Rightarrow> ('p, 'w) WalletExecutor \<Rightarrow> bool" where
  "locks_no_more x y \<longleftrightarrow>
     (x_own_contract_id x \<noteq> None \<longrightarrow>
        x_own_contract_id y = x_own_contract_id x \<and>
        (\<exists>txs. sent (x_env y) = sent (x_env x) @ txs \<and> list_all (\<lambda>(p, t). \<not> is_lock t) txs))"

lemma wallet_step_locks_no_more:
  "wallet_step u x r txs x' \<Longrightarrow> locks_no_more x x'"
proof -
  assume w: "wallet_step u x r txs x'"
  then have "x_own_contract_id x \<noteq> None \<longrightarrow>
      x_own_contract_id x' = x_own_contract_id x \<and> list_all (\<lambda>(p, t). \<not> is_lock t) txs"
    by (induction rule: wallet_step.induct) (auto simp: observing_setup)
  then show ?thesis using wallet_step_sent [OF w] by (auto simp: locks_no_more_def)
qed

interpretation locking_once: executor_frame locks_no_more u for u
proof
  fix x y z :: "('a, 'b) WalletExecutor"
  show "locks_no_more x x" by (simp add: locks_no_more_def)
  assume xy: "locks_no_more x y" and yz: "locks_no_more y z"
  show "locks_no_more x z"
    unfolding locks_no_more_def
  proof
    assume x: "x_own_contract_id x \<noteq> None"
    from x xy obtain xs where y: "x_own_contract_id y = x_own_contract_id x"
      "sent (x_env y) = sent (x_env x) @ xs" "list_all (\<lambda>(p, t). \<not> is_lock t) xs"
      by (auto simp: locks_no_more_def)
    from x y yz obtain ys where "x_own_contract_id z = x_own_contract_id y"
      "sent (x_env z) = sent (x_env y) @ ys" "list_all (\<lambda>(p, t). \<not> is_lock t) ys"
      by (auto simp: locks_no_more_def)
    with y show "x_own_contract_id z = x_own_contract_id x \<and>
        (\<exists>txs. sent (x_env z) = sent (x_env x) @ txs \<and> list_all (\<lambda>(p, t). \<not> is_lock t) txs)"
      by (auto intro!: exI [of _ "xs @ ys"])
  qed
qed (rule wallet_step_locks_no_more)

text \<open>
  The own leg is locked at most once. From the moment an executor knows the contract id of
  its leg, no run ever hands another lock or approval to a node, and the id never changes.
\<close>

theorem locks_at_most_once:
  assumes "x_own_contract_id x = Some cid"
  shows "list_all (\<lambda>(p, t). \<not> is_lock t) (sent_by x (snd (run k u x))) \<and>
    x_own_contract_id (snd (run k u x)) = Some cid"
  using keepsD [OF locking_once.keeps_run, of x k u] assms
  by (auto simp: locks_no_more_def sent_by_def)

subsection \<open>Runs that return\<close>

lemma step_settles:
  assumes "wallet_step u x r txs x'" and "r = Inr S_Terminal \<or> (\<exists>e. r = Inr (S_Aborted e))"
  shows "is_terminal (x_state x')"
  using assms
  by (induction rule: wallet_step.induct)
    (auto simp: is_terminal_def next_action_Done_iff split: SwapState.splits)

text \<open>
  A run that returns is settled: the state it reports is the executor's state, and it is
  terminal. A run that is not settled after \<open>max_steps\<close> steps reports that, as an error.
\<close>

theorem run_returns_terminal:
  assumes "run k u x = (Inr st, x')"
  shows "st = x_state x' \<and> is_terminal st"
  using assms
proof (induction k arbitrary: x)
  case 0
  then show ?case by (simp add: throw_def)
next
  case (Suc k)
  obtain r y where run: "step u x = (r, y)" by force
  have w: "wallet_step u x r (sent_by x y) y" by (rule sent_by_step [OF run])
  show ?case
  proof (cases r)
    case (Inl e)
    then show ?thesis using Suc.prems run by (simp add: eff_simps)
  next
    case (Inr oc)
    then show ?thesis
      using Suc run step_settles [OF w]
      by (auto simp: eff_simps split: StepOutcome.splits if_splits)
  qed
qed

subsection \<open>Receipts of reverted transactions\<close>

text \<open>\<open>reverting n\<close>: the same world, except that every receipt says the transaction failed.\<close>

definition reverting :: "('p, 'w) net \<Rightarrow> ('p, 'w) net" where
  "reverting n = n\<lparr>await_receipt := \<lambda>p h w.
     (case await_receipt n p h w of
        (Inl e, w') \<Rightarrow> (Inl e, w')
      | (Inr rc, w') \<Rightarrow> (Inr (rc\<lparr>r_status := False\<rparr>), w'))\<rparr>"

abbreviation reverted ::
  "('p, 'w, 'sig, 'rid, 'vk, 'sk) outside \<Rightarrow> ('p, 'w, 'sig, 'rid, 'vk, 'sk) outside" where
  "reverted u \<equiv> u\<lparr>out_net := reverting (out_net u)\<rparr>"

lemma reverting_reads [simp]:
  "get_block_number (reverting n) = get_block_number n"
  "get_logs (reverting n) = get_logs n" "call_getSwap (reverting n) = call_getSwap n"
  "call_allowance (reverting n) = call_allowance n" "clock_now (reverting n) = clock_now n"
  "os_random32 (reverting n) = os_random32 n"
  by (simp_all add: reverting_def)

lemma reverting_send [simp]: "send (reverting n) p t = send n p t"
  by (simp add: fun_eq_iff send_def reverting_def)

lemma reverting_receipt:
  "rpc (await_receipt (reverting n) p h) =
     bindE (rpc (await_receipt n p h)) (\<lambda>rc. ret (rc\<lparr>r_status := False\<rparr>))"
  by (auto simp: fun_eq_iff rpc_def reverting_def bindE_def ret_def split: prod.split sum.split)

lemma map_errE_bindE: "map_errE g (bindE m f) = bindE (map_errE g m) (\<lambda>a. map_errE g (f a))"
  by (auto simp: fun_eq_iff map_errE_def bindE_def split: prod.split sum.split)

lemma bindE_assoc: "bindE (bindE m f) g = bindE m (\<lambda>a. bindE (f a) g)"
  by (auto simp: fun_eq_iff bindE_def split: prod.split sum.split)

lemma bindE_ret: "bindE (ret a) f = f a" "map_errE g (ret a) = ret a"
  by (simp_all add: fun_eq_iff bindE_def ret_def map_errE_def)

lemma reverting_send_and_wait:
  "bindE (send_and_wait (reverting n) p t) f =
     bindE (send_and_wait n p t) (\<lambda>rc. f (rc\<lparr>r_status := False\<rparr>))"
  by (simp add: send_and_wait_def reverting_receipt map_errE_bindE bindE_assoc bindE_ret)

lemma reverting_poll [simp]:
  "poll_into_tracker (reverting n) sha iter p addr c from to = poll_into_tracker n sha iter p addr c from to"
  by (simp add: poll_into_tracker_def)

lemma reverting_observe [simp]:
  "observer_poll (reverting n) sha iter = observer_poll n sha iter"
  "rpc_observe_lock (reverting n) = rpc_observe_lock n"
  "observe (reverting n) sha iter ol h mc = observe n sha iter ol h mc"
proof -
  show poll: "observer_poll (reverting n) sha iter = observer_poll n sha iter"
    by (simp only: observer_poll_def reverting_poll reverting_reads)
  show "observe (reverting n) sha iter ol h mc = observe n sha iter ol h mc"
    by (simp only: observe_def observer_poll_def reverting_poll reverting_reads)
  show "rpc_observe_lock (reverting n) = rpc_observe_lock n"
    by (intro ext) (simp only: rpc_observe_lock_def creation_block_def reverting_reads)
qed

lemma reverting_txs [simp]:
  "approve_exact (reverting n) cr sg tk sp a = approve_exact n cr sg tk sp a"
  "lock (reverting n) cr kc sg htlc r tk a h tm = lock n cr kc sg htlc r tk a h tm"
  "lock_via_settlement (reverting n) cr kc k sg cf r tk a h tm =
     lock_via_settlement n cr kc k sg cf r tk a h tm"
  "redeem (reverting n) sg htlc cid s = redeem n sg htlc cid s"
  "refund (reverting n) sg htlc cid = refund n sg htlc cid"
  "refund_via_settlement (reverting n) sg st cid = refund_via_settlement n sg st cid"
proof -
  show app: "approve_exact (reverting n) cr sg tk sp a = approve_exact n cr sg tk sp a"
    by (simp add: approve_exact_def thenE_def reverting_send_and_wait)
  show "lock (reverting n) cr kc sg htlc r tk a h tm = lock n cr kc sg htlc r tk a h tm"
    "lock_via_settlement (reverting n) cr kc k sg cf r tk a h tm =
       lock_via_settlement n cr kc k sg cf r tk a h tm"
    by (simp_all add: lock_def lock_via_settlement_def reverting_send_and_wait approve_exact_def
        thenE_def cong: if_cong)
qed (simp_all add: redeem_def refund_def refund_via_settlement_def reverting_send_and_wait)

lemma reverted_step: "step (reverted u) = step u"
proof -
  have refresh: "refresh_observations (reverted u) = refresh_observations u"
    by (simp add: refresh_observations_def)
  then have "reverified_action (reverted u) = reverified_action u"
    by (simp add: reverified_action_def)
  moreover have "broadcast_lock (reverted u) r t a h tm = broadcast_lock u r t a h tm" for r t a h tm
    by (simp add: broadcast_lock_def cong: option.case_cong)
  moreover have "step_generate (reverted u) = step_generate u"
    by (simp add: step_generate_def cong: if_cong)
  moreover have "step_refund (reverted u) = step_refund u"
    by (simp add: step_refund_def cong: option.case_cong if_cong)
  ultimately show ?thesis
    using refresh
    by (simp add: step_def step_lock_def [abs_def] step_redeem_def [abs_def]
        cong: if_cong NextAction.case_cong)
qed

text \<open>
  C38. The status of a receipt is never looked at. In a world where every mined transaction has
  reverted, an executor takes exactly the steps and reaches exactly the states it would if all
  of them had succeeded: a redeem that reverted on chain is reported as
  \<open>RedeemedCounterpartyLeg\<close>, a lock that reverted as \<open>LockedMyLeg\<close>.
\<close>

theorem reverted_transactions_count:
  "run k (reverted u) x = run k u x"
proof -
  have "run k (reverted u) = run k u"
    by (induction k) (simp_all add: reverted_step cong: StepOutcome.case_cong if_cong)
  then show ?thesis by simp
qed

end
