(* ===== verification/Kael_Preflight.thy ===== *)
theory Kael_Preflight
  imports Kael_Tx
begin

section \<open>The preflight of the closed test network\<close>

text \<open>
  Models \<open>swapkit/src/bin/closed-testnet-preflight.rs\<close>: reading the configuration from the
  environment, and the checks on the two legs. An error is the text the program prints; its
  progress lines are left out. The readers of environment variables are here in the form both
  binaries share.

  The lemmas show that the preflight never sends anything and what its success means.
\<close>

subsection \<open>Environment variables\<close>

definition is_invalid :: "string \<Rightarrow> string \<Rightarrow> string" where
  "is_invalid name e = name @ '' is invalid: '' @ e"

definition env_required :: "environment \<Rightarrow> string \<Rightarrow> string + string" where
  "env_required var name = map_err (\<lambda>_. ''missing required variable: '' @ name) (var name)"

definition env_optional ::
  "environment \<Rightarrow> string \<Rightarrow> 'a \<Rightarrow> (string \<Rightarrow> string + 'a) \<Rightarrow> string + 'a" where
  "env_optional var name absent parse =
     (case var name of
        Inr v \<Rightarrow> map_err (is_invalid name) (parse v)
      | Inl NotPresent \<Rightarrow> Inr absent
      | Inl (NotUnicode e) \<Rightarrow> Inl (is_invalid name e))"

definition parse_int_text :: "string \<Rightarrow> string + 'a::len word" where
  "parse_int_text v = map_err int_error_text (parse_uint v)"

definition env_u64 :: "environment \<Rightarrow> string \<Rightarrow> string + u64 option" where
  "env_u64 var name =
     env_optional var name None (\<lambda>v. and_then (parse_int_text v) (\<lambda>n. Inr (Some n)))"

definition env_u256 :: "crates \<Rightarrow> environment \<Rightarrow> string \<Rightarrow> string + u256 option" where
  "env_u256 cr var name =
     env_optional var name None (\<lambda>v. and_then (parse_u256 cr (trim v)) (\<lambda>n. Inr (Some n)))"

definition env_address_optional :: "crates \<Rightarrow> environment \<Rightarrow> string \<Rightarrow> string + address" where
  "env_address_optional cr var name = env_optional var name 0 (parse_evm_address cr)"

subsection \<open>A leg's configuration\<close>

record PreflightLeg =
  pl_name :: string
  pl_rpc :: string
  pl_expected_chain_id :: u64
  pl_htlc :: address
  pl_settlement :: address
  pl_token :: address
  pl_key :: string
  pl_amount :: "u256 option"

definition read_leg :: "crates \<Rightarrow> environment \<Rightarrow> string \<Rightarrow> string + PreflightLeg" where
  "read_leg cr var suffix =
     and_then (env_required var (''KAEL_RPC_'' @ suffix)) (\<lambda>rpc.
     and_then (env_required var (''KAEL_CHAIN_'' @ suffix)) (\<lambda>chain_text.
     and_then (map_err (is_invalid (''KAEL_CHAIN_'' @ suffix)) (parse_int_text chain_text))
       (\<lambda>chain_id.
     and_then (env_required var (''KAEL_HTLC_'' @ suffix)) (\<lambda>htlc_text.
     and_then (map_err (is_invalid (''KAEL_HTLC_'' @ suffix)) (parse_evm_address cr htlc_text))
       (\<lambda>htlc.
     and_then (env_required var (''KAEL_SETTLEMENT_'' @ suffix)) (\<lambda>settlement_text.
     and_then (map_err (is_invalid (''KAEL_SETTLEMENT_'' @ suffix))
                (parse_evm_address cr settlement_text)) (\<lambda>settlement.
     and_then (env_address_optional cr var (''KAEL_TOKEN_'' @ suffix)) (\<lambda>token.
     and_then (env_required var (''KAEL_SIGNER_KEY_'' @ suffix)) (\<lambda>key.
     and_then (env_u256 cr var (''KAEL_AMOUNT_'' @ suffix @ ''_WEI'')) (\<lambda>amount.
     Inr \<lparr>pl_name = suffix, pl_rpc = rpc, pl_expected_chain_id = chain_id, pl_htlc = htlc,
          pl_settlement = settlement, pl_token = token, pl_key = key, pl_amount = amount\<rparr>))))))))))"

subsection \<open>The checks\<close>

definition read_chain_id ::
  "('p, 'w) net \<Rightarrow> string \<Rightarrow> 'p \<Rightarrow> (('p, 'w) env, string, u64) eff" where
  "read_chain_id n name provider =
     map_errE (\<lambda>e. ''RPC '' @ name @ '' failed to read chain_id: '' @ e)
       (rpc (get_chain_id n provider))"

definition check_leg ::
  "('p, 'w) net \<Rightarrow> PreflightLeg \<Rightarrow> 'p \<Rightarrow> (('p, 'w) env, string, unit) eff" where
  "check_leg n leg provider =
     bindE (read_chain_id n (pl_name leg) provider) (\<lambda>chain_id.
     thenE (guard (chain_id = pl_expected_chain_id leg)
              (''KAEL_CHAIN_'' @ pl_name leg @ '' expected '' @ dec (unat (pl_expected_chain_id leg)) @
               '', RPC returned '' @ dec (unat chain_id)))
    (thenE (of_result (map_err signer_error_text (assert_chain_allowed chain_id)))
    (bindE (map_errE (\<lambda>e. ''RPC '' @ pl_name leg @ '' failed to read HTLC: '' @ e)
              (rpc (get_code_at n provider (pl_htlc leg)))) (\<lambda>code.
     guard (code \<noteq> [])
       (''KAEL_HTLC_'' @ pl_name leg @ '' has no bytecode on chain '' @ dec (unat chain_id))))))"

definition check_settlement ::
  "('p, 'w) net \<Rightarrow> crates \<Rightarrow> PreflightLeg \<Rightarrow> 'p \<Rightarrow> (('p, 'w) env, string, unit) eff" where
  "check_settlement n cr leg provider =
     thenE (guard (pl_settlement leg \<noteq> 0)
              (''KAEL_SETTLEMENT_'' @ pl_name leg @ '' is invalid: zero address''))
    (bindE (read_chain_id n (pl_name leg) provider) (\<lambda>chain_id.
     bindE (map_errE (\<lambda>e. ''RPC '' @ pl_name leg @ '' failed to read Settlement: '' @ e)
              (rpc (get_code_at n provider (pl_settlement leg)))) (\<lambda>code.
     thenE (guard (code \<noteq> [])
              (''KAEL_SETTLEMENT_'' @ pl_name leg @ '' has no bytecode on chain '' @
               dec (unat chain_id)))
    (bindE (map_errE (\<lambda>e. ''RPC '' @ pl_name leg @ '' failed to read Settlement.htlc(): '' @ e)
              (rpc (call_htlc n provider (pl_settlement leg)))) (\<lambda>canonical_htlc.
     guard (canonical_htlc = pl_htlc leg)
       (''KAEL_SETTLEMENT_'' @ pl_name leg @ '' points to HTLC '' @ show_address cr canonical_htlc @
        '', expected '' @ show_address cr (pl_htlc leg)))))))"

definition check_token ::
  "('p, 'w) net \<Rightarrow> crates \<Rightarrow> PreflightLeg \<Rightarrow> 'p \<Rightarrow> (('p, 'w) env, string, unit) eff" where
  "check_token n cr leg provider =
     (if pl_token leg = 0 then ret ()
      else
        bindE (read_chain_id n (pl_name leg) provider) (\<lambda>chain_id.
        bindE (map_errE (\<lambda>e. ''RPC '' @ pl_name leg @ '' failed to read ERC-20 token: '' @ e)
                 (rpc (get_code_at n provider (pl_token leg)))) (\<lambda>code.
        guard (code \<noteq> [])
          (''KAEL_TOKEN_'' @ pl_name leg @ '' is invalid: '' @ show_address cr (pl_token leg) @
           '' has no bytecode on chain '' @ dec (unat chain_id)))))"

definition native_value_required :: "PreflightLeg \<Rightarrow> u256" where
  "native_value_required leg =
     (if pl_token leg = 0 then (case pl_amount leg of Some a \<Rightarrow> a | None \<Rightarrow> 0) else 0)"

definition check_balance ::
  "('p, 'w) net \<Rightarrow> crates \<Rightarrow> string \<Rightarrow> address \<Rightarrow> string \<Rightarrow> 'p \<Rightarrow> u256 \<Rightarrow>
     (('p, 'w) env, string, unit) eff" where
  "check_balance n cr signer_name addr chain_name provider required =
     bindE (map_errE (\<lambda>e. ''RPC '' @ chain_name @ '' failed to read balance: '' @ e)
              (rpc (get_balance n provider addr))) (\<lambda>balance.
     guard (\<not> balance < required)
       (''insufficient gas/value balance: signer '' @ signer_name @ '' on chain '' @ chain_name @
        '' has '' @ show_u256 cr balance @ '' wei, required '' @ show_u256 cr required @ '' wei''))"

definition check_token_balance ::
  "('p, 'w) net \<Rightarrow> crates \<Rightarrow> string \<Rightarrow> address \<Rightarrow> PreflightLeg \<Rightarrow> 'p \<Rightarrow>
     (('p, 'w) env, string, unit) eff" where
  "check_token_balance n cr signer_name addr leg provider =
     (if pl_token leg = 0 then ret ()
      else
        let required = (case pl_amount leg of Some a \<Rightarrow> a | None \<Rightarrow> 0) in
        bindE (map_errE (\<lambda>e. ''RPC '' @ pl_name leg @ '' failed to read signer '' @ signer_name @
                   '' ERC-20 balance: '' @ e)
                 (rpc (call_balanceOf n provider (pl_token leg) addr))) (\<lambda>balance.
        guard (\<not> balance < required)
          (''insufficient ERC-20 balance: signer '' @ signer_name @ '' on chain '' @ pl_name leg @
           '' has '' @ show_u256 cr balance @ '' token wei, required '' @ show_u256 cr required @
           '' token wei'')))"

definition signer_for_leg :: "('u, 'k, 'p) clients \<Rightarrow> PreflightLeg \<Rightarrow> string + 'k" where
  "signer_for_leg cl leg =
     map_err (is_invalid (''KAEL_SIGNER_KEY_'' @ pl_name leg)) (parse_key cl (strip_key (pl_key leg)))"

definition provider_for_leg :: "('u, 'k, 'p) clients \<Rightarrow> PreflightLeg \<Rightarrow> string + 'p" where
  "provider_for_leg cl leg =
     and_then (map_err (is_invalid (''KAEL_RPC_'' @ pl_name leg)) (parse_url cl (pl_rpc leg)))
       (\<lambda>url. Inr (connect_http cl url))"

definition check_cross_chain_balances ::
  "('p, 'w) net \<Rightarrow> crates \<Rightarrow> ('u, 'k, 'p) clients \<Rightarrow> PreflightLeg \<Rightarrow> PreflightLeg \<Rightarrow> 'p \<Rightarrow> 'p \<Rightarrow>
     u256 \<Rightarrow> (('p, 'w) env, string, unit) eff" where
  "check_cross_chain_balances n cr cl leg_a leg_b provider_a provider_b min_gas =
     bindE (of_result (signer_for_leg cl leg_a)) (\<lambda>signer_a.
     bindE (of_result (signer_for_leg cl leg_b)) (\<lambda>signer_b.
     let address_a = key_address cl signer_a; address_b = key_address cl signer_b in
     thenE (check_balance n cr ''A'' address_a ''A'' provider_a
              (saturating_add min_gas (native_value_required leg_a)))
    (thenE (check_balance n cr ''A'' address_a ''B'' provider_b min_gas)
    (thenE (check_balance n cr ''B'' address_b ''A'' provider_a min_gas)
    (thenE (check_balance n cr ''B'' address_b ''B'' provider_b
              (saturating_add min_gas (native_value_required leg_b)))
    (thenE (check_token_balance n cr ''A'' address_a leg_a provider_a)
     (check_token_balance n cr ''B'' address_b leg_b provider_b)))))))"

definition preflight ::
  "('p, 'w) net \<Rightarrow> crates \<Rightarrow> ('u, 'k, 'p) clients \<Rightarrow> environment \<Rightarrow> (('p, 'w) env, string, unit) eff"
where
  "preflight n cr cl var =
     bindE (of_result (env_u64 var ''KAEL_CLOSED_TESTNET_MIN_CONFIRMATIONS'')) (\<lambda>min_conf.
     bindE (of_result (env_u256 cr var ''KAEL_MIN_GAS_BALANCE_WEI'')) (\<lambda>gas1.
     bindE (of_result (env_u256 cr var ''KAEL_CLOSED_TESTNET_MIN_BALANCE_WEI'')) (\<lambda>gas2.
     let min_confirmations = (case min_conf of Some m \<Rightarrow> m | None \<Rightarrow> 3);
         min_gas = (case (case gas1 of Some g \<Rightarrow> Some g | None \<Rightarrow> gas2) of
                      Some g \<Rightarrow> g | None \<Rightarrow> 10000000000000000)
     in
     thenE (guard (min_confirmations \<noteq> 0) ''KAEL_CLOSED_TESTNET_MIN_CONFIRMATIONS must be >= 1'')
    (bindE (of_result (read_leg cr var ''A'')) (\<lambda>leg_a.
     bindE (of_result (read_leg cr var ''B'')) (\<lambda>leg_b.
     thenE (guard (pl_expected_chain_id leg_a \<noteq> pl_expected_chain_id leg_b)
              ''KAEL_CHAIN_A and KAEL_CHAIN_B must be distinct chains for the cross-chain run'')
    (bindE (of_result (provider_for_leg cl leg_a)) (\<lambda>provider_a.
     bindE (of_result (provider_for_leg cl leg_b)) (\<lambda>provider_b.
     thenE (check_leg n leg_a provider_a)
    (thenE (check_leg n leg_b provider_b)
    (thenE (check_settlement n cr leg_a provider_a)
    (thenE (check_settlement n cr leg_b provider_b)
    (thenE (check_token n cr leg_a provider_a)
    (thenE (check_token n cr leg_b provider_b)
     (check_cross_chain_balances n cr cl leg_a leg_b provider_a provider_b min_gas)))))))))))))))"

subsection \<open>What the preflight shows\<close>

lemma reads_silent: "keeps (silent sent) (map_errE g (rpc q))"
  by (intro quiet.keeps_map_errE keeps_rpc)

lemma checks_silent:
  "keeps (silent sent) (check_leg n leg p)"
  "keeps (silent sent) (check_settlement n cr leg p)"
  "keeps (silent sent) (check_token n cr leg p)"
  "keeps (silent sent) (check_balance n cr s addr c p req)"
  "keeps (silent sent) (check_token_balance n cr s addr leg p)"
  unfolding check_leg_def check_settlement_def check_token_def check_balance_def
    check_token_balance_def read_chain_id_def Let_def
  by (intro quiet.keeps_rules reads_silent)+

lemma preflight_silent: "keeps (silent sent) (preflight n cr cl var)"
  unfolding preflight_def check_cross_chain_balances_def Let_def
  by (intro quiet.keeps_rules checks_silent)

text \<open>\<open>reads_to n w w'\<close>: the requests of the preflight alone lead from the world \<open>w\<close> to \<open>w'\<close>.\<close>

inductive reads_to :: "('p, 'w) net \<Rightarrow> 'w \<Rightarrow> 'w \<Rightarrow> bool" for n where
  here: "reads_to n w w"
| chain_id: "reads_to n w (snd (get_chain_id n p w')) " if "reads_to n w w'"
| code: "reads_to n w (snd (get_code_at n p a w'))" if "reads_to n w w'"
| htlc: "reads_to n w (snd (call_htlc n p a w'))" if "reads_to n w w'"
| balance: "reads_to n w (snd (get_balance n p a w'))" if "reads_to n w w'"
| token: "reads_to n w (snd (call_balanceOf n p t a w'))" if "reads_to n w w'"

lemma reads_to_trans: "reads_to n w' w'' \<Longrightarrow> reads_to n w w' \<Longrightarrow> reads_to n w w''"
  by (induction rule: reads_to.induct) (auto intro: reads_to.intros)

definition only_reads :: "('p, 'w) net \<Rightarrow> ('p, 'w) env \<Rightarrow> ('p, 'w) env \<Rightarrow> bool" where
  "only_reads n v v' \<longleftrightarrow> reads_to n (world v) (world v')"

interpretation reading: frame "only_reads n" for n
  by unfold_locales (auto simp: only_reads_def intro: reads_to.here reads_to_trans)

lemma reading_requests:
  "keeps (only_reads n) (rpc (get_chain_id n p))"
  "keeps (only_reads n) (rpc (get_code_at n p a))"
  "keeps (only_reads n) (rpc (call_htlc n p a))"
  "keeps (only_reads n) (rpc (get_balance n p a))"
  "keeps (only_reads n) (rpc (call_balanceOf n p t a))"
  by (auto simp: keeps_def only_reads_def rpc_def intro: reads_to.intros)

lemma checks_reading:
  "keeps (only_reads n) (check_leg n leg p)"
  "keeps (only_reads n) (check_settlement n cr leg p)"
  "keeps (only_reads n) (check_token n cr leg p)"
  "keeps (only_reads n) (check_balance n cr s addr c p req)"
  "keeps (only_reads n) (check_token_balance n cr s addr leg p)"
  unfolding check_leg_def check_settlement_def check_token_def check_balance_def
    check_token_balance_def read_chain_id_def Let_def
  by (intro reading.keeps_rules reading_requests)+

lemma reads_after:
  assumes "keeps (only_reads n) m" and "m v = (r, v')" and "reads_to n w (world v)"
  shows "reads_to n w (world v')"
  using keepsE [OF assms(1,2)] assms(3) by (auto simp: only_reads_def intro: reads_to_trans)

text \<open>
  What a node answered at some moment of a preflight that began in the world \<open>w0\<close>.
\<close>

definition answers_chain :: "('p, 'w) net \<Rightarrow> 'w \<Rightarrow> 'p \<Rightarrow> u64 \<Rightarrow> bool" where
  "answers_chain n w0 p chain_id \<longleftrightarrow>
     (\<exists>w. reads_to n w0 w \<and> fst (get_chain_id n p w) = Inr chain_id)"

definition has_code :: "('p, 'w) net \<Rightarrow> 'w \<Rightarrow> 'p \<Rightarrow> address \<Rightarrow> bool" where
  "has_code n w0 p a \<longleftrightarrow>
     (\<exists>w code. reads_to n w0 w \<and> fst (get_code_at n p a w) = Inr code \<and> code \<noteq> [])"

definition settles_in :: "('p, 'w) net \<Rightarrow> 'w \<Rightarrow> 'p \<Rightarrow> address \<Rightarrow> address \<Rightarrow> bool" where
  "settles_in n w0 p settlement htlc \<longleftrightarrow>
     (\<exists>w. reads_to n w0 w \<and> fst (call_htlc n p settlement w) = Inr htlc)"

definition holds_wei :: "('p, 'w) net \<Rightarrow> 'w \<Rightarrow> 'p \<Rightarrow> address \<Rightarrow> u256 \<Rightarrow> bool" where
  "holds_wei n w0 p a amount \<longleftrightarrow>
     (\<exists>w b. reads_to n w0 w \<and> fst (get_balance n p a w) = Inr b \<and> amount \<le> b)"

definition holds_token :: "('p, 'w) net \<Rightarrow> 'w \<Rightarrow> 'p \<Rightarrow> address \<Rightarrow> address \<Rightarrow> u256 \<Rightarrow> bool" where
  "holds_token n w0 p t a amount \<longleftrightarrow>
     (\<exists>w b. reads_to n w0 w \<and> fst (call_balanceOf n p t a w) = Inr b \<and> amount \<le> b)"

text \<open>A leg whose node, contracts and token are in place.\<close>

definition leg_in_place :: "('p, 'w) net \<Rightarrow> 'w \<Rightarrow> 'p \<Rightarrow> PreflightLeg \<Rightarrow> bool" where
  "leg_in_place n w0 p leg \<longleftrightarrow>
     answers_chain n w0 p (pl_expected_chain_id leg) \<and>
     pl_expected_chain_id leg \<in> set ALLOWED_TEST_CHAINS \<and>
     has_code n w0 p (pl_htlc leg) \<and> pl_settlement leg \<noteq> 0 \<and> has_code n w0 p (pl_settlement leg) \<and>
     settles_in n w0 p (pl_settlement leg) (pl_htlc leg) \<and>
     (pl_token leg = 0 \<or> has_code n w0 p (pl_token leg))"

text \<open>A signer that can pay for gas on both chains and for its own leg on its own.\<close>

definition signer_funded ::
  "('p, 'w) net \<Rightarrow> 'w \<Rightarrow> 'p \<Rightarrow> 'p \<Rightarrow> address \<Rightarrow> u256 \<Rightarrow> PreflightLeg \<Rightarrow> bool" where
  "signer_funded n w0 own other a min_gas leg \<longleftrightarrow>
     holds_wei n w0 own a (saturating_add min_gas (native_value_required leg)) \<and>
     holds_wei n w0 other a min_gas \<and>
     (pl_token leg = 0 \<or>
      holds_token n w0 own (pl_token leg) a (case pl_amount leg of Some x \<Rightarrow> x | None \<Rightarrow> 0))"

text \<open>The gas reserve asked for: the first variable that is set, or 0.01 of the native coin.\<close>

definition min_gas_balance :: "crates \<Rightarrow> environment \<Rightarrow> string + u256" where
  "min_gas_balance cr var =
     and_then (env_u256 cr var ''KAEL_MIN_GAS_BALANCE_WEI'') (\<lambda>a.
     and_then (env_u256 cr var ''KAEL_CLOSED_TESTNET_MIN_BALANCE_WEI'') (\<lambda>b.
     Inr (case a of
            Some g \<Rightarrow> g
          | None \<Rightarrow> (case b of Some g \<Rightarrow> g | None \<Rightarrow> 10000000000000000))))"

lemma rpc_read:
  "map_errE g (rpc q) v = (Inr a, v') \<Longrightarrow> fst (q (world v)) = Inr a \<and> world v' = snd (q (world v))"
  by (auto simp: map_errE_Inr rpc_def)

lemma assert_chain_allowed_Inr [simp]:
  "assert_chain_allowed c = Inr u \<longleftrightarrow> c \<in> set ALLOWED_TEST_CHAINS"
  by (simp add: assert_chain_allowed_def)

lemmas answer_defs = answers_chain_def has_code_def settles_in_def holds_wei_def holds_token_def

lemma check_leg_Inr:
  "check_leg n leg p v = (Inr u, v') \<Longrightarrow> reads_to n w0 (world v) \<Longrightarrow>
     answers_chain n w0 p (pl_expected_chain_id leg) \<and>
     pl_expected_chain_id leg \<in> set ALLOWED_TEST_CHAINS \<and> has_code n w0 p (pl_htlc leg)"
  by (auto simp: check_leg_def read_chain_id_def bindE_Inr thenE_Inr of_result_Inr answer_defs
      dest!: rpc_read intro: reads_to.chain_id) (metis reads_to.chain_id)

lemma check_settlement_Inr:
  "check_settlement n cr leg p v = (Inr u, v') \<Longrightarrow> reads_to n w0 (world v) \<Longrightarrow>
     pl_settlement leg \<noteq> 0 \<and> has_code n w0 p (pl_settlement leg) \<and>
     settles_in n w0 p (pl_settlement leg) (pl_htlc leg)"
  by (auto simp: check_settlement_def read_chain_id_def bindE_Inr thenE_Inr answer_defs
      dest!: rpc_read) (metis reads_to.chain_id reads_to.code)+

lemma check_token_Inr:
  "check_token n cr leg p v = (Inr u, v') \<Longrightarrow> reads_to n w0 (world v) \<Longrightarrow>
     pl_token leg = 0 \<or> has_code n w0 p (pl_token leg)"
  by (auto simp: check_token_def read_chain_id_def bindE_Inr answer_defs dest!: rpc_read
      split: if_splits) (metis reads_to.chain_id)

lemma check_balance_Inr:
  "check_balance n cr s a c p req v = (Inr u, v') \<Longrightarrow> reads_to n w0 (world v) \<Longrightarrow>
     holds_wei n w0 p a req"
  by (auto simp: check_balance_def bindE_Inr answer_defs not_less dest!: rpc_read)

lemma check_token_balance_Inr:
  "check_token_balance n cr s a leg p v = (Inr u, v') \<Longrightarrow> reads_to n w0 (world v) \<Longrightarrow>
     pl_token leg = 0 \<or>
     holds_token n w0 p (pl_token leg) a (case pl_amount leg of Some x \<Rightarrow> x | None \<Rightarrow> 0)"
  by (auto simp: check_token_balance_def bindE_Inr answer_defs not_less Let_def dest!: rpc_read
      split: if_splits)

lemma check_cross_chain_balances_Inr:
  assumes "check_cross_chain_balances n cr cl leg_a leg_b pa pb min_gas v = (Inr u, v')"
    and "reads_to n w0 (world v)"
  shows "\<exists>ka kb. signer_for_leg cl leg_a = Inr ka \<and> signer_for_leg cl leg_b = Inr kb \<and>
       signer_funded n w0 pa pb (key_address cl ka) min_gas leg_a \<and>
       signer_funded n w0 pb pa (key_address cl kb) min_gas leg_b"
proof -
  from assms(1) obtain ka kb v1 v2 v3 v4 v5 where
    keys: "signer_for_leg cl leg_a = Inr ka" "signer_for_leg cl leg_b = Inr kb"
    and runs: "check_balance n cr ''A'' (key_address cl ka) ''A'' pa
        (saturating_add min_gas (native_value_required leg_a)) v = (Inr (), v1)"
      "check_balance n cr ''A'' (key_address cl ka) ''B'' pb min_gas v1 = (Inr (), v2)"
      "check_balance n cr ''B'' (key_address cl kb) ''A'' pa min_gas v2 = (Inr (), v3)"
      "check_balance n cr ''B'' (key_address cl kb) ''B'' pb
        (saturating_add min_gas (native_value_required leg_b)) v3 = (Inr (), v4)"
      "check_token_balance n cr ''A'' (key_address cl ka) leg_a pa v4 = (Inr (), v5)"
      "check_token_balance n cr ''B'' (key_address cl kb) leg_b pb v5 = (Inr (), v')"
    unfolding check_cross_chain_balances_def Let_def bindE_Inr thenE_Inr of_result_Inr by auto
  note w1 = reads_after [OF checks_reading(4) runs(1) assms(2)]
  note w2 = reads_after [OF checks_reading(4) runs(2) w1]
  note w3 = reads_after [OF checks_reading(4) runs(3) w2]
  note w4 = reads_after [OF checks_reading(4) runs(4) w3]
  note w5 = reads_after [OF checks_reading(5) runs(5) w4]
  show ?thesis
    using keys check_balance_Inr [OF runs(1) assms(2)] check_balance_Inr [OF runs(2) w1]
      check_balance_Inr [OF runs(3) w2] check_balance_Inr [OF runs(4) w3]
      check_token_balance_Inr [OF runs(5) w4] check_token_balance_Inr [OF runs(6) w5]
    by (simp add: signer_funded_def)
qed

text \<open>
  C34. What a passed preflight means. It has sent nothing; both legs were read from the
  environment and name different chains of the test allowlist; and at some moment of the run
  itself the nodes answered that they are on those chains, that the HTLC, the Settlement and
  the token of each leg have code, that each Settlement uses the leg's HTLC, and that each
  signer holds the configured gas reserve on both chains plus, on its own, the amount it will lock.
\<close>

theorem preflight_ok_means:
  assumes "preflight n cr cl var v = (Inr (), v')"
  shows "sent v' = sent v \<and>
    (\<exists>a b pa pb ka kb min_gas.
       read_leg cr var ''A'' = Inr a \<and> read_leg cr var ''B'' = Inr b \<and>
       provider_for_leg cl a = Inr pa \<and> provider_for_leg cl b = Inr pb \<and>
       signer_for_leg cl a = Inr ka \<and> signer_for_leg cl b = Inr kb \<and>
       min_gas_balance cr var = Inr min_gas \<and> pl_expected_chain_id a \<noteq> pl_expected_chain_id b \<and>
       leg_in_place n (world v) pa a \<and> leg_in_place n (world v) pb b \<and>
       signer_funded n (world v) pa pb (key_address cl ka) min_gas a \<and>
       signer_funded n (world v) pb pa (key_address cl kb) min_gas b)"
proof
  show "sent v' = sent v"
    using keepsE [OF preflight_silent assms] by (simp add: silent_def)
  from assms obtain a b pa pb min_gas v2 v3 v4 v5 v6 v7 where
    legs: "read_leg cr var ''A'' = Inr a" "read_leg cr var ''B'' = Inr b"
      "provider_for_leg cl a = Inr pa" "provider_for_leg cl b = Inr pb"
      "min_gas_balance cr var = Inr min_gas" "pl_expected_chain_id a \<noteq> pl_expected_chain_id b"
    and runs: "check_leg n a pa v = (Inr (), v2)" "check_leg n b pb v2 = (Inr (), v3)"
      "check_settlement n cr a pa v3 = (Inr (), v4)" "check_settlement n cr b pb v4 = (Inr (), v5)"
      "check_token n cr a pa v5 = (Inr (), v6)" "check_token n cr b pb v6 = (Inr (), v7)"
      "check_cross_chain_balances n cr cl a b pa pb min_gas v7 = (Inr (), v')"
    unfolding preflight_def Let_def bindE_Inr thenE_Inr of_result_Inr guard_Inr
    by (auto simp: min_gas_balance_def split: option.splits)
  note w1 = reads_to.here [of n "world v"]
  note w2 = reads_after [OF checks_reading(1) runs(1) w1]
  note w3 = reads_after [OF checks_reading(1) runs(2) w2]
  note w4 = reads_after [OF checks_reading(2) runs(3) w3]
  note w5 = reads_after [OF checks_reading(2) runs(4) w4]
  note w6 = reads_after [OF checks_reading(3) runs(5) w5]
  note w7 = reads_after [OF checks_reading(3) runs(6) w6]
  have "leg_in_place n (world v) pa a" "leg_in_place n (world v) pb b"
    using check_leg_Inr [OF runs(1) w1] check_leg_Inr [OF runs(2) w2]
      check_settlement_Inr [OF runs(3) w3] check_settlement_Inr [OF runs(4) w4]
      check_token_Inr [OF runs(5) w5] check_token_Inr [OF runs(6) w6]
    by (simp_all add: leg_in_place_def)
  with legs check_cross_chain_balances_Inr [OF runs(7) w7]
  show "\<exists>a b pa pb ka kb min_gas.
       read_leg cr var ''A'' = Inr a \<and> read_leg cr var ''B'' = Inr b \<and>
       provider_for_leg cl a = Inr pa \<and> provider_for_leg cl b = Inr pb \<and>
       signer_for_leg cl a = Inr ka \<and> signer_for_leg cl b = Inr kb \<and>
       min_gas_balance cr var = Inr min_gas \<and> pl_expected_chain_id a \<noteq> pl_expected_chain_id b \<and>
       leg_in_place n (world v) pa a \<and> leg_in_place n (world v) pb b \<and>
       signer_funded n (world v) pa pb (key_address cl ka) min_gas a \<and>
       signer_funded n (world v) pb pa (key_address cl kb) min_gas b"
    by blast
qed

subsection \<open>A test network that computes\<close>

text \<open>
  Two chains, the URLs \<open>a\<close> and \<open>b\<close>; everything has code, the Settlement of a chain uses its HTLC,
  everybody holds 10^18 wei.
\<close>

definition test_var :: environment where
  "test_var name =
     (case map_of
        [(''KAEL_RPC_A'', ''a''), (''KAEL_CHAIN_A'', ''31337''), (''KAEL_HTLC_A'', ''c1''),
         (''KAEL_SETTLEMENT_A'', ''d1''), (''KAEL_SIGNER_KEY_A'', ''0xk1''),
         (''KAEL_RPC_B'', ''b''), (''KAEL_CHAIN_B'', ''11155111''), (''KAEL_HTLC_B'', ''c2''),
         (''KAEL_SETTLEMENT_B'', ''d2''), (''KAEL_SIGNER_KEY_B'', ''0xk2''),
         (''KAEL_AMOUNT_A_WEI'', ''5''), (''KAEL_AMOUNT_B_WEI'', ''7''),
         (''KAEL_CLOSED_TESTNET_SEND_TX'', ''I_UNDERSTAND_THIS_USES_TEST_FUNDS'')] name of
        Some v \<Rightarrow> Inr v
      | None \<Rightarrow> Inl NotPresent)"

definition test_clients :: "(string, string, string) clients" where
  "test_clients =
     \<lparr>parse_url = Inr, connect_http = (\<lambda>u. u), connect_wallet = (\<lambda>k u. u),
      parse_key = Inr, key_address = (\<lambda>k. if k = ''k1'' then fill 1 else fill 2)\<rparr>"

definition test_crates :: crates where
  "test_crates =
     \<lparr>hex_decode = (\<lambda>s. Inr (map of_char s)), hex_encode = map (\<lambda>b. char_of (unat b)),
      parse_evm_address = (\<lambda>s. Inr (fill (if s = ''c1'' then 1 else if s = ''c2'' then 2
                                         else if s = ''d1'' then 3 else 4))),
      show_address = (\<lambda>a. ''0x''),
      parse_u256 = (\<lambda>s. map_err int_error_text (parse_uint s)), show_u256 = (\<lambda>v. dec (unat v)),
      abi_encode_lock = (\<lambda>sender r t a h tm. bytes_of h)\<rparr>"

definition test_net :: "(string, unit) net" where
  "test_net = quiet_net
     \<lparr>get_chain_id := \<lambda>p w. (Inr (if p = ''a'' then 31337 else 11155111), w),
      get_code_at := \<lambda>p a w. (Inr [1], w),
      get_balance := \<lambda>p a w. (Inr 1000000000000000000, w),
      call_htlc := \<lambda>p a w. (Inr (fill (if a = fill 3 then 1 else 2)), w)\<rparr>"

lemmas test_defs = test_var_def test_clients_def test_crates_def test_net_def quiet_net_def

lemmas preflight_defs =
  preflight_def check_leg_def check_settlement_def check_token_def check_balance_def
  check_token_balance_def check_cross_chain_balances_def read_chain_id_def read_leg_def
  env_required_def env_optional_def env_u64_def env_u256_def env_address_optional_def
  parse_int_text_def parse_uint_def assert_chain_allowed_def ALLOWED_TEST_CHAINS_def
  provider_for_leg_def signer_for_leg_def native_value_required_def strip_key_def trim_def
  is_whitespace_def is_invalid_def saturating_add_def

lemma test_preflight:
  "preflight test_net test_crates test_clients test_var v = (Inr (), v)"
  by (simp add: preflight_defs test_defs eff_simps Let_def digit_of_def)

lemma preflight_ok_means_witness:
  "\<exists>a pa pb ka. read_leg test_crates test_var ''A'' = Inr a \<and>
     signer_funded test_net () pa pb (key_address test_clients ka) 10000000000000000 a"
proof -
  have "min_gas_balance test_crates test_var = Inr 10000000000000000"
    by (simp add: min_gas_balance_def env_u256_def env_optional_def test_defs)
  with preflight_ok_means [OF test_preflight [of "\<lparr>world = (), sent = []\<rparr>"]] show ?thesis
    by auto
qed

end
