(* ===== verification/Kael_Runner.thy ===== *)
theory Kael_Runner
  imports Kael_Executor_Runs Kael_Preflight
begin

section \<open>The closed test network swap\<close>

text \<open>
  Models \<open>swapkit/src/bin/closed-testnet-swap.rs\<close>: the explicit confirmation, the configuration,
  the checks on the contracts, the construction of the two executors, and the loop that steps
  the taker and the maker in turn. An error is the text the program prints, or \<open>Panicked\<close>; its
  progress lines and its sleep are left out.

  The two executors share one world: \<open>step_in\<close> runs a step of an executor in a given environment
  and returns the environment it leaves.
\<close>

subsection \<open>Texts of the errors\<close>

definition chain_error_text :: "ChainError \<Rightarrow> string" where
  "chain_error_text e =
     (case e of
        BadUrl s \<Rightarrow> ''BadUrl('' @ debug_str s @ '')''
      | Rpc s \<Rightarrow> ''Rpc('' @ debug_str s @ '')''
      | Decode s \<Rightarrow> ''Decode('' @ debug_str s @ '')''
      | AmountOverflow \<Rightarrow> ''AmountOverflow''
      | TimelockOverflow \<Rightarrow> ''TimelockOverflow'')"

definition executor_error_text :: "ExecutorError \<Rightarrow> string" where
  "executor_error_text e =
     (case e of
        X_MissingHashlock \<Rightarrow> ''hashlock missing from executor context''
      | X_MissingOwnContractId \<Rightarrow> ''own-leg contractId missing''
      | X_MissingCounterpartyContractId \<Rightarrow> ''counterparty-leg contractId missing''
      | X_Chain c \<Rightarrow> ''chain error: '' @ chain_error_text c
      | X_Tx t \<Rightarrow> ''tx error: '' @ tx_error_text t
      | X_MaxStepsExceeded \<Rightarrow> ''executor exceeded step limit'')"

subsection \<open>The configuration\<close>

record LegConfig =
  lc_rpc :: string
  lc_chain_id :: u64
  lc_htlc :: address
  lc_settlement :: address
  lc_token :: address
  lc_key :: string
  lc_key_bytes :: b32
  lc_amount :: u128
  lc_nonce :: u64

record SwapConfig =
  sc_taker :: LegConfig
  sc_maker :: LegConfig
  sc_taker_lock_secs :: u64
  sc_maker_lock_secs :: u64
  sc_min_gap :: u64
  sc_min_confirmations :: u64
  sc_max_steps :: u64
  sc_poll_secs :: u64

definition CONFIRMATION :: string where
  "CONFIRMATION = ''I_UNDERSTAND_THIS_USES_TEST_FUNDS''"

definition require_explicit_send_confirmation :: "environment \<Rightarrow> string + unit" where
  "require_explicit_send_confirmation var =
     (if var ''KAEL_CLOSED_TESTNET_SEND_TX'' = Inr CONFIRMATION then Inr ()
      else Inl (''set KAEL_CLOSED_TESTNET_SEND_TX='' @ CONFIRMATION @
                '' to allow closed-testnet sending''))"

definition env_u64_required :: "environment \<Rightarrow> string \<Rightarrow> string + u64" where
  "env_u64_required var name =
     and_then (env_required var name) (\<lambda>v. map_err (is_invalid name) (parse_int_text v))"

definition env_u128 :: "environment \<Rightarrow> string \<Rightarrow> string + u128 option" where
  "env_u128 var name =
     env_optional var name None (\<lambda>v. and_then (parse_int_text v) (\<lambda>n. Inr (Some n)))"

definition env_address :: "crates \<Rightarrow> environment \<Rightarrow> string \<Rightarrow> string + address" where
  "env_address cr var name =
     and_then (env_required var name) (\<lambda>v. map_err (is_invalid name) (parse_evm_address cr v))"

definition env_private_key :: "crates \<Rightarrow> environment \<Rightarrow> string \<Rightarrow> string + b32" where
  "env_private_key cr var name =
     and_then (env_required var name) (\<lambda>raw.
     and_then (map_err (is_invalid name) (hex_decode cr (strip_key raw))) (\<lambda>bytes.
       if length bytes \<noteq> 32 then
         Inl (is_invalid name (''expected 32 bytes, got '' @ dec (length bytes)))
       else Inr (pad_copy bytes)))"

definition unwrap_or :: "'a \<Rightarrow> 'a option \<Rightarrow> 'a" where
  "unwrap_or a x = (case x of Some b \<Rightarrow> b | None \<Rightarrow> a)"

definition read_nonce ::
  "('p, 'w) net \<Rightarrow> environment \<Rightarrow> string \<Rightarrow> (('p, 'w) env, string, u64) eff" where
  "read_nonce n var name =
     bindE (of_result (env_u64 var name)) (\<lambda>x.
     case x of Some v \<Rightarrow> ret v | None \<Rightarrow> ask (os_next_u64 n))"

definition read_leg_config ::
  "('p, 'w) net \<Rightarrow> crates \<Rightarrow> environment \<Rightarrow> string \<Rightarrow> u128 \<Rightarrow> (('p, 'w) env, string, LegConfig) eff"
where
  "read_leg_config n cr var suffix amount =
     bindE (of_result (env_required var (''KAEL_RPC_'' @ suffix))) (\<lambda>rpc_url.
     bindE (of_result (env_u64_required var (''KAEL_CHAIN_'' @ suffix))) (\<lambda>chain_id.
     bindE (of_result (env_address cr var (''KAEL_HTLC_'' @ suffix))) (\<lambda>htlc.
     bindE (of_result (env_address cr var (''KAEL_SETTLEMENT_'' @ suffix))) (\<lambda>settlement.
     bindE (of_result (env_address_optional cr var (''KAEL_TOKEN_'' @ suffix))) (\<lambda>token.
     bindE (of_result (env_required var (''KAEL_SIGNER_KEY_'' @ suffix))) (\<lambda>key.
     bindE (of_result (env_private_key cr var (''KAEL_SIGNER_KEY_'' @ suffix))) (\<lambda>key_bytes.
     bindE (read_nonce n var (''KAEL_NONCE_'' @ suffix)) (\<lambda>nonce.
     ret \<lparr>lc_rpc = rpc_url, lc_chain_id = chain_id, lc_htlc = htlc, lc_settlement = settlement,
          lc_token = token, lc_key = key, lc_key_bytes = key_bytes, lc_amount = amount,
          lc_nonce = nonce\<rparr>))))))))"

definition read_amount :: "environment \<Rightarrow> string \<Rightarrow> string + u128" where
  "read_amount var name =
     and_then (env_required var name) (\<lambda>v. map_err (is_invalid name) (parse_int_text v))"

definition read_config ::
  "('p, 'w) net \<Rightarrow> crates \<Rightarrow> environment \<Rightarrow> (('p, 'w) env, string, SwapConfig) eff" where
  "read_config n cr var =
     bindE (of_result (env_u128 var ''KAEL_CLOSED_TESTNET_MAX_AMOUNT_WEI'')) (\<lambda>max1.
     let max_amount = unwrap_or 10000000000000000 max1 in
     bindE (of_result (read_amount var ''KAEL_AMOUNT_A_WEI'')) (\<lambda>taker_amount.
     bindE (of_result (read_amount var ''KAEL_AMOUNT_B_WEI'')) (\<lambda>maker_amount.
     thenE (guard (\<not> (taker_amount = 0 \<or> maker_amount = 0))
              ''KAEL_AMOUNT_A_WEI and KAEL_AMOUNT_B_WEI must be greater than zero'')
    (thenE (guard (\<not> (taker_amount > max_amount \<or> maker_amount > max_amount))
              (''amount exceeds KAEL_CLOSED_TESTNET_MAX_AMOUNT_WEI ('' @ dec (unat max_amount) @ '')''))
    (bindE (read_leg_config n cr var ''A'' taker_amount) (\<lambda>taker.
     bindE (read_leg_config n cr var ''B'' maker_amount) (\<lambda>maker.
     bindE (of_result (env_u64 var ''KAEL_TAKER_LOCK_SECS'')) (\<lambda>taker_lock.
     bindE (of_result (env_u64 var ''KAEL_MAKER_LOCK_SECS'')) (\<lambda>maker_lock.
     bindE (of_result (env_u64 var ''KAEL_MIN_GAP_SECS'')) (\<lambda>gap.
     bindE (of_result (env_u64 var ''KAEL_CLOSED_TESTNET_MIN_CONFIRMATIONS'')) (\<lambda>confs.
     bindE (of_result (env_u64 var ''KAEL_CLOSED_TESTNET_MAX_STEPS'')) (\<lambda>steps.
     bindE (of_result (env_u64 var ''KAEL_CLOSED_TESTNET_POLL_SECS'')) (\<lambda>poll.
     ret \<lparr>sc_taker = taker, sc_maker = maker, sc_taker_lock_secs = unwrap_or 7200 taker_lock,
          sc_maker_lock_secs = unwrap_or 3600 maker_lock, sc_min_gap = unwrap_or 1800 gap,
          sc_min_confirmations = unwrap_or 3 confs, sc_max_steps = unwrap_or 120 steps,
          sc_poll_secs = unwrap_or 12 poll\<rparr>)))))))))))))"

subsection \<open>The checks on the contracts\<close>

text \<open>The common part of the three validations: the node, its chain and the code at an address.\<close>

definition validate_code ::
  "('p, 'w) net \<Rightarrow> crates \<Rightarrow> ('u, 'k, 'p) clients \<Rightarrow> string \<Rightarrow> string \<Rightarrow> string \<Rightarrow> string \<Rightarrow> u64 \<Rightarrow>
     address \<Rightarrow> (('p, 'w) env, string, 'p) eff" where
  "validate_code n cr cl what kind name rpc_url expected_chain_id a =
     bindE (of_result (map_err (is_invalid (''KAEL_RPC_'' @ name)) (parse_url cl rpc_url))) (\<lambda>url.
     let provider = connect_http cl url in
     bindE (read_chain_id n name provider) (\<lambda>chain_id.
     thenE (guard (chain_id = expected_chain_id)
              (''KAEL_CHAIN_'' @ name @ '' expected '' @ dec (unat expected_chain_id) @
               '', RPC returned '' @ dec (unat chain_id)))
    (thenE (of_result (map_err signer_error_text (assert_chain_allowed chain_id)))
    (bindE (map_errE (\<lambda>e. ''RPC '' @ name @ '' failed to read '' @ what @ '': '' @ e)
              (rpc (get_code_at n provider a))) (\<lambda>code.
     thenE (guard (code \<noteq> [])
              (is_invalid (''KAEL_'' @ kind @ ''_'' @ name)
                (show_address cr a @ '' has no bytecode on chain '' @ dec (unat chain_id) @
                 ''; aborting before any broadcast'')))
     (ret provider))))))"

definition validate_htlc_contract ::
  "('p, 'w) net \<Rightarrow> crates \<Rightarrow> ('u, 'k, 'p) clients \<Rightarrow> string \<Rightarrow> string \<Rightarrow> u64 \<Rightarrow> address \<Rightarrow>
     (('p, 'w) env, string, unit) eff" where
  "validate_htlc_contract n cr cl name rpc_url expected_chain_id htlc =
     thenE (guard (htlc \<noteq> 0)
              (is_invalid (''KAEL_HTLC_'' @ name) ''zero address is not a valid HTLC contract''))
    (bindE (validate_code n cr cl ''HTLC'' ''HTLC'' name rpc_url expected_chain_id htlc)
       (\<lambda>_. ret ()))"

definition validate_settlement_contract ::
  "('p, 'w) net \<Rightarrow> crates \<Rightarrow> ('u, 'k, 'p) clients \<Rightarrow> string \<Rightarrow> string \<Rightarrow> u64 \<Rightarrow> address \<Rightarrow> address \<Rightarrow>
     (('p, 'w) env, string, unit) eff" where
  "validate_settlement_contract n cr cl name rpc_url expected_chain_id settlement expected_htlc =
     thenE (guard (settlement \<noteq> 0)
              (is_invalid (''KAEL_SETTLEMENT_'' @ name)
                ''zero address is not a valid Settlement contract''))
    (bindE (validate_code n cr cl ''Settlement'' ''SETTLEMENT'' name rpc_url expected_chain_id settlement)
       (\<lambda>provider.
     bindE (map_errE (\<lambda>e. ''RPC '' @ name @ '' failed to read Settlement.htlc(): '' @ e)
              (rpc (call_htlc n provider settlement))) (\<lambda>canonical_htlc.
     guard (canonical_htlc = expected_htlc)
       (''KAEL_SETTLEMENT_'' @ name @ '' points to HTLC '' @ show_address cr canonical_htlc @
        '', expected '' @ show_address cr expected_htlc))))"

definition validate_token_contract ::
  "('p, 'w) net \<Rightarrow> crates \<Rightarrow> ('u, 'k, 'p) clients \<Rightarrow> string \<Rightarrow> string \<Rightarrow> u64 \<Rightarrow> address \<Rightarrow>
     (('p, 'w) env, string, unit) eff" where
  "validate_token_contract n cr cl name rpc_url expected_chain_id token =
     (if token = 0 then ret ()
      else
        bindE (validate_code n cr cl ''ERC-20 token'' ''TOKEN'' name rpc_url expected_chain_id token)
          (\<lambda>_. ret ()))"

subsection \<open>The two executors\<close>

definition own_signer ::
  "('p, 'w) net \<Rightarrow> ('u, 'k, 'p) clients \<Rightarrow> string \<Rightarrow> string \<Rightarrow> string \<Rightarrow>
     (('p, 'w) env, string, 'p Signer) eff" where
  "own_signer n cl who key rpc_url =
     map_errE (\<lambda>e. who @ '' refused: '' @ signer_error_text e) (from_key_str n cl key rpc_url)"

definition runner_context ::
  "Role \<Rightarrow> LegConfig \<Rightarrow> LegConfig \<Rightarrow> u64 \<Rightarrow> u64 \<Rightarrow> u64 \<Rightarrow> address \<Rightarrow> address \<Rightarrow> b32 \<Rightarrow> b32 option \<Rightarrow>
     SwapContext" where
  "runner_context role own cp now lock_secs gap recipient me hashlock secret =
     \<lparr>ctx_role = role, my_token = lc_token own, my_amount = lc_amount own,
      my_timelock = saturating_add now lock_secs, my_recipient = recipient,
      cp_token = lc_token cp, cp_amount = lc_amount cp, ctx_me = me, min_gap = gap,
      ctx_hashlock = Some hashlock, ctx_secret = secret, my_leg_locked = False,
      counterparty_lock = None, revealed_secret = None, ctx_now = now\<rparr>"

definition settlement_config :: "LegConfig \<Rightarrow> LegConfig \<Rightarrow> u64 \<Rightarrow> u64 \<Rightarrow> SettlementLockConfig" where
  "settlement_config own cp now lock_secs =
     \<lparr>st_settlement = lc_settlement own, st_maker_private_key = lc_key_bytes own,
      st_sell_chain_id = lc_chain_id own, st_buy_token = lc_token cp,
      st_buy_chain_id = lc_chain_id cp, st_buy_amount = lc_amount cp,
      st_valid_until = saturating_add now lock_secs, st_nonce = lc_nonce own\<rparr>"

definition runner_executor ::
  "('u, 'k, 'p) clients \<Rightarrow> string \<Rightarrow> SwapState \<Rightarrow> SwapContext \<Rightarrow> 'p Signer \<Rightarrow> 'p Signer \<Rightarrow>
     LegConfig \<Rightarrow> LegConfig \<Rightarrow> u64 \<Rightarrow> u64 \<Rightarrow> u64 \<Rightarrow> (('p, 'w) env, string, ('p, 'w) WalletExecutor) eff"
where
  "runner_executor cl who st ctx own_sg cp_sg own cp now lock_secs confs =
     bindE (of_result (map_err (\<lambda>e. ''observer '' @ who @ '': '' @ chain_error_text e)
              (rpc_observer cl (lc_rpc own) (lc_htlc own) (lc_chain_id own)))) (\<lambda>own_ob.
     bindE (of_result (map_err (\<lambda>e. ''observer '' @ who @ ''/cp: '' @ chain_error_text e)
              (rpc_observer cl (lc_rpc cp) (lc_htlc cp) (lc_chain_id cp)))) (\<lambda>cp_ob.
     gets (executor_new
       \<lparr>cf_state = st, cf_ctx = ctx, cf_own_signer = own_sg, cf_cp_signer = cp_sg,
        cf_own_htlc = lc_htlc own, cf_cp_htlc = lc_htlc cp,
        cf_settlement = Some (settlement_config own cp now lock_secs),
        cf_own_observer = own_ob, cf_cp_observer = cp_ob, cf_min_confirmations = confs\<rparr>)))"

text \<open>What is refused before the network is touched.\<close>

definition check_config :: "SwapConfig \<Rightarrow> string + unit" where
  "check_config c =
     (if lc_chain_id (sc_taker c) = lc_chain_id (sc_maker c) then
        Inl ''KAEL_CHAIN_A and KAEL_CHAIN_B must be distinct''
      else if sc_min_confirmations c = 0 then Inl ''min_confirmations must be >= 1''
      else if sc_taker_lock_secs c < saturating_add (sc_maker_lock_secs c) (sc_min_gap c) then
        Inl ''invalid timelocks: taker_lock_secs must be >= maker_lock_secs + min_gap''
      else Inr ())"

definition validate_contracts ::
  "('p, 'w) net \<Rightarrow> crates \<Rightarrow> ('u, 'k, 'p) clients \<Rightarrow> SwapConfig \<Rightarrow> (('p, 'w) env, string, unit) eff"
where
  "validate_contracts n cr cl c =
     (let t = sc_taker c; m = sc_maker c in
      thenE (validate_htlc_contract n cr cl ''A'' (lc_rpc t) (lc_chain_id t) (lc_htlc t))
     (thenE (validate_htlc_contract n cr cl ''B'' (lc_rpc m) (lc_chain_id m) (lc_htlc m))
     (thenE (validate_settlement_contract n cr cl ''A'' (lc_rpc t) (lc_chain_id t) (lc_settlement t) (lc_htlc t))
     (thenE (validate_settlement_contract n cr cl ''B'' (lc_rpc m) (lc_chain_id m) (lc_settlement m) (lc_htlc m))
     (thenE (validate_token_contract n cr cl ''A'' (lc_rpc t) (lc_chain_id t) (lc_token t))
      (validate_token_contract n cr cl ''B'' (lc_rpc m) (lc_chain_id m) (lc_token m)))))))"

text \<open>Everything up to the loop: the configuration and the two executors.\<close>

definition prepare ::
  "('p, 'w, 'sig, 'rid, 'vk, 'sk) outside \<Rightarrow> ('u, 'k, 'p) clients \<Rightarrow> environment \<Rightarrow>
     (('p, 'w) env, string, SwapConfig \<times> ('p, 'w) WalletExecutor \<times> ('p, 'w) WalletExecutor) eff" where
  "prepare u cl var =
     (let n = out_net u; cr = out_crates u in
      thenE (of_result (require_explicit_send_confirmation var))
     (bindE (read_config n cr var) (\<lambda>c.
      let t = sc_taker c; m = sc_maker c in
      thenE (of_result (check_config c))
     (thenE (validate_contracts n cr cl c)
     (bindE (own_signer n cl ''taker signer on chain A'' (lc_key t) (lc_rpc t)) (\<lambda>taker_own.
      bindE (own_signer n cl ''taker signer on chain B'' (lc_key t) (lc_rpc m)) (\<lambda>taker_cp.
      bindE (own_signer n cl ''maker signer on chain B'' (lc_key m) (lc_rpc m)) (\<lambda>maker_own.
      bindE (own_signer n cl ''maker signer on chain A'' (lc_key m) (lc_rpc t)) (\<lambda>maker_cp.
      thenE (guard (\<not> (sg_chain_id taker_own \<noteq> lc_chain_id t \<or> sg_chain_id taker_cp \<noteq> lc_chain_id m))
               ''taker chain_id does not match configuration'')
     (thenE (guard (\<not> (sg_chain_id maker_own \<noteq> lc_chain_id m \<or> sg_chain_id maker_cp \<noteq> lc_chain_id t))
               ''maker chain_id does not match configuration'')
     (bindE (ask (clock_now n)) (\<lambda>now.
      bindE (ask (os_random32 n)) (\<lambda>secret.
      let hashlock = hashlock_from_preimage (out_sha u) secret;
          taker_ctx = runner_context Taker t m now (sc_taker_lock_secs c) (sc_min_gap c)
            (sg_address maker_own) (sg_address taker_own) hashlock (Some secret);
          maker_ctx = runner_context Maker m t now (sc_maker_lock_secs c) (sc_min_gap c)
            (sg_address taker_own) (sg_address maker_own) hashlock None
      in
      bindE (runner_executor cl ''taker'' SecretGenerated taker_ctx taker_own taker_cp t m now
               (sc_taker_lock_secs c) (sc_min_confirmations c)) (\<lambda>taker_exec.
      bindE (runner_executor cl ''maker'' Start maker_ctx maker_own maker_cp m t now
               (sc_maker_lock_secs c) (sc_min_confirmations c)) (\<lambda>maker_exec.
      ret (c, taker_exec, maker_exec))))))))))))))))"

subsection \<open>The loop\<close>

definition step_in ::
  "('p, 'w, 'sig, 'rid, 'vk, 'sk) outside \<Rightarrow> string \<Rightarrow> ('p, 'w) WalletExecutor \<Rightarrow>
     (('p, 'w) env, string fault, ('p, 'w) WalletExecutor) eff" where
  "step_in u label x v =
     (case step u (x\<lparr>x_env := v\<rparr>) of
        (Inl Panicked, x') \<Rightarrow> (Inl Panicked, x_env x')
      | (Inl (Failed e), x') \<Rightarrow> (Inl (Failed (label @ executor_error_text e)), x_env x')
      | (Inr _, x') \<Rightarrow> (Inr x', x_env x'))"

definition settled_state :: "SwapState \<Rightarrow> bool" where
  "settled_state st \<longleftrightarrow> (case st of CounterpartyRedeemed \<Rightarrow> True | Done \<Rightarrow> True | _ \<Rightarrow> False)"

fun swap_loop ::
  "('p, 'w, 'sig, 'rid, 'vk, 'sk) outside \<Rightarrow> nat \<Rightarrow> nat \<Rightarrow>
     ('p, 'w) WalletExecutor \<Rightarrow> ('p, 'w) WalletExecutor \<Rightarrow>
     (('p, 'w) env, string fault, ('p, 'w) WalletExecutor \<times> ('p, 'w) WalletExecutor) eff" where
  "swap_loop u 0 i taker maker = throw (Failed ''step limit exceeded'')"
| "swap_loop u (Suc k) i taker maker =
     bindE (step_in u (''taker step '' @ dec i @ '': '') taker) (\<lambda>taker'.
     bindE (step_in u (''maker step '' @ dec i @ '': '') maker) (\<lambda>maker'.
     if settled_state (x_state taker') \<and> settled_state (x_state maker') then ret (taker', maker')
     else swap_loop u k (Suc i) taker' maker'))"

definition runner ::
  "('p, 'w, 'sig, 'rid, 'vk, 'sk) outside \<Rightarrow> ('u, 'k, 'p) clients \<Rightarrow> environment \<Rightarrow>
     (('p, 'w) env, string fault, unit) eff" where
  "runner u cl var =
     bindE (map_errE Failed (prepare u cl var)) (\<lambda>(c, taker, maker).
     bindE (swap_loop u (unat (sc_max_steps c)) 0 taker maker) (\<lambda>_. ret ()))"

subsection \<open>What preparing does\<close>

lemma read_config_silent: "keeps (silent sent) (read_config n cr var)"
proof -
  have "keeps (silent sent) (read_nonce n var name)" for name
    unfolding read_nonce_def by (intro quiet.keeps_rules keeps_ask)
  then show ?thesis
    unfolding read_config_def read_leg_config_def Let_def
    by (intro quiet.keeps_rules)
qed

lemma validate_contracts_silent: "keeps (silent sent) (validate_contracts n cr cl c)"
proof -
  have code: "keeps (silent sent) (validate_code n cr cl what kind name rpc_url chain a)"
    for what kind name rpc_url chain a
    unfolding validate_code_def read_chain_id_def Let_def
    by (intro quiet.keeps_rules reads_silent)
  show ?thesis
    unfolding validate_contracts_def validate_htlc_contract_def validate_settlement_contract_def
      validate_token_contract_def Let_def
    by (intro quiet.keeps_rules reads_silent code)
qed

lemma prepare_silent: "keeps (silent sent) (prepare u cl var)"
  unfolding prepare_def own_signer_def runner_executor_def Let_def
  by (intro quiet.keeps_rules keeps_ask read_config_silent validate_contracts_silent
      from_key_str_silent)

text \<open>
  What one executor was set up with: its signers on allowed chains, the ones configured; its
  terms those of its own leg, against the other's.
\<close>

definition set_up_as ::
  "Role \<Rightarrow> LegConfig \<Rightarrow> LegConfig \<Rightarrow> u64 \<Rightarrow> u64 \<Rightarrow> ('p, 'w) WalletExecutor \<Rightarrow>
     ('p, 'w) WalletExecutor \<Rightarrow> bool" where
  "set_up_as role own cp now lock_secs x other \<longleftrightarrow>
     sg_chain_id (x_own_signer x) = lc_chain_id own \<and> sg_chain_id (x_cp_signer x) = lc_chain_id cp \<and>
     {lc_chain_id own, lc_chain_id cp} \<subseteq> set ALLOWED_TEST_CHAINS \<and>
     x_own_htlc x = lc_htlc own \<and> x_cp_htlc x = lc_htlc cp \<and>
     x_settlement x = Some (settlement_config own cp now lock_secs) \<and>
     ctx_role (x_ctx x) = role \<and>
     my_token (x_ctx x) = lc_token own \<and> my_amount (x_ctx x) = lc_amount own \<and>
     cp_token (x_ctx x) = lc_token cp \<and> cp_amount (x_ctx x) = lc_amount cp \<and>
     my_timelock (x_ctx x) = saturating_add now lock_secs \<and>
     my_recipient (x_ctx x) = sg_address (x_own_signer other)"

definition max_amount :: "environment \<Rightarrow> string + u128" where
  "max_amount var =
     and_then (env_u128 var ''KAEL_CLOSED_TESTNET_MAX_AMOUNT_WEI'')
       (\<lambda>a. Inr (unwrap_or 10000000000000000 a))"

definition amount_allowed :: "environment \<Rightarrow> u128 \<Rightarrow> bool" where
  "amount_allowed var a \<longleftrightarrow> 0 < a \<and> (\<exists>m. max_amount var = Inr m \<and> a \<le> m)"

lemma read_leg_config_amount:
  "read_leg_config n cr var suffix a v = (Inr l, v') \<Longrightarrow> lc_amount l = a"
  by (auto simp: read_leg_config_def eff_Inr)

lemma read_config_amounts:
  assumes "read_config n cr var v = (Inr c, v')"
  shows "amount_allowed var (lc_amount (sc_taker c))" "amount_allowed var (lc_amount (sc_maker c))"
  using assms unfolding read_config_def Let_def eff_Inr guard_Inr
  by (auto simp: amount_allowed_def max_amount_def word_neq_0_conv dest: read_leg_config_amount)

lemma runner_executor_Inr:
  "runner_executor cl who st ctx own_sg cp_sg own cp now lock_secs confs v = (Inr x, v') \<Longrightarrow>
     \<exists>own_ob cp_ob. x = executor_new
       \<lparr>cf_state = st, cf_ctx = ctx, cf_own_signer = own_sg, cf_cp_signer = cp_sg,
        cf_own_htlc = lc_htlc own, cf_cp_htlc = lc_htlc cp,
        cf_settlement = Some (settlement_config own cp now lock_secs),
        cf_own_observer = own_ob, cf_cp_observer = cp_ob, cf_min_confirmations = confs\<rparr> v \<and>
       v' = v \<and> rpc_observer cl (lc_rpc own) (lc_htlc own) (lc_chain_id own) = Inr own_ob"
  by (auto simp: runner_executor_def eff_Inr)

text \<open>
  What the runner has when its loop starts: the confirmation, a configuration that passed the
  checks, and two executors for one swap, with one hashlock and a preimage of it in the taker.
\<close>

definition ready ::
  "hash_fn \<Rightarrow> environment \<Rightarrow> SwapConfig \<Rightarrow> b32 \<Rightarrow> ('p, 'w) WalletExecutor \<Rightarrow>
     ('p, 'w) WalletExecutor \<Rightarrow> bool" where
  "ready sha var c h taker maker \<longleftrightarrow>
     var ''KAEL_CLOSED_TESTNET_SEND_TX'' = Inr CONFIRMATION \<and>
     lc_chain_id (sc_taker c) \<noteq> lc_chain_id (sc_maker c) \<and> 0 < sc_min_confirmations c \<and>
     amount_allowed var (lc_amount (sc_taker c)) \<and> amount_allowed var (lc_amount (sc_maker c)) \<and>
     x_min_confirmations taker = sc_min_confirmations c \<and>
     x_min_confirmations maker = sc_min_confirmations c \<and>
     (\<exists>now.
        set_up_as Taker (sc_taker c) (sc_maker c) now (sc_taker_lock_secs c) taker maker \<and>
        set_up_as Maker (sc_maker c) (sc_taker c) now (sc_maker_lock_secs c) maker taker) \<and>
     saturating_add (my_timelock (x_ctx maker)) (sc_min_gap c) \<le> my_timelock (x_ctx taker) \<and>
     wallet_ok sha h taker \<and> wallet_ok sha h maker"

lemma timelocks_nest:
  fixes now t m gap :: "'a::len word"
  assumes "saturating_add m gap \<le> t"
  shows "saturating_add (saturating_add now m) gap \<le> saturating_add now t"
  using assms unat_lt_pow [of t] unat_lt_pow [of m] unat_lt_pow [of gap]
  by (simp add: word_le_nat_alt unat_saturating_add)

lemma rpc_observer_fresh:
  "rpc_observer cl url htlc chain = Inr ob \<Longrightarrow> tracker_inv sha (co_tracker ob)"
  by (auto simp: rpc_observer_def rpc_verifier_new_def and_then_eq_Inr observer_new_def Let_def tracker_new_def
      tracker_inv_def)

lemma prepare_ready:
  assumes "prepare u cl var v = (Inr (c, taker, maker), v')"
  shows "\<exists>h. ready (out_sha u) var c h taker maker"
proof -
  from assms obtain v1 v2 where send: "require_explicit_send_confirmation var = Inr ()"
    and read: "read_config (out_net u) (out_crates u) var v1 = (Inr c, v2)"
    and check: "check_config c = Inr ()"
    unfolding prepare_def Let_def eff_Inr by auto
  from check have checked: "lc_chain_id (sc_taker c) \<noteq> lc_chain_id (sc_maker c)"
    "0 < sc_min_confirmations c"
    "saturating_add (sc_maker_lock_secs c) (sc_min_gap c) \<le> sc_taker_lock_secs c"
    by (auto simp: check_config_def word_neq_0_conv not_less split: if_splits)
  from assms obtain now secret t_own t_cp m_own m_cp w1 w2 w3 w4 x1 x2 x3 x4
      e1 e2 e3 e4 where
    "from_key_str (out_net u) cl (lc_key (sc_taker c)) (lc_rpc (sc_taker c)) w1 = (Inr t_own, x1)"
    "from_key_str (out_net u) cl (lc_key (sc_taker c)) (lc_rpc (sc_maker c)) w2 = (Inr t_cp, x2)"
    "from_key_str (out_net u) cl (lc_key (sc_maker c)) (lc_rpc (sc_maker c)) w3 = (Inr m_own, x3)"
    "from_key_str (out_net u) cl (lc_key (sc_maker c)) (lc_rpc (sc_taker c)) w4 = (Inr m_cp, x4)"
    and sgs: "sg_chain_id t_own = lc_chain_id (sc_taker c)" "sg_chain_id t_cp = lc_chain_id (sc_maker c)"
    "sg_chain_id m_own = lc_chain_id (sc_maker c)" "sg_chain_id m_cp = lc_chain_id (sc_taker c)"
    and t: "runner_executor cl ''taker'' SecretGenerated
        (runner_context Taker (sc_taker c) (sc_maker c) now (sc_taker_lock_secs c) (sc_min_gap c)
          (sg_address m_own) (sg_address t_own) (hashlock_from_preimage (out_sha u) secret) (Some secret)) t_own t_cp (sc_taker c) (sc_maker c)
        now (sc_taker_lock_secs c) (sc_min_confirmations c) e1 = (Inr taker, e2)"
    and m: "runner_executor cl ''maker'' Start
        (runner_context Maker (sc_maker c) (sc_taker c) now (sc_maker_lock_secs c) (sc_min_gap c)
          (sg_address t_own) (sg_address m_own) (hashlock_from_preimage (out_sha u) secret) None) m_own m_cp (sc_maker c) (sc_taker c)
        now (sc_maker_lock_secs c) (sc_min_confirmations c) e3 = (Inr maker, e4)"
    unfolding prepare_def own_signer_def Let_def eff_Inr guard_Inr
    by auto
  then have allowed: "{lc_chain_id (sc_taker c), lc_chain_id (sc_maker c)} \<subseteq> set ALLOWED_TEST_CHAINS"
    by (auto simp: from_key_str_Inr)
  note set = runner_executor_Inr [OF t] runner_executor_Inr [OF m]
  have "ready (out_sha u) var c (hashlock_from_preimage (out_sha u) secret) taker maker"
    unfolding ready_def
    using set checked send read_config_amounts [OF read] timelocks_nest [OF checked(3), of now] sgs allowed
    by (auto simp: executor_new_def set_up_as_def runner_context_def wallet_ok_def
        require_explicit_send_confirmation_def rpc_observer_fresh split: if_splits
        intro!: exI [of _ now])
  then show ?thesis ..
qed

subsection \<open>What the loop sends\<close>

definition swap_tx ::
  "hash_fn \<Rightarrow> b32 \<Rightarrow> ('p, 'w) WalletExecutor \<Rightarrow> ('p, 'w) WalletExecutor \<Rightarrow> 'p \<times> tx \<Rightarrow> bool" where
  "swap_tx sha h taker maker pt \<longleftrightarrow> own_tx sha h taker pt \<or> own_tx sha h maker pt"

lemma own_tx_env [simp]: "own_tx sha h (x\<lparr>x_env := v\<rparr>) = own_tx sha h x"
  by (rule own_tx_same_swap) (simp add: same_swap_def same_setup_def)

lemma same_swap_env [simp]: "same_swap (x\<lparr>x_env := v\<rparr>) y = same_swap x y"
  by (simp add: same_swap_def same_setup_def)

lemma same_swap_trans: "same_swap x y \<Longrightarrow> same_swap y z \<Longrightarrow> same_swap x z"
  by (simp add: same_swap_def same_setup_def)

lemma step_in_conforms:
  assumes "step_in u label x v = (r, v')" and "wallet_ok (out_sha u) h x"
  shows "\<exists>txs. sent v' = sent v @ txs \<and> list_all (own_tx (out_sha u) h x) txs \<and>
    (case r of Inl _ \<Rightarrow> True | Inr x' \<Rightarrow> wallet_ok (out_sha u) h x' \<and> same_swap x x')"
proof -
  obtain r0 x' where run: "step u (x\<lparr>x_env := v\<rparr>) = (r0, x')" by force
  have "conforms (out_sha u) (x\<lparr>x_env := v\<rparr>) x'"
    using wallet_step_conforms [OF sent_by_step [OF run]] .
  then show ?thesis
    using assms run
    by (auto simp: conforms_def step_in_def split: sum.splits fault.splits)
qed

lemma swap_loop_conforms:
  assumes "swap_loop u k i taker maker v = (r, v')"
    and "wallet_ok (out_sha u) h taker" and "wallet_ok (out_sha u) h maker"
  shows "\<exists>txs. sent v' = sent v @ txs \<and> list_all (swap_tx (out_sha u) h taker maker) txs \<and>
    (case r of
       Inl _ \<Rightarrow> True
     | Inr (t, m) \<Rightarrow> same_swap taker t \<and> same_swap maker m \<and>
         settled_state (x_state t) \<and> settled_state (x_state m))"
  using assms
proof (induction k arbitrary: i taker maker v)
  case 0
  then show ?case by (auto simp: throw_def)
next
  case (Suc k)
  obtain r1 v1 where t: "step_in u (''taker step '' @ dec i @ '': '') taker v = (r1, v1)" by force
  obtain xs where xs: "sent v1 = sent v @ xs" "list_all (own_tx (out_sha u) h taker) xs"
    "case r1 of Inl _ \<Rightarrow> True | Inr x' \<Rightarrow> wallet_ok (out_sha u) h x' \<and> same_swap taker x'"
    using step_in_conforms [OF t Suc.prems(2)] by blast
  have sub: "list_all (swap_tx (out_sha u) h taker maker) zs"
    if "list_all (own_tx (out_sha u) h taker) zs \<or> list_all (own_tx (out_sha u) h maker) zs" for zs
    using that by (auto simp: swap_tx_def list_all_iff)
  show ?case
  proof (cases r1)
    case (Inl e)
    then show ?thesis using Suc.prems(1) t xs sub by (auto simp: eff_simps)
  next
    case (Inr taker')
    obtain r2 v2 where m: "step_in u (''maker step '' @ dec i @ '': '') maker v1 = (r2, v2)" by force
    obtain ys where ys: "sent v2 = sent v1 @ ys" "list_all (own_tx (out_sha u) h maker) ys"
      "case r2 of Inl _ \<Rightarrow> True | Inr x' \<Rightarrow> wallet_ok (out_sha u) h x' \<and> same_swap maker x'"
      using step_in_conforms [OF m Suc.prems(3)] by blast
    have both: "sent v2 = sent v @ (xs @ ys)" "list_all (swap_tx (out_sha u) h taker maker) (xs @ ys)"
      using xs ys sub by auto
    show ?thesis
    proof (cases r2)
      case (Inl e)
      then show ?thesis using Suc.prems(1) t m Inr both by (auto simp: eff_simps)
    next
      case (Inr maker')
      note oks = xs(3) [unfolded \<open>r1 = Inr taker'\<close>, simplified] ys(3) [unfolded Inr, simplified]
      show ?thesis
      proof (cases "settled_state (x_state taker') \<and> settled_state (x_state maker')")
        case True
        then show ?thesis
          using Suc.prems(1) t m Inr \<open>r1 = Inr taker'\<close> both oks by (auto simp: eff_simps)
      next
        case False
        then have "swap_loop u k (Suc i) taker' maker' v2 = (r, v')"
          using Suc.prems(1) t m Inr \<open>r1 = Inr taker'\<close> by (auto simp: eff_simps)
        from Suc.IH [OF this] oks obtain zs where zs: "sent v' = sent v2 @ zs"
          "list_all (swap_tx (out_sha u) h taker' maker') zs"
          "case r of Inl _ \<Rightarrow> True
           | Inr (t, m) \<Rightarrow> same_swap taker' t \<and> same_swap maker' m \<and>
               settled_state (x_state t) \<and> settled_state (x_state m)"
          by blast
        have "swap_tx (out_sha u) h taker' maker' = swap_tx (out_sha u) h taker maker"
          using oks own_tx_same_swap [of taker taker' "out_sha u" h]
            own_tx_same_swap [of maker maker' "out_sha u" h]
          by (simp add: fun_eq_iff swap_tx_def)
        then show ?thesis
          using zs both oks
          by (auto intro!: exI [of _ "xs @ ys @ zs"] split: sum.splits intro: same_swap_trans)
      qed
    qed
  qed
qed

text \<open>
  C13. What the runner may broadcast. Whatever the environment variables, the nodes and the
  contracts answer: when the preparation fails, the runner reports that error and has sent
  nothing. When it succeeds, it had the explicit confirmation, and the configuration it read passed
  the checks (different chains of the test allowlist, at least one confirmation, amounts within
  the cap, the taker's timelock at least the gap beyond the maker's); then every transaction the
  runner sends is one that the two executors it prepared may send for the one swap: right
  connection, contract, recipient, token, amount, hashlock, timelock, or a redeem with a preimage
  of the hashlock. And it reports success only when its loop, run on these executors for the
  configured number of rounds, returned them settled.
\<close>

theorem runner_broadcasts:
  fixes u :: "('p, 'w, 'sig, 'rid, 'vk, 'sk) outside"
  shows "case runner u cl var v of (r, v') \<Rightarrow>
     (case prepare u cl var v of
        (Inl e, v1) \<Rightarrow> r = Inl (Failed e) \<and> sent v' = sent v
      | (Inr (c, taker, maker), v1) \<Rightarrow>
          (\<exists>h txs. ready (out_sha u) var c h taker maker \<and>
             sent v' = sent v @ txs \<and> list_all (swap_tx (out_sha u) h taker maker) txs \<and>
             (case r of
                Inl _ \<Rightarrow> True
              | Inr _ \<Rightarrow> (\<exists>t m.
                  swap_loop u (unat (sc_max_steps c)) 0 taker maker v1 = (Inr (t, m), v') \<and>
                  same_swap taker t \<and> same_swap maker m \<and>
                  settled_state (x_state t) \<and> settled_state (x_state m)))))"
proof -
  obtain p v1 where prep: "prepare u cl var v = (p, v1)" by force
  have quiet: "sent v1 = sent v"
    using keepsE [OF prepare_silent prep] by (simp add: silent_def)
  show ?thesis
  proof (cases p)
    case (Inl e)
    then show ?thesis using prep quiet by (simp add: runner_def eff_simps)
  next
    case (Inr ctm)
    then obtain c taker maker where p: "prepare u cl var v = (Inr (c, taker, maker), v1)"
      using prep by (cases ctm) auto
    from prepare_ready [OF p] obtain h where h: "ready (out_sha u) var c h taker maker" by blast
    obtain r v' where loop: "swap_loop u (unat (sc_max_steps c)) 0 taker maker v1 = (r, v')" by force
    from swap_loop_conforms [OF loop, of h] h quiet obtain txs where
      txs: "sent v' = sent v @ txs" "list_all (swap_tx (out_sha u) h taker maker) txs"
      "case r of Inl _ \<Rightarrow> True
       | Inr (t, m) \<Rightarrow> same_swap taker t \<and> same_swap maker m \<and>
           settled_state (x_state t) \<and> settled_state (x_state m)"
      by (auto simp: ready_def)
    have "runner u cl var v = (case r of Inl e \<Rightarrow> Inl e | Inr _ \<Rightarrow> Inr (), v')"
      using p loop by (auto simp: runner_def eff_simps split: sum.split)
    moreover have "case r of
        Inl _ \<Rightarrow> True
      | Inr _ \<Rightarrow> (\<exists>t m. r = Inr (t, m) \<and> same_swap taker t \<and> same_swap maker m \<and>
          settled_state (x_state t) \<and> settled_state (x_state m))"
      using txs(3) by (auto split: sum.splits)
    ultimately show ?thesis using p loop h txs(1,2) by (cases r) (simp_all, blast+)
  qed
qed

end
