(* ===== verification/Kael_OrderLib.thy ===== *)
theory Kael_OrderLib
  imports Kael_Tx
begin

section \<open>The on-chain check of an order\<close>

text \<open>
  Models \<open>contracts/src/Order.sol\<close>, the library with which the Settlement contract verifies a
  signed order, and shows that it agrees with \<open>orderbook/src/eip712.rs\<close>: the same digest, the
  same accepted signatures, the same error for the same reason. \<open>ecrecover\<close>, the EVM's
  precompile, is a parameter, as Keccak-256 is.

  \<open>abi.encode\<close> of value types is the concatenation of 32-byte words: addresses padded on the
  left, integers big-endian.
\<close>

datatype OrderError =
    InvalidSignatureLength
  | O_MalleableS
  | O_InvalidV
  | O_ZeroSigner
  | O_SignerNotMaker
  | O_OrderExpired

type_synonym ecrecover_fn = "b32 \<Rightarrow> u8 \<Rightarrow> b32 \<Rightarrow> b32 \<Rightarrow> address"

definition abi_uint256 :: "u256 \<Rightarrow> u8 list" where
  "abi_uint256 v = to_be_bytes v"

definition uint256_of :: "b32 \<Rightarrow> nat" where
  "uint256_of b = foldl (\<lambda>acc x. acc * 256 + unat x) 0 (bytes_of b)"

definition SOL_HALF_N :: nat where
  "SOL_HALF_N = 0x7FFFFFFFFFFFFFFFFFFFFFFFFFFFFFFF5D576E7357A4501DDFE92F46681B20A0"

definition domainSeparator :: "hash_fn \<Rightarrow> b32" where
  "domainSeparator kc =
     kc (bytes_of (kc (ascii ''EIP712Domain(string name,string version)'')) @
         bytes_of (kc (ascii ''Kael'')) @ bytes_of (kc (ascii ''1'')))"

definition hashStruct :: "hash_fn \<Rightarrow> SolOrder \<Rightarrow> b32" where
  "hashStruct kc order =
     kc (bytes_of (kc (ascii
           ''Order(address maker,address sellToken,uint256 sellChainId,uint256 sellAmount,address buyToken,uint256 buyChainId,uint256 buyAmount,uint256 validUntil,uint256 nonce)'')) @
         enc_addr (so_maker order) @
         enc_addr (so_sellToken order) @
         abi_uint256 (so_sellChainId order) @
         abi_uint256 (so_sellAmount order) @
         enc_addr (so_buyToken order) @
         abi_uint256 (so_buyChainId order) @
         abi_uint256 (so_buyAmount order) @
         abi_uint256 (so_validUntil order) @
         abi_uint256 (so_nonce order))"

definition order_hash :: "hash_fn \<Rightarrow> SolOrder \<Rightarrow> b32" where
  "order_hash kc order =
     kc ([0x19, 0x01] @ bytes_of (domainSeparator kc) @ bytes_of (hashStruct kc order))"

definition order_verify ::
  "hash_fn \<Rightarrow> ecrecover_fn \<Rightarrow> SolOrder \<Rightarrow> u8 list \<Rightarrow> u256 \<Rightarrow> OrderError + b32" where
  "order_verify kc ecr order signature nowTs =
     (if length signature \<noteq> 65 then Inl InvalidSignatureLength
      else
        let r = pad_copy (take 32 signature);
            s = pad_copy (take 32 (drop 32 signature));
            v = signature ! 64
        in
          if uint256_of s > SOL_HALF_N then Inl O_MalleableS
          else if v \<noteq> 27 \<and> v \<noteq> 28 then Inl O_InvalidV
          else
            let orderHash = order_hash kc order;
                signer = ecr orderHash v r s
            in
              if signer = 0 then Inl O_ZeroSigner
              else if signer \<noteq> so_maker order then Inl O_SignerNotMaker
              else if nowTs > so_validUntil order then Inl O_OrderExpired
              else Inr orderHash)"

subsection \<open>Bytes as numbers\<close>

text \<open>The big-endian number of a byte string, on strings of one length ordered as the strings.\<close>

definition be_number :: "u8 list \<Rightarrow> nat" where
  "be_number xs = foldl (\<lambda>acc x. acc * 256 + unat x) 0 xs"

lemma foldl_be: "foldl (\<lambda>acc x. acc * 256 + unat x) a xs = a * 256 ^ length xs + be_number xs"
  for xs :: "u8 list"
proof (induction xs arbitrary: a)
  case (Cons x xs)
  have "be_number (x # xs) = foldl (\<lambda>acc x. acc * 256 + unat x) (unat x) xs"
    by (simp add: be_number_def)
  also have "\<dots> = unat x * 256 ^ length xs + be_number xs" by (rule Cons.IH)
  finally have num: "be_number (x # xs) = unat x * 256 ^ length xs + be_number xs" .
  have "foldl (\<lambda>acc x. acc * 256 + unat x) a (x # xs) =
      foldl (\<lambda>acc x. acc * 256 + unat x) (a * 256 + unat x) xs" by simp
  also have "\<dots> = (a * 256 + unat x) * 256 ^ length xs + be_number xs" by (rule Cons.IH)
  also have "\<dots> = a * 256 ^ length (x # xs) + be_number (x # xs)"
    by (simp add: num add_mult_distrib mult.assoc)
  finally show ?case .
qed (simp add: be_number_def)

lemma be_number_simps [simp]:
  "be_number [] = 0" "be_number (x # xs) = unat x * 256 ^ length xs + be_number xs"
  using foldl_be [of "unat x" xs] by (simp_all add: be_number_def)

lemma be_number_bound: "be_number xs < 256 ^ length xs"
proof (induction xs)
  case (Cons x xs)
  have "unat x + 1 \<le> 256" using unat_lt_pow [of x] by simp
  then have "(unat x + 1) * 256 ^ length xs \<le> 256 * 256 ^ length xs"
    by (rule mult_right_mono) simp
  then have "unat x * 256 ^ length xs + 256 ^ length xs \<le> 256 ^ length (x # xs)"
    by (simp only: add_mult_distrib mult_1 length_Cons power_Suc)
  with Cons.IH show ?case by (simp only: be_number_simps)
qed simp

lemma be_number_less:
  "length xs = length ys \<Longrightarrow> be_number xs < be_number ys \<longleftrightarrow> xs < ys"
proof (induction xs ys rule: list_induct2)
  case (Cons x xs y ys)
  have *: "unat a * 256 ^ length ys + be_number as < unat b * 256 ^ length ys + be_number bs"
    if "unat a < unat b" "length as = length ys" for a b :: u8 and as bs
  proof -
    have "(unat a + 1) * 256 ^ length ys \<le> unat b * 256 ^ length ys"
      using that(1) by (intro mult_right_mono) simp_all
    then have "unat a * 256 ^ length ys + 256 ^ length ys \<le> unat b * 256 ^ length ys"
      by (simp only: add_mult_distrib mult_1)
    then show ?thesis using be_number_bound [of as] that(2) by simp
  qed
  consider "x < y" | "x = y" | "y < x" by (meson linorder_less_linear)
  then show ?case
  proof cases
    case 1
    then show ?thesis using * [of x y xs ys] Cons.hyps by (simp add: word_less_nat_alt)
  next
    case 2
    then show ?thesis using Cons by simp
  next
    case 3
    then show ?thesis using * [of y x ys xs] Cons.hyps
      by (simp add: word_less_nat_alt) (metis less_imp_neq less_not_sym)
  qed
qed simp

lemma half_n_number: "be_number SECP256K1_HALF_N = SOL_HALF_N"
  by (simp add: SECP256K1_HALF_N_def SOL_HALF_N_def)

lemma high_s_agrees:
  assumes "length s = 32"
  shows "uint256_of (pad_copy s) > SOL_HALF_N \<longleftrightarrow> is_high_s s"
proof -
  have "uint256_of (pad_copy s) = be_number s"
    using assms by (simp add: uint256_of_def be_number_def bytes_of_pad_copy)
  moreover have "length SECP256K1_HALF_N = length s"
    using assms by (simp add: SECP256K1_HALF_N_def)
  ultimately show ?thesis
    using be_number_less [of SECP256K1_HALF_N s] by (simp add: half_n_number is_high_s_def)
qed

subsection \<open>One digest\<close>

lemma to_be_bytes_nth:
  fixes w :: "'a::len word"
  assumes "LENGTH('a) = 8 * n" and "i < n"
  shows "to_be_bytes w ! i = ucast (drop_bit (8 * (n - 1 - i)) w)"
  using assms by (simp add: to_be_bytes_def rev_nth)

lemma to_be_bytes_ucast:
  fixes v :: "'a::len word"
  assumes "LENGTH('a) + 8 * k = LENGTH('b::len)" and "8 dvd LENGTH('a)"
  shows "to_be_bytes (ucast v :: 'b word) = replicate k 0 @ to_be_bytes v"
proof (rule nth_equalityI)
  from assms obtain m where a: "LENGTH('a) = 8 * m" by (auto simp: dvd_def)
  with assms(1) have b: "LENGTH('b) = 8 * (m + k)" by simp
  show len: "length (to_be_bytes (ucast v :: 'b word)) = length (replicate k 0 @ to_be_bytes v)"
    by (simp add: a b)
  fix i
  assume "i < length (to_be_bytes (ucast v :: 'b word))"
  then have i: "i < m + k" by (simp add: b)
  have left: "to_be_bytes (ucast v :: 'b word) ! i = ucast (drop_bit (8 * (m + k - 1 - i)) (ucast v :: 'b word))"
    using to_be_bytes_nth [OF b i] .
  show "to_be_bytes (ucast v :: 'b word) ! i = (replicate k 0 @ to_be_bytes v) ! i"
  proof (cases "i < k")
    case True
    have "ucast (drop_bit (8 * (m + k - 1 - i)) (ucast v :: 'b word)) = (0 :: u8)"
    proof (rule bit_word_eqI)
      fix j
      assume "j < LENGTH(8)"
      moreover have "LENGTH('a) \<le> 8 * (m + k - 1 - i)" using True a by simp
      ultimately have "\<not> bit v (8 * (m + k - 1 - i) + j)"
        by (meson bit_imp_le_length le_trans le_add1 linorder_not_less)
      then show "bit (ucast (drop_bit (8 * (m + k - 1 - i)) (ucast v :: 'b word)) :: u8) j = bit 0 j"
        by (simp add: bit_ucast_iff bit_drop_bit_eq add.commute)
    qed
    then show ?thesis using left True by (simp add: nth_append)
  next
    case False
    then have j: "i - k < m" using i by simp
    have idx: "m + k - 1 - i = m - 1 - (i - k)" using False i by simp
    have "ucast (drop_bit n (ucast v :: 'b word)) = (ucast (drop_bit n v) :: u8)" for n
    proof (rule bit_word_eqI)
      fix j
      show "bit (ucast (drop_bit n (ucast v :: 'b word)) :: u8) j = bit (ucast (drop_bit n v) :: u8) j"
        using assms(1) bit_imp_le_length [of v "n + j"]
        by (auto simp: bit_ucast_iff bit_drop_bit_eq)
    qed
    then show ?thesis
      using left False to_be_bytes_nth [OF a j] by (simp add: nth_append idx)
  qed
qed

lemma abi_uint256_ucast:
  "abi_uint256 (ucast (v :: u64)) = enc_u64 v" "abi_uint256 (ucast (w :: u128)) = enc_u128 w"
  using to_be_bytes_ucast [where ?'b = 256, of 24 v] to_be_bytes_ucast [where ?'b = 256, of 16 w]
  by (simp_all add: abi_uint256_def enc_u64_def enc_u128_def)

lemma order_hash_sol_order: "order_hash kc (sol_order o1) = digest kc o1"
  by (simp add: order_hash_def digest_def encode_digest_def domainSeparator_def domain_separator_def
      domain_typehash_def hashStruct_def hash_struct_def encode_order_def order_typehash_def
      sol_order_def abi_uint256_ucast)

subsection \<open>The two verifiers agree\<close>

text \<open>
  The documented behaviour of the two libraries, on signatures whose \<open>s\<close> is in the low half.
  \<open>ecrecover\<close> returns the address of the recovered key, and zero when there is none; a recovery id
  byte of 0 or 1 is always valid. Beyond the low half they differ: the precompile still recovers
  a key, while \<open>recover_from_prehash\<close> checks the signature and may refuse it. Nothing is assumed
  there, because both verifiers reject such a signature before they recover.
\<close>

definition precompile_agrees ::
  "hash_fn \<Rightarrow> ('sig, 'rid, 'vk, 'sk) k256 \<Rightarrow> ecrecover_fn \<Rightarrow> bool" where
  "precompile_agrees kc k ecr \<longleftrightarrow>
     (\<forall>d v r s. (v = 27 \<or> v = 28) \<and> uint256_of s \<le> SOL_HALF_N \<longrightarrow>
        (\<exists>recid. recid_from_byte k (v - 27) = Some recid \<and>
           ecr d v r s =
             (case sig_from_slice k (bytes_of r @ bytes_of s) of
                None \<Rightarrow> 0
              | Some sg \<Rightarrow>
                  (case recover_from_prehash k d sg recid of
                     None \<Rightarrow> 0
                   | Some vk \<Rightarrow> address_of kc k vk))))"

definition sol_error :: "VerifyError \<Rightarrow> OrderError" where
  "sol_error e =
     (case e of
        BadSignatureLength \<Rightarrow> InvalidSignatureLength
      | MalleableS \<Rightarrow> O_MalleableS
      | InvalidV \<Rightarrow> O_InvalidV
      | BadSignature \<Rightarrow> O_ZeroSigner
      | ZeroSigner \<Rightarrow> O_ZeroSigner
      | SignerNotMaker \<Rightarrow> O_SignerNotMaker
      | OrderExpired \<Rightarrow> O_OrderExpired)"

lemma signature_parts:
  assumes "length signature = 65"
  shows "bytes_of (pad_copy (take 32 signature) :: b32) @
    bytes_of (pad_copy (take 32 (drop 32 signature)) :: b32) = take 64 signature"
  using assms take_add [of 32 32 signature] by (simp add: bytes_of_pad_copy)

lemma ucast_less_iff: "(ucast (a :: u64) :: u256) < ucast b \<longleftrightarrow> a < b"
proof -
  have "take_bit 256 (unat x) = unat x" for x :: u64
    using unat_lt_pow [of x] by (intro take_bit_nat_eq_self) simp
  then show ?thesis by (simp add: word_less_nat_alt unsigned_ucast_eq)
qed

lemma order_verify_agrees:
  assumes "precompile_agrees kc k ecr"
  shows "order_verify kc ecr (sol_order o1) signature (ucast now) =
    map_err sol_error (eip712_verify kc k o1 signature now)"
proof (cases "length signature = 65 \<and> \<not> is_high_s (take 32 (drop 32 signature)) \<and>
    (signature ! 64 = 27 \<or> signature ! 64 = 28)")
  case False
  then show ?thesis
    by (auto simp: order_verify_def eip712_verify_def Let_def sol_error_def high_s_agrees)
next
  case True
  define r s :: b32 where "r = pad_copy (take 32 signature)"
    and "s = pad_copy (take 32 (drop 32 signature))"
  have parts: "bytes_of r @ bytes_of s = take 64 signature"
    unfolding r_def s_def using True by (intro signature_parts) simp
  have low: "\<not> uint256_of s > SOL_HALF_N"
    using True high_s_agrees [of "take 32 (drop 32 signature)"] by (simp add: s_def)
  then have "uint256_of s \<le> SOL_HALF_N" by simp
  with assms True have both: "\<exists>recid. recid_from_byte k (signature ! 64 - 27) = Some recid \<and>
      ecr d (signature ! 64) r s =
        (case sig_from_slice k (take 64 signature) of
           None \<Rightarrow> 0
         | Some sg \<Rightarrow>
             (case recover_from_prehash k d sg recid of
                None \<Rightarrow> 0
              | Some vk \<Rightarrow> address_of kc k vk))" for d
    unfolding precompile_agrees_def parts [symmetric] by blast
  then obtain recid where recid: "recid_from_byte k (signature ! 64 - 27) = Some recid" by blast
  have ecr: "ecr d (signature ! 64) r s =
      (case sig_from_slice k (take 64 signature) of
         None \<Rightarrow> 0
       | Some sg \<Rightarrow>
           (case recover_from_prehash k d sg recid of None \<Rightarrow> 0 | Some vk \<Rightarrow> address_of kc k vk))" for d
    using both [of d] recid by simp
  have order: "so_maker (sol_order o1) = o_maker o1"
    "ucast now > so_validUntil (sol_order o1) \<longleftrightarrow> now > o_valid_until o1"
    using ucast_less_iff by (simp_all add: sol_order_def)
  show ?thesis
    using True low
    by (auto simp: order_verify_def eip712_verify_def Let_def recid ecr order order_hash_sol_order
        sol_error_def and_then_def ok_or_def simp flip: r_def s_def split: option.split)
qed

text \<open>
  C24. The chain and the wallet agree on orders. For the documented behaviour of the recovery
  precompile and of \<open>k256\<close> on low \<open>s\<close>, the contract's verification of an order and a signature at
  a time gives the same result as the orderbook's, for every signature: the same digest when one
  accepts, and otherwise the matching error (a signature no key can be recovered from is a zero
  signer on chain). So every order in the book verifies on chain, and nothing else does.
\<close>

theorem on_chain_agrees:
  assumes "precompile_agrees kc k ecr"
  shows "order_verify kc ecr (sol_order o1) signature (ucast now) =
    map_err sol_error (eip712_verify kc k o1 signature now)"
  by (rule order_verify_agrees [OF assms])

definition toy_ecrecover :: ecrecover_fn where
  "toy_ecrecover d v r s = address_of toy_hash toy_k256 (pad_copy (bytes_of r @ bytes_of s))"

text \<open>A library that refuses high \<open>s\<close> when it recovers, beside a precompile that does not.\<close>

definition strict_k256 :: "(u8 list, u8, b32, b32) k256" where
  "strict_k256 = toy_k256
     \<lparr>recover_from_prehash := \<lambda>d sg rid. if is_high_s (drop 32 sg) then None else Some (pad_copy sg)\<rparr>"

lemma strict_agrees: "precompile_agrees toy_hash strict_k256 toy_ecrecover"
proof -
  have low: "\<not> is_high_s (bytes_of s)" if "uint256_of s \<le> SOL_HALF_N" for s :: b32
    using that high_s_agrees [of "bytes_of s"] by simp
  have same: "address_of toy_hash strict_k256 vk = address_of toy_hash toy_k256 vk" for vk
    by (simp add: address_of_def strict_k256_def)
  have "recid_from_byte strict_k256 = Some" "sig_from_slice strict_k256 = Some"
    "recover_from_prehash strict_k256 d sg rid = (if is_high_s (drop 32 sg) then None else Some (pad_copy sg))"
    for d sg rid
    by (simp_all add: strict_k256_def toy_k256_def)
  then show ?thesis by (simp add: precompile_agrees_def same low toy_ecrecover_def)
qed

lemma strict_verify:
  "eip712_verify toy_hash strict_k256 o1 signature now = eip712_verify toy_hash toy_k256 o1 signature now"
  by (simp add: eip712_verify_def address_of_def strict_k256_def toy_k256_def drop_take Let_def and_then_def
      ok_or_def)

lemma on_chain_agrees_witness:
  "\<exists>signature. order_verify toy_hash toy_ecrecover (sol_order sell_order_example) signature 500 =
     Inr (digest toy_hash sell_order_example)"
  using on_chain_agrees [OF strict_agrees, where now = 500] example_signature
  by (auto simp: strict_verify)

end
