(* ===== verification/Kael_Contracts.thy ===== *)
theory Kael_Contracts
  imports Kael_OrderLib
begin

section \<open>The two contracts of a chain\<close>

text \<open>
  Models \<open>contracts/src/HashedTimelock.sol\<close> and \<open>contracts/src/Settlement.sol\<close> as deployed together
  on one chain: their storage and native balances as one state, every external function, and
  transactions. A \<open>revert\<close> is an error, and an error takes every change of the transaction back
  (\<open>atomic\<close>).

  What a token or a recipient does when it is called is not under \<open>src/\<close>. It is given as a
  \<open>callee\<close>: which calls it makes back into the contracts, with callees of their own, before it
  answers, whether it succeeds, and the bytes it returns. A theorem for every callee thus holds
  for tokens that lie and for accounts that reenter. The contracts' calls to each other are not
  of this kind: they run the other contract's function.

  Native balances are naturals, since the supply bounds them. \<open>htlc_paid\<close> and \<open>settlement_paid\<close>
  are ghosts: the payments each contract made, in order, under the contract id they were for.
\<close>

datatype contract_error =
    H_ZeroAmount | H_ZeroHashlock | H_TimelockInPast | H_SwapAlreadyExists | H_SwapNotFound
  | H_AlreadyWithdrawn | H_AlreadyRefunded | H_InvalidPreimage | H_TimelockNotExpired
  | H_TimelockExpired | H_NotSender | H_EthValueMismatch | H_EthNotAllowedForToken
  | H_InvalidToken | H_TokenTransferFailed
  | S_OrderError OrderError | S_NonceAlreadyUsed | S_WrongChain | S_NotOrderMaker
  | S_EthValueMismatch | S_EthNotAllowedForToken | S_ContractIdMismatch | S_UnknownLeg
  | S_AlreadyRefunded | S_InvalidToken | S_TokenTransferFailed | S_TokenApproveFailed
  | S_EthTransferFailed | S_ZeroHtlc
  | R_NotPayable | R_BadReturnData | R_NoSuchSender

record SettlementLeg =
  sg_maker :: address
  sg_token :: address
  sg_amount :: u256
  sg_refunded :: bool

datatype settlement_event =
    LegAuthorized b32 address u256
  | SwapLegSettled b32 address address b32 u256
  | LegRefunded b32 address u256

record payment =
  pm_contract :: b32
  pm_to :: address
  pm_token :: address
  pm_amount :: u256

record chain_state =
  swaps :: "b32 \<Rightarrow> SolSwap"
  htlc_eth :: nat
  htlc_events :: "htlc_event list"
  htlc_paid :: "payment list"
  consumedNonce :: "address \<Rightarrow> u256 \<Rightarrow> bool"
  legs :: "b32 \<Rightarrow> SettlementLeg"
  settlement_eth :: nat
  settlement_events :: "settlement_event list"
  settlement_paid :: "payment list"

record deployment =
  dp_htlc :: address
  dp_settlement :: address
  dp_chain_id :: u256
  dp_keccak :: hash_fn
  dp_sha256 :: hash_fn
  dp_ecrecover :: ecrecover_fn
  dp_code_length :: "address \<Rightarrow> nat"

type_synonym 'a sol = "(chain_state, contract_error, 'a) eff"

text \<open>An account outside the two contracts, called: its answer and the state it leaves.\<close>

type_synonym outside_call = "chain_state \<Rightarrow> (bool \<times> u8 list) \<times> chain_state"

subsection \<open>Calls to the outside\<close>

definition abi_decode_bool :: "u8 list \<Rightarrow> bool option" where
  "abi_decode_bool data =
     (if length data < 32 then None
      else if take 32 data = replicate 31 0 @ [1] then Some True
      else if take 32 data = replicate 32 0 then Some False
      else None)"

definition call_out :: "outside_call \<Rightarrow> (bool \<times> u8 list) sol" where
  "call_out ext s = (case ext s of (answer, s') \<Rightarrow> (Inr answer, s'))"

text \<open>
  \<open>_safeTransfer\<close>, \<open>_safeTransferFrom\<close>, \<open>_safeApprove\<close>: a low-level call that must succeed and
  return nothing or \<open>true\<close>. The two contracts have no token functions, so as tokens they revert.
\<close>

definition safe_token_call ::
  "deployment \<Rightarrow> outside_call \<Rightarrow> address \<Rightarrow> contract_error \<Rightarrow> unit sol" where
  "safe_token_call dp ext token failed =
     (if token = dp_htlc dp \<or> token = dp_settlement dp then throw failed
      else
        bindE (call_out ext) (\<lambda>(ok, data).
        if \<not> ok then throw failed
        else if data = [] then ret ()
        else
          bindE (of_result (ok_or R_BadReturnData (abi_decode_bool data))) (\<lambda>b.
          guard b failed)))"

text \<open>
  \<open>payable(to).call{value: amount}("")\<close>, after the balance was debited: Settlement accepts in
  \<open>receive\<close>, HashedTimelock cannot, anyone else decides for itself.
\<close>

definition send_eth :: "deployment \<Rightarrow> outside_call \<Rightarrow> address \<Rightarrow> u256 \<Rightarrow> contract_error \<Rightarrow> unit sol"
where
  "send_eth dp ext to amount failed =
     (if to = dp_settlement dp then
        modify (\<lambda>s. s\<lparr>settlement_eth := settlement_eth s + unat amount\<rparr>)
      else if to = dp_htlc dp then throw failed
      else bindE (call_out ext) (\<lambda>(ok, data). guard ok failed))"

subsection \<open>HashedTimelock\<close>

definition computeContractId ::
  "hash_fn \<Rightarrow> address \<Rightarrow> address \<Rightarrow> address \<Rightarrow> u256 \<Rightarrow> b32 \<Rightarrow> u256 \<Rightarrow> b32" where
  "computeContractId kc sender recipient token amount hashlock timelock =
     kc (enc_addr sender @ enc_addr recipient @ enc_addr token @ abi_uint256 amount @
         bytes_of hashlock @ abi_uint256 timelock)"

definition htlc_new_swap ::
  "deployment \<Rightarrow> u256 \<Rightarrow> outside_call \<Rightarrow> address \<Rightarrow> u256 \<Rightarrow>
     address \<Rightarrow> address \<Rightarrow> u256 \<Rightarrow> b32 \<Rightarrow> u256 \<Rightarrow> b32 sol" where
  "htlc_new_swap dp now ext sender value recipient token amount hashlock timelock =
     thenE (modify (\<lambda>s. s\<lparr>htlc_eth := htlc_eth s + unat value\<rparr>))
    (thenE (guard (amount \<noteq> 0) H_ZeroAmount)
    (thenE (guard (hashlock \<noteq> 0) H_ZeroHashlock)
    (thenE (guard (\<not> timelock \<le> now) H_TimelockInPast)
    (let cid = computeContractId (dp_keccak dp) sender recipient token amount hashlock timelock in
     bindE (gets (\<lambda>s. swaps s cid)) (\<lambda>old.
     thenE (guard (sw_sender old = 0) H_SwapAlreadyExists)
    (thenE (if token = 0 then guard (value = amount) H_EthValueMismatch
            else
              thenE (guard (value = 0) H_EthNotAllowedForToken)
             (thenE (guard (dp_code_length dp token \<noteq> 0) H_InvalidToken)
              (safe_token_call dp ext token H_TokenTransferFailed)))
    (thenE (modify (\<lambda>s. s
        \<lparr>swaps := (swaps s)(cid :=
           \<lparr>sw_sender = sender, sw_recipient = recipient, sw_token = token, sw_amount = amount,
            sw_hashlock = hashlock, sw_timelock = timelock, sw_withdrawn = False,
            sw_refunded = False\<rparr>),
         htlc_events := htlc_events s @
           [LogNewSwap cid sender recipient token amount hashlock timelock]\<rparr>))
     (ret cid))))))))"

definition htlc_payout ::
  "deployment \<Rightarrow> outside_call \<Rightarrow> b32 \<Rightarrow> address \<Rightarrow> address \<Rightarrow> u256 \<Rightarrow> unit sol" where
  "htlc_payout dp ext cid token to amount =
     thenE (modify (\<lambda>s. s\<lparr>htlc_paid := htlc_paid s @
        [\<lparr>pm_contract = cid, pm_to = to, pm_token = token, pm_amount = amount\<rparr>]\<rparr>))
    (if token = 0 then
       bindE (gets htlc_eth) (\<lambda>funds.
       thenE (guard (unat amount \<le> funds) H_TokenTransferFailed)
      (thenE (modify (\<lambda>s. s\<lparr>htlc_eth := htlc_eth s - unat amount\<rparr>))
       (send_eth dp ext to amount H_TokenTransferFailed)))
     else safe_token_call dp ext token H_TokenTransferFailed)"

definition htlc_redeem :: "deployment \<Rightarrow> u256 \<Rightarrow> outside_call \<Rightarrow> b32 \<Rightarrow> b32 \<Rightarrow> unit sol" where
  "htlc_redeem dp now ext cid preimage =
     bindE (gets (\<lambda>s. swaps s cid)) (\<lambda>sw.
     thenE (guard (sw_sender sw \<noteq> 0) H_SwapNotFound)
    (thenE (guard (\<not> sw_withdrawn sw) H_AlreadyWithdrawn)
    (thenE (guard (\<not> sw_refunded sw) H_AlreadyRefunded)
    (thenE (guard (\<not> now \<ge> sw_timelock sw) H_TimelockExpired)
    (thenE (guard (dp_sha256 dp (bytes_of preimage) = sw_hashlock sw) H_InvalidPreimage)
    (thenE (modify (\<lambda>s. s\<lparr>swaps := (swaps s)(cid := (swaps s cid)\<lparr>sw_withdrawn := True\<rparr>)\<rparr>))
    (thenE (htlc_payout dp ext cid (sw_token sw) (sw_recipient sw) (sw_amount sw))
     (modify (\<lambda>s. s\<lparr>htlc_events := htlc_events s @ [LogRedeem cid preimage]\<rparr>)))))))))"

definition htlc_refund :: "deployment \<Rightarrow> u256 \<Rightarrow> outside_call \<Rightarrow> address \<Rightarrow> b32 \<Rightarrow> unit sol" where
  "htlc_refund dp now ext sender cid =
     bindE (gets (\<lambda>s. swaps s cid)) (\<lambda>sw.
     thenE (guard (sw_sender sw \<noteq> 0) H_SwapNotFound)
    (thenE (guard (\<not> sw_withdrawn sw) H_AlreadyWithdrawn)
    (thenE (guard (\<not> sw_refunded sw) H_AlreadyRefunded)
    (thenE (guard (\<not> now < sw_timelock sw) H_TimelockNotExpired)
    (thenE (guard (sender = sw_sender sw) H_NotSender)
    (thenE (modify (\<lambda>s. s\<lparr>swaps := (swaps s)(cid := (swaps s cid)\<lparr>sw_refunded := True\<rparr>)\<rparr>))
    (thenE (htlc_payout dp ext cid (sw_token sw) (sw_sender sw) (sw_amount sw))
     (modify (\<lambda>s. s\<lparr>htlc_events := htlc_events s @ [LogRefund cid]\<rparr>)))))))))"

text \<open>The view that chain readers call.\<close>

definition htlc_getSwap :: "b32 \<Rightarrow> SolSwap sol" where
  "htlc_getSwap cid = gets (\<lambda>s. swaps s cid)"

subsection \<open>Settlement\<close>

text \<open>The constructor: the only HashedTimelock this Settlement will ever use.\<close>

definition settlement_new :: "address \<Rightarrow> contract_error + address" where
  "settlement_new htlc = (if htlc = 0 then Inl S_ZeroHtlc else Inr htlc)"

text \<open>The \<open>i\<close>-th call to the outside of a transaction; a missing one is a plain account.\<close>

definition ext_at :: "outside_call list \<Rightarrow> nat \<Rightarrow> outside_call" where
  "ext_at exts i = (if i < length exts then exts ! i else (\<lambda>s. ((True, []), s)))"

definition consume_nonce :: "SolOrder \<Rightarrow> unit sol" where
  "consume_nonce order =
     bindE (gets (\<lambda>s. consumedNonce s (so_maker order) (so_nonce order))) (\<lambda>used.
     thenE (guard (\<not> used) S_NonceAlreadyUsed)
     (modify (\<lambda>s. s\<lparr>consumedNonce := (consumedNonce s)(so_maker order :=
        (consumedNonce s (so_maker order))(so_nonce order := True))\<rparr>)))"

definition authorize_leg :: "deployment \<Rightarrow> SolOrder \<Rightarrow> u8 list \<Rightarrow> u256 \<Rightarrow> unit sol" where
  "authorize_leg dp order signature nowTs =
     bindE (of_result (map_err S_OrderError
        (order_verify (dp_keccak dp) (dp_ecrecover dp) order signature nowTs))) (\<lambda>orderHash.
     thenE (consume_nonce order)
     (modify (\<lambda>s. s\<lparr>settlement_events := settlement_events s @
        [LegAuthorized orderHash (so_maker order) (so_nonce order)]\<rparr>)))"

definition receive_and_lock ::
  "deployment \<Rightarrow> u256 \<Rightarrow> outside_call list \<Rightarrow> u256 \<Rightarrow> SolOrder \<Rightarrow> address \<Rightarrow> b32 \<Rightarrow> u256 \<Rightarrow> b32 \<Rightarrow>
     unit sol" where
  "receive_and_lock dp now exts value order recipient hashlock timelock cid =
     (let token = so_sellToken order; amount = so_sellAmount order in
      bindE
        (if token = 0 then
           thenE (guard (value = amount) S_EthValueMismatch)
          (thenE (modify (\<lambda>s. s\<lparr>settlement_eth := settlement_eth s - unat amount\<rparr>))
           (htlc_new_swap dp now (ext_at exts 0) (dp_settlement dp) amount
              recipient token amount hashlock timelock))
         else
           thenE (guard (value = 0) S_EthNotAllowedForToken)
          (thenE (guard (dp_code_length dp token \<noteq> 0) S_InvalidToken)
          (thenE (safe_token_call dp (ext_at exts 0) token S_TokenTransferFailed)
          (thenE (safe_token_call dp (ext_at exts 1) token S_TokenApproveFailed)
           (htlc_new_swap dp now (ext_at exts 2) (dp_settlement dp) 0
              recipient token amount hashlock timelock)))))
        (\<lambda>got. guard (got = cid) S_ContractIdMismatch))"

definition settle_leg ::
  "deployment \<Rightarrow> u256 \<Rightarrow> outside_call list \<Rightarrow> address \<Rightarrow> u256 \<Rightarrow>
     SolOrder \<Rightarrow> u8 list \<Rightarrow> address \<Rightarrow> b32 \<Rightarrow> u256 \<Rightarrow> b32 sol" where
  "settle_leg dp now exts sender value order signature recipient hashlock timelock =
     thenE (modify (\<lambda>s. s\<lparr>settlement_eth := settlement_eth s + unat value\<rparr>))
    (thenE (of_result (map_err S_OrderError
        (order_verify (dp_keccak dp) (dp_ecrecover dp) order signature now)))
    (thenE (guard (so_sellChainId order = dp_chain_id dp) S_WrongChain)
    (thenE (guard (sender = so_maker order) S_NotOrderMaker)
    (thenE (consume_nonce order)
    (let cid = computeContractId (dp_keccak dp) (dp_settlement dp) recipient (so_sellToken order)
                 (so_sellAmount order) hashlock timelock in
     thenE (modify (\<lambda>s. s\<lparr>legs := (legs s)(cid :=
        \<lparr>sg_maker = so_maker order, sg_token = so_sellToken order,
         sg_amount = so_sellAmount order, sg_refunded = False\<rparr>)\<rparr>))
    (thenE (receive_and_lock dp now exts value order recipient hashlock timelock cid)
    (thenE (modify (\<lambda>s. s\<lparr>settlement_events := settlement_events s @
        [SwapLegSettled cid (so_maker order) recipient hashlock timelock]\<rparr>))
     (ret cid))))))))"

definition refund_leg :: "deployment \<Rightarrow> u256 \<Rightarrow> outside_call list \<Rightarrow> b32 \<Rightarrow> unit sol" where
  "refund_leg dp now exts cid =
     bindE (gets (\<lambda>s. legs s cid)) (\<lambda>leg.
     thenE (guard (sg_maker leg \<noteq> 0) S_UnknownLeg)
    (thenE (guard (\<not> sg_refunded leg) S_AlreadyRefunded)
    (thenE (modify (\<lambda>s. s\<lparr>legs := (legs s)(cid := (legs s cid)\<lparr>sg_refunded := True\<rparr>)\<rparr>))
    (thenE (htlc_refund dp now (ext_at exts 0) (dp_settlement dp) cid)
    (thenE (modify (\<lambda>s. s\<lparr>settlement_paid := settlement_paid s @
        [\<lparr>pm_contract = cid, pm_to = sg_maker leg, pm_token = sg_token leg,
          pm_amount = sg_amount leg\<rparr>]\<rparr>))
    (thenE
      (if sg_token leg = 0 then
         bindE (gets settlement_eth) (\<lambda>funds.
         thenE (guard (unat (sg_amount leg) \<le> funds) S_EthTransferFailed)
        (thenE (modify (\<lambda>s. s\<lparr>settlement_eth := settlement_eth s - unat (sg_amount leg)\<rparr>))
         (send_eth dp (ext_at exts 1) (sg_maker leg) (sg_amount leg) S_EthTransferFailed)))
       else safe_token_call dp (ext_at exts 1) (sg_token leg) S_TokenTransferFailed)
     (modify (\<lambda>s. s\<lparr>settlement_events := settlement_events s @
        [LegRefunded cid (sg_maker leg) (sg_amount leg)]\<rparr>))))))))"

subsection \<open>Transactions\<close>

text \<open>
  \<open>GiveHtlc\<close> is ether forced on HashedTimelock, which no contract can refuse; \<open>GiveSettlement\<close>
  ether sent to Settlement, by force or through \<open>receive\<close>.
\<close>

datatype call =
    NewSwapCall address address u256 b32 u256
  | RedeemCall b32 b32
  | RefundCall b32
  | AuthorizeLegCall SolOrder "u8 list" u256
  | SettleLegCall SolOrder "u8 list" address b32 u256
  | RefundLegCall b32
  | GiveHtlc
  | GiveSettlement

datatype message = Message (m_sender: address) (m_value: u256) (m_call: call)

datatype callee = Callee "(message \<times> callee list) list" bool "u8 list"

text \<open>
  Who calls from outside is neither of the contracts nor the zero address; a function that is
  not payable refuses ether.
\<close>

definition dispatch ::
  "deployment \<Rightarrow> u256 \<Rightarrow> outside_call list \<Rightarrow> message \<Rightarrow> b32 option sol" where
  "dispatch dp now exts msg =
     (case msg of Message sender value c \<Rightarrow>
      thenE (guard (sender \<notin> {0, dp_htlc dp, dp_settlement dp}) R_NoSuchSender)
      (case c of
         NewSwapCall recipient token amount hashlock timelock \<Rightarrow>
           bindE (htlc_new_swap dp now (ext_at exts 0) sender value recipient token amount
                    hashlock timelock) (\<lambda>cid. ret (Some cid))
       | RedeemCall cid preimage \<Rightarrow>
           thenE (guard (value = 0) R_NotPayable)
          (thenE (htlc_redeem dp now (ext_at exts 0) cid preimage) (ret None))
       | RefundCall cid \<Rightarrow>
           thenE (guard (value = 0) R_NotPayable)
          (thenE (htlc_refund dp now (ext_at exts 0) sender cid) (ret None))
       | AuthorizeLegCall order signature nowTs \<Rightarrow>
           thenE (guard (value = 0) R_NotPayable)
          (thenE (authorize_leg dp order signature nowTs) (ret None))
       | SettleLegCall order signature recipient hashlock timelock \<Rightarrow>
           bindE (settle_leg dp now exts sender value order signature recipient hashlock timelock)
             (\<lambda>cid. ret (Some cid))
       | RefundLegCall cid \<Rightarrow>
           thenE (guard (value = 0) R_NotPayable)
          (thenE (refund_leg dp now exts cid) (ret None))
       | GiveHtlc \<Rightarrow>
           thenE (modify (\<lambda>s. s\<lparr>htlc_eth := htlc_eth s + unat value\<rparr>)) (ret None)
       | GiveSettlement \<Rightarrow>
           thenE (modify (\<lambda>s. s\<lparr>settlement_eth := settlement_eth s + unat value\<rparr>)) (ret None)))"

fun transact :: "deployment \<Rightarrow> u256 \<Rightarrow> message \<Rightarrow> callee list \<Rightarrow> b32 option sol"
  and respond :: "deployment \<Rightarrow> u256 \<Rightarrow> callee \<Rightarrow> outside_call"
  and call_back :: "deployment \<Rightarrow> u256 \<Rightarrow> (message \<times> callee list) list \<Rightarrow> chain_state \<Rightarrow> chain_state"
where
  "transact dp now msg ks = atomic (dispatch dp now (map (respond dp now) ks) msg)"
| "respond dp now (Callee cs ok data) =
     (\<lambda>s. ((ok, data), if ok then call_back dp now cs s else s))"
| "call_back dp now [] s = s"
| "call_back dp now ((msg, ks) # cs) s = call_back dp now cs (snd (transact dp now msg ks s))"

text \<open>A history of transactions, each at its block's timestamp.\<close>

type_synonym transaction = "u256 \<times> message \<times> callee list"

fun transact_all :: "deployment \<Rightarrow> transaction list \<Rightarrow> chain_state \<Rightarrow> chain_state" where
  "transact_all dp [] s = s"
| "transact_all dp ((now, msg, ks) # txs) s =
     transact_all dp txs (snd (transact dp now msg ks s))"

definition deployed :: chain_state where
  "deployed =
     \<lparr>swaps = (\<lambda>_. \<lparr>sw_sender = 0, sw_recipient = 0, sw_token = 0, sw_amount = 0, sw_hashlock = 0,
                   sw_timelock = 0, sw_withdrawn = False, sw_refunded = False\<rparr>),
      htlc_eth = 0, htlc_events = [], htlc_paid = [], consumedNonce = (\<lambda>_ _. False),
      legs = (\<lambda>_. \<lparr>sg_maker = 0, sg_token = 0, sg_amount = 0, sg_refunded = False\<rparr>),
      settlement_eth = 0, settlement_events = [], settlement_paid = []\<rparr>"

end
