(* ===== verification/Kael_Escrow.thy ===== *)
theory Kael_Escrow
  imports Kael_Contracts
begin

section \<open>What the escrow guarantees\<close>

text \<open>
  Safety of the two contracts for every history of transactions and every behaviour of tokens
  and recipients, reentrant ones included.

  A relation between states that is a frame and that every function keeps, when the calls to
  the outside keep it, is kept by every transaction (locale \<open>contract_frame\<close>). Two such
  relations give the results: solvency, and the evolution of a swap once it exists.
\<close>

locale chain_frame = frame R
  for R :: "chain_state \<Rightarrow> chain_state \<Rightarrow> bool"
begin

lemma leads_throw: "leads R (throw e)"
  by (simp add: leads_def)

lemma leads_token_call:
  assumes "keeps R (call_out ext)"
  shows "leads R (safe_token_call dp ext token failed)"
  unfolding safe_token_call_def
  by (auto intro!: leads_rules leads_throw keeps_leads [OF assms] split: prod.split)

lemma leads_send_eth:
  assumes "keeps R (call_out ext)"
    and "\<And>s. R s (s\<lparr>settlement_eth := settlement_eth s + unat amount\<rparr>)"
  shows "leads R (send_eth dp ext to amount failed)"
  unfolding send_eth_def
  by (auto intro!: leads_rules leads_throw keeps_leads [OF assms(1)] leads_modify assms(2)
      split: prod.split)

end

declare transact.simps [simp del]

locale contract_frame = chain_frame R
  for R :: "chain_state \<Rightarrow> chain_state \<Rightarrow> bool" +
  fixes dp :: deployment and now :: u256
  assumes dispatch_leads:
    "list_all (\<lambda>e. keeps R (call_out e)) exts \<Longrightarrow> leads R (dispatch dp now exts msg)"
begin

lemma keeps_all:
  "dp' = dp \<Longrightarrow> now' = now \<Longrightarrow> keeps R (transact dp' now' msg ks)"
  "dp' = dp \<Longrightarrow> now' = now \<Longrightarrow> keeps R (call_out (respond dp' now' k))"
  "dp' = dp \<Longrightarrow> now' = now \<Longrightarrow> R s (call_back dp' now' cs s)"
proof (induction dp' now' msg ks and dp' now' k and dp' now' cs s
    rule: transact_respond_call_back.induct)
  case (1 dp' now' msg ks)
  then show ?case
    by (auto simp: transact.simps list_all_iff intro!: leads_atomic dispatch_leads)
next
  case (2 dp' now' cs ok data)
  then show ?case by (auto simp: keeps_def call_out_def frame_refl)
next
  case (4 dp' now' msg ks cs s)
  then show ?case by (auto intro: frame_trans dest: keepsD)
qed (simp add: frame_refl)

lemmas keeps_transact = keeps_all(1) [OF refl refl]

end

text \<open>The frame of a history: every transaction at its own time.\<close>

lemma transact_all_induct:
  assumes "\<And>s. R s s" and "\<And>s t u. R s t \<Longrightarrow> R t u \<Longrightarrow> R s u"
    and step: "\<And>now msg ks s. now \<in> T \<Longrightarrow> R s (snd (transact dp now msg ks s))"
    and "fst ` set txs \<subseteq> T"
  shows "R s (transact_all dp txs s)"
  using assms(4)
proof (induction txs arbitrary: s)
  case Nil
  then show ?case by (simp add: assms(1))
next
  case (Cons tx txs)
  obtain now msg ks where tx: "tx = (now, msg, ks)" by (cases tx)
  let ?s = "snd (transact dp now msg ks s)"
  have "R s ?s" using Cons.prems tx by (intro step) simp
  moreover have "R ?s (transact_all dp txs ?s)" using Cons by simp
  ultimately show ?case using assms(2) tx by simp
qed

lemma transact_all_append:
  "transact_all dp (txs @ more_txs) s = transact_all dp more_txs (transact_all dp txs s)"
  by (induction dp txs s rule: transact_all.induct) simp_all

lemmas contract_simps =
  eff_Inr safe_token_call_def send_eth_def htlc_payout_def guard_Inr

lemma call_out_leads: "keeps R (call_out e) \<Longrightarrow> leads R (call_out e)"
  by (rule keeps_leads)

lemma ext_at_keeps:
  assumes "frame R" and "list_all (\<lambda>e. keeps R (call_out e)) exts"
  shows "keeps R (call_out (ext_at exts i))"
  using assms by (auto simp: ext_at_def list_all_length keeps_def call_out_def frame.frame_refl)

subsection \<open>Solvency\<close>

text \<open>
  What HashedTimelock owes: the native amounts of the swaps that exist and are neither
  withdrawn nor refunded.
\<close>

definition live :: "SolSwap \<Rightarrow> bool" where
  "live sw \<longleftrightarrow> sw_sender sw \<noteq> 0 \<and> \<not> sw_withdrawn sw \<and> \<not> sw_refunded sw"

definition owed_for :: "SolSwap \<Rightarrow> nat" where
  "owed_for sw = (if live sw \<and> sw_token sw = 0 then unat (sw_amount sw) else 0)"

definition open_swaps :: "chain_state \<Rightarrow> b32 set" where
  "open_swaps s = {cid. owed_for (swaps s cid) \<noteq> 0}"

definition owed :: "chain_state \<Rightarrow> nat" where
  "owed s = (\<Sum>cid | cid \<in> open_swaps s. owed_for (swaps s cid))"

definition solvent :: "chain_state \<Rightarrow> bool" where
  "solvent s \<longleftrightarrow> finite (open_swaps s) \<and> owed s \<le> htlc_eth s"

lemma owed_upd:
  assumes "finite (open_swaps s)" and "swaps s' = (swaps s)(cid := sw)"
  shows "finite (open_swaps s') \<and> owed s' + owed_for (swaps s cid) = owed s + owed_for sw"
proof -
  let ?O = "insert cid (open_swaps s \<union> open_swaps s')"
  have sub: "open_swaps s' \<subseteq> insert cid (open_swaps s)"
    using assms(2) by (auto simp: open_swaps_def)
  then have fin: "finite ?O" "finite (open_swaps s')" using assms(1) finite_subset by auto
  have all: "owed t = (\<Sum>c\<in>?O. owed_for (swaps t c))" if "t = s \<or> t = s'" for t
    unfolding owed_def using fin(1) that
    by (intro sum.mono_neutral_left) (auto simp: open_swaps_def)
  have "(\<Sum>c\<in>?O. owed_for (swaps s' c)) + owed_for (swaps s cid) =
      (\<Sum>c\<in>?O. owed_for (swaps s c)) + owed_for sw"
    using fin(1) assms(2) by (simp add: sum.remove [of ?O cid])
  then show ?thesis using fin(2) all by simp
qed

lemma owed_same: "swaps s' = swaps s \<Longrightarrow> owed s' = owed s \<and> open_swaps s' = open_swaps s"
  by (simp add: owed_def open_swaps_def)

text \<open>Enough funds for everything owed and \<open>n\<close> more.\<close>

definition covers :: "nat \<Rightarrow> chain_state \<Rightarrow> bool" where
  "covers n s \<longleftrightarrow> finite (open_swaps s) \<and> owed s + n \<le> htlc_eth s"

lemma solvent_covers: "solvent s \<longleftrightarrow> covers 0 s"
  by (simp add: solvent_def covers_def)

lemma covers_mono: "covers n s \<Longrightarrow> m \<le> n \<Longrightarrow> covers m s"
  by (simp add: covers_def)

lemma covers_upd:
  assumes "covers n s" and "swaps s' = (swaps s)(cid := sw)" and "htlc_eth s' = htlc_eth s"
    and "m + owed_for sw \<le> n + owed_for (swaps s cid)"
  shows "covers m s'"
  using assms owed_upd [of s s' cid sw] by (simp add: covers_def)

lemma covers_same:
  "covers n s \<Longrightarrow> swaps s' = swaps s \<Longrightarrow> htlc_eth s + m \<le> htlc_eth s' + n \<Longrightarrow> covers m s'"
  using owed_same [of s' s] by (simp add: covers_def)

definition keeps_surplus :: "chain_state \<Rightarrow> chain_state \<Rightarrow> bool" where
  "keeps_surplus s s' \<longleftrightarrow> (\<forall>n. covers n s \<longrightarrow> covers n s')"

interpretation surplus: chain_frame keeps_surplus
  by unfold_locales (simp_all add: keeps_surplus_def)

lemma surplus_same: "swaps s' = swaps s \<Longrightarrow> htlc_eth s \<le> htlc_eth s' \<Longrightarrow> keeps_surplus s s'"
  by (auto simp: keeps_surplus_def intro: covers_same)

lemma new_swap_Inr:
  "htlc_new_swap dp now ext sender value recipient token amount hashlock timelock s = (Inr cid, s') \<longleftrightarrow>
     amount \<noteq> 0 \<and> hashlock \<noteq> 0 \<and> now < timelock \<and>
     cid = computeContractId (dp_keccak dp) sender recipient token amount hashlock timelock \<and>
     sw_sender (swaps s cid) = 0 \<and>
     (\<exists>s2. (if token = 0 then value = amount \<and> s2 = s\<lparr>htlc_eth := htlc_eth s + unat value\<rparr>
            else value = 0 \<and> dp_code_length dp token \<noteq> 0 \<and>
              safe_token_call dp ext token H_TokenTransferFailed s = (Inr (), s2)) \<and>
        s' = s2
          \<lparr>swaps := (swaps s2)(cid :=
             \<lparr>sw_sender = sender, sw_recipient = recipient, sw_token = token, sw_amount = amount,
              sw_hashlock = hashlock, sw_timelock = timelock, sw_withdrawn = False,
              sw_refunded = False\<rparr>),
           htlc_events := htlc_events s2 @
             [LogNewSwap cid sender recipient token amount hashlock timelock]\<rparr>)"
proof -
  have zero: "s\<lparr>htlc_eth := htlc_eth s + unat (0 :: u256)\<rparr> = s" by simp
  show ?thesis
    unfolding htlc_new_swap_def Let_def eff_Inr guard_Inr
    by (cases "token = 0") (auto simp: zero not_le eff_Inr)
qed

lemma redeem_Inr:
  "htlc_redeem dp now ext cid preimage s = (Inr (), s') \<longleftrightarrow>
     (let sw = swaps s cid in
      live sw \<and> now < sw_timelock sw \<and> dp_sha256 dp (bytes_of preimage) = sw_hashlock sw \<and>
      (\<exists>s2. htlc_payout dp ext cid (sw_token sw) (sw_recipient sw) (sw_amount sw)
              (s\<lparr>swaps := (swaps s)(cid := sw\<lparr>sw_withdrawn := True\<rparr>)\<rparr>) = (Inr (), s2) \<and>
        s' = s2\<lparr>htlc_events := htlc_events s2 @ [LogRedeem cid preimage]\<rparr>))"
  unfolding htlc_redeem_def Let_def eff_Inr guard_Inr by (auto simp: live_def not_le)

lemma refund_Inr:
  "htlc_refund dp now ext sender cid s = (Inr (), s') \<longleftrightarrow>
     (let sw = swaps s cid in
      live sw \<and> sw_timelock sw \<le> now \<and> sender = sw_sender sw \<and>
      (\<exists>s2. htlc_payout dp ext cid (sw_token sw) (sw_sender sw) (sw_amount sw)
              (s\<lparr>swaps := (swaps s)(cid := sw\<lparr>sw_refunded := True\<rparr>)\<rparr>) = (Inr (), s2) \<and>
        s' = s2\<lparr>htlc_events := htlc_events s2 @ [LogRefund cid]\<rparr>))"
  unfolding htlc_refund_def Let_def eff_Inr guard_Inr by (auto simp: live_def not_less)

text \<open>A payout debits native coins, is recorded, and runs the callee from there.\<close>

definition paid_state :: "b32 \<Rightarrow> address \<Rightarrow> address \<Rightarrow> u256 \<Rightarrow> chain_state \<Rightarrow> chain_state" where
  "paid_state cid token to amount s = s
     \<lparr>htlc_paid := htlc_paid s @
        [\<lparr>pm_contract = cid, pm_to = to, pm_token = token, pm_amount = amount\<rparr>],
      htlc_eth := htlc_eth s - (if token = 0 then unat amount else 0)\<rparr>"

lemma payout_Inr:
  "htlc_payout dp ext cid token to amount s = (Inr (), s') \<longleftrightarrow>
     (if token = 0
      then unat amount \<le> htlc_eth s \<and>
        send_eth dp ext to amount H_TokenTransferFailed (paid_state cid token to amount s) = (Inr (), s')
      else safe_token_call dp ext token H_TokenTransferFailed (paid_state cid token to amount s) =
        (Inr (), s'))"
  unfolding htlc_payout_def eff_Inr guard_Inr by (auto simp: paid_state_def eff_Inr)

context chain_frame
begin

lemma payout_R:
  assumes "keeps R (call_out ext)"
    and "\<And>s. R s (s\<lparr>settlement_eth := settlement_eth s + unat amount\<rparr>)"
    and "htlc_payout dp ext cid token to amount s = (Inr (), s')"
  shows "R (paid_state cid token to amount s) s'"
  using assms(3) leadsD [OF leads_send_eth [OF assms(1,2)]] leadsD [OF leads_token_call [OF assms(1)]]
  by (auto simp: payout_Inr split: if_splits)

end

lemma settle_surplus:
  assumes ext: "keeps keeps_surplus (call_out ext)"
    and sw: "live (swaps s cid)" "\<not> live sw'"
    and pay: "htlc_payout dp ext cid (sw_token (swaps s cid)) to (sw_amount (swaps s cid))
      (s\<lparr>swaps := (swaps s)(cid := sw')\<rparr>) = (Inr (), s2)"
  shows "keeps_surplus s s2"
  unfolding keeps_surplus_def
proof (intro allI impI)
  fix n
  assume covers: "covers n s"
  let ?s1 = "s\<lparr>swaps := (swaps s)(cid := sw')\<rparr>" and ?tk = "sw_token (swaps s cid)"
    and ?a = "sw_amount (swaps s cid)"
  have "covers (n + owed_for (swaps s cid)) ?s1"
    using sw(2) by (intro covers_upd [OF covers]) (auto simp: owed_for_def)
  moreover have "?tk = 0 \<longrightarrow> unat ?a \<le> htlc_eth ?s1"
    using pay by (auto simp: payout_Inr split: if_splits)
  ultimately have "covers n (paid_state cid ?tk to ?a ?s1)"
    using sw(1) by (elim covers_same) (auto simp: paid_state_def owed_for_def)
  moreover have "keeps_surplus (paid_state cid ?tk to ?a ?s1) s2"
    by (rule surplus.payout_R [OF ext _ pay]) (simp add: surplus_same)
  ultimately show "covers n s2" by (simp add: keeps_surplus_def)
qed

lemma redeem_surplus:
  assumes "keeps keeps_surplus (call_out ext)"
  shows "leads keeps_surplus (htlc_redeem dp now ext cid preimage)"
proof (rule leadsI)
  fix s u s'
  assume "htlc_redeem dp now ext cid preimage s = (Inr u, s')"
  then obtain s2 where run: "live (swaps s cid)"
    "htlc_payout dp ext cid (sw_token (swaps s cid)) (sw_recipient (swaps s cid)) (sw_amount (swaps s cid))
      (s\<lparr>swaps := (swaps s)(cid := (swaps s cid)\<lparr>sw_withdrawn := True\<rparr>)\<rparr>) = (Inr (), s2)"
    "s' = s2\<lparr>htlc_events := htlc_events s2 @ [LogRedeem cid preimage]\<rparr>"
    by (auto simp: redeem_Inr Let_def)
  have "keeps_surplus s s2"
    by (rule settle_surplus [OF assms run(1) _ run(2)]) (simp add: live_def)
  moreover have "keeps_surplus s2 s'" using run(3) by (simp add: surplus_same)
  ultimately show "keeps_surplus s s'" by (rule surplus.frame_trans)
qed

lemma refund_surplus:
  assumes "keeps keeps_surplus (call_out ext)"
  shows "leads keeps_surplus (htlc_refund dp now ext sender cid)"
proof (rule leadsI)
  fix s u s'
  assume "htlc_refund dp now ext sender cid s = (Inr u, s')"
  then obtain s2 where run: "live (swaps s cid)"
    "htlc_payout dp ext cid (sw_token (swaps s cid)) (sw_sender (swaps s cid)) (sw_amount (swaps s cid))
      (s\<lparr>swaps := (swaps s)(cid := (swaps s cid)\<lparr>sw_refunded := True\<rparr>)\<rparr>) = (Inr (), s2)"
    "s' = s2\<lparr>htlc_events := htlc_events s2 @ [LogRefund cid]\<rparr>"
    by (auto simp: refund_Inr Let_def)
  have "keeps_surplus s s2"
    by (rule settle_surplus [OF assms run(1) _ run(2)]) (simp add: live_def)
  moreover have "keeps_surplus s2 s'" using run(3) by (simp add: surplus_same)
  ultimately show "keeps_surplus s s'" by (rule surplus.frame_trans)
qed

lemma new_swap_surplus:
  assumes "keeps keeps_surplus (call_out ext)"
  shows "leads keeps_surplus
    (htlc_new_swap dp now ext sender value recipient token amount hashlock timelock)"
proof (rule leadsI)
  fix s cid s'
  assume run: "htlc_new_swap dp now ext sender value recipient token amount hashlock timelock s = (Inr cid, s')"
  let ?sw = "\<lparr>sw_sender = sender, sw_recipient = recipient, sw_token = token, sw_amount = amount,
    sw_hashlock = hashlock, sw_timelock = timelock, sw_withdrawn = False, sw_refunded = False\<rparr>"
  show "keeps_surplus s s'"
  proof (cases "token = 0")
    case True
    with run have s': "swaps s' = (swaps s)(cid := ?sw)" "htlc_eth s' = htlc_eth s + unat amount"
      by (auto simp: new_swap_Inr)
    have "covers n s'" if "covers n s" for n
    proof -
      have "covers (n + unat amount) (s\<lparr>htlc_eth := htlc_eth s + unat amount\<rparr>)"
        by (rule covers_same [OF that]) auto
      from covers_upd [OF this, of s' cid ?sw n] show ?thesis
        using s' by (simp add: owed_for_def)
    qed
    then show ?thesis by (simp add: keeps_surplus_def)
  next
    case False
    with run obtain s2 where s2: "safe_token_call dp ext token H_TokenTransferFailed s = (Inr (), s2)"
      and s': "swaps s' = (swaps s2)(cid := ?sw)" "htlc_eth s' = htlc_eth s2"
      by (auto simp: new_swap_Inr)
    have "keeps_surplus s2 s'"
      using s' False covers_upd [of _ s2 s' cid ?sw] by (auto simp: keeps_surplus_def owed_for_def)
    with surplus.frame_trans leadsD [OF surplus.leads_token_call [OF assms] s2] show ?thesis by blast
  qed
qed

subsection \<open>What the Settlement adds\<close>

text \<open>
  A relation on HashedTimelock's part of the state that its three functions keep is kept by
  Settlement's functions as well, and so by every transaction.
\<close>

locale htlc_frame = chain_frame R
  for R :: "chain_state \<Rightarrow> chain_state \<Rightarrow> bool" +
  fixes dp :: deployment and now :: u256
  assumes same_htlc: "swaps t = swaps s \<Longrightarrow> htlc_eth s \<le> htlc_eth t \<Longrightarrow>
      htlc_events t = htlc_events s \<Longrightarrow> htlc_paid t = htlc_paid s \<Longrightarrow> R s t"
    and new_swap: "keeps R (call_out ext) \<Longrightarrow>
      leads R (htlc_new_swap dp now ext sender value recipient token amount hashlock timelock)"
    and redeem: "keeps R (call_out ext) \<Longrightarrow> leads R (htlc_redeem dp now ext cid preimage)"
    and refund: "keeps R (call_out ext) \<Longrightarrow> leads R (htlc_refund dp now ext sender cid)"
begin

lemma ext_R: "list_all (\<lambda>e. keeps R (call_out e)) exts \<Longrightarrow> keeps R (call_out (ext_at exts i))"
  by (rule ext_at_keeps) unfold_locales

lemma leads_other:
  "leads R (modify (\<lambda>s. s\<lparr>settlement_eth := f1 s\<rparr>))"
  "leads R (modify (\<lambda>s. s\<lparr>consumedNonce := f2 s\<rparr>))"
  "leads R (modify (\<lambda>s. s\<lparr>legs := f3 s\<rparr>))"
  "leads R (modify (\<lambda>s. s\<lparr>settlement_events := f4 s\<rparr>))"
  "leads R (modify (\<lambda>s. s\<lparr>settlement_paid := f5 s\<rparr>))"
  by (auto intro!: leads_modify same_htlc)

lemma leads_settlement:
  assumes "list_all (\<lambda>e. keeps R (call_out e)) exts"
  shows "leads R (settle_leg dp now exts sender value order signature recipient hashlock timelock)"
    and "leads R (refund_leg dp now exts cid)" and "leads R (authorize_leg dp order signature nowTs)"
proof -
  note ext = ext_R [OF assms]
  show "leads R (settle_leg dp now exts sender value order signature recipient hashlock timelock)"
    unfolding settle_leg_def receive_and_lock_def consume_nonce_def Let_def
    by (intro leads_rules leads_other new_swap leads_token_call ext)
  show "leads R (refund_leg dp now exts cid)"
    unfolding refund_leg_def
    by (intro leads_rules leads_other refund leads_token_call leads_send_eth ext same_htlc) simp_all
  show "leads R (authorize_leg dp order signature nowTs)"
    unfolding authorize_leg_def consume_nonce_def by (intro leads_rules leads_other)
qed

end

sublocale htlc_frame \<subseteq> contract_frame
proof
  fix exts msg
  assume exts: "list_all (\<lambda>e. keeps R (call_out e)) exts"
  obtain sender v c where msg: "msg = Message sender v c" by (cases msg)
  have give: "leads R (modify (\<lambda>s. s\<lparr>htlc_eth := htlc_eth s + n\<rparr>))" for n
    by (auto intro!: leads_modify same_htlc)
  show "leads R (dispatch dp now exts msg)"
    unfolding dispatch_def msg
    by (cases c)
      (auto intro!: leads_rules leads_other leads_settlement new_swap redeem refund give ext_R exts)
qed

interpretation surplus: htlc_frame keeps_surplus dp now for dp now
  by unfold_locales (auto intro: surplus_same new_swap_surplus redeem_surplus refund_surplus)

lemma history_surplus: "keeps_surplus s (transact_all dp txs s)"
  by (rule transact_all_induct [where T = UNIV])
    (auto intro: surplus.frame_refl surplus.frame_trans keepsD [OF surplus.keeps_transact])

lemma deployed_covers: "covers 0 deployed"
  by (simp add: covers_def owed_def open_swaps_def owed_for_def live_def deployed_def)

text \<open>
  C16. Solvency. Whatever tokens and recipients do, whoever calls what and when, from the
  deployment on HashedTimelock holds at least the native coins of all its unsettled swaps, and
  no further history ever eats into the surplus it holds beyond them.
\<close>

theorem htlc_stays_solvent:
  "owed (transact_all dp txs deployed) \<le> htlc_eth (transact_all dp txs deployed) \<and>
   htlc_eth (transact_all dp txs deployed) - owed (transact_all dp txs deployed)
     \<le> htlc_eth (transact_all dp later (transact_all dp txs deployed)) -
       owed (transact_all dp later (transact_all dp txs deployed))"
proof -
  let ?s = "transact_all dp txs deployed" and ?t = "transact_all dp later (transact_all dp txs deployed)"
  have s: "covers 0 ?s"
    using history_surplus [of deployed dp txs] deployed_covers by (simp add: keeps_surplus_def)
  then have "covers (htlc_eth ?s - owed ?s) ?s" by (simp add: covers_def)
  then have "covers (htlc_eth ?s - owed ?s) ?t"
    using history_surplus [of ?s dp later] by (simp add: keeps_surplus_def)
  with s show ?thesis unfolding covers_def by (intro conjI) linarith+
qed

end
