(* ===== verification/Kael_Swap_Life.thy ===== *)
theory Kael_Swap_Life
  imports Kael_Escrow
begin

section \<open>The life of a swap\<close>

text \<open>
  Once a swap exists, its terms never change, and it is settled at most once: redeemed for its
  recipient before its timelock with a preimage that the chain then shows, or refunded to its
  sender from the timelock on, with one payment in either case. This holds for every history of
  transactions and every behaviour of tokens and recipients.

  Before it exists things differ: a token that reenters while it is being locked can create and
  settle a swap under the id that the outer call then writes again (\<open>reentrant_lock_forgets\<close>).
\<close>

definition payments :: "b32 \<Rightarrow> chain_state \<Rightarrow> payment list" where
  "payments cid s = filter (\<lambda>p. pm_contract p = cid) (htlc_paid s)"

definition pays :: "b32 \<Rightarrow> SolSwap \<Rightarrow> address \<Rightarrow> payment" where
  "pays cid sw to =
     \<lparr>pm_contract = cid, pm_to = to, pm_token = sw_token sw, pm_amount = sw_amount sw\<rparr>"

definition swap_kept :: "chain_state \<Rightarrow> chain_state \<Rightarrow> b32 \<Rightarrow> bool" where
  "swap_kept s t cid \<longleftrightarrow> swaps t cid = swaps s cid \<and> payments cid t = payments cid s"

definition swap_redeemed ::
  "deployment \<Rightarrow> u256 set \<Rightarrow> chain_state \<Rightarrow> chain_state \<Rightarrow> b32 \<Rightarrow> bool" where
  "swap_redeemed dp T s t cid \<longleftrightarrow>
     (let sw = swaps s cid in
      live sw \<and> swaps t cid = sw\<lparr>sw_withdrawn := True\<rparr> \<and>
      payments cid t = payments cid s @ [pays cid sw (sw_recipient sw)] \<and>
      (\<exists>now\<in>T. now < sw_timelock sw) \<and>
      (\<exists>p. dp_sha256 dp (bytes_of p) = sw_hashlock sw \<and> LogRedeem cid p \<in> set (htlc_events t)))"

definition swap_refunded ::
  "u256 set \<Rightarrow> chain_state \<Rightarrow> chain_state \<Rightarrow> b32 \<Rightarrow> bool" where
  "swap_refunded T s t cid \<longleftrightarrow>
     (let sw = swaps s cid in
      live sw \<and> swaps t cid = sw\<lparr>sw_refunded := True\<rparr> \<and>
      payments cid t = payments cid s @ [pays cid sw (sw_sender sw)] \<and>
      (\<exists>now\<in>T. sw_timelock sw \<le> now))"

definition evolves :: "deployment \<Rightarrow> u256 set \<Rightarrow> chain_state \<Rightarrow> chain_state \<Rightarrow> bool" where
  "evolves dp T s t \<longleftrightarrow>
     set (htlc_events s) \<subseteq> set (htlc_events t) \<and>
     (\<forall>cid. sw_sender (swaps s cid) \<noteq> 0 \<longrightarrow>
        swap_kept s t cid \<or> swap_redeemed dp T s t cid \<or> swap_refunded T s t cid)"

lemmas life_defs = swap_kept_def swap_redeemed_def swap_refunded_def

lemma evolvesD:
  "evolves dp T s t \<Longrightarrow> sw_sender (swaps s cid) \<noteq> 0 \<Longrightarrow>
     swap_kept s t cid \<or> swap_redeemed dp T s t cid \<or> swap_refunded T s t cid"
  by (simp add: evolves_def)

lemma settled_kept:
  "evolves dp T s t \<Longrightarrow> sw_sender (swaps s cid) \<noteq> 0 \<Longrightarrow> \<not> live (swaps s cid) \<Longrightarrow> swap_kept s t cid"
  using evolvesD [of dp T s t cid] by (auto simp: swap_redeemed_def swap_refunded_def Let_def)

lemma evolves_trans:
  assumes "evolves dp T s t" and "evolves dp T t u"
  shows "evolves dp T s u"
  unfolding evolves_def
proof (intro conjI allI impI)
  have sub: "set (htlc_events s) \<subseteq> set (htlc_events t)" "set (htlc_events t) \<subseteq> set (htlc_events u)"
    using assms by (simp_all add: evolves_def)
  then show "set (htlc_events s) \<subseteq> set (htlc_events u)" by blast
  fix cid
  assume e: "sw_sender (swaps s cid) \<noteq> 0"
  with assms(1) consider "swap_kept s t cid" | "swap_redeemed dp T s t cid" | "swap_refunded T s t cid"
    by (auto simp: evolves_def)
  then show "swap_kept s u cid \<or> swap_redeemed dp T s u cid \<or> swap_refunded T s u cid"
  proof cases
    case 1
    then have "sw_sender (swaps t cid) \<noteq> 0" using e by (simp add: swap_kept_def)
    with evolvesD [OF assms(2) this] 1 show ?thesis by (simp add: life_defs)
  next
    case 2
    then have "sw_sender (swaps t cid) \<noteq> 0" "\<not> live (swaps t cid)"
      using e by (auto simp: swap_redeemed_def live_def Let_def)
    with assms(2) have "swap_kept t u cid" by (intro settled_kept)
    with 2 sub(2) show ?thesis by (auto simp: swap_kept_def swap_redeemed_def Let_def)
  next
    case 3
    then have "sw_sender (swaps t cid) \<noteq> 0" "\<not> live (swaps t cid)"
      using e by (auto simp: swap_refunded_def live_def Let_def)
    with assms(2) have "swap_kept t u cid" by (intro settled_kept)
    with 3 show ?thesis by (auto simp: swap_kept_def swap_refunded_def Let_def)
  qed
qed

lemma evolves_refl: "evolves dp T s s"
  by (simp add: evolves_def swap_kept_def)

interpretation evolving: chain_frame "evolves dp T" for dp T
  by unfold_locales (auto intro: evolves_refl evolves_trans)

lemma evolves_same:
  "swaps t = swaps s \<Longrightarrow> htlc_events t = htlc_events s \<Longrightarrow> htlc_paid t = htlc_paid s \<Longrightarrow> evolves dp T s t"
  by (simp add: evolves_def swap_kept_def payments_def)

text \<open>Creating a swap touches no other, and none that existed.\<close>

lemma new_swap_evolves:
  assumes "keeps (evolves dp T) (call_out ext)"
  shows "leads (evolves dp T)
    (htlc_new_swap dp now ext sender value recipient token amount hashlock timelock)"
proof (rule leadsI)
  fix s cid s'
  assume run: "htlc_new_swap dp now ext sender value recipient token amount hashlock timelock s = (Inr cid, s')"
  then obtain s2 sw ev where fresh: "sw_sender (swaps s cid) = 0"
    and s2: "if token = 0 then s2 = s\<lparr>htlc_eth := htlc_eth s + unat value\<rparr>
             else safe_token_call dp ext token H_TokenTransferFailed s = (Inr (), s2)"
    and s': "s' = s2\<lparr>swaps := (swaps s2)(cid := sw), htlc_events := htlc_events s2 @ [ev]\<rparr>"
    by (auto simp: new_swap_Inr split: if_splits)
  have "evolves dp T s s2"
    using s2 leadsD [OF evolving.leads_token_call [OF assms]]
    by (auto intro: evolves_same split: if_splits)
  then show "evolves dp T s s'"
    using fresh by (auto simp: evolves_def life_defs Let_def s' payments_def)
qed

text \<open>What settling one swap does to all of them, from the payment on.\<close>

lemma settle_evolves:
  assumes ext: "keeps (evolves dp T) (call_out ext)"
    and sw: "live (swaps s cid)" "\<not> live sw'" "sw_sender sw' \<noteq> 0"
    and pay: "htlc_payout dp ext cid (sw_token (swaps s cid)) to (sw_amount (swaps s cid))
      (s\<lparr>swaps := (swaps s)(cid := sw')\<rparr>) = (Inr (), s2)"
  shows "set (htlc_events s) \<subseteq> set (htlc_events s2) \<and>
    (\<forall>c. c \<noteq> cid \<longrightarrow> sw_sender (swaps s c) \<noteq> 0 \<longrightarrow>
       swap_kept s s2 c \<or> swap_redeemed dp T s s2 c \<or> swap_refunded T s s2 c) \<and>
    swaps s2 cid = sw' \<and>
    payments cid s2 = payments cid s @ [pays cid (swaps s cid) to]"
proof -
  let ?s1 = "paid_state cid (sw_token (swaps s cid)) to (sw_amount (swaps s cid))
      (s\<lparr>swaps := (swaps s)(cid := sw')\<rparr>)"
  have s1: "swaps ?s1 = (swaps s)(cid := sw')" "htlc_events ?s1 = htlc_events s"
    "payments cid ?s1 = payments cid s @ [pays cid (swaps s cid) to]"
    "\<And>c. c \<noteq> cid \<Longrightarrow> payments c ?s1 = payments c s"
    by (auto simp: paid_state_def payments_def pays_def)
  have ev: "evolves dp T ?s1 s2"
    by (rule evolving.payout_R [OF ext _ pay]) (simp add: evolves_same)
  then have cid: "swap_kept ?s1 s2 cid"
    using sw(2,3) s1(1) by (intro settled_kept) simp_all
  have "swap_kept s s2 c \<or> swap_redeemed dp T s s2 c \<or> swap_refunded T s s2 c"
    if "c \<noteq> cid" "sw_sender (swaps s c) \<noteq> 0" for c
    using evolvesD [OF ev, of c] that s1(1) s1(4) [OF that(1)] by (simp add: life_defs)
  with ev cid s1 show ?thesis by (auto simp: evolves_def swap_kept_def)
qed

lemma swap_updates [simp]:
  "sw_sender (sw\<lparr>sw_withdrawn := True\<rparr>) = sw_sender sw" "\<not> live (sw\<lparr>sw_withdrawn := True\<rparr>)"
  "sw_sender (sw\<lparr>sw_refunded := True\<rparr>) = sw_sender sw" "\<not> live (sw\<lparr>sw_refunded := True\<rparr>)"
  by (simp_all add: live_def)

lemma redeem_evolves:
  assumes "keeps (evolves dp T) (call_out ext)" and "now \<in> T"
  shows "leads (evolves dp T) (htlc_redeem dp now ext cid preimage)"
proof (rule leadsI)
  fix s u s'
  assume "htlc_redeem dp now ext cid preimage s = (Inr u, s')"
  then obtain s2 where run: "live (swaps s cid)" "now < sw_timelock (swaps s cid)"
    "dp_sha256 dp (bytes_of preimage) = sw_hashlock (swaps s cid)"
    "htlc_payout dp ext cid (sw_token (swaps s cid)) (sw_recipient (swaps s cid)) (sw_amount (swaps s cid))
      (s\<lparr>swaps := (swaps s)(cid := (swaps s cid)\<lparr>sw_withdrawn := True\<rparr>)\<rparr>) = (Inr (), s2)"
    "s' = s2\<lparr>htlc_events := htlc_events s2 @ [LogRedeem cid preimage]\<rparr>"
    by (auto simp: redeem_Inr Let_def)
  have "sw_sender (swaps s cid) \<noteq> 0" using run(1) by (simp add: live_def)
  note all = settle_evolves [OF assms(1) run(1) _ _ run(4), simplified, OF this]
  have "swap_redeemed dp T s s' cid"
    using all run(1-3) assms(2) by (auto simp: swap_redeemed_def Let_def run(5) payments_def)
  with all show "evolves dp T s s'"
    unfolding evolves_def run(5) by (auto simp: life_defs Let_def payments_def)
qed

lemma refund_evolves:
  assumes "keeps (evolves dp T) (call_out ext)" and "now \<in> T"
  shows "leads (evolves dp T) (htlc_refund dp now ext sender cid)"
proof (rule leadsI)
  fix s u s'
  assume "htlc_refund dp now ext sender cid s = (Inr u, s')"
  then obtain s2 where run: "live (swaps s cid)" "sw_timelock (swaps s cid) \<le> now"
    "htlc_payout dp ext cid (sw_token (swaps s cid)) (sw_sender (swaps s cid)) (sw_amount (swaps s cid))
      (s\<lparr>swaps := (swaps s)(cid := (swaps s cid)\<lparr>sw_refunded := True\<rparr>)\<rparr>) = (Inr (), s2)"
    "s' = s2\<lparr>htlc_events := htlc_events s2 @ [LogRefund cid]\<rparr>"
    by (auto simp: refund_Inr Let_def)
  have "sw_sender (swaps s cid) \<noteq> 0" using run(1) by (simp add: live_def)
  note all = settle_evolves [OF assms(1) run(1) _ _ run(3), simplified, OF this]
  have "swap_refunded T s s' cid"
    using all run(1,2) assms(2) by (auto simp: swap_refunded_def Let_def run(4) payments_def)
  with all show "evolves dp T s s'"
    unfolding evolves_def run(4) by (auto simp: life_defs Let_def payments_def)
qed

interpretation evolving: htlc_frame "evolves dp (insert now T)" dp now for dp now T
  by unfold_locales
    (auto intro: evolves_same new_swap_evolves redeem_evolves refund_evolves)

lemma history_evolves: "evolves dp (fst ` set txs) s (transact_all dp txs s)"
proof (rule transact_all_induct [OF evolves_refl evolves_trans _ order_refl])
  fix now msg ks s
  assume "now \<in> fst ` set txs"
  then show "evolves dp (fst ` set txs) s (snd (transact dp now msg ks s))"
    using keepsD [OF evolving.keeps_transact [where now = now and T = "fst ` set txs" and dp = dp
        and msg = msg and ks = ks], of s]
    by (simp add: insert_absorb)
qed

text \<open>
  C15. A swap is settled at most once, one way. Take a swap that exists, and any history of
  transactions with any callees. Afterwards it has the same terms and either nothing else has
  changed and nothing was paid for it; or it was open and is now withdrawn, exactly its amount
  was paid to its recipient, at a time before the timelock, and a preimage of its hashlock
  stands in the events; or it was open and is now refunded, exactly its amount was paid to its
  sender, at a time from the timelock on.
\<close>

theorem swap_settled_once:
  assumes "sw_sender (swaps s cid) \<noteq> 0"
  shows "swap_kept s (transact_all dp txs s) cid \<or>
    swap_redeemed dp (fst ` set txs) s (transact_all dp txs s) cid \<or>
    swap_refunded (fst ` set txs) s (transact_all dp txs s) cid"
  using evolvesD [OF history_evolves assms] .

subsection \<open>A chain that computes\<close>

definition demo_dp :: deployment where
  "demo_dp =
     \<lparr>dp_htlc = fill 0xC1, dp_settlement = fill 0xD1, dp_chain_id = 31337, dp_keccak = toy_hash,
      dp_sha256 = toy_hash, dp_ecrecover = toy_ecrecover, dp_code_length = (\<lambda>_. 1)\<rparr>"

definition demo_cid :: "address \<Rightarrow> b32" where
  "demo_cid token =
     computeContractId toy_hash (fill 5) (fill 6) token 10 (fill 7) 100"

definition demo_new :: "address \<Rightarrow> u256 \<Rightarrow> message" where
  "demo_new token v = Message (fill 5) v (NewSwapCall (fill 6) token 10 (fill 7) 100)"

definition demo_redeem_by :: "address \<Rightarrow> address \<Rightarrow> message" where
  "demo_redeem_by who token = Message who 0 (RedeemCall (demo_cid token) (fill 7))"

lemmas demo_chain_defs =
  demo_dp_def demo_new_def demo_redeem_by_def transact.simps dispatch_def htlc_new_swap_def
  htlc_redeem_def htlc_refund_def htlc_payout_def safe_token_call_def send_eth_def call_out_def
  ext_at_def deployed_def eff_simps Let_def

lemma demo_time [simp]: "\<not> (100 :: u256) \<le> 1"
  by (simp add: word_le_nat_alt)

lemma demo_locked:
  "swaps (transact_all demo_dp [(1, demo_new 0 10, [])] deployed) (demo_cid 0) =
     \<lparr>sw_sender = fill 5, sw_recipient = fill 6, sw_token = 0, sw_amount = 10,
      sw_hashlock = fill 7, sw_timelock = 100, sw_withdrawn = False, sw_refunded = False\<rparr>"
  by (simp add: demo_chain_defs demo_cid_def)

lemma swap_settled_once_witness:
  "let s = transact_all demo_dp [(1, demo_new 0 10, [])] deployed;
       t = transact_all demo_dp [(2, demo_redeem_by (fill 8) 0, [])] s
   in swap_kept s t (demo_cid 0) \<or> swap_redeemed demo_dp {2} s t (demo_cid 0) \<or>
      swap_refunded {2} s t (demo_cid 0)"
proof -
  have "sw_sender (swaps (transact_all demo_dp [(1, demo_new 0 10, [])] deployed) (demo_cid 0)) \<noteq> 0"
    by (simp only: demo_locked) simp
  from swap_settled_once [OF this, of demo_dp "[(2, demo_redeem_by (fill 8) 0, [])]"]
  show ?thesis by (simp only: Let_def list.set fst_conv image_insert image_empty)
qed

subsection \<open>A lock that is reentered\<close>

text \<open>
  A token that calls back while it is pulled, \<open>k\<close> levels deep: each call locks the same swap again
  before it redeems what the calls inside it have locked.
\<close>

primrec nested_locks :: "message \<Rightarrow> message \<Rightarrow> nat \<Rightarrow> callee list" where
  "nested_locks relock payout 0 = []"
| "nested_locks relock payout (Suc k) =
     [Callee [(relock, nested_locks relock payout k), (payout, [])] True []]"

definition open_swap :: "address \<Rightarrow> address \<Rightarrow> address \<Rightarrow> u256 \<Rightarrow> b32 \<Rightarrow> u256 \<Rightarrow> SolSwap" where
  "open_swap sender recipient token amount hashlock timelock =
     \<lparr>sw_sender = sender, sw_recipient = recipient, sw_token = token, sw_amount = amount,
      sw_hashlock = hashlock, sw_timelock = timelock, sw_withdrawn = False, sw_refunded = False\<rparr>"

text \<open>Terms under which \<open>newSwap\<close> accepts a lock of a token, and \<open>redeem\<close> its preimage.\<close>

definition lockable ::
  "deployment \<Rightarrow> u256 \<Rightarrow> address \<Rightarrow> address \<Rightarrow> u256 \<Rightarrow> b32 \<Rightarrow> u256 \<Rightarrow> b32 \<Rightarrow> bool" where
  "lockable dp now sender token amount hashlock timelock preimage \<longleftrightarrow>
     sender \<notin> {0, dp_htlc dp, dp_settlement dp} \<and> token \<notin> {0, dp_htlc dp, dp_settlement dp} \<and>
     dp_code_length dp token \<noteq> 0 \<and> amount \<noteq> 0 \<and> hashlock \<noteq> 0 \<and> now < timelock \<and>
     dp_sha256 dp (bytes_of preimage) = hashlock"

lemma lock_runs:
  assumes terms: "lockable dp now sender token amount hashlock timelock preimage"
    and cid: "cid = computeContractId (dp_keccak dp) sender recipient token amount hashlock timelock"
    and fresh: "sw_sender (swaps s cid) = 0"
    and ext: "ext_at (map (respond dp now) ks) 0 s = ((True, []), t)"
  shows "\<exists>ev. transact dp now (Message sender 0 (NewSwapCall recipient token amount hashlock timelock)) ks s =
    (Inr (Some cid), t\<lparr>swaps := (swaps t)(cid := open_swap sender recipient token amount hashlock timelock),
      htlc_events := htlc_events t @ [ev]\<rparr>)"
proof -
  have "safe_token_call dp (ext_at (map (respond dp now) ks) 0) token H_TokenTransferFailed s = (Inr (), t)"
    using terms ext by (auto simp: lockable_def safe_token_call_def call_out_def eff_Inr)
  then show ?thesis
    using terms fresh unfolding atomic_Inr transact.simps
    by (auto simp: lockable_def dispatch_def eff_Inr new_swap_Inr cid open_swap_def)
qed

lemma redeem_runs:
  assumes "swaps s cid = open_swap sender recipient token amount hashlock timelock"
    and "lockable dp now sender token amount hashlock timelock preimage"
    and "who \<notin> {0, dp_htlc dp, dp_settlement dp}"
  shows "\<exists>ev. transact dp now (Message who 0 (RedeemCall cid preimage)) [] s = (Inr None, s
    \<lparr>swaps := (swaps s)(cid := (swaps s cid)\<lparr>sw_withdrawn := True\<rparr>),
     htlc_paid := htlc_paid s @ [pays cid (open_swap sender recipient token amount hashlock timelock) recipient],
     htlc_events := htlc_events s @ [ev]\<rparr>)"
  using assms unfolding atomic_Inr transact.simps
  by (auto simp: lockable_def dispatch_def eff_Inr redeem_Inr Let_def open_swap_def live_def payout_Inr
      safe_token_call_def call_out_def ext_at_def paid_state_def pays_def)

lemma nested_locks_run:
  assumes terms: "lockable dp now sender token amount hashlock timelock preimage"
    and who: "who \<notin> {0, dp_htlc dp, dp_settlement dp}"
    and cid: "cid = computeContractId (dp_keccak dp) sender recipient token amount hashlock timelock"
    and relock: "relock = Message sender 0 (NewSwapCall recipient token amount hashlock timelock)"
    and payout: "payout = Message who 0 (RedeemCall cid preimage)"
    and fresh: "sw_sender (swaps s cid) = 0"
  shows "\<exists>t. transact dp now relock (nested_locks relock payout k) s = (Inr (Some cid), t) \<and>
    swaps t cid = open_swap sender recipient token amount hashlock timelock \<and>
    htlc_paid t = htlc_paid s @ replicate k
      (pays cid (open_swap sender recipient token amount hashlock timelock) recipient)"
proof (induction k)
  case 0
  have "ext_at (map (respond dp now) []) 0 s = ((True, []), s)" by (simp add: ext_at_def)
  from lock_runs [OF terms cid fresh this] show ?case by (auto simp: relock)
next
  case (Suc k)
  let ?sw = "open_swap sender recipient token amount hashlock timelock"
  obtain t where t: "transact dp now relock (nested_locks relock payout k) s = (Inr (Some cid), t)"
    "swaps t cid = ?sw" "htlc_paid t = htlc_paid s @ replicate k (pays cid ?sw recipient)"
    using Suc by blast
  obtain ev where r: "transact dp now payout [] t = (Inr None, t
      \<lparr>swaps := (swaps t)(cid := (swaps t cid)\<lparr>sw_withdrawn := True\<rparr>),
       htlc_paid := htlc_paid t @ [pays cid ?sw recipient], htlc_events := htlc_events t @ [ev]\<rparr>)"
    using redeem_runs [OF t(2) terms who] unfolding payout by blast
  have "ext_at (map (respond dp now) (nested_locks relock payout (Suc k))) 0 s =
      ((True, []), snd (transact dp now payout [] t))"
    using t(1) by (simp add: ext_at_def)
  from lock_runs [OF terms cid fresh this] show ?case
    by (auto simp: relock [symmetric] r t(3) replicate_append_same)
qed

text \<open>
  C40. A lock that is reentered can be paid again and again. For every deployment, every state in
  which the swap does not exist, all terms that \<open>newSwap\<close> accepts for a token, and every \<open>k\<close>: if
  the token calls back while it is pulled, \<open>k\<close> levels deep, the inner calls lock and redeem the same
  swap, and the outer one writes it again as open, although its check for a duplicate had passed
  before. With a redeem in a later transaction, the one contract id is paid \<open>k + 1\<close> times. So
  \<open>swap_settled_once\<close> cannot hold from before a swap exists, and \<open>newSwap\<close> does not keep its promise
  that a contract id is used once.
\<close>

theorem reentrant_lock_forgets:
  assumes "lockable dp now sender token amount hashlock timelock preimage"
    and "lockable dp later sender token amount hashlock timelock preimage"
    and "who \<notin> {0, dp_htlc dp, dp_settlement dp}"
    and "cid = computeContractId (dp_keccak dp) sender recipient token amount hashlock timelock"
    and "sw_sender (swaps s cid) = 0"
  shows "let relock = Message sender 0 (NewSwapCall recipient token amount hashlock timelock);
             payout = Message who 0 (RedeemCall cid preimage)
         in payments cid (transact_all dp [(now, relock, nested_locks relock payout k), (later, payout, [])] s) =
              payments cid s @ replicate (Suc k)
                \<lparr>pm_contract = cid, pm_to = recipient, pm_token = token, pm_amount = amount\<rparr>"
proof -
  let ?sw = "open_swap sender recipient token amount hashlock timelock"
    and ?lock = "Message sender 0 (NewSwapCall recipient token amount hashlock timelock)"
    and ?redeem = "Message who 0 (RedeemCall cid preimage)"
  obtain t where t: "transact dp now ?lock (nested_locks ?lock ?redeem k) s = (Inr (Some cid), t)"
    "swaps t cid = ?sw" "htlc_paid t = htlc_paid s @ replicate k (pays cid ?sw recipient)"
    using nested_locks_run [OF assms(1,3,4) refl refl assms(5)] by blast
  have "pays cid ?sw recipient = \<lparr>pm_contract = cid, pm_to = recipient, pm_token = token, pm_amount = amount\<rparr>"
    by (simp add: pays_def open_swap_def)
  then show ?thesis
    using redeem_runs [OF t(2) assms(2,3)] t(1,3)
    by (auto simp: Let_def payments_def filter_replicate replicate_append_same)
qed

lemma reentrant_lock_forgets_witness:
  "let relock = demo_new (fill 9) 0; payout = demo_redeem_by (fill 8) (fill 9)
   in payments (demo_cid (fill 9)) (transact_all demo_dp [(1, relock, nested_locks relock payout 2), (2, payout, [])] deployed) =
        [] @ replicate (Suc 2) \<lparr>pm_contract = demo_cid (fill 9), pm_to = fill 6, pm_token = fill 9, pm_amount = 10\<rparr>"
proof -
  have terms: "lockable demo_dp 1 (fill 5) (fill 9) 10 (fill 7) 100 (fill 7)"
    "lockable demo_dp 2 (fill 5) (fill 9) 10 (fill 7) 100 (fill 7)"
    "fill 8 \<notin> {0, dp_htlc demo_dp, dp_settlement demo_dp}"
    "demo_cid (fill 9) = computeContractId (dp_keccak demo_dp) (fill 5) (fill 6) (fill 9) 10 (fill 7) 100"
    "sw_sender (swaps deployed (demo_cid (fill 9))) = 0" "payments (demo_cid (fill 9)) deployed = []"
    by (simp_all add: lockable_def demo_dp_def demo_cid_def deployed_def payments_def word_less_nat_alt)
  from reentrant_lock_forgets [OF terms(1-5), of 2] show ?thesis
    unfolding terms(6) demo_new_def demo_redeem_by_def .
qed

end
