(* ===== verification/Kael_Settlement.thy ===== *)
theory Kael_Settlement
  imports Kael_Swap_Life
begin

section \<open>What the Settlement guarantees\<close>

text \<open>
  For every history of transactions and every behaviour of tokens and recipients: a leg is
  settled only by its maker, for its chain, with a valid signature and once per nonce; a leg
  whose swap exists keeps its record, and its funds come back to the recorded maker exactly
  when the swap is refunded; and a native leg is never stuck.
\<close>

subsection \<open>Nonces\<close>

definition nonces_grow :: "chain_state \<Rightarrow> chain_state \<Rightarrow> bool" where
  "nonces_grow s t \<longleftrightarrow> (\<forall>m n. consumedNonce s m n \<longrightarrow> consumedNonce t m n)"

interpretation nonces: chain_frame nonces_grow
  by unfold_locales (simp_all add: nonces_grow_def)

lemma nonces_modify: "(\<And>s. consumedNonce (f s) = consumedNonce s) \<Longrightarrow> leads nonces_grow (modify f)"
  by (simp add: leads_modify nonces_grow_def)

lemma consume_nonce_leads: "leads nonces_grow (consume_nonce order)"
  unfolding consume_nonce_def
  by (intro nonces.leads_rules leads_modify) (simp add: nonces_grow_def)

lemma nonces_payout:
  assumes "keeps nonces_grow (call_out ext)"
  shows "leads nonces_grow (htlc_payout dp ext cid token to amount)"
  unfolding htlc_payout_def
  by (intro nonces.leads_rules nonces_modify nonces.leads_send_eth nonces.leads_token_call assms)
    (simp_all add: nonces_grow_def)

lemma nonces_htlc:
  assumes "keeps nonces_grow (call_out ext)"
  shows "leads nonces_grow (htlc_new_swap dp now ext sender value recipient token amount hashlock timelock)"
    and "leads nonces_grow (htlc_redeem dp now ext cid preimage)"
    and "leads nonces_grow (htlc_refund dp now ext sender cid)"
  unfolding htlc_new_swap_def htlc_redeem_def htlc_refund_def Let_def
  by (intro nonces.leads_rules nonces_modify nonces_payout nonces.leads_token_call assms; simp)+

lemma nonces_lock:
  assumes "list_all (\<lambda>e. keeps nonces_grow (call_out e)) exts"
  shows "leads nonces_grow (receive_and_lock dp now exts value order recipient hashlock timelock cid)"
  unfolding receive_and_lock_def Let_def
  by (intro nonces.leads_rules nonces_modify nonces_htlc nonces.leads_token_call
      ext_at_keeps [OF nonces.frame_axioms assms]) simp_all

lemma nonces_settlement:
  assumes "list_all (\<lambda>e. keeps nonces_grow (call_out e)) exts"
  shows "leads nonces_grow (settle_leg dp now exts sender value order signature recipient hashlock timelock)"
    and "leads nonces_grow (refund_leg dp now exts cid)"
    and "leads nonces_grow (authorize_leg dp order signature nowTs)"
proof -
  note ext = ext_at_keeps [OF nonces.frame_axioms assms]
  show "leads nonces_grow (settle_leg dp now exts sender value order signature recipient hashlock timelock)"
    unfolding settle_leg_def Let_def
    by (intro nonces.leads_rules nonces_modify nonces_lock [OF assms] consume_nonce_leads) simp_all
  show "leads nonces_grow (refund_leg dp now exts cid)"
    unfolding refund_leg_def
    by (intro nonces.leads_rules nonces_modify nonces_htlc nonces.leads_send_eth
        nonces.leads_token_call ext) (simp_all add: nonces_grow_def)
  show "leads nonces_grow (authorize_leg dp order signature nowTs)"
    unfolding authorize_leg_def by (intro nonces.leads_rules nonces_modify consume_nonce_leads) simp_all
qed

interpretation nonces: contract_frame nonces_grow dp now for dp now
proof
  fix exts msg
  assume exts: "list_all (\<lambda>e. keeps nonces_grow (call_out e)) exts"
  obtain sender v c where msg: "msg = Message sender v c" by (cases msg)
  show "leads nonces_grow (dispatch dp now exts msg)"
    unfolding dispatch_def msg
    by (cases c)
      (auto intro!: nonces.leads_rules nonces_settlement nonces_htlc nonces_modify exts
        ext_at_keeps [OF nonces.frame_axioms exts])
qed

lemma history_nonces: "nonces_grow s (transact_all dp txs s)"
  by (rule transact_all_induct [where T = UNIV])
    (auto intro: nonces.frame_refl nonces.frame_trans keepsD [OF nonces.keeps_transact])

lemma consume_nonce_Inr:
  "consume_nonce order s = (Inr u, s') \<longleftrightarrow>
     \<not> consumedNonce s (so_maker order) (so_nonce order) \<and>
     s' = s\<lparr>consumedNonce := (consumedNonce s)(so_maker order :=
        (consumedNonce s (so_maker order))(so_nonce order := True))\<rparr>"
  by (auto simp: consume_nonce_def eff_Inr)

definition order_ok :: "deployment \<Rightarrow> u256 \<Rightarrow> SolOrder \<Rightarrow> u8 list \<Rightarrow> bool" where
  "order_ok dp now order signature \<longleftrightarrow>
     (case order_verify (dp_keccak dp) (dp_ecrecover dp) order signature now of
        Inl _ \<Rightarrow> False | Inr _ \<Rightarrow> True)"

abbreviation leg_id :: "deployment \<Rightarrow> SolOrder \<Rightarrow> address \<Rightarrow> b32 \<Rightarrow> u256 \<Rightarrow> b32" where
  "leg_id dp order recipient hashlock timelock \<equiv>
     computeContractId (dp_keccak dp) (dp_settlement dp) recipient (so_sellToken order)
       (so_sellAmount order) hashlock timelock"

text \<open>The state in which a leg is locked: value received, nonce consumed, leg recorded.\<close>

definition recorded ::
  "u256 \<Rightarrow> SolOrder \<Rightarrow> b32 \<Rightarrow> chain_state \<Rightarrow> chain_state" where
  "recorded v order cid s = s
     \<lparr>settlement_eth := settlement_eth s + unat v,
      consumedNonce := (consumedNonce s)(so_maker order :=
        (consumedNonce s (so_maker order))(so_nonce order := True)),
      legs := (legs s)(cid :=
        \<lparr>sg_maker = so_maker order, sg_token = so_sellToken order,
         sg_amount = so_sellAmount order, sg_refunded = False\<rparr>)\<rparr>"

lemma settle_Inr:
  "settle_leg dp now exts sender v order signature recipient hashlock timelock s = (Inr cid, s') \<longleftrightarrow>
     order_ok dp now order signature \<and> so_sellChainId order = dp_chain_id dp \<and>
     sender = so_maker order \<and> \<not> consumedNonce s (so_maker order) (so_nonce order) \<and>
     cid = leg_id dp order recipient hashlock timelock \<and>
     (\<exists>s2. receive_and_lock dp now exts v order recipient hashlock timelock cid
              (recorded v order cid s) = (Inr (), s2) \<and>
        s' = s2\<lparr>settlement_events := settlement_events s2 @
          [SwapLegSettled cid (so_maker order) recipient hashlock timelock]\<rparr>)"
  unfolding settle_leg_def Let_def eff_Inr guard_Inr consume_nonce_Inr
  by (auto simp: order_ok_def recorded_def split: sum.splits)

lemma authorize_Inr:
  "authorize_leg dp order signature nowTs s = (Inr u, s') \<Longrightarrow>
     \<not> consumedNonce s (so_maker order) (so_nonce order) \<and> consumedNonce s' (so_maker order) (so_nonce order)"
  by (auto simp: authorize_leg_def eff_Inr consume_nonce_Inr)

lemma transact_Inr:
  "transact dp now msg ks s = (Inr r, s') \<longleftrightarrow>
     dispatch dp now (map (respond dp now) ks) msg s = (Inr r, s')"
  by (simp add: transact.simps atomic_Inr)

lemma responders_keep:
  "contract_frame R dp now \<Longrightarrow> list_all (\<lambda>e. keeps R (call_out e)) (map (respond dp now) ks)"
  by (simp add: list_all_iff contract_frame.keeps_all(2))

lemma dispatch_settle_Inr:
  "dispatch dp now exts (Message sender v (SettleLegCall order signature recipient hashlock timelock)) s =
     (Inr r, s') \<longleftrightarrow>
     sender \<notin> {0, dp_htlc dp, dp_settlement dp} \<and>
     (\<exists>cid. settle_leg dp now exts sender v order signature recipient hashlock timelock s = (Inr cid, s') \<and>
        r = Some cid)"
  by (auto simp: dispatch_def eff_Inr)

text \<open>
  C18. Who can settle a leg, and how often. If a \<open>settleLeg\<close> transaction succeeds, the order's
  signature verified at that time, the order is for this chain, and its maker sent the
  transaction; and after any further history no \<open>settleLeg\<close> or \<open>authorizeLeg\<close> succeeds for the
  same maker and nonce, whoever sends it, with whatever order, signature or terms.
\<close>

theorem leg_settled_once:
  assumes "transact dp now (Message sender v (SettleLegCall order signature recipient hashlock timelock)) ks s =
      (Inr r, s')"
    and "so_maker order' = so_maker order" and "so_nonce order' = so_nonce order"
  shows "order_ok dp now order signature \<and> so_sellChainId order = dp_chain_id dp \<and>
    so_maker order = sender \<and>
    (\<exists>e. fst (transact dp now' (Message sender' v' (SettleLegCall order' signature' recipient' hashlock' timelock'))
       ks' (transact_all dp txs s')) = Inl e) \<and>
    (\<exists>e. fst (transact dp now' (Message sender' v' (AuthorizeLegCall order' signature' nowTs))
       ks' (transact_all dp txs s')) = Inl e)"
proof -
  from assms(1) obtain s2 where ok: "order_ok dp now order signature" "so_sellChainId order = dp_chain_id dp"
      "so_maker order = sender"
    and lock: "receive_and_lock dp now (map (respond dp now) ks) v order recipient hashlock timelock
      (leg_id dp order recipient hashlock timelock)
      (recorded v order (leg_id dp order recipient hashlock timelock) s) = (Inr (), s2)"
    and s': "consumedNonce s' = consumedNonce s2"
    by (auto simp: transact_Inr dispatch_settle_Inr settle_Inr)
  have "nonces_grow (recorded v order (leg_id dp order recipient hashlock timelock) s) s2"
    by (rule leadsD [OF nonces_lock lock]) (rule responders_keep, unfold_locales)
  then have "consumedNonce s' (so_maker order) (so_nonce order)"
    by (simp add: nonces_grow_def recorded_def s')
  then have used: "consumedNonce (transact_all dp txs s') (so_maker order') (so_nonce order')"
    using history_nonces [of s' dp txs] assms(2,3) by (simp add: nonces_grow_def)
  have fails: "\<exists>e. fst (transact dp now' m ks' t) = Inl e"
    if "\<And>r' t'. transact dp now' m ks' t = (Inr r', t') \<Longrightarrow> False" for m t
    using that by (metis prod.collapse sum.exhaust)
  show ?thesis
    using ok used
    by (intro conjI fails)
      (auto simp: transact_Inr dispatch_settle_Inr settle_Inr dispatch_def eff_Inr dest: authorize_Inr)
qed

subsection \<open>The life of a leg\<close>

definition leg_payments :: "b32 \<Rightarrow> chain_state \<Rightarrow> payment list" where
  "leg_payments cid s = filter (\<lambda>p. pm_contract p = cid) (settlement_paid s)"

definition leg_kept :: "deployment \<Rightarrow> chain_state \<Rightarrow> chain_state \<Rightarrow> b32 \<Rightarrow> bool" where
  "leg_kept dp s t cid \<longleftrightarrow>
     legs t cid = legs s cid \<and> leg_payments cid t = leg_payments cid s \<and>
     (sw_sender (swaps s cid) = dp_settlement dp \<longrightarrow>
        sw_refunded (swaps t cid) = sw_refunded (swaps s cid))"

definition leg_refunded :: "deployment \<Rightarrow> u256 set \<Rightarrow> chain_state \<Rightarrow> chain_state \<Rightarrow> b32 \<Rightarrow> bool" where
  "leg_refunded dp T s t cid \<longleftrightarrow>
     (let leg = legs s cid in
      sw_sender (swaps s cid) = dp_settlement dp \<and> swap_refunded T s t cid \<and>
      sg_maker leg \<noteq> 0 \<and> \<not> sg_refunded leg \<and> legs t cid = leg\<lparr>sg_refunded := True\<rparr> \<and>
      leg_payments cid t = leg_payments cid s @
        [\<lparr>pm_contract = cid, pm_to = sg_maker leg, pm_token = sg_token leg,
          pm_amount = sg_amount leg\<rparr>])"

definition leg_life :: "deployment \<Rightarrow> u256 set \<Rightarrow> chain_state \<Rightarrow> chain_state \<Rightarrow> bool" where
  "leg_life dp T s t \<longleftrightarrow>
     evolves dp T s t \<and>
     (\<forall>cid. sw_sender (swaps s cid) \<noteq> 0 \<longrightarrow> leg_kept dp s t cid \<or> leg_refunded dp T s t cid)"

lemma leg_lifeD:
  "leg_life dp T s t \<Longrightarrow> sw_sender (swaps s cid) \<noteq> 0 \<Longrightarrow>
     leg_kept dp s t cid \<or> leg_refunded dp T s t cid"
  by (simp add: leg_life_def)

lemma swap_exists_later:
  "evolves dp T s t \<Longrightarrow> sw_sender (swaps s cid) \<noteq> 0 \<Longrightarrow> sw_sender (swaps t cid) = sw_sender (swaps s cid)"
  using evolvesD [of dp T s t cid] by (auto simp: life_defs Let_def)

lemma leg_trans:
  assumes ev: "evolves dp T s t" "evolves dp T t u" and e: "sw_sender (swaps s cid) \<noteq> 0"
    and st: "leg_kept dp s t cid \<or> leg_refunded dp T s t cid"
    and tu: "leg_kept dp t u cid \<or> leg_refunded dp T t u cid"
  shows "leg_kept dp s u cid \<or> leg_refunded dp T s u cid"
proof -
  note e' = swap_exists_later [OF ev(1) e]
  from st show ?thesis
  proof
    assume kept: "leg_kept dp s t cid"
    from tu show ?thesis
    proof
      assume "leg_kept dp t u cid"
      with kept e' show ?thesis by (simp add: leg_kept_def)
    next
      assume r: "leg_refunded dp T t u cid"
      then have "live (swaps t cid)" by (simp add: leg_refunded_def swap_refunded_def Let_def)
      with evolvesD [OF ev(1) e] have "swap_kept s t cid"
        by (auto simp: swap_redeemed_def swap_refunded_def Let_def)
      with kept r e' show ?thesis
        by (auto simp: leg_kept_def leg_refunded_def swap_kept_def swap_refunded_def Let_def)
    qed
  next
    assume r: "leg_refunded dp T s t cid"
    then have dead: "\<not> live (swaps t cid)" "sg_refunded (legs t cid)"
      by (auto simp: leg_refunded_def swap_refunded_def Let_def)
    then have "swap_kept t u cid" using settled_kept [OF ev(2)] e e' by simp
    moreover have "leg_kept dp t u cid" using tu dead by (auto simp: leg_refunded_def Let_def)
    ultimately show ?thesis
      using r by (auto simp: leg_kept_def leg_refunded_def swap_kept_def swap_refunded_def Let_def)
  qed
qed

lemma leg_life_trans:
  assumes "leg_life dp T s t" and "leg_life dp T t u"
  shows "leg_life dp T s u"
proof -
  have ev: "evolves dp T s t" "evolves dp T t u" using assms by (simp_all add: leg_life_def)
  show ?thesis
    unfolding leg_life_def
    using evolves_trans [OF ev] leg_trans [OF ev] leg_lifeD [OF assms(1)] leg_lifeD [OF assms(2)]
      swap_exists_later [OF ev(1)]
    by metis
qed

lemma leg_life_refl: "leg_life dp T s s"
  by (simp add: leg_life_def evolves_refl leg_kept_def)

interpretation leg: chain_frame "leg_life dp T" for dp T
  by unfold_locales (auto intro: leg_life_refl leg_life_trans)

lemma leg_life_evolves: "keeps (leg_life dp T) m \<Longrightarrow> keeps (evolves dp T) m"
  by (simp add: keeps_def leg_life_def)

text \<open>A change of the rest of the state, and of swaps and legs that do not exist yet.\<close>

lemma leg_life_new:
  assumes "set (htlc_events s) \<subseteq> set (htlc_events t)" and "htlc_paid t = htlc_paid s"
    and "settlement_paid t = settlement_paid s"
    and "\<And>c. sw_sender (swaps s c) \<noteq> 0 \<Longrightarrow> swaps t c = swaps s c \<and> legs t c = legs s c"
  shows "leg_life dp T s t"
  using assms
  by (auto simp: leg_life_def evolves_def swap_kept_def leg_kept_def payments_def leg_payments_def)

lemma leg_modify:
  "(\<And>s. swaps (f s) = swaps s \<and> legs (f s) = legs s \<and> htlc_events (f s) = htlc_events s \<and>
     htlc_paid (f s) = htlc_paid s \<and> settlement_paid (f s) = settlement_paid s) \<Longrightarrow>
     leads (leg_life dp T) (modify f)"
  by (intro leads_modify leg_life_new) simp_all

lemma leg_new_swap:
  assumes "keeps (leg_life dp T) (call_out ext)"
  shows "leads (leg_life dp T)
    (htlc_new_swap dp now ext sender value recipient token amount hashlock timelock)"
proof (rule leadsI)
  fix s cid s'
  assume "htlc_new_swap dp now ext sender value recipient token amount hashlock timelock s = (Inr cid, s')"
  then obtain s2 sw ev where fresh: "sw_sender (swaps s cid) = 0"
    and s2: "if token = 0 then s2 = s\<lparr>htlc_eth := htlc_eth s + unat value\<rparr>
             else safe_token_call dp ext token H_TokenTransferFailed s = (Inr (), s2)"
    and s': "s' = s2\<lparr>swaps := (swaps s2)(cid := sw), htlc_events := htlc_events s2 @ [ev]\<rparr>"
    by (auto simp: new_swap_Inr split: if_splits)
  have "leg_life dp T s s2"
    using s2 leadsD [OF leg.leads_token_call [OF assms]]
    by (auto intro: leg_life_new split: if_splits)
  then show "leg_life dp T s s'"
    using fresh
    by (auto simp: leg_life_def evolves_def life_defs leg_kept_def leg_refunded_def Let_def s'
        payments_def leg_payments_def)
qed

lemma settle_leg_life:
  assumes ext: "keeps (leg_life dp T) (call_out ext)"
    and sw: "live (swaps s cid)" "\<not> live sw'" "sw_sender sw' \<noteq> 0"
    and pay: "htlc_payout dp ext cid (sw_token (swaps s cid)) to (sw_amount (swaps s cid))
      (s\<lparr>swaps := (swaps s)(cid := sw')\<rparr>) = (Inr (), s2)"
  shows "(\<forall>c. c \<noteq> cid \<longrightarrow> sw_sender (swaps s c) \<noteq> 0 \<longrightarrow>
       leg_kept dp s s2 c \<or> leg_refunded dp T s s2 c) \<and>
    legs s2 cid = legs s cid \<and> leg_payments cid s2 = leg_payments cid s"
proof -
  let ?s1 = "paid_state cid (sw_token (swaps s cid)) to (sw_amount (swaps s cid))
      (s\<lparr>swaps := (swaps s)(cid := sw')\<rparr>)"
  have s1: "swaps ?s1 = (swaps s)(cid := sw')" "legs ?s1 = legs s"
    "\<And>c. leg_payments c ?s1 = leg_payments c s" "\<And>c. c \<noteq> cid \<Longrightarrow> payments c ?s1 = payments c s"
    by (auto simp: paid_state_def payments_def leg_payments_def)
  have life: "leg_life dp T ?s1 s2"
    by (rule leg.payout_R [OF ext _ pay]) (auto intro: leg_life_new)
  have "leg_kept dp ?s1 s2 cid"
    using leg_lifeD [OF life, of cid] sw(2,3) s1(1)
    by (auto simp: leg_refunded_def swap_refunded_def Let_def)
  moreover have "leg_kept dp s s2 c \<or> leg_refunded dp T s s2 c"
    if "c \<noteq> cid" "sw_sender (swaps s c) \<noteq> 0" for c
    using leg_lifeD [OF life, of c] that s1(1-3) s1(4) [OF that(1)]
    by (simp add: leg_kept_def leg_refunded_def swap_refunded_def)
  ultimately show ?thesis using s1 by (simp add: leg_kept_def)
qed

lemma leg_life_events:
  "leg_life dp T s (t\<lparr>htlc_events := htlc_events t @ [ev]\<rparr>) \<longleftrightarrow>
     evolves dp T s (t\<lparr>htlc_events := htlc_events t @ [ev]\<rparr>) \<and>
     (\<forall>cid. sw_sender (swaps s cid) \<noteq> 0 \<longrightarrow> leg_kept dp s t cid \<or> leg_refunded dp T s t cid)"
  by (simp add: leg_life_def leg_kept_def leg_refunded_def swap_refunded_def payments_def
      leg_payments_def)

lemma leg_redeem:
  assumes "keeps (leg_life dp T) (call_out ext)" and "now \<in> T"
  shows "leads (leg_life dp T) (htlc_redeem dp now ext cid preimage)"
proof (rule leadsI)
  fix s u s'
  assume run: "htlc_redeem dp now ext cid preimage s = (Inr u, s')"
  then obtain s2 where pay: "live (swaps s cid)"
    "htlc_payout dp ext cid (sw_token (swaps s cid)) (sw_recipient (swaps s cid)) (sw_amount (swaps s cid))
      (s\<lparr>swaps := (swaps s)(cid := (swaps s cid)\<lparr>sw_withdrawn := True\<rparr>)\<rparr>) = (Inr (), s2)"
    "s' = s2\<lparr>htlc_events := htlc_events s2 @ [LogRedeem cid preimage]\<rparr>"
    by (auto simp: redeem_Inr Let_def)
  have e: "sw_sender (swaps s cid) \<noteq> 0" using pay(1) by (simp add: live_def)
  have ev: "evolves dp T s s'"
    using leadsD [OF redeem_evolves [OF leg_life_evolves [OF assms(1)] assms(2)] run] .
  note all = settle_leg_life [OF assms(1) pay(1) _ _ pay(2), simplified, OF e]
  have "swaps s2 cid = (swaps s cid)\<lparr>sw_withdrawn := True\<rparr>"
    using settle_evolves [OF leg_life_evolves [OF assms(1)] pay(1) _ _ pay(2)] e by simp
  then have "leg_kept dp s s2 cid" using all by (simp add: leg_kept_def)
  with all ev show "leg_life dp T s s'" unfolding pay(3) leg_life_events by metis
qed

lemma leg_refund_outside:
  assumes "keeps (leg_life dp T) (call_out ext)" and "now \<in> T" and "sender \<noteq> dp_settlement dp"
  shows "leads (leg_life dp T) (htlc_refund dp now ext sender cid)"
proof (rule leadsI)
  fix s u s'
  assume run: "htlc_refund dp now ext sender cid s = (Inr u, s')"
  then obtain s2 where pay: "live (swaps s cid)" "sender = sw_sender (swaps s cid)"
    "htlc_payout dp ext cid (sw_token (swaps s cid)) (sw_sender (swaps s cid)) (sw_amount (swaps s cid))
      (s\<lparr>swaps := (swaps s)(cid := (swaps s cid)\<lparr>sw_refunded := True\<rparr>)\<rparr>) = (Inr (), s2)"
    "s' = s2\<lparr>htlc_events := htlc_events s2 @ [LogRefund cid]\<rparr>"
    by (auto simp: refund_Inr Let_def)
  have e: "sw_sender (swaps s cid) \<noteq> 0" using pay(1) by (simp add: live_def)
  have ev: "evolves dp T s s'"
    using leadsD [OF refund_evolves [OF leg_life_evolves [OF assms(1)] assms(2)] run] .
  note all = settle_leg_life [OF assms(1) pay(1) _ _ pay(3), simplified, OF e]
  then have "leg_kept dp s s2 cid" using assms(3) pay(2) by (simp add: leg_kept_def)
  with all ev show "leg_life dp T s s'" unfolding pay(4) leg_life_events by metis
qed

text \<open>How a refund of a leg succeeds: mark, refund the swap, forward to the maker.\<close>

definition forward ::
  "deployment \<Rightarrow> outside_call \<Rightarrow> SettlementLeg \<Rightarrow> unit sol" where
  "forward dp ext leg =
     (if sg_token leg = 0 then
        bindE (gets settlement_eth) (\<lambda>funds.
        thenE (guard (unat (sg_amount leg) \<le> funds) S_EthTransferFailed)
       (thenE (modify (\<lambda>s. s\<lparr>settlement_eth := settlement_eth s - unat (sg_amount leg)\<rparr>))
        (send_eth dp ext (sg_maker leg) (sg_amount leg) S_EthTransferFailed)))
      else safe_token_call dp ext (sg_token leg) S_TokenTransferFailed)"

definition leg_payment :: "b32 \<Rightarrow> SettlementLeg \<Rightarrow> payment" where
  "leg_payment cid leg =
     \<lparr>pm_contract = cid, pm_to = sg_maker leg, pm_token = sg_token leg, pm_amount = sg_amount leg\<rparr>"

lemma refund_leg_Inr:
  "refund_leg dp now exts cid s = (Inr u, s') \<longleftrightarrow>
     sg_maker (legs s cid) \<noteq> 0 \<and> \<not> sg_refunded (legs s cid) \<and>
     (\<exists>s2 s3. htlc_refund dp now (ext_at exts 0) (dp_settlement dp) cid
          (s\<lparr>legs := (legs s)(cid := (legs s cid)\<lparr>sg_refunded := True\<rparr>)\<rparr>) = (Inr (), s2) \<and>
        forward dp (ext_at exts 1) (legs s cid)
          (s2\<lparr>settlement_paid := settlement_paid s2 @ [leg_payment cid (legs s cid)]\<rparr>) = (Inr (), s3) \<and>
        s' = s3\<lparr>settlement_events := settlement_events s3 @
          [LegRefunded cid (sg_maker (legs s cid)) (sg_amount (legs s cid))]\<rparr>)"
  unfolding refund_leg_def forward_def [symmetric] leg_payment_def [symmetric] eff_Inr guard_Inr
  by auto

lemma forward_leads:
  assumes "keeps (leg_life dp T) (call_out ext)"
  shows "leads (leg_life dp T) (forward dp ext leg)"
  unfolding forward_def
  by (intro leg.leads_rules leg_modify leg.leads_send_eth leg.leads_token_call assms)
    (auto intro: leg_life_new)

lemma refunded_differs:
  "\<not> sw_refunded sw \<Longrightarrow> sw\<lparr>sw_refunded := True\<rparr> \<noteq> sw"
  "\<not> sw_refunded sw \<Longrightarrow> sw\<lparr>sw_refunded := True\<rparr> \<noteq> sw\<lparr>sw_withdrawn := True\<rparr>"
  by (cases sw; simp)+

lemma leg_refund_leg:
  assumes exts: "list_all (\<lambda>e. keeps (leg_life dp T) (call_out e)) exts" and "now \<in> T"
  shows "leads (leg_life dp T) (refund_leg dp now exts cid)"
proof (rule leadsI)
  fix s u s'
  note ext = ext_at_keeps [OF leg.frame_axioms exts]
  assume "refund_leg dp now exts cid s = (Inr u, s')"
  then obtain s2 s3 where leg: "sg_maker (legs s cid) \<noteq> 0" "\<not> sg_refunded (legs s cid)"
    and refund: "htlc_refund dp now (ext_at exts 0) (dp_settlement dp) cid
        (s\<lparr>legs := (legs s)(cid := (legs s cid)\<lparr>sg_refunded := True\<rparr>)\<rparr>) = (Inr (), s2)"
    and fwd: "forward dp (ext_at exts 1) (legs s cid)
        (s2\<lparr>settlement_paid := settlement_paid s2 @ [leg_payment cid (legs s cid)]\<rparr>) = (Inr (), s3)"
    and s': "s' = s3\<lparr>settlement_events := settlement_events s3 @
        [LegRefunded cid (sg_maker (legs s cid)) (sg_amount (legs s cid))]\<rparr>"
    unfolding refund_leg_Inr by auto
  let ?s1 = "s\<lparr>legs := (legs s)(cid := (legs s cid)\<lparr>sg_refunded := True\<rparr>)\<rparr>"
    and ?s2 = "s2\<lparr>settlement_paid := settlement_paid s2 @ [leg_payment cid (legs s cid)]\<rparr>"
  from refund obtain sp where pay: "live (swaps s cid)" "dp_settlement dp = sw_sender (swaps s cid)"
    "htlc_payout dp (ext_at exts 0) cid (sw_token (swaps ?s1 cid)) (sw_sender (swaps s cid))
      (sw_amount (swaps ?s1 cid)) (?s1\<lparr>swaps := (swaps ?s1)(cid := (swaps s cid)\<lparr>sw_refunded := True\<rparr>)\<rparr>) =
      (Inr (), sp)"
    "s2 = sp\<lparr>htlc_events := htlc_events sp @ [LogRefund cid]\<rparr>"
    by (auto simp: refund_Inr Let_def)
  have e: "sw_sender (swaps s cid) \<noteq> 0" using pay(1) by (simp add: live_def)
  have ev1: "evolves dp T ?s1 s2"
    using leadsD [OF refund_evolves [OF leg_life_evolves [OF ext] assms(2)] refund] .
  have swaps2: "swaps s2 cid = (swaps s cid)\<lparr>sw_refunded := True\<rparr>"
    using settle_evolves [OF leg_life_evolves [OF ext] _ _ _ pay(3)] pay(1) e by (simp add: pay(4))
  have life1: "(\<forall>c. c \<noteq> cid \<longrightarrow> sw_sender (swaps s c) \<noteq> 0 \<longrightarrow>
       leg_kept dp ?s1 sp c \<or> leg_refunded dp T ?s1 sp c) \<and>
    legs sp cid = legs ?s1 cid \<and> leg_payments cid sp = leg_payments cid s"
    using settle_leg_life [OF ext _ _ _ pay(3)] pay(1) e by (simp add: leg_payments_def)
  have life2: "leg_life dp T ?s2 s3" by (rule leadsD [OF forward_leads [OF ext] fwd])
  have ev2: "evolves dp T s2 s3"
    using life2 by (simp add: leg_life_def evolves_def life_defs payments_def)
  have ev: "evolves dp T s s2"
    using ev1 by (simp add: evolves_def life_defs payments_def)
  have at_cid: "leg_refunded dp T s s3 cid"
  proof -
    have r: "swap_refunded T s s2 cid"
      using evolvesD [OF ev e] pay(1) swaps2 refunded_differs [of "swaps s cid"]
      by (auto simp: life_defs Let_def live_def)
    have "leg_kept dp ?s2 s3 cid" "swap_kept s2 s3 cid"
      using leg_lifeD [OF life2, of cid] settled_kept [OF ev2, of cid] swaps2 e
      by (auto simp: leg_refunded_def swap_refunded_def Let_def)
    then show ?thesis
      using r leg pay(2) life1
      by (simp add: leg_refunded_def leg_kept_def swap_refunded_def swap_kept_def Let_def
          leg_payments_def leg_payment_def pay(4))
  qed
  have others: "leg_kept dp s s3 c \<or> leg_refunded dp T s s3 c"
    if c: "c \<noteq> cid" "sw_sender (swaps s c) \<noteq> 0" for c
  proof (rule leg_trans [OF ev ev2 c(2)])
    show "leg_kept dp s s2 c \<or> leg_refunded dp T s s2 c"
      using life1 c by (auto simp: leg_kept_def leg_refunded_def swap_refunded_def Let_def
          payments_def leg_payments_def pay(4))
    show "leg_kept dp s2 s3 c \<or> leg_refunded dp T s2 s3 c"
      using leg_lifeD [OF life2, of c] swap_exists_later [OF ev c(2)] c
      by (auto simp: leg_kept_def leg_refunded_def swap_refunded_def Let_def payments_def
          leg_payments_def leg_payment_def)
  qed
  have "leg_life dp T s s3"
    unfolding leg_life_def using evolves_trans [OF ev ev2] at_cid others by metis
  then show "leg_life dp T s s'"
    using leg_life_trans [OF _ leg_life_new [of s3 s']] by (simp add: s')
qed

text \<open>Locking creates the swap of the contract id, after the calls to the token.\<close>

lemma receive_and_lock_Inr:
  assumes "receive_and_lock dp now exts v order recipient hashlock timelock cid r = (Inr (), s')"
    and "list_all (\<lambda>e. keeps (leg_life dp T) (call_out e)) exts"
  shows "\<exists>ext r2 val. leg_life dp T r r2 \<and> keeps (leg_life dp T) (call_out ext) \<and>
    htlc_new_swap dp now ext (dp_settlement dp) val recipient (so_sellToken order)
      (so_sellAmount order) hashlock timelock r2 = (Inr cid, s')"
proof -
  note ext = ext_at_keeps [OF leg.frame_axioms assms(2)]
  note token = leadsD [OF leg.leads_token_call [OF ext]]
  show ?thesis
  proof (cases "so_sellToken order = 0")
    case True
    let ?r2 = "r\<lparr>settlement_eth := settlement_eth r - unat (so_sellAmount order)\<rparr>"
    have "leg_life dp T r ?r2" by (rule leg_life_new) simp_all
    moreover have "htlc_new_swap dp now (ext_at exts 0) (dp_settlement dp) (so_sellAmount order) recipient
        (so_sellToken order) (so_sellAmount order) hashlock timelock ?r2 = (Inr cid, s')"
      using assms(1) True by (auto simp: receive_and_lock_def Let_def eff_Inr)
    ultimately show ?thesis using ext by blast
  next
    case False
    with assms(1) obtain r1 r2 where
      "safe_token_call dp (ext_at exts 0) (so_sellToken order) S_TokenTransferFailed r = (Inr (), r1)"
      "safe_token_call dp (ext_at exts 1) (so_sellToken order) S_TokenApproveFailed r1 = (Inr (), r2)"
      and lock: "htlc_new_swap dp now (ext_at exts 2) (dp_settlement dp) 0 recipient
        (so_sellToken order) (so_sellAmount order) hashlock timelock r2 = (Inr cid, s')"
      by (auto simp: receive_and_lock_def Let_def eff_Inr)
    then have "leg_life dp T r r2" using token leg_life_trans by blast
    with lock ext show ?thesis by blast
  qed
qed

lemma leg_settle_leg:
  assumes exts: "list_all (\<lambda>e. keeps (leg_life dp T) (call_out e)) exts"
  shows "leads (leg_life dp T)
    (settle_leg dp now exts sender v order signature recipient hashlock timelock)"
proof (rule leadsI)
  fix s cid s'
  assume "settle_leg dp now exts sender v order signature recipient hashlock timelock s = (Inr cid, s')"
  then obtain s2 where
    lock: "receive_and_lock dp now exts v order recipient hashlock timelock cid (recorded v order cid s) = (Inr (), s2)"
    and s': "s' = s2\<lparr>settlement_events := settlement_events s2 @
          [SwapLegSettled cid (so_maker order) recipient hashlock timelock]\<rparr>"
    by (auto simp: settle_Inr)
  from receive_and_lock_Inr [OF lock exts] obtain ext r2 val where
    life: "leg_life dp T (recorded v order cid s) r2" and ext: "keeps (leg_life dp T) (call_out ext)"
    and new: "htlc_new_swap dp now ext (dp_settlement dp) val recipient (so_sellToken order)
      (so_sellAmount order) hashlock timelock r2 = (Inr cid, s2)"
    by blast
  have "sw_sender (swaps r2 cid) = 0" using new by (auto simp: new_swap_Inr)
  then have "sw_sender (swaps s cid) = 0"
    using life swap_exists_later [of dp T "recorded v order cid s" r2 cid]
    by (auto simp: leg_life_def recorded_def)
  then have "leg_life dp T s (recorded v order cid s)"
    by (intro leg_life_new) (auto simp: recorded_def)
  moreover have "leg_life dp T r2 s2" by (rule leadsD [OF leg_new_swap [OF ext] new])
  moreover have "leg_life dp T s2 s'" by (rule leg_life_new) (simp_all add: s')
  ultimately show "leg_life dp T s s'" using life leg_life_trans by blast
qed

interpretation leg: contract_frame "leg_life dp (insert now T)" dp now for dp now T
proof
  fix exts msg
  let ?R = "leg_life dp (insert now T)"
  assume exts: "list_all (\<lambda>e. keeps ?R (call_out e)) exts"
  note ext = ext_at_keeps [OF leg.frame_axioms exts]
  obtain sender v c where msg: "msg = Message sender v c" by (cases msg)
  have refund: "leads ?R (thenE (guard (sender \<notin> {0, dp_htlc dp, dp_settlement dp}) R_NoSuchSender)
      (thenE (guard (v = 0) R_NotPayable)
      (thenE (htlc_refund dp now (ext_at exts 0) sender cid) (ret (None :: b32 option)))))" for cid
  proof (cases "sender = dp_settlement dp")
    case True
    then show ?thesis by (auto simp: leads_def eff_Inr)
  next
    case False
    then show ?thesis by (intro leg.leads_rules leg_refund_outside ext) auto
  qed
  have auth: "leads ?R (authorize_leg dp order signature nowTs)" for order signature nowTs
    unfolding authorize_leg_def consume_nonce_def by (intro leg.leads_rules leg_modify) simp_all
  show "leads ?R (dispatch dp now exts msg)"
  proof (cases "\<exists>cid. c = RefundCall cid")
    case True
    with refund show ?thesis by (auto simp: dispatch_def msg)
  next
    case False
    then show ?thesis
      unfolding dispatch_def msg
      by (cases c)
        (auto intro!: leg.leads_rules leg_modify leg_new_swap leg_redeem leg_settle_leg
          leg_refund_leg auth ext exts)
  qed
qed

lemma history_leg: "leg_life dp (fst ` set txs) s (transact_all dp txs s)"
proof (rule transact_all_induct [OF leg_life_refl leg_life_trans _ order_refl])
  fix now msg ks s
  assume "now \<in> fst ` set txs"
  then show "leg_life dp (fst ` set txs) s (snd (transact dp now msg ks s))"
    using keepsD [OF leg.keeps_transact [where now = now and T = "fst ` set txs" and dp = dp
        and msg = msg and ks = ks], of s]
    by (simp add: insert_absorb)
qed

text \<open>
  C19. A refunded leg goes to its maker. Take a leg whose swap exists with the Settlement as its
  sender, and any history of transactions with any callees. Afterwards either its record is
  unchanged, nothing was paid out for it and its swap was not refunded in between; or its swap
  was refunded, at a time from the timelock on, and exactly the recorded amount of the recorded
  token went to the recorded maker, once. So nobody else can ever receive it, whoever asks for
  the refund.
\<close>

theorem leg_refunds_to_maker:
  assumes "sw_sender (swaps s cid) = dp_settlement dp" and "dp_settlement dp \<noteq> 0"
  shows "let t = transact_all dp txs s in
    legs t cid = legs s cid \<and> leg_payments cid t = leg_payments cid s \<and>
      sw_refunded (swaps t cid) = sw_refunded (swaps s cid) \<or>
    swap_refunded (fst ` set txs) s t cid \<and> legs t cid = (legs s cid)\<lparr>sg_refunded := True\<rparr> \<and>
      leg_payments cid t = leg_payments cid s @ [leg_payment cid (legs s cid)]"
  using leg_lifeD [OF history_leg, of s cid dp txs] assms
  by (auto simp: leg_kept_def leg_refunded_def leg_payment_def Let_def)

end
