(* ===== verification/Kael_Native_Leg.thy ===== *)
theory Kael_Native_Leg
  imports Kael_Settlement
begin

section \<open>A native leg from lock to payout\<close>

text \<open>
  The contracts of one chain together, for a leg in the native coin: when \<open>settleLeg\<close> and
  \<open>refundLeg\<close> succeed and what they leave, and from that the liveness of a locked leg. No call to
  the outside happens while a native leg is locked; a refund calls the maker's account only, and
  the statements here take it to be one that accepts the payment (a plain account does).
\<close>

definition native_swap :: "deployment \<Rightarrow> SolOrder \<Rightarrow> address \<Rightarrow> b32 \<Rightarrow> u256 \<Rightarrow> SolSwap" where
  "native_swap dp order recipient hashlock timelock =
     \<lparr>sw_sender = dp_settlement dp, sw_recipient = recipient, sw_token = 0,
      sw_amount = so_sellAmount order, sw_hashlock = hashlock, sw_timelock = timelock,
      sw_withdrawn = False, sw_refunded = False\<rparr>"

definition native_locked ::
  "deployment \<Rightarrow> SolOrder \<Rightarrow> address \<Rightarrow> b32 \<Rightarrow> u256 \<Rightarrow> chain_state \<Rightarrow> chain_state" where
  "native_locked dp order recipient hashlock timelock s =
     (let cid = leg_id dp order recipient hashlock timelock in
      s\<lparr>swaps := (swaps s)(cid := native_swap dp order recipient hashlock timelock),
        htlc_eth := htlc_eth s + unat (so_sellAmount order),
        htlc_events := htlc_events s @
          [LogNewSwap cid (dp_settlement dp) recipient 0 (so_sellAmount order) hashlock timelock],
        consumedNonce := (consumedNonce s)(so_maker order :=
          (consumedNonce s (so_maker order))(so_nonce order := True)),
        legs := (legs s)(cid :=
          \<lparr>sg_maker = so_maker order, sg_token = 0, sg_amount = so_sellAmount order,
           sg_refunded = False\<rparr>),
        settlement_events := settlement_events s @
          [SwapLegSettled cid (so_maker order) recipient hashlock timelock]\<rparr>)"

lemma settle_native:
  assumes "so_sellToken order = 0"
  shows "settle_leg dp now exts sender v order signature recipient hashlock timelock s = (Inr cid, s') \<longleftrightarrow>
     order_ok dp now order signature \<and> so_sellChainId order = dp_chain_id dp \<and>
     sender = so_maker order \<and> \<not> consumedNonce s (so_maker order) (so_nonce order) \<and>
     v = so_sellAmount order \<and> v \<noteq> 0 \<and> hashlock \<noteq> 0 \<and> now < timelock \<and>
     cid = leg_id dp order recipient hashlock timelock \<and> sw_sender (swaps s cid) = 0 \<and>
     s' = native_locked dp order recipient hashlock timelock s"
proof -
  let ?cid = "leg_id dp order recipient hashlock timelock"
  have lock: "receive_and_lock dp now exts v order recipient hashlock timelock ?cid
        (recorded v order ?cid s) = (Inr (), s2) \<longleftrightarrow>
      v = so_sellAmount order \<and> v \<noteq> 0 \<and> hashlock \<noteq> 0 \<and> now < timelock \<and>
      sw_sender (swaps s ?cid) = 0 \<and>
      s2 = (native_locked dp order recipient hashlock timelock s)\<lparr>settlement_events := settlement_events s\<rparr>" for s2
    using assms
    by (auto simp: receive_and_lock_def Let_def eff_Inr new_swap_Inr recorded_def native_locked_def
        native_swap_def)
  have event: "s' = (native_locked dp order recipient hashlock timelock s)
        \<lparr>settlement_events := settlement_events s\<rparr>
        \<lparr>settlement_events := settlement_events s @
          [SwapLegSettled ?cid (so_maker order) recipient hashlock timelock]\<rparr> \<longleftrightarrow>
      s' = native_locked dp order recipient hashlock timelock s"
    by (simp add: native_locked_def Let_def)
  show ?thesis
    unfolding settle_Inr
    using event by (cases "cid = ?cid") (simp_all add: lock, blast?)
qed

lemma transact_settle_native:
  assumes "so_sellToken order = 0"
  shows "transact dp now (Message sender v (SettleLegCall order signature recipient hashlock timelock)) ks s =
      (Inr r, s') \<longleftrightarrow>
     sender \<notin> {0, dp_htlc dp, dp_settlement dp} \<and>
     order_ok dp now order signature \<and> so_sellChainId order = dp_chain_id dp \<and>
     sender = so_maker order \<and> \<not> consumedNonce s (so_maker order) (so_nonce order) \<and>
     v = so_sellAmount order \<and> v \<noteq> 0 \<and> hashlock \<noteq> 0 \<and> now < timelock \<and>
     r = Some (leg_id dp order recipient hashlock timelock) \<and>
     sw_sender (swaps s (leg_id dp order recipient hashlock timelock)) = 0 \<and>
     s' = native_locked dp order recipient hashlock timelock s"
  unfolding transact_Inr dispatch_settle_Inr settle_native [OF assms] by auto

subsection \<open>The refund of a native leg\<close>

text \<open>A native leg whose swap is open, with the funds that back it.\<close>

definition open_native_leg :: "deployment \<Rightarrow> b32 \<Rightarrow> chain_state \<Rightarrow> bool" where
  "open_native_leg dp cid s \<longleftrightarrow>
     live (swaps s cid) \<and> sw_sender (swaps s cid) = dp_settlement dp \<and> sw_token (swaps s cid) = 0 \<and>
     sg_maker (legs s cid) \<notin> {0, dp_htlc dp, dp_settlement dp} \<and> \<not> sg_refunded (legs s cid) \<and>
     sg_token (legs s cid) = 0 \<and> sg_amount (legs s cid) = sw_amount (swaps s cid)"

lemma covers_open_swap:
  assumes "covers 0 s" and "live (swaps s cid)" and "sw_token (swaps s cid) = 0"
  shows "unat (sw_amount (swaps s cid)) \<le> htlc_eth s"
proof (cases "sw_amount (swaps s cid) = 0")
  case False
  then have "cid \<in> open_swaps s" using assms(2,3) by (simp add: open_swaps_def owed_for_def unat_gt_0)
  then have "owed_for (swaps s cid) \<le> owed s"
    unfolding owed_def using assms(1) by (intro member_le_sum) (simp_all add: covers_def)
  then show ?thesis using assms by (simp add: owed_for_def covers_def)
qed simp

lemma refund_native:
  assumes leg: "open_native_leg dp cid s" and "covers 0 s" and "sw_timelock (swaps s cid) \<le> now"
    and "who \<notin> {0, dp_htlc dp, dp_settlement dp}"
  shows "\<exists>s'. transact dp now (Message who 0 (RefundLegCall cid)) [] s = (Inr None, s') \<and>
    leg_payments cid s' = leg_payments cid s @ [leg_payment cid (legs s cid)]"
proof -
  let ?leg = "legs s cid" and ?sw = "swaps s cid"
  let ?r = "paid_state cid 0 (dp_settlement dp) (sw_amount ?sw)
      (s\<lparr>legs := (legs s)(cid := ?leg\<lparr>sg_refunded := True\<rparr>),
         swaps := (swaps s)(cid := ?sw\<lparr>sw_refunded := True\<rparr>)\<rparr>)"
  let ?r2 = "?r\<lparr>settlement_eth := settlement_eth s + unat (sw_amount ?sw),
      htlc_events := htlc_events s @ [LogRefund cid]\<rparr>"
  let ?r3 = "?r2\<lparr>settlement_paid := settlement_paid s @ [leg_payment cid ?leg],
      settlement_eth := settlement_eth s\<rparr>"
  have funds: "unat (sw_amount ?sw) \<le> htlc_eth s"
    using leg by (intro covers_open_swap [OF assms(2)]) (simp_all add: open_native_leg_def)
  have "htlc_refund dp now (ext_at [] 0) (dp_settlement dp) cid
      (s\<lparr>legs := (legs s)(cid := ?leg\<lparr>sg_refunded := True\<rparr>)\<rparr>) = (Inr (), ?r2)"
    unfolding refund_Inr using leg funds assms(3)
    by (simp add: open_native_leg_def Let_def payout_Inr send_eth_def paid_state_def eff_Inr)
  moreover have "forward dp (ext_at [] 1) ?leg
      (?r2\<lparr>settlement_paid := settlement_paid ?r2 @ [leg_payment cid ?leg]\<rparr>) = (Inr (), ?r3)"
    using leg by (simp add: forward_def open_native_leg_def eff_Inr guard_Inr send_eth_def call_out_def
        ext_at_def paid_state_def)
  ultimately have "refund_leg dp now [] cid s = (Inr (), ?r3
      \<lparr>settlement_events := settlement_events ?r3 @ [LegRefunded cid (sg_maker ?leg) (sg_amount ?leg)]\<rparr>)"
    unfolding refund_leg_Inr using leg by (auto simp: open_native_leg_def)
  then have "transact dp now (Message who 0 (RefundLegCall cid)) [] s = (Inr None, ?r3
      \<lparr>settlement_events := settlement_events ?r3 @ [LegRefunded cid (sg_maker ?leg) (sg_amount ?leg)]\<rparr>)"
    using assms(4) by (auto simp: transact_Inr dispatch_def eff_Inr)
  moreover have "leg_payments cid (?r3\<lparr>settlement_events := ev\<rparr>) =
      leg_payments cid s @ [leg_payment cid ?leg]" for ev
    by (simp add: leg_payments_def leg_payment_def)
  ultimately show ?thesis by blast
qed

subsection \<open>Liveness\<close>

definition to_maker :: "SolOrder \<Rightarrow> b32 \<Rightarrow> payment" where
  "to_maker order cid =
     \<lparr>pm_contract = cid, pm_to = so_maker order, pm_token = 0, pm_amount = so_sellAmount order\<rparr>"

text \<open>
  C12. A locked native leg is never stuck. After a successful native \<open>settleLeg\<close>, in any reachable
  state and with any history in between, one of three holds: the swap has been redeemed, its
  amount paid to the recipient, and the chain shows a preimage of the hashlock, with which the
  maker can redeem the opposite leg; the amount has been paid back to the maker; or, at any time
  from the timelock on, anyone at all can have it paid back to the maker by \<open>refundLeg\<close>.
\<close>

theorem locked_leg_never_stuck:
  assumes "transact dp now (Message sender v (SettleLegCall order signature recipient hashlock timelock)) ks
      (transact_all dp before deployed) = (Inr (Some cid), s)"
    and "so_sellToken order = 0" and "dp_settlement dp \<noteq> 0"
    and "timelock \<le> later" and "who \<notin> {0, dp_htlc dp, dp_settlement dp}"
  shows "let t = transact_all dp between s in
    payments cid t = payments cid s @
        [\<lparr>pm_contract = cid, pm_to = recipient, pm_token = 0, pm_amount = so_sellAmount order\<rparr>] \<and>
      (\<exists>p. dp_sha256 dp (bytes_of p) = hashlock \<and> LogRedeem cid p \<in> set (htlc_events t)) \<or>
    leg_payments cid t = leg_payments cid s @ [to_maker order cid] \<or>
    (\<exists>t'. transact dp later (Message who 0 (RefundLegCall cid)) [] t = (Inr None, t') \<and>
       leg_payments cid t' = leg_payments cid s @ [to_maker order cid])"
proof -
  let ?t = "transact_all dp between s" and ?T = "fst ` set between"
  from assms(1) have maker: "so_maker order \<notin> {0, dp_htlc dp, dp_settlement dp}"
    and s: "s = native_locked dp order recipient hashlock timelock (transact_all dp before deployed)"
    and cid: "cid = leg_id dp order recipient hashlock timelock"
    unfolding transact_settle_native [OF assms(2)] by auto
  then have sw: "swaps s cid = native_swap dp order recipient hashlock timelock"
    and leg: "legs s cid = \<lparr>sg_maker = so_maker order, sg_token = 0, sg_amount = so_sellAmount order,
      sg_refunded = False\<rparr>"
    by (simp_all add: native_locked_def Let_def)
  have e: "sw_sender (swaps s cid) \<noteq> 0" using sw assms(3) by (simp add: native_swap_def)
  from leg_lifeD [OF history_leg e, of dp between]
  consider "leg_kept dp s ?t cid" | "leg_refunded dp ?T s ?t cid" by blast
  then show ?thesis
  proof cases
    case 2
    then show ?thesis by (simp add: leg_refunded_def leg to_maker_def Let_def)
  next
    case kept: 1
    then have leg_t: "legs ?t cid = legs s cid" "leg_payments cid ?t = leg_payments cid s"
      "\<not> sw_refunded (swaps ?t cid)"
      by (simp_all add: leg_kept_def sw native_swap_def)
    from evolvesD [OF history_evolves e, of dp between] leg_t(3)
    consider "swap_kept s ?t cid" | "swap_redeemed dp ?T s ?t cid"
      by (auto simp: swap_refunded_def Let_def)
    then show ?thesis
    proof cases
      case 2
      then show ?thesis by (auto simp: swap_redeemed_def sw native_swap_def pays_def Let_def)
    next
      case 1
      then have sw_t: "swaps ?t cid = swaps s cid" by (simp add: swap_kept_def)
      have "covers 0 s"
      proof -
        have "keeps_surplus (transact_all dp before deployed) (snd (transact dp now
            (Message sender v (SettleLegCall order signature recipient hashlock timelock)) ks
            (transact_all dp before deployed)))"
          by (rule keepsD [OF surplus.keeps_transact])
        with history_surplus [of deployed dp before] have "keeps_surplus deployed s"
          unfolding assms(1) snd_conv by (rule surplus.frame_trans)
        then show ?thesis using deployed_covers by (simp add: keeps_surplus_def)
      qed
      then have "covers 0 ?t" using history_surplus [of s dp between] by (simp add: keeps_surplus_def)
      moreover have "open_native_leg dp cid ?t"
        using maker assms(3) by (simp add: open_native_leg_def sw_t leg_t(1) sw leg native_swap_def live_def)
      ultimately have "\<exists>t'. transact dp later (Message who 0 (RefundLegCall cid)) [] ?t = (Inr None, t') \<and>
          leg_payments cid t' = leg_payments cid ?t @ [leg_payment cid (legs ?t cid)]"
        using assms(4,5) by (intro refund_native) (simp_all add: sw_t sw native_swap_def)
      then show ?thesis by (simp add: leg_t leg leg_payment_def to_maker_def Let_def)
    qed
  qed
qed

subsection \<open>A leg on the demonstration chain\<close>

definition native_order :: Order where
  "native_order = sell_order_example\<lparr>o_sell_token := 0, o_sell_chain_id := 31337\<rparr>"

definition demo_settle :: "u8 list \<Rightarrow> message" where
  "demo_settle signature =
     Message (fill 0xAA) 100 (SettleLegCall (sol_order native_order) signature (fill 6) (fill 7) 600)"

abbreviation demo_leg_id :: b32 where
  "demo_leg_id \<equiv> leg_id demo_dp (sol_order native_order) (fill 6) (fill 7) 600"

lemma native_order_fields:
  "so_maker (sol_order native_order) = fill 0xAA" "so_sellToken (sol_order native_order) = 0"
  "so_sellChainId (sol_order native_order) = 31337" "so_sellAmount (sol_order native_order) = 100"
  by (simp_all add: native_order_def sell_order_example_def sol_order_def)

text \<open>The example key signs every order of its account.\<close>

lemma demo_signature:
  assumes "o_maker order = fill 0xAA" and "500 \<le> o_valid_until order"
  shows "\<exists>signature. order_ok demo_dp 500 (sol_order order) signature"
proof -
  have maker: "address_from_private_key toy_hash toy_k256 (fill 0xAA) = Some (o_maker order)"
    using example_key(2) assms(1) by (simp add: sell_order_example_def)
  have "o_maker order \<noteq> 0" using assms(1) by simp
  from sign_then_verify [OF example_key(1) example_contract maker this assms(2)]
  obtain sg where "eip712_verify toy_hash toy_k256 order sg 500 = Inr (digest toy_hash order)"
    by blast
  moreover have "precompile_agrees toy_hash toy_k256 toy_ecrecover"
    by (simp add: precompile_agrees_def toy_ecrecover_def toy_k256_def)
  ultimately have "order_verify toy_hash toy_ecrecover (sol_order order) sg 500 =
      Inr (digest toy_hash order)"
    using order_verify_agrees [of toy_hash toy_k256 toy_ecrecover order sg 500] by simp
  then have "order_ok demo_dp 500 (sol_order order) sg" by (simp add: order_ok_def demo_dp_def)
  then show ?thesis by (rule exI)
qed

lemma native_signature: "\<exists>signature. order_ok demo_dp 500 (sol_order native_order) signature"
  by (rule demo_signature) (simp_all add: native_order_def sell_order_example_def)

lemma demo_settles:
  assumes "order_ok demo_dp 500 (sol_order native_order) signature"
  shows "transact demo_dp 500 (demo_settle signature) [] (transact_all demo_dp [] deployed) =
    (Inr (Some demo_leg_id), native_locked demo_dp (sol_order native_order) (fill 6) (fill 7) 600 deployed)"
  unfolding demo_settle_def transact_settle_native [OF native_order_fields(2)] transact_all.simps
  using assms
  by (simp add: native_order_fields deployed_def demo_dp_def word_less_nat_alt)

lemma locked_leg_never_stuck_witness:
  "let s = native_locked demo_dp (sol_order native_order) (fill 6) (fill 7) 600 deployed;
       t = transact_all demo_dp [(550, Message (fill 8) 0 (RefundLegCall demo_leg_id), [])] s in
     payments demo_leg_id t = payments demo_leg_id s @
        [\<lparr>pm_contract = demo_leg_id, pm_to = fill 6, pm_token = 0, pm_amount = 100\<rparr>] \<and>
      (\<exists>p. toy_hash (bytes_of p) = fill 7 \<and> LogRedeem demo_leg_id p \<in> set (htlc_events t)) \<or>
     leg_payments demo_leg_id t = leg_payments demo_leg_id s @ [to_maker (sol_order native_order) demo_leg_id] \<or>
     (\<exists>t'. transact demo_dp 600 (Message (fill 8) 0 (RefundLegCall demo_leg_id)) [] t = (Inr None, t') \<and>
        leg_payments demo_leg_id t' = leg_payments demo_leg_id s @
          [to_maker (sol_order native_order) demo_leg_id])"
proof -
  obtain sg where "order_ok demo_dp 500 (sol_order native_order) sg" using native_signature by blast
  note run = demo_settles [OF this, unfolded demo_settle_def]
  have dp: "dp_sha256 demo_dp = toy_hash" "dp_settlement demo_dp \<noteq> 0"
    "fill 8 \<notin> {0, dp_htlc demo_dp, dp_settlement demo_dp}"
    by (simp_all add: demo_dp_def)
  from locked_leg_never_stuck [OF run native_order_fields(2) dp(2) order_refl dp(3),
      of "[(550, Message (fill 8) 0 (RefundLegCall demo_leg_id), [])]"]
  show ?thesis by (simp only: Let_def native_order_fields(4) dp(1))
qed

lemma leg_settled_once_witness:
  "\<exists>sg s. let again = transact demo_dp 501 (demo_settle sg) [] s in
     order_ok demo_dp 500 (sol_order native_order) sg \<and> (\<exists>e. fst again = Inl e)"
proof -
  obtain sg where sg: "order_ok demo_dp 500 (sol_order native_order) sg" using native_signature by blast
  from leg_settled_once [OF demo_settles [OF sg, unfolded demo_settle_def] refl refl, of 501 _ 100 _ _ _ _ "[]" "[]"]
  show ?thesis unfolding demo_settle_def Let_def transact_all.simps using sg by blast
qed

lemma leg_refunds_to_maker_witness:
  "let s = native_locked demo_dp (sol_order native_order) (fill 6) (fill 7) 600 deployed;
       t = transact_all demo_dp [(700, Message (fill 8) 0 (RefundLegCall demo_leg_id), [])] s in
    legs t demo_leg_id = legs s demo_leg_id \<and> leg_payments demo_leg_id t = leg_payments demo_leg_id s \<and>
      sw_refunded (swaps t demo_leg_id) = sw_refunded (swaps s demo_leg_id) \<or>
    swap_refunded {700} s t demo_leg_id \<and> legs t demo_leg_id = (legs s demo_leg_id)\<lparr>sg_refunded := True\<rparr> \<and>
      leg_payments demo_leg_id t = leg_payments demo_leg_id s @ [leg_payment demo_leg_id (legs s demo_leg_id)]"
proof -
  let ?s = "native_locked demo_dp (sol_order native_order) (fill 6) (fill 7) 600 deployed"
  have "sw_sender (swaps ?s demo_leg_id) = dp_settlement demo_dp" "dp_settlement demo_dp \<noteq> 0"
    by (simp_all add: native_locked_def native_swap_def Let_def demo_dp_def)
  from leg_refunds_to_maker [OF this, of "[(700, Message (fill 8) 0 (RefundLegCall demo_leg_id), [])]"]
  show ?thesis by (simp only: Let_def list.set fst_conv image_insert image_empty)
qed

end
