(* ===== verification/Kael_Atomic.thy ===== *)
theory Kael_Atomic
  imports Kael_Native_Leg Kael_Chain
begin

section \<open>Wallet and contracts together\<close>

text \<open>
  The promise of the whole protocol, across the Rust wallet and the Solidity contracts: a leg that
  the wallet's chain reader reports as confirmed and its verifier judges \<open>Safe\<close> can be collected
  with the secret until its timelock, and a redeem of one leg gives the other party what it
  needs, in time, to collect the other.

  Two things of the outside enter as hypotheses: the node answered the read of the swap with what
  the contract stored, and the chain's clock does not run backwards. Native coins go to a plain
  account here, and a token is one that transfers (no callee refuses).
\<close>

definition leg_payout :: "LegExpectation \<Rightarrow> b32 \<Rightarrow> payment" where
  "leg_payout e cid =
     \<lparr>pm_contract = cid, pm_to = expected_recipient e, pm_token = expected_token e,
      pm_amount = ucast (expected_amount e)\<rparr>"

text \<open>The leg has been paid to the expected recipient, or a redeem with the preimage pays it now.\<close>

definition collected_or_collectable ::
  "deployment \<Rightarrow> u256 \<Rightarrow> address \<Rightarrow> LegExpectation \<Rightarrow> b32 \<Rightarrow> b32 \<Rightarrow> chain_state \<Rightarrow> chain_state \<Rightarrow> bool"
where
  "collected_or_collectable dp now who e cid preimage s t \<longleftrightarrow>
     payments cid t = payments cid s @ [leg_payout e cid] \<or>
     (case transact dp now (Message who 0 (RedeemCall cid preimage)) [] t of
        (Inl _, _) \<Rightarrow> False
      | (Inr _, t') \<Rightarrow>
          payments cid t' = payments cid s @ [leg_payout e cid] \<and>
          LogRedeem cid preimage \<in> set (htlc_events t'))"

lemma unat_ucast_u64: "unat (ucast (x :: u64) :: u256) = unat x"
proof -
  have "unat x < 2 ^ 256" by (rule less_trans [OF unat_lt_pow]) simp
  then show ?thesis by (simp add: unsigned_ucast_eq take_bit_nat_eq_self)
qed

text \<open>A payout that nothing outside refuses.\<close>

lemma payout_succeeds:
  assumes "token \<notin> {dp_htlc dp, dp_settlement dp}" and "to \<noteq> dp_htlc dp"
    and "token = 0 \<longrightarrow> unat amount \<le> htlc_eth s"
  shows "\<exists>s2. htlc_payout dp (ext_at [] 0) cid token to amount s = (Inr (), s2) \<and>
    htlc_paid s2 = htlc_paid s @
      [\<lparr>pm_contract = cid, pm_to = to, pm_token = token, pm_amount = amount\<rparr>]"
  unfolding payout_Inr
  using assms
  by (cases "token = 0"; cases "to = dp_settlement dp")
    (simp_all add: send_eth_def safe_token_call_def call_out_def ext_at_def eff_Inr guard_Inr paid_state_def)

lemma redeem_open_swap:
  assumes "covers 0 s" and "live (swaps s cid)" and "now < sw_timelock (swaps s cid)"
    and "dp_sha256 dp (bytes_of preimage) = sw_hashlock (swaps s cid)"
    and "sw_token (swaps s cid) \<notin> {dp_htlc dp, dp_settlement dp}"
    and "sw_recipient (swaps s cid) \<noteq> dp_htlc dp" and "who \<notin> {0, dp_htlc dp, dp_settlement dp}"
  shows "\<exists>s'. transact dp now (Message who 0 (RedeemCall cid preimage)) [] s = (Inr None, s') \<and>
    payments cid s' = payments cid s @ [pays cid (swaps s cid) (sw_recipient (swaps s cid))] \<and>
    LogRedeem cid preimage \<in> set (htlc_events s')"
proof -
  let ?sw = "swaps s cid" and ?s1 = "s\<lparr>swaps := (swaps s)(cid := (swaps s cid)\<lparr>sw_withdrawn := True\<rparr>)\<rparr>"
  have "sw_token ?sw = 0 \<longrightarrow> unat (sw_amount ?sw) \<le> htlc_eth ?s1"
    using covers_open_swap [OF assms(1,2)] by simp
  from payout_succeeds [OF assms(5,6) this] obtain s2 where
    pay: "htlc_payout dp (ext_at [] 0) cid (sw_token ?sw) (sw_recipient ?sw) (sw_amount ?sw) ?s1 = (Inr (), s2)"
    and paid: "htlc_paid s2 = htlc_paid s @ [pays cid ?sw (sw_recipient ?sw)]"
    by (auto simp: pays_def)
  let ?s' = "s2\<lparr>htlc_events := htlc_events s2 @ [LogRedeem cid preimage]\<rparr>"
  have "htlc_redeem dp now (ext_at [] 0) cid preimage s = (Inr (), ?s')"
    unfolding redeem_Inr Let_def using assms(2-4) pay by blast
  then have "transact dp now (Message who 0 (RedeemCall cid preimage)) [] s = (Inr None, ?s')"
    using assms(7) by (auto simp: transact_Inr dispatch_def eff_Inr)
  moreover have "payments cid ?s' = payments cid s @ [pays cid ?sw (sw_recipient ?sw)]"
    using paid by (simp add: payments_def pays_def)
  ultimately show ?thesis by auto
qed

lemma reachable_covers: "covers 0 (transact_all dp txs deployed)"
  using history_surplus [of deployed dp txs] deployed_covers by (simp add: keeps_surplus_def)

text \<open>What the reader and the verifier together establish about the stored swap.\<close>

lemma safe_swap:
  assumes "rpc_observe_lock n rv htlc cid mc v = (Inr (Confirmed ob), v')"
    and "fst (call_getSwap n (rv_provider rv) htlc cid (world v)) = Inr sw"
    and "verify_counterparty_leg e ob = Safe"
  shows "live sw \<and> sw_hashlock sw = expected_hashlock e \<and>
    pays cid sw (sw_recipient sw) = leg_payout e cid \<and> unat (sw_timelock sw) = unat (ol_timelock ob)"
proof -
  from assms(1,2) have sw: "swap_active sw" and ob: "ob = swap_observation sw"
    by (auto simp: rpc_observe_lock_Confirmed)
  have eq: "sw_hashlock sw = expected_hashlock e" "sw_token sw = expected_token e"
    "ucast (sw_amount sw) = expected_amount e" "sw_recipient sw = expected_recipient e"
    using assms(3) unfolding ob
    by (auto simp: verify_counterparty_leg_def swap_observation_def split: if_splits)
  have "unat (ucast (ucast (sw_amount sw) :: u128) :: u256) = unat (sw_amount sw)"
    using sw by (simp add: swap_active_def unsigned_ucast_eq unsigned_take_bit_eq take_bit_nat_eq_self)
  then have "ucast (expected_amount e) = sw_amount sw"
    unfolding eq(3) [symmetric] by (rule word_unat_eq_iff [THEN iffD2])
  moreover have "unat (sw_timelock sw) = unat (ol_timelock ob)"
    using sw by (simp add: ob swap_observation_def swap_active_def unsigned_ucast_eq take_bit_nat_eq_self)
  ultimately show ?thesis
    using sw eq by (simp add: pays_def leg_payout_def live_def swap_active_def)
qed

lemma safe_leg_stays_collectable:
  assumes stored: "live (swaps s cid)" "sw_hashlock (swaps s cid) = expected_hashlock e"
      "pays cid (swaps s cid) (sw_recipient (swaps s cid)) = leg_payout e cid"
    and "covers 0 s"
    and preimage: "dp_sha256 dp (bytes_of preimage) = expected_hashlock e"
    and clock: "now < sw_timelock (swaps s cid)" "list_all (\<lambda>tx. fst tx \<le> now) between"
    and parties: "expected_token e \<notin> {dp_htlc dp, dp_settlement dp}"
      "expected_recipient e \<noteq> dp_htlc dp" "who \<notin> {0, dp_htlc dp, dp_settlement dp}"
  shows "collected_or_collectable dp now who e cid preimage s (transact_all dp between s)"
proof -
  let ?t = "transact_all dp between s"
  have e: "sw_sender (swaps s cid) \<noteq> 0" using stored(1) by (simp add: live_def)
  have "\<not> swap_refunded (fst ` set between) s ?t cid"
  proof
    assume "swap_refunded (fst ` set between) s ?t cid"
    then obtain time where "time \<in> fst ` set between" "sw_timelock (swaps s cid) \<le> time"
      by (auto simp: swap_refunded_def Let_def)
    with clock show False by (auto simp: list_all_iff)
  qed
  with evolvesD [OF history_evolves e, of dp between]
  consider "swap_redeemed dp (fst ` set between) s ?t cid" | "swap_kept s ?t cid" by blast
  then show ?thesis
  proof cases
    case 1
    then show ?thesis
      using stored(3) by (simp add: collected_or_collectable_def swap_redeemed_def Let_def)
  next
    case 2
    then have t: "swaps ?t cid = swaps s cid" "payments cid ?t = payments cid s"
      by (simp_all add: swap_kept_def)
    have "sw_token (swaps s cid) = expected_token e" "sw_recipient (swaps s cid) = expected_recipient e"
      using stored(3) by (simp_all add: pays_def leg_payout_def)
    moreover have "covers 0 ?t"
      using history_surplus [of s dp between] assms(4) by (simp add: keeps_surplus_def)
    ultimately have "\<exists>t'. transact dp now (Message who 0 (RedeemCall cid preimage)) [] ?t = (Inr None, t') \<and>
        payments cid t' = payments cid ?t @ [pays cid (swaps ?t cid) (sw_recipient (swaps ?t cid))] \<and>
        LogRedeem cid preimage \<in> set (htlc_events t')"
      using stored preimage clock(1) parties by (intro redeem_open_swap) (simp_all add: t)
    then show ?thesis unfolding t stored(3) by (auto simp: collected_or_collectable_def)
  qed
qed

text \<open>
  C7. A leg judged safe pays. The wallet read the opposite leg from a reachable state of its chain,
  got it as confirmed, and \<open>verify_counterparty_leg\<close> said \<open>Safe\<close>. Then, for whatever happens on
  that chain in between, at any time before the leg's timelock it has been paid to the expected
  recipient, in the expected token and amount, or anyone who sends a redeem with the preimage
  has it paid there, the preimage shown in the log; and the timelock lies at least \<open>min_gap\<close>
  seconds after the wallet's clock.
\<close>

theorem safe_leg_pays:
  assumes "rpc_observe_lock n rv htlc cid mc v = (Inr (Confirmed ob), v')"
    and "s = transact_all dp before deployed"
    and "fst (call_getSwap n (rv_provider rv) htlc cid (world v)) = Inr (swaps s cid)"
    and "verify_counterparty_leg e ob = Safe"
    and "dp_sha256 dp (bytes_of preimage) = expected_hashlock e"
    and "unat now < unat (ol_timelock ob)" and "list_all (\<lambda>tx. fst tx \<le> now) between"
    and "expected_token e \<notin> {dp_htlc dp, dp_settlement dp}" and "expected_recipient e \<noteq> dp_htlc dp"
    and "who \<notin> {0, dp_htlc dp, dp_settlement dp}"
  shows "collected_or_collectable dp now who e cid preimage s (transact_all dp between s) \<and>
    min (unat (le_now e) + unat (le_min_gap e)) u64_max \<le> unat (ol_timelock ob)"
proof -
  note stored = safe_swap [OF assms(1,3,4)]
  have "\<not> expires_too_soon e ob" using assms(4) by (simp add: verify_Safe_iff)
  then show ?thesis
    using stored assms reachable_covers [of dp before]
    by (auto simp: expires_too_soon_def word_less_nat_alt intro!: safe_leg_stays_collectable)
qed

text \<open>
  C5. The swap is atomic for the maker. The maker verified the taker's leg on chain A as \<open>Safe\<close> and
  has its own leg, with the same hashlock and the timelock it planned, on chain B. Then for any
  histories of the two chains, its own leg is either untouched, or refunded, or was redeemed
  before its timelock; and in the last case chain B shows a preimage with which the maker's leg
  on chain A, until \<open>min_gap\<close> seconds after that timelock, has been paid to it or can be
  collected for it by anyone. The maker never loses its funds without the means, and the time,
  to get the other's.
\<close>

theorem atomic_for_the_maker:
  assumes "rpc_observe_lock n rv htlc cid mc v = (Inr (Confirmed ob), v')"
    and "s = transact_all dp before deployed"
    and "fst (call_getSwap n (rv_provider rv) htlc cid (world v)) = Inr (swaps s cid)"
    and "verify_counterparty_leg e ob = Safe" and "le_role e = Maker"
    and own: "sw_sender (swaps s2 cid2) \<noteq> 0" "sw_hashlock (swaps s2 cid2) = expected_hashlock e"
      "sw_timelock (swaps s2 cid2) = ucast (le_my_timelock e)" "dp_sha256 dp2 = dp_sha256 dp"
    and "unat now < min (unat (le_my_timelock e) + unat (le_min_gap e)) u64_max"
    and "list_all (\<lambda>tx. fst tx \<le> now) between"
    and "expected_token e \<notin> {dp_htlc dp, dp_settlement dp}" and "expected_recipient e \<noteq> dp_htlc dp"
    and "who \<notin> {0, dp_htlc dp, dp_settlement dp}"
  shows "let t2 = transact_all dp2 between2 s2 in
    swap_kept s2 t2 cid2 \<or> swap_refunded (fst ` set between2) s2 t2 cid2 \<or>
    (\<exists>time p. time \<in> fst ` set between2 \<and> unat time < unat (le_my_timelock e) \<and>
       LogRedeem cid2 p \<in> set (htlc_events t2) \<and>
       collected_or_collectable dp now who e cid p s (transact_all dp between s))"
proof -
  let ?t2 = "transact_all dp2 between2 s2"
  note stored = safe_swap [OF assms(1,3,4)]
  have "\<not> gap_too_small e ob" using assms(4) by (simp add: verify_Safe_iff)
  then have "min (unat (le_my_timelock e) + unat (le_min_gap e)) u64_max \<le> unat (ol_timelock ob)"
    using assms(5) by (simp only: gap_too_small_def Role.simps not_less)
  with assms(10) have "unat now < unat (ol_timelock ob)" by (rule less_le_trans)
  then have time: "now < sw_timelock (swaps s cid)" using stored by (simp add: word_less_nat_alt)
  have all: "collected_or_collectable dp now who e cid p s (transact_all dp between s)"
    if "dp_sha256 dp (bytes_of p) = expected_hashlock e" for p
    using stored time that assms(2,11-14) reachable_covers [of dp before]
    by (auto intro!: safe_leg_stays_collectable)
  have "\<exists>time p. time \<in> fst ` set between2 \<and> unat time < unat (le_my_timelock e) \<and>
      dp_sha256 dp (bytes_of p) = expected_hashlock e \<and> LogRedeem cid2 p \<in> set (htlc_events ?t2)"
    if "swap_redeemed dp2 (fst ` set between2) s2 ?t2 cid2"
    using that own
    by (auto simp: swap_redeemed_def Let_def word_less_nat_alt unat_ucast_u64)
  with evolvesD [OF history_evolves own(1), of dp2 between2] all show ?thesis
    by (auto simp: Let_def)
qed

subsection \<open>A swap on two demonstration chains\<close>

text \<open>
  Chain A holds the swap of \<open>demo_locked\<close>, which a node reports faithfully at depth 10; chain B the
  maker's leg, locked until 50 under the same hashlock.
\<close>

definition faithful_net :: "chain_state \<Rightarrow> (unit, unit) net" where
  "faithful_net s = quiet_net
     \<lparr>get_block_number := \<lambda>p w. (Inr 10, w),
      get_logs := \<lambda>p f w. (Inr [\<lparr>log_event = None, log_block_number = Some 1\<rparr>], w),
      call_getSwap := \<lambda>p a cid w. (Inr (swaps s cid), w)\<rparr>"

definition maker_expectation :: LegExpectation where
  "maker_expectation =
     \<lparr>expected_hashlock = fill 7, expected_token = 0, expected_amount = 10,
      expected_recipient = fill 6, le_my_timelock = 50, le_min_gap = 10, le_now = 20, le_role = Maker\<rparr>"

definition demo_observed :: ObservedLock where
  "demo_observed =
     \<lparr>ol_hashlock = fill 7, ol_token = 0, ol_amount = 10, ol_recipient = fill 6,
      ol_timelock = 100, ol_sender = fill 5, ol_exists = True\<rparr>"

abbreviation chain_A :: chain_state where
  "chain_A \<equiv> transact_all demo_dp [(1, demo_new 0 10, [])] deployed"

abbreviation chain_B :: chain_state where
  "chain_B \<equiv> transact_all demo_dp
     [(1, Message (fill 6) 10 (NewSwapCall (fill 5) 0 10 (fill 7) 50), [])] deployed"

abbreviation cid_B :: b32 where
  "cid_B \<equiv> computeContractId toy_hash (fill 6) (fill 5) 0 10 (fill 7) 50"

lemma chain_B_swap:
  "swaps chain_B cid_B =
     \<lparr>sw_sender = fill 6, sw_recipient = fill 5, sw_token = 0, sw_amount = 10,
      sw_hashlock = fill 7, sw_timelock = 50, sw_withdrawn = False, sw_refunded = False\<rparr>"
  by (simp add: demo_chain_defs word_le_nat_alt)

lemma demo_observation:
  "rpc_observe_lock (faithful_net chain_A) \<lparr>rv_provider = ()\<rparr> (fill 0xC1) (demo_cid 0) 3
     \<lparr>world = (), sent = []\<rparr> = (Inr (Confirmed demo_observed), \<lparr>world = (), sent = []\<rparr>)"
  "fst (call_getSwap (faithful_net chain_A) (rv_provider \<lparr>rv_provider = ()\<rparr>) (fill 0xC1) (demo_cid 0)
     (world \<lparr>world = (), sent = []\<rparr>)) = Inr (swaps chain_A (demo_cid 0))"
  unfolding rpc_observe_lock_Confirmed
  by (simp_all del: transact_all.simps
      add: faithful_net_def demo_locked demo_observed_def swap_active_def swap_observation_def
      depth_def confirmations_def saturating_sub_def quiet_net_def)

lemma demo_safe: "verify_counterparty_leg maker_expectation demo_observed = Safe"
  by (rule verify_SafeI) (simp_all add: maker_expectation_def demo_observed_def)

lemma demo_hypotheses:
  "dp_sha256 demo_dp (bytes_of (fill 7 :: b32)) = expected_hashlock maker_expectation"
  "expected_token maker_expectation \<notin> {dp_htlc demo_dp, dp_settlement demo_dp}"
  "expected_recipient maker_expectation \<noteq> dp_htlc demo_dp"
  "fill 8 \<notin> {0, dp_htlc demo_dp, dp_settlement demo_dp}"
  by (simp_all add: maker_expectation_def demo_dp_def)

lemma safe_leg_pays_witness:
  "collected_or_collectable demo_dp 99 (fill 8) maker_expectation (demo_cid 0) (fill 7) chain_A
     (transact_all demo_dp [(50, demo_redeem_by (fill 5) 0, [])] chain_A) \<and>
   min (unat (le_now maker_expectation) + unat (le_min_gap maker_expectation)) u64_max
     \<le> unat (ol_timelock demo_observed)"
  by (rule safe_leg_pays [OF demo_observation(1) refl demo_observation(2) demo_safe demo_hypotheses(1)
        _ _ demo_hypotheses(2-4)])
    (simp_all add: demo_observed_def word_le_nat_alt)

lemma atomic_for_the_maker_witness:
  "let t2 = transact_all demo_dp [(40, Message (fill 8) 0 (RedeemCall cid_B (fill 7)), [])] chain_B in
   swap_kept chain_B t2 cid_B \<or> swap_refunded {40} chain_B t2 cid_B \<or>
   (\<exists>time p. time \<in> {40 :: u256} \<and> unat time < unat (le_my_timelock maker_expectation) \<and>
      LogRedeem cid_B p \<in> set (htlc_events t2) \<and>
      collected_or_collectable demo_dp 59 (fill 8) maker_expectation (demo_cid 0) p chain_A
        (transact_all demo_dp [] chain_A))"
proof -
  have own: "sw_sender (swaps chain_B cid_B) \<noteq> 0"
    "sw_hashlock (swaps chain_B cid_B) = expected_hashlock maker_expectation"
    "sw_timelock (swaps chain_B cid_B) = ucast (le_my_timelock maker_expectation)"
    unfolding chain_B_swap by (simp_all add: maker_expectation_def)
  have clock: "unat (59 :: u256) < min (unat (le_my_timelock maker_expectation) +
      unat (le_min_gap maker_expectation)) u64_max" "list_all (\<lambda>tx. fst tx \<le> 59) ([] :: transaction list)"
    "le_role maker_expectation = Maker"
    by (simp_all add: maker_expectation_def)
  note maker = atomic_for_the_maker [OF demo_observation(1) refl demo_observation(2) demo_safe clock(3) own
      refl clock(1,2) demo_hypotheses(2-4)]
  show ?thesis
    using maker [of "[(40, Message (fill 8) 0 (RedeemCall cid_B (fill 7)), [])]"]
    by (simp only: list.set fst_conv image_insert image_empty)
qed

end
