(* ===== verification/Kael_Scenario.thy ===== *)
theory Kael_Scenario
  imports Kael_Executor_Runs
begin

section \<open>A swap that computes\<close>

text \<open>
  A concrete world and a concrete taker, in which the executor's steps evaluate: the maker's leg
  is locked on the opposite chain, five blocks deep, for the terms the taker expects. The
  witnesses of the executor's properties apply them here.
\<close>

definition maker_swap :: SolSwap where
  "maker_swap =
     \<lparr>sw_sender = fill 0xBB, sw_recipient = fill 0xEE, sw_token = fill 0x22, sw_amount = 500,
      sw_hashlock = fill 9, sw_timelock = 1500, sw_withdrawn = False, sw_refunded = False\<rparr>"

definition maker_log :: log where
  "maker_log =
     \<lparr>log_event = Some (LogNewSwap (fill 5) (fill 0xBB) (fill 0xEE) (fill 0x22) 500 (fill 9) 1500),
      log_block_number = Some 6\<rparr>"

text \<open>The providers are \<open>False\<close>, the own chain, and \<open>True\<close>, the opposite one.\<close>

definition demo_net :: "u64 \<Rightarrow> (bool, unit) net" where
  "demo_net now = quiet_net
     \<lparr>get_logs := \<lambda>p f w. (Inr (if p then [maker_log] else []), w),
      call_getSwap := \<lambda>p a cid w. (Inr maker_swap, w),
      clock_now := \<lambda>w. (now, w)\<rparr>"

definition demo_crates :: crates where
  "demo_crates =
     \<lparr>hex_decode = (\<lambda>s. Inr (map of_char s)), hex_encode = map (\<lambda>b. char_of (unat b)),
      parse_evm_address = (\<lambda>s. Inr 0), show_address = (\<lambda>a. ''0x''),
      parse_u256 = (\<lambda>s. Inr 0), show_u256 = (\<lambda>v. dec (unat v)),
      abi_encode_lock = (\<lambda>sender r t a h tm. bytes_of h)\<rparr>"

definition demo_world :: "u64 \<Rightarrow> (bool, unit, u8 list, u8, b32, b32) outside" where
  "demo_world now =
     \<lparr>out_net = demo_net now, out_crates = demo_crates, out_keccak = toy_hash,
      out_sha = toy_hash, out_iter = (\<lambda>_. [fill 9]), out_k256 = toy_k256\<rparr>"

definition taker_context :: SwapContext where
  "taker_context =
     \<lparr>ctx_role = Taker, my_token = 0, my_amount = 1000, my_timelock = 2000,
      my_recipient = fill 0xBB, cp_token = fill 0x22, cp_amount = 500, ctx_me = fill 0xEE,
      min_gap = 100, ctx_hashlock = Some (fill 9), ctx_secret = Some (fill 9),
      my_leg_locked = False, counterparty_lock = None, revealed_secret = None, ctx_now = 0\<rparr>"

definition demo_signer :: "bool \<Rightarrow> bool Signer" where
  "demo_signer p = \<lparr>sg_provider = p, sg_address = fill 0xEE, sg_chain_id = 31337\<rparr>"

definition demo_observer :: "bool \<Rightarrow> bool rpc_observer" where
  "demo_observer p = observer_new \<lparr>rv_provider = p\<rparr> p (if p then fill 0xC2 else fill 0xC1) 31337"

definition taker_config :: "SwapState \<Rightarrow> bool WalletExecutorConfig" where
  "taker_config st =
     \<lparr>cf_state = st, cf_ctx = taker_context, cf_own_signer = demo_signer False,
      cf_cp_signer = demo_signer True, cf_own_htlc = fill 0xC1, cf_cp_htlc = fill 0xC2,
      cf_settlement = None, cf_own_observer = demo_observer False,
      cf_cp_observer = demo_observer True, cf_min_confirmations = 3\<rparr>"

definition taker_wallet :: "SwapState \<Rightarrow> (bool, unit) WalletExecutor" where
  "taker_wallet st = executor_new (taker_config st) \<lparr>world = (), sent = []\<rparr>"

lemmas demo_defs =
  maker_swap_def maker_log_def demo_net_def quiet_net_def demo_crates_def demo_world_def
  taker_context_def demo_signer_def demo_observer_def taker_wallet_def taker_config_def executor_new_def
  observer_new_def

lemmas exec_defs =
  refresh_observations_def observe_def observer_poll_def poll_into_tracker_def
  rpc_observe_lock_def creation_block_def on_x_env_def on_cp_observer_def on_own_observer_def
  on_co_tracker_def set_ctx_def set_state_def handle_event_def on_new_swap_def u256_to_def
  discover_contract_id_def observer_revealed_secret_def preimage_for_def for_gate_def
  observed_from_swap_def u256_to_u128_def u256_to_u64_def confirmations_def saturating_sub_def
  tracker_new_def tracked_default_def is_leg_def

lemma taker_refresh:
  "\<exists>x'. refresh_observations (demo_world now) (taker_wallet st) = (Inr (), x') \<and>
     x_ctx x' = taker_context
       \<lparr>counterparty_lock := Some (swap_observation maker_swap), ctx_now := now\<rparr> \<and>
     x_cp_contract_id x' = Some (fill 5)"
  by (simp add: exec_defs demo_defs eff_simps Let_def swap_observation_def)

lemmas step_defs =
  step_def step_redeem_def step_lock_def step_refund_def reverified_action_def redeem_def
  refund_def send_and_wait_def reverified_action_matches_def next_defs expectation_def
  verify_counterparty_leg_def check_timelock_gap_def structural_gap_def saturating_add_def

lemma demo_redeem:
  "sent (x_env (snd (step (demo_world 1000) (taker_wallet MyLegLocked)))) =
     [(True, Redeem (fill 0xC2) (fill 5) (fill 9))]"
  by (simp add: exec_defs step_defs demo_defs eff_simps Let_def)

lemma demo_refund:
  "sent (x_env (snd (step (demo_world 2000)
     (taker_wallet Refunding\<lparr>x_own_contract_id := Some (fill 3)\<rparr>)))) =
     [(False, RefundTx (fill 0xC1) (fill 3))]"
  by (simp add: exec_defs step_defs demo_defs eff_simps Let_def)

lemma demo_wallet_ok: "wallet_ok toy_hash (fill 9) (taker_wallet st)"
  by (simp add: wallet_ok_def demo_defs tracker_new_def tracker_inv_def hashlock_from_preimage_def)

lemma demo_sent [simp]: "sent (x_env (taker_wallet st)) = []"
  by (simp add: demo_defs)

lemma taker_redeems_only_safe_legs_witness:
  "\<exists>l. counterparty_lock (x_ctx (snd (step (demo_world 1000) (taker_wallet MyLegLocked)))) = Some l \<and>
     fresh_lock (demo_world 1000) (snd (step (demo_world 1000) (taker_wallet MyLegLocked))) l"
proof -
  have "ctx_role (x_ctx (taker_wallet MyLegLocked)) = Taker"
    by (simp add: demo_defs)
  from taker_redeems_only_safe_legs [OF this, of True "Redeem (fill 0xC2) (fill 5) (fill 9)" "demo_world 1000"]
  show ?thesis by (auto simp: sent_by_def demo_redeem)
qed

lemma refund_only_after_timelock_witness:
  "my_timelock taker_context \<le> ctx_now (x_ctx (snd (step (demo_world 2000)
     (taker_wallet Refunding\<lparr>x_own_contract_id := Some (fill 3)\<rparr>))))"
proof -
  let ?x = "taker_wallet Refunding\<lparr>x_own_contract_id := Some (fill 3)\<rparr>"
  have "(False, RefundTx (fill 0xC1) (fill 3)) \<in> set (sent_by ?x (snd (step (demo_world 2000) ?x)))"
    by (simp add: sent_by_def demo_refund)
  from refund_only_after_timelock [OF this] show ?thesis
    by (simp add: taker_wallet_def taker_config_def executor_new_def)
qed

lemma step_needs_hashlock_witness:
  "fst (step (demo_world 0)
     (taker_wallet Start\<lparr>x_ctx := taker_context\<lparr>ctx_hashlock := None, ctx_secret := None\<rparr>\<rparr>)) =
     Inl (Failed X_MissingHashlock)"
  using step_needs_hashlock [of
      "taker_wallet Start\<lparr>x_ctx := taker_context\<lparr>ctx_hashlock := None, ctx_secret := None\<rparr>\<rparr>"
      "demo_world 0"]
  by simp

lemma run_sends_only_this_swap_witness:
  "list_all (own_tx toy_hash (fill 9) (taker_wallet MyLegLocked))
     (sent_by (taker_wallet MyLegLocked) (snd (run 7 (demo_world 1000) (taker_wallet MyLegLocked))))"
  using run_sends_only_this_swap [of "demo_world 1000" "fill 9" "taker_wallet MyLegLocked" 7]
  by (simp add: demo_wallet_ok demo_world_def)

lemma locks_at_most_once_witness:
  "x_own_contract_id (snd (run 7 (demo_world 1000)
     (taker_wallet SecretGenerated\<lparr>x_own_contract_id := Some (fill 3)\<rparr>))) = Some (fill 3)"
  using locks_at_most_once
    [of "taker_wallet SecretGenerated\<lparr>x_own_contract_id := Some (fill 3)\<rparr>" "fill 3" 7 "demo_world 1000"]
  by simp

lemma run_returns_terminal_witness:
  "is_terminal (x_state (snd (run 1 (demo_world 1000) (taker_wallet MyLegLocked))))"
proof -
  let ?run = "run 1 (demo_world 1000) (taker_wallet MyLegLocked)"
  have "fst ?run = Inr CounterpartyRedeemed"
    by (simp add: exec_defs step_defs demo_defs eff_simps Let_def is_terminal_def advance_def)
  then obtain x' where "?run = (Inr CounterpartyRedeemed, x')" by (metis prod.collapse)
  with run_returns_terminal [OF this] show ?thesis by simp
qed

lemma failed_step_keeps_state_witness:
  "\<exists>n. sent (x_env (snd (step (demo_world 1000\<lparr>out_net := n\<rparr>) (taker_wallet SecretGenerated)))) \<noteq> [] \<and>
     x_own_contract_id (snd (step (demo_world 1000\<lparr>out_net := n\<rparr>) (taker_wallet SecretGenerated))) = None"
proof -
  let ?u = "demo_world 1000\<lparr>out_net := (demo_net 1000)
    \<lparr>await_receipt := \<lambda>p h w. (Inl ''timeout'', w)\<rparr>\<rparr>"
  let ?step = "step ?u (taker_wallet SecretGenerated)"
  have step: "fst ?step = Inl (Failed (X_Tx (Send ''timeout''))) \<and> sent (x_env (snd ?step)) \<noteq> []"
    by (simp add: exec_defs step_defs broadcast_lock_def lock_def demo_defs eff_simps Let_def
        tx_error_def)
  then obtain x' where x': "?step = (Inl (Failed (X_Tx (Send ''timeout''))), x')"
    by (metis prod.collapse)
  have "x_own_contract_id (taker_wallet SecretGenerated) = None"
    by (simp add: demo_defs)
  then have "x_own_contract_id (snd ?step) = None"
    using failed_step_keeps_state [OF x'] by (simp add: x')
  with step show ?thesis by blast
qed

end
