(* ===== verification/Kael_Lock_Lands.thy ===== *)
theory Kael_Lock_Lands
  imports Kael_Native_Leg Kael_Scenario
begin

section \<open>The wallet's transactions, run by the contracts\<close>

text \<open>
  The two sides of the ABI put together: the transactions that \<open>swapkit\<close> sends, run by the model
  of the contracts they name. \<open>message_of\<close> gives the call that a transaction makes of the
  contracts of a deployment; an approval is a call to a token, which is outside. The documented
  behaviour of the ABI encoder, \<open>abi_encodes\<close>, is the hypothesis under which the wallet and the
  contract compute the same contract id.
\<close>

fun message_of :: "deployment \<Rightarrow> address \<Rightarrow> tx \<Rightarrow> message option" where
  "message_of dp who (NewSwap htlc r tk a h tm v) =
     (if htlc = dp_htlc dp then Some (Message who v (NewSwapCall r tk a h tm)) else None)"
| "message_of dp who (Redeem htlc cid p) =
     (if htlc = dp_htlc dp then Some (Message who 0 (RedeemCall cid p)) else None)"
| "message_of dp who (RefundTx htlc cid) =
     (if htlc = dp_htlc dp then Some (Message who 0 (RefundCall cid)) else None)"
| "message_of dp who (SettleLeg st od sg r h tm v) =
     (if st = dp_settlement dp then Some (Message who v (SettleLegCall od sg r h tm)) else None)"
| "message_of dp who (RefundLeg st cid) =
     (if st = dp_settlement dp then Some (Message who 0 (RefundLegCall cid)) else None)"
| "message_of dp who (Approve tk sp a) = None"

definition abi_encodes :: "crates \<Rightarrow> bool" where
  "abi_encodes cr \<longleftrightarrow>
     (\<forall>sender r tk a h tm. abi_encode_lock cr sender r tk a h tm =
        enc_addr sender @ enc_addr r @ enc_addr tk @ abi_uint256 a @ bytes_of h @ abi_uint256 tm)"

lemma contract_ids_agree:
  "abi_encodes cr \<Longrightarrow> compute_contract_id cr kc sender r tk a h tm =
     computeContractId kc sender r tk (ucast a) h (ucast tm)"
  by (simp add: abi_encodes_def compute_contract_id_def computeContractId_def)

definition locked_swap :: "address \<Rightarrow> address \<Rightarrow> address \<Rightarrow> u256 \<Rightarrow> b32 \<Rightarrow> u256 \<Rightarrow> SolSwap" where
  "locked_swap sender r tk a h tm =
     \<lparr>sw_sender = sender, sw_recipient = r, sw_token = tk, sw_amount = a, sw_hashlock = h,
      sw_timelock = tm, sw_withdrawn = False, sw_refunded = False\<rparr>"

lemma new_swap_locks:
  "htlc_new_swap dp now ext sender v r tk a h tm s = (Inr cid, s') \<Longrightarrow>
     cid = computeContractId (dp_keccak dp) sender r tk a h tm \<and>
     swaps s' cid = locked_swap sender r tk a h tm"
  by (auto simp: new_swap_Inr locked_swap_def)

lemma settle_locks:
  assumes "settle_leg dp now exts sender v order signature r h tm s = (Inr cid, s')"
    and "list_all (\<lambda>e. keeps (leg_life dp T) (call_out e)) exts"
  shows "cid = leg_id dp order r h tm \<and>
    swaps s' cid = locked_swap (dp_settlement dp) r (so_sellToken order) (so_sellAmount order) h tm"
proof -
  from assms(1) obtain s2 where
    lock: "receive_and_lock dp now exts v order r h tm cid (recorded v order cid s) = (Inr (), s2)"
    and s': "swaps s' = swaps s2"
    by (auto simp: settle_Inr)
  from receive_and_lock_Inr [OF lock assms(2)] obtain ext r2 val where
    "htlc_new_swap dp now ext (dp_settlement dp) val r (so_sellToken order) (so_sellAmount order) h tm r2 =
      (Inr cid, s2)"
    by blast
  from new_swap_locks [OF this] show ?thesis by (auto simp: s')
qed

lemma ucast_back: "ucast (ucast (a :: u128) :: u256) = a" "ucast (ucast (t :: u64) :: u256) = t"
  by (rule bit_word_eqI; simp add: bit_ucast_iff)+

text \<open>The executor's addresses are those of the deployment on its own chain.\<close>

definition connected :: "deployment \<Rightarrow> ('p, 'w, 'sig, 'rid, 'vk, 'sk) outside \<Rightarrow> ('p, 'w) WalletExecutor \<Rightarrow> bool"
where
  "connected dp u x \<longleftrightarrow>
     abi_encodes (out_crates u) \<and> out_keccak u = dp_keccak dp \<and>
     (case x_settlement x of None \<Rightarrow> True | Some st \<Rightarrow> st_settlement st = dp_settlement dp)"

definition locker_of :: "deployment \<Rightarrow> ('p, 'w) WalletExecutor \<Rightarrow> address" where
  "locker_of dp x = (if x_settlement x = None then sg_address (x_own_signer x) else dp_settlement dp)"

text \<open>
  C21. The lock the wallet sends is the lock the chain gets. Take any transaction of the wallet's
  lock plan that reaches a contract and succeeds there, in any state and with any behaviour of
  the token. Then the contract id it returns is the one the wallet computed before sending,
  and under that id the contract holds an open swap with exactly the recipient, token, amount,
  hashlock and timelock the wallet planned, from the account that can refund it; what a chain
  reader makes of it is exactly that lock.
\<close>

theorem lock_lands_as_planned:
  assumes "connected dp u x" and "t \<in> set (lock_plan_of u x r tk a h tm)"
    and "message_of dp (sg_address (x_own_signer x)) t = Some msg"
    and "transact dp now msg ks s = (Inr res, s')"
  shows "res = Some (lock_id_of u x r tk a h tm) \<and>
    swaps s' (lock_id_of u x r tk a h tm) = locked_swap (locker_of dp x) r tk (ucast a) h (ucast tm) \<and>
    swap_observation (swaps s' (lock_id_of u x r tk a h tm)) =
      \<lparr>ol_hashlock = h, ol_token = tk, ol_amount = a, ol_recipient = r, ol_timelock = tm,
       ol_sender = locker_of dp x, ol_exists = True\<rparr>"
proof -
  have abi: "abi_encodes (out_crates u)" and kc: "out_keccak u = dp_keccak dp"
    using assms(1) by (simp_all add: connected_def)
  have "res = Some (lock_id_of u x r tk a h tm) \<and>
      swaps s' (lock_id_of u x r tk a h tm) = locked_swap (locker_of dp x) r tk (ucast a) h (ucast tm)"
  proof (cases "x_settlement x")
    case None
    with assms(2,3) have "\<exists>v. msg = Message (sg_address (x_own_signer x)) v (NewSwapCall r tk (ucast a) h (ucast tm))"
      by (auto simp: lock_plan_of_def direct_plan_def approval_plan_def split: if_splits)
    with assms(4) obtain cid ext v where
      "htlc_new_swap dp now ext (sg_address (x_own_signer x)) v r tk (ucast a) h (ucast tm) s = (Inr cid, s')"
      "res = Some cid"
      by (auto simp: transact_Inr dispatch_def eff_Inr)
    with new_swap_locks [OF this(1)] show ?thesis
      using None by (auto simp: lock_id_of_def contract_ids_agree [OF abi] kc locker_of_def)
  next
    case (Some cf)
    let ?o = "sol_order (settlement_order (x_own_signer x) cf tk a)"
    from Some assms(2,3) obtain sg v where
      "msg = Message (sg_address (x_own_signer x)) v (SettleLegCall ?o sg r h (ucast tm))"
      by (auto simp: lock_plan_of_def settlement_plan_def approval_plan_def Let_def
          split: if_splits option.splits)
    with assms(4) obtain cid where
      settle: "settle_leg dp now (map (respond dp now) ks) (sg_address (x_own_signer x)) v ?o sg r h (ucast tm) s =
        (Inr cid, s')" and res: "res = Some cid"
      by (auto simp: transact_Inr dispatch_settle_Inr)
    have "cid = leg_id dp ?o r h (ucast tm) \<and>
        swaps s' cid = locked_swap (dp_settlement dp) r (so_sellToken ?o) (so_sellAmount ?o) h (ucast tm)"
      by (rule settle_locks [OF settle, where T = "insert now {}"]) (rule responders_keep, unfold_locales)
    moreover have "so_sellToken ?o = tk" "so_sellAmount ?o = ucast a" "st_settlement cf = dp_settlement dp"
      using assms(1) Some by (simp_all add: sol_order_def settlement_order_def connected_def)
    ultimately show ?thesis
      using Some res by (auto simp: lock_id_of_def contract_ids_agree [OF abi] kc locker_of_def)
  qed
  then show ?thesis by (simp add: swap_observation_def locked_swap_def ucast_back)
qed

subsection \<open>The demonstration wallet on the demonstration chain\<close>

definition abi_crates :: crates where
  "abi_crates = demo_crates
     \<lparr>abi_encode_lock := \<lambda>sender r tk a h tm.
        enc_addr sender @ enc_addr r @ enc_addr tk @ abi_uint256 a @ bytes_of h @ abi_uint256 tm\<rparr>"

abbreviation abi_world :: "(bool, unit, u8 list, u8, b32, b32) outside" where
  "abi_world \<equiv> demo_world 1\<lparr>out_crates := abi_crates\<rparr>"

lemma demo_lock_runs:
  "\<exists>res s'. transact demo_dp 1 (Message (fill 0xEE) 10 (NewSwapCall (fill 0xBB) 0 10 (fill 9) 2000)) []
     deployed = (Inr res, s')"
  by (simp add: demo_chain_defs word_le_nat_alt)

lemma lock_lands_as_planned_witness:
  "\<exists>res s'. transact demo_dp 1 (Message (fill 0xEE) 10 (NewSwapCall (fill 0xBB) 0 10 (fill 9) 2000)) []
       deployed = (Inr res, s') \<and>
     res = Some (lock_id_of abi_world (taker_wallet SecretGenerated) (fill 0xBB) 0 10 (fill 9) 2000)"
proof -
  let ?x = "taker_wallet SecretGenerated"
  obtain res s' where run: "transact demo_dp 1 (Message (fill 0xEE) 10
      (NewSwapCall (fill 0xBB) 0 10 (fill 9) 2000)) [] deployed = (Inr res, s')"
    using demo_lock_runs by blast
  have "connected demo_dp abi_world ?x"
    by (simp add: connected_def abi_encodes_def abi_crates_def demo_world_def demo_dp_def
        taker_wallet_def taker_config_def executor_new_def)
  moreover have "NewSwap (fill 0xC1) (fill 0xBB) 0 (ucast (10 :: u128)) (fill 9) (ucast (2000 :: u64)) (ucast (10 :: u128))
      \<in> set (lock_plan_of abi_world ?x (fill 0xBB) 0 10 (fill 9) 2000)"
    by (simp add: lock_plan_of_def direct_plan_def approval_plan_def native_value_def
        taker_wallet_def taker_config_def executor_new_def)
  moreover have "message_of demo_dp (sg_address (x_own_signer ?x)) (NewSwap (fill 0xC1) (fill 0xBB) 0
      (ucast (10 :: u128)) (fill 9) (ucast (2000 :: u64)) (ucast (10 :: u128))) =
      Some (Message (fill 0xEE) 10 (NewSwapCall (fill 0xBB) 0 10 (fill 9) 2000))"
    by (simp add: taker_wallet_def taker_config_def executor_new_def demo_signer_def demo_dp_def)
  ultimately show ?thesis using lock_lands_as_planned [OF _ _ _ run] run by blast
qed

end
