(* ===== verification/Kael_Executor_Progress.thy ===== *)
theory Kael_Executor_Progress
  imports Kael_Scenario
begin

section \<open>Progress of the executor\<close>

text \<open>
  Termination and liveness. A caller may call \<open>step\<close> as often as it likes, after errors too: the
  executor reports at most three actions and at most one settlement, since every reported action
  lowers a measure of its state, and it broadcasts at most one transaction that moves funds for
  each of these reports and for each error. And it does act when it has to: from the timelock on, a
  step whose observations leave nothing to redeem refunds the own leg, and a run ends there.
\<close>

text \<open>\<open>k\<close> calls of \<open>step\<close>, whatever they return.\<close>

fun steps ::
  "nat \<Rightarrow> ('p, 'w, 'sig, 'rid, 'vk, 'sk) outside \<Rightarrow> ('p, 'w) WalletExecutor \<Rightarrow>
     (ExecutorError fault + StepOutcome) list \<times> ('p, 'w) WalletExecutor" where
  "steps 0 u x = ([], x)"
| "steps (Suc k) u x =
     (case step u x of (r, y) \<Rightarrow> case steps k u y of (rs, z) \<Rightarrow> (r # rs, z))"

fun acts :: "ExecutorError fault + StepOutcome \<Rightarrow> bool" where
  "acts (Inr S_GeneratedSecret) = True"
| "acts (Inr (S_LockedMyLeg _)) = True"
| "acts (Inr S_RedeemedCounterpartyLeg) = True"
| "acts (Inr S_RefundedMyLeg) = True"
| "acts _ = False"

fun settles :: "ExecutorError fault + StepOutcome \<Rightarrow> bool" where
  "settles (Inr S_RedeemedCounterpartyLeg) = True"
| "settles (Inr S_RefundedMyLeg) = True"
| "settles _ = False"

fun is_locked :: "ExecutorError fault + StepOutcome \<Rightarrow> bool" where
  "is_locked (Inr (S_LockedMyLeg _)) = True"
| "is_locked _ = False"

text \<open>How many actions are left in a state.\<close>

fun actions_left :: "SwapState \<Rightarrow> nat" where
  "actions_left Start = 3"
| "actions_left SecretGenerated = 2"
| "actions_left MyLegLocked = 1"
| "actions_left WaitingForSecret = 1"
| "actions_left SecretLearned = 1"
| "actions_left Refunding = 1"
| "actions_left _ = 0"

definition lock_left :: "SwapState \<Rightarrow> nat" where
  "lock_left st = (if 1 < actions_left st then 1 else 0)"

definition settle_left :: "SwapState \<Rightarrow> nat" where
  "settle_left st = (if 0 < actions_left st then 1 else 0)"

definition tick :: "bool \<Rightarrow> nat" where
  "tick b = (if b then 1 else 0)"

lemma wallet_step_lowers:
  "wallet_step u x r txs x' \<Longrightarrow>
     actions_left (x_state x') + tick (acts r) \<le> actions_left (x_state x) \<and>
     lock_left (x_state x') + tick (is_locked r) \<le> lock_left (x_state x) \<and>
     settle_left (x_state x') + tick (settles r) \<le> settle_left (x_state x)"
  by (induction rule: wallet_step.induct)
    (auto simp: observing_setup next_action_iffs redeemed_state_def advance_def lock_left_def
      settle_left_def tick_def)

lemma step_lowers:
  assumes "step u x = (r, x')"
  shows "actions_left (x_state x') + tick (acts r) \<le> actions_left (x_state x)"
    and "lock_left (x_state x') + tick (is_locked r) \<le> lock_left (x_state x)"
    and "settle_left (x_state x') + tick (settles r) \<le> settle_left (x_state x)"
  using wallet_step_lowers [OF sent_by_step [OF assms]] by simp_all

text \<open>A quantity that every step pays for an outcome bounds the number of such outcomes.\<close>

lemma steps_bound:
  assumes "\<And>x r x'. step u x = (r, x') \<Longrightarrow> (left (x_state x') :: nat) + tick (P r) \<le> left (x_state x)"
  shows "length (filter P (fst (steps k u x))) + left (x_state (snd (steps k u x))) \<le> left (x_state x)"
proof (induction k arbitrary: x)
  case (Suc k)
  obtain r y where run: "step u x = (r, y)" by force
  from assms [OF run] Suc [of y] show ?case
    by (auto simp: run tick_def split: prod.split)
qed simp

text \<open>
  The transactions that move funds: the lock of the own leg, and the redeem or the refund. A step
  sends at most one of them, and none unless it fails or reports what it sent.
\<close>

fun locks_leg :: "tx \<Rightarrow> bool" where
  "locks_leg (NewSwap _ _ _ _ _ _ _) = True"
| "locks_leg (SettleLeg _ _ _ _ _ _ _) = True"
| "locks_leg _ = False"

definition settles_leg :: "tx \<Rightarrow> bool" where
  "settles_leg t \<longleftrightarrow> is_redeem t \<or> is_refund t"

definition occurs :: "(tx \<Rightarrow> bool) \<Rightarrow> ('p \<times> tx) list \<Rightarrow> nat" where
  "occurs P txs = length (filter (\<lambda>(p, t). P t) txs)"

lemma occurs_simps [simp]:
  "occurs P [] = 0" "occurs P ((p, t) # txs) = tick (P t) + occurs P txs"
  "occurs P (txs @ zs) = occurs P txs + occurs P zs"
  by (simp_all add: occurs_def tick_def)

lemma settles_leg_simps [simp]:
  "settles_leg (Redeem a c s)" "settles_leg (refund_tx x cid)"
  "\<not> locks_leg (Redeem a c s)" "\<not> locks_leg (refund_tx x cid)"
  by (simp_all add: settles_leg_def refund_tx_def split: option.split)

lemma occurs_plan:
  "occurs locks_leg (map (Pair p) (take k (lock_plan_of u x r a t h tm))) \<le> 1"
  "occurs settles_leg (map (Pair p) (take k (lock_plan_of u x r a t h tm))) = 0"
  by (auto simp: occurs_def settles_leg_def lock_plan_of_def direct_plan_def settlement_plan_def
      approval_plan_def Let_def take_Cons' split: option.splits)

lemma occurs_whole_plan:
  "occurs locks_leg (map (Pair p) (lock_plan_of u x r a t h tm)) \<le> 1"
  "occurs settles_leg (map (Pair p) (lock_plan_of u x r a t h tm)) = 0"
  using occurs_plan [where k = "length (lock_plan_of u x r a t h tm)"
      and u = u and x = x and r = r and a = a and t = t and h = h and tm = tm]
  by simp_all

lemma wallet_step_occurs:
  "wallet_step u x r txs x' \<Longrightarrow>
     occurs locks_leg txs \<le> tick (is_locked r) + tick (isl r) \<and>
     occurs settles_leg txs \<le> tick (settles r) + tick (isl r) \<and>
     occurs locks_leg txs + occurs settles_leg txs \<le> tick (is_locked r) + tick (settles r) + tick (isl r)"
  by (induction rule: wallet_step.induct)
    (auto simp: tick_def occurs_plan [unfolded One_nat_def] occurs_whole_plan [unfolded One_nat_def])

lemma step_appends: "\<exists>txs. sent (x_env (snd (step u x))) = sent (x_env x) @ txs"
proof -
  obtain r x' where run: "step u x = (r, x')" by force
  from step_wallet [OF run] obtain txs where "wallet_step u x r txs x'" by blast
  then show ?thesis using wallet_step_sent run by fastforce
qed

lemma steps_append: "\<exists>txs. sent (x_env (snd (steps k u x))) = sent (x_env x) @ txs"
proof (induction k arbitrary: x)
  case (Suc k)
  obtain r y where run: "step u x = (r, y)" by force
  from step_appends [of u x] Suc [of y] show ?case by (auto simp: run split: prod.split)
qed simp

lemma sent_by_steps:
  assumes "step u x = (r, y)"
  shows "sent_by x (snd (steps (Suc k) u x)) = sent_by x y @ sent_by y (snd (steps k u y))"
  using assms step_appends [of u x] steps_append [of k u y]
  by (auto simp: sent_by_def split: prod.split)

text \<open>What every step sends at most, by its outcome, sums up.\<close>

lemma steps_occur:
  assumes "\<And>x r x'. step u x = (r, x') \<Longrightarrow> f (sent_by x x') \<le> g r"
    and "f [] = (0 :: nat)" "\<And>xs ys. f (xs @ ys) = f xs + f ys"
  shows "f (sent_by x (snd (steps k u x))) \<le> sum_list (map g (fst (steps k u x)))"
proof (induction k arbitrary: x)
  case 0
  then show ?case by (simp add: sent_by_def assms(2))
next
  case (Suc k)
  obtain r y where run: "step u x = (r, y)" by force
  have "fst (steps (Suc k) u x) = r # fst (steps k u y)" by (simp add: run split: prod.split)
  then show ?case
    using assms(1) [OF run] Suc [of y] by (simp add: sent_by_steps [OF run] assms(3) del: steps.simps)
qed

lemma sum_ticks:
  "sum_list (map (\<lambda>r. tick (P r) + tick (Q r)) rs) = length (filter P rs) + length (filter Q rs)"
  "sum_list (map (\<lambda>r. tick (P r) + tick (Q r) + tick (R r)) rs) =
     length (filter P rs) + length (filter Q rs) + length (filter R rs)"
  by (induction rs) (simp_all add: tick_def)

lemma step_occurs:
  assumes "step u x = (r, x')"
  shows "occurs locks_leg (sent_by x x') \<le> tick (is_locked r) + tick (isl r)"
    and "occurs settles_leg (sent_by x x') \<le> tick (settles r) + tick (isl r)"
    and "occurs locks_leg (sent_by x x') + occurs settles_leg (sent_by x x') \<le>
      tick (is_locked r) + tick (settles r) + tick (isl r)"
  using wallet_step_occurs [OF sent_by_step [OF assms]] by simp_all

lemma steps_send:
  "occurs locks_leg (sent_by x (snd (steps k u x))) \<le>
     length (filter is_locked (fst (steps k u x))) + length (filter isl (fst (steps k u x)))"
  "occurs settles_leg (sent_by x (snd (steps k u x))) \<le>
     length (filter settles (fst (steps k u x))) + length (filter isl (fst (steps k u x)))"
  "occurs locks_leg (sent_by x (snd (steps k u x))) + occurs settles_leg (sent_by x (snd (steps k u x))) \<le>
     length (filter is_locked (fst (steps k u x))) + length (filter settles (fst (steps k u x))) +
     length (filter isl (fst (steps k u x)))"
proof -
  show "occurs locks_leg (sent_by x (snd (steps k u x))) \<le>
      length (filter is_locked (fst (steps k u x))) + length (filter isl (fst (steps k u x)))"
    unfolding sum_ticks(1) [symmetric] by (rule steps_occur, erule step_occurs(1)) simp_all
  show "occurs settles_leg (sent_by x (snd (steps k u x))) \<le>
      length (filter settles (fst (steps k u x))) + length (filter isl (fst (steps k u x)))"
    unfolding sum_ticks(1) [symmetric] by (rule steps_occur, erule step_occurs(2)) simp_all
  show "occurs locks_leg (sent_by x (snd (steps k u x))) + occurs settles_leg (sent_by x (snd (steps k u x))) \<le>
      length (filter is_locked (fst (steps k u x))) + length (filter settles (fst (steps k u x))) +
      length (filter isl (fst (steps k u x)))"
    unfolding sum_ticks(2) [symmetric]
    by (rule steps_occur [where f = "\<lambda>txs. occurs locks_leg txs + occurs settles_leg txs"], erule step_occurs(3))
      simp_all
qed

text \<open>
  C22. The executor comes to an end. However often \<open>step\<close> is called, whatever the nodes answer and
  whatever errors are retried, it reports at most three actions in all (secret, lock, redeem or
  refund), of them at most one lock and at most one settlement: it never reports a swap both
  redeemed and refunded, nor either of them twice. What it broadcasts is bounded by these reports
  and its errors: with \<open>e\<close> steps that returned an error, at most \<open>1 + e\<close> locks of the own leg, at
  most \<open>1 + e\<close> redeems and refunds, and at most \<open>2 + e\<close> of all these together. A lock whose receipt
  is lost is such an error, and the next call does send it again.
\<close>

theorem executor_acts_finitely:
  "length (filter acts (fst (steps k u x))) \<le> 3 \<and>
   length (filter is_locked (fst (steps k u x))) \<le> 1 \<and>
   length (filter settles (fst (steps k u x))) \<le> 1 \<and>
   (\<exists>txs. sent (x_env (snd (steps k u x))) = sent (x_env x) @ txs \<and>
      occurs locks_leg txs \<le> 1 + length (filter isl (fst (steps k u x))) \<and>
      occurs settles_leg txs \<le> 1 + length (filter isl (fst (steps k u x))) \<and>
      occurs locks_leg txs + occurs settles_leg txs \<le> 2 + length (filter isl (fst (steps k u x))))"
proof -
  have "actions_left (x_state x) \<le> 3" by (cases "x_state x") simp_all
  moreover have "lock_left (x_state x) \<le> 1" "settle_left (x_state x) \<le> 1"
    by (simp_all add: lock_left_def settle_left_def)
  moreover have
    "length (filter acts (fst (steps k u x))) + actions_left (x_state (snd (steps k u x))) \<le> actions_left (x_state x)"
    "length (filter is_locked (fst (steps k u x))) + lock_left (x_state (snd (steps k u x))) \<le> lock_left (x_state x)"
    "length (filter settles (fst (steps k u x))) + settle_left (x_state (snd (steps k u x))) \<le> settle_left (x_state x)"
    by (rule steps_bound, erule step_lowers)+
  moreover obtain txs where txs: "sent (x_env (snd (steps k u x))) = sent (x_env x) @ txs"
    using steps_append [of k u x] by blast
  then have "sent_by x (snd (steps k u x)) = txs" by (simp add: sent_by_def)
  note steps_send [of x k u, unfolded this]
  ultimately show ?thesis using txs by (intro conjI exI [of _ txs]) linarith+
qed

subsection \<open>An expired leg is refunded\<close>

text \<open>
  The refund transaction of an executor, by the way it locked. \<open>send_and_wait\<close> succeeds when a node
  accepts the transaction and answers with a receipt.
\<close>

lemma refund_runs:
  assumes "send_and_wait n (own_node x) (refund_tx x cid) v = (Inr rc, v')"
  shows "\<exists>hash. (case x_settlement x of
      Some settlement \<Rightarrow> refund_via_settlement n (x_own_signer x) (st_settlement settlement) cid
    | None \<Rightarrow> refund n (x_own_signer x) (x_own_htlc x) cid) v = (Inr hash, v')"
  using assms
  by (cases "x_settlement x")
    (auto simp: refund_tx_def refund_via_settlement_def refund_def eff_simps)

definition holds_own_leg :: "Role \<Rightarrow> SwapState \<Rightarrow> bool" where
  "holds_own_leg role st \<longleftrightarrow>
     (case role of Taker \<Rightarrow> st \<in> {MyLegLocked, Refunding} | Maker \<Rightarrow> st \<in> {WaitingForSecret, Refunding})"

text \<open>
  Nothing to redeem on what was just read: for the taker no opposite lock that is safe, for the
  maker no revealed secret.
\<close>

definition nothing_to_redeem :: "SwapContext \<Rightarrow> bool" where
  "nothing_to_redeem c \<longleftrightarrow>
     (case ctx_role c of Taker \<Rightarrow> \<not> gate_open c | Maker \<Rightarrow> revealed_secret c = None)"

lemma expired_decision:
  assumes "holds_own_leg (ctx_role c) st" and "nothing_to_redeem c" and "my_timelock c \<le> ctx_now c"
  shows "next_action st c = A_Refund"
  using assms
  by (auto simp: next_action_refund_iff holds_own_leg_def nothing_to_redeem_def gate_open_def
      split: Role.splits option.splits)

text \<open>
  C23. An expired leg is refunded. Take an executor whose own leg is locked and known, in a step
  whose observations succeed, find nothing to redeem and read a clock at or after the leg's
  timelock. If the node takes the refund transaction and answers with a receipt, the step
  reports the refund and ends in \<open>Refunded\<close>, having sent exactly the refund of its own contract;
  and a run that starts with this step, whatever its step limit, returns \<open>Refunded\<close> at once.
\<close>

theorem expired_leg_is_refunded:
  assumes "refresh_observations u x = (Inr (), y)"
    and "holds_own_leg (ctx_role (x_ctx x)) (x_state x)" and "x_own_contract_id x = Some cid"
    and "nothing_to_redeem (x_ctx y)" and "my_timelock (x_ctx x) \<le> ctx_now (x_ctx y)"
    and "send_and_wait (out_net u) (own_node x) (refund_tx x cid) (x_env y) = (Inr rc, v)"
  shows "step u x = (Inr S_RefundedMyLeg, y\<lparr>x_env := v, x_state := Refunded\<rparr>) \<and>
    sent v = sent (x_env x) @ [(own_node x, refund_tx x cid)] \<and>
    run (Suc k) u x = (Inr Refunded, y\<lparr>x_env := v, x_state := Refunded\<rparr>)"
proof -
  from refresh_cases [of u x] assms(1) have y: "observes (out_sha u) x y" by force
  note same = observing_setup [OF y] observing_role [OF y] observing_timelock [OF y]
  have "decision y = A_Refund"
    using assms(2,4,5) by (intro expired_decision) (simp_all add: same)
  moreover obtain hash where "(case x_settlement y of
      Some settlement \<Rightarrow> refund_via_settlement (out_net u) (x_own_signer y) (st_settlement settlement) cid
    | None \<Rightarrow> refund (out_net u) (x_own_signer y) (x_own_htlc y) cid) (x_env y) = (Inr hash, v)"
    using refund_runs [of "out_net u" y cid "x_env y" rc v] assms(6) by (auto simp: same)
  moreover have "\<not> ctx_now (x_ctx y) < my_timelock (x_ctx y)" using assms(5) by (simp add: same)
  ultimately have step: "step u x = (Inr S_RefundedMyLeg, y\<lparr>x_env := v, x_state := Refunded\<rparr>)"
    using assms(1,3)
    by (simp add: step_def eff_simps step_refund_def on_x_env_def set_state_def advance_def same)
  have "sent v = sent (x_env y) @ [(own_node x, refund_tx x cid)]"
    by (rule followsE [OF follows_send_and_wait assms(6)]) simp
  then have "sent v = sent (x_env x) @ [(own_node x, refund_tx x cid)]"
    using y by (simp add: observes_def observing_def)
  with step show ?thesis by (simp add: eff_simps is_terminal_def)
qed

abbreviation expired_wallet :: "(bool, unit) WalletExecutor" where
  "expired_wallet \<equiv> taker_wallet MyLegLocked\<lparr>x_own_contract_id := Some (fill 3)\<rparr>"

lemma expired_refresh:
  "\<exists>y. refresh_observations (demo_world 2000) expired_wallet = (Inr (), y) \<and>
     x_ctx y = taker_context
       \<lparr>counterparty_lock := Some (swap_observation maker_swap), ctx_now := 2000, my_leg_locked := True\<rparr>"
  by (simp add: exec_defs demo_defs eff_simps Let_def swap_observation_def)

lemma expired_leg_is_refunded_witness:
  "fst (run (Suc 4) (demo_world 2000) expired_wallet) = Inr Refunded"
proof -
  obtain y where y: "refresh_observations (demo_world 2000) expired_wallet = (Inr (), y)"
    "x_ctx y = taker_context\<lparr>counterparty_lock := Some (swap_observation maker_swap), ctx_now := 2000,
       my_leg_locked := True\<rparr>"
    using expired_refresh by blast
  have none: "nothing_to_redeem (x_ctx y)"
    by (simp add: y(2) nothing_to_redeem_def gate_open_def verify_Safe_iff swap_observation_def
        expectation_def taker_context_def maker_swap_def expires_too_soon_def)
  have leg: "holds_own_leg (ctx_role (x_ctx expired_wallet)) (x_state expired_wallet)"
    "x_own_contract_id expired_wallet = Some (fill 3)"
    "my_timelock (x_ctx expired_wallet) \<le> ctx_now (x_ctx y)"
    by (simp_all add: y(2) holds_own_leg_def demo_defs)
  obtain rc v where "send_and_wait (out_net (demo_world 2000)) (own_node expired_wallet)
      (refund_tx expired_wallet (fill 3)) (x_env y) = (Inr rc, v)"
    by (simp add: send_and_wait_def demo_defs refund_tx_def eff_simps)
  from expired_leg_is_refunded [OF y(1) leg(1,2) none leg(3) this, of 4]
  show ?thesis by (simp only: fst_conv)
qed

end
