(* ===== verification/Kael_Redeem_Pays.thy ===== *)
theory Kael_Redeem_Pays
  imports Kael_Lock_Lands Kael_Atomic Kael_Executor_Progress
begin

section \<open>A redeem that pays\<close>

text \<open>
  The executor on a node that runs the contracts. \<open>chain_node\<close> is the interface between the two:
  a node that serves a deployment lets other transactions be mined at any time, answers a read
  of a swap with what the contract stores, and has mined a transaction, between any others, when
  it hands out its receipt; the callees of that transaction do what they are called for.
  \<open>honest_net\<close> in \<open>Kael_Honest_Net\<close>, built on the model of the contracts, provides it.
\<close>

definition mined ::
  "deployment \<Rightarrow> ('w \<Rightarrow> chain_state) \<Rightarrow> ('w \<Rightarrow> u256) \<Rightarrow> 'w \<Rightarrow> 'w \<Rightarrow> bool" where
  "mined dp chain time w w' \<longleftrightarrow>
     time w \<le> time w' \<and>
     (\<exists>txs. list_all (\<lambda>tx. time w \<le> fst tx \<and> fst tx \<le> time w') txs \<and>
        chain w' = transact_all dp txs (chain w))"

lemma mined_refl: "mined dp chain time w w"
  by (auto simp: mined_def intro: exI [of _ "[]"])

lemma mined_trans:
  assumes "mined dp chain time w1 w2" and "mined dp chain time w2 w3"
  shows "mined dp chain time w1 w3"
proof -
  from assms obtain xs ys where "list_all (\<lambda>tx. time w1 \<le> fst tx \<and> fst tx \<le> time w2) xs"
    "list_all (\<lambda>tx. time w2 \<le> fst tx \<and> fst tx \<le> time w3) ys" "time w1 \<le> time w2" "time w2 \<le> time w3"
    "chain w3 = transact_all dp (xs @ ys) (chain w1)"
    by (auto simp: mined_def transact_all_append)
  moreover from this have "list_all (\<lambda>tx. time w1 \<le> fst tx \<and> fst tx \<le> time w3) (xs @ ys)"
    by (fastforce simp: list_all_iff)
  ultimately show ?thesis
    unfolding mined_def by (intro conjI exI [of _ "xs @ ys"]) (blast intro: order_trans)+
qed

text \<open>\<open>sel\<close> reads the world out of the state at hand.\<close>

definition mining ::
  "deployment \<Rightarrow> ('w \<Rightarrow> chain_state) \<Rightarrow> ('w \<Rightarrow> u256) \<Rightarrow> ('s \<Rightarrow> 'w) \<Rightarrow> 's \<Rightarrow> 's \<Rightarrow> bool" where
  "mining dp chain time sel s t \<longleftrightarrow> mined dp chain time (sel s) (sel t)"

interpretation mining: frame "mining dp chain time sel" for sel :: "'s \<Rightarrow> 'w" and dp chain time
  by unfold_locales (auto simp: mining_def intro: mined_refl mined_trans)

lemma mining_zoom:
  assumes "keeps (mining dp chain time sel) m"
    and "\<And>s t. sel' (put s t) = sel s" and "\<And>t. sel (get t) = sel' t"
  shows "keeps (mining dp chain time sel') (zoom get put m)"
proof (rule keepsI)
  fix t
  have "mining dp chain time sel (get t) (snd (m (get t)))" using assms(1) by (rule keepsD)
  then show "mining dp chain time sel' t (snd (zoom get put m t))"
    using assms(2,3) by (simp add: mining_def zoom_apply)
qed

lemma mining_modify: "(\<And>s. sel (f s) = sel s) \<Longrightarrow> keeps (mining dp chain time sel) (modify f)"
  by (simp add: keeps_def mining_def modify_def mined_refl)

locale chain_node =
  fixes n :: "('p, 'w) net" and p :: 'p and dp :: deployment and chain :: "'w \<Rightarrow> chain_state"
    and time :: "'w \<Rightarrow> u256" and who :: address
  assumes block_number: "mined dp chain time w (snd (get_block_number n q w))"
    and logs: "mined dp chain time w (snd (get_logs n q fl w))"
    and swap: "mined dp chain time w (snd (call_getSwap n q a cid w))"
    and clock: "mined dp chain time w (snd (clock_now n w))"
    and allowance: "mined dp chain time w (snd (call_allowance n q tk a b w))"
    and random: "mined dp chain time w (snd (os_random32 n w))"
    and broadcast: "mined dp chain time w (snd (send_transaction n q t w))"
    and receipt: "mined dp chain time w (snd (await_receipt n q h w))"
    and stored: "call_getSwap n p (dp_htlc dp) cid w = (Inr sw, w') \<Longrightarrow> sw = swaps (chain w') cid"
    and reachable: "\<exists>txs. chain w = transact_all dp txs deployed"
    and included: "send_transaction n p t w = (Inr h, w') \<Longrightarrow> await_receipt n p h w' = (Inr rc, w2) \<Longrightarrow>
      message_of dp who t = Some msg \<Longrightarrow>
      \<exists>wa wb. mined dp chain time w wa \<and> time wb = time wa \<and>
        chain wb = snd (transact dp (time wa) msg [] (chain wa)) \<and> mined dp chain time wb w2"
begin

lemma mining_rpc:
  "(\<And>w. mined dp chain time w (snd (q w))) \<Longrightarrow> keeps (mining dp chain time world) (rpc q)"
  by (simp add: keeps_def mining_def rpc_apply)

lemma mining_env: "keeps (mining dp chain time world) m \<Longrightarrow> keeps (mining dp chain time (world \<circ> snd)) (with_env m)"
  unfolding with_env_def by (rule mining_zoom) auto

lemma mining_send: "keeps (mining dp chain time world) (send n q t)"
  using broadcast by (simp add: keeps_def mining_def send_apply)

lemmas node_rules = mining.keeps_rules mining_env mining_rpc mining_send block_number logs swap
  allowance receipt

lemma mining_reader: "keeps (mining dp chain time world) (rpc_observe_lock n rv htlc cid mc)"
  unfolding rpc_observe_lock_def creation_block_def Let_def by (intro node_rules)

lemma mining_logs: "keeps (mining dp chain time (world \<circ> snd)) (zoom fst (\<lambda>t (_, v). (t, v)) m)"
  by (auto simp: keeps_def mining_def zoom_apply mined_refl split: prod.split)

lemma mining_poll: "keeps (mining dp chain time (world \<circ> snd)) (observer_poll n sha iter)"
  unfolding observer_poll_def on_co_tracker_def poll_into_tracker_def
  by (intro node_rules mining_zoom [where sel = "world \<circ> snd"] mining_logs mining_modify) auto

lemma mining_observe:
  "keeps (mining dp chain time (world \<circ> snd)) (observe n sha iter (rpc_observe_lock n) h mc)"
  unfolding observe_def by (intro node_rules mining_poll mining_reader)

lemma mining_ask:
  "(\<And>w. mined dp chain time w (snd (q w))) \<Longrightarrow> keeps (mining dp chain time world) (ask q)"
  by (simp add: keeps_def mining_def ask_apply)

lemma mining_refresh:
  assumes "out_net u = n"
  shows "keeps (mining dp chain time (world \<circ> x_env)) (refresh_observations u)"
  unfolding refresh_observations_def on_x_env_def on_cp_observer_def on_own_observer_def set_ctx_def assms
  by (intro mining.keeps_rules mining_modify mining_zoom [where sel = world and get = x_env, OF mining_ask]
      mining_zoom [where sel = "world \<circ> snd", OF mining_observe]
      mining_zoom [where sel = "world \<circ> snd", OF mining_poll] clock) auto

lemma mining_call: "keeps (mining dp chain time world) (send_and_wait n q t)"
  unfolding send_and_wait_def by (intro node_rules)

lemma mining_locks:
  "keeps (mining dp chain time world) (lock n cr kc signer htlc r tk a h tm)"
  "keeps (mining dp chain time world) (lock_via_settlement n cr kc k signer config r tk a h tm)"
  unfolding lock_def lock_via_settlement_def approve_exact_def Let_def
  by (intro node_rules mining_call)+

lemma mining_settles:
  "keeps (mining dp chain time world) (redeem n signer htlc cid s)"
  "keeps (mining dp chain time world) (refund n signer htlc cid)"
  "keeps (mining dp chain time world) (refund_via_settlement n signer settlement cid)"
  unfolding redeem_def refund_def refund_via_settlement_def by (intro node_rules mining_call)+

lemma mining_x_env: "keeps (mining dp chain time world) m \<Longrightarrow> keeps (mining dp chain time (world \<circ> x_env)) (on_x_env m)"
  unfolding on_x_env_def by (rule mining_zoom) auto

lemma mining_broadcast:
  assumes "out_net u = n"
  shows "keeps (mining dp chain time (world \<circ> x_env)) (broadcast_lock u r tk a h tm)"
  unfolding broadcast_lock_def assms by (intro node_rules mining_x_env mining_locks)

lemma mining_step:
  assumes "out_net u = n"
  shows "keeps (mining dp chain time (world \<circ> x_env)) (step u)"
proof -
  note rules = node_rules mining_x_env mining_ask mining_modify mining_refresh [OF assms]
    mining_broadcast [OF assms] mining_settles random
  have "keeps (mining dp chain time (world \<circ> x_env)) (reverified_action u)"
    unfolding reverified_action_def by (intro rules)
  note rules = rules this
  have "keeps (mining dp chain time (world \<circ> x_env)) (step_generate u)"
    unfolding step_generate_def set_ctx_def set_state_def assms by (intro rules) auto
  moreover have "keeps (mining dp chain time (world \<circ> x_env)) (step_lock u planned r tk a h tm)" for planned r tk a h tm
    unfolding step_lock_def set_ctx_def set_state_def by (intro rules) auto
  moreover have "keeps (mining dp chain time (world \<circ> x_env)) (step_redeem u planned s)" for planned s
    unfolding step_redeem_def set_ctx_def set_state_def assms by (intro rules) auto
  moreover have "keeps (mining dp chain time (world \<circ> x_env)) (step_refund u)"
    unfolding step_refund_def set_ctx_def set_state_def assms by (intro rules) auto
  ultimately show ?thesis
    unfolding step_def set_state_def
    by (intro mining.keeps_thenE mining.keeps_bindE mining_refresh [OF assms] mining.keeps_gets)
      (auto split: NextAction.split intro!: rules)
qed

text \<open>What a refresh reads of the opposite leg was stored when it was read, in a state of the chain
  from which the present one has been mined.\<close>

lemma refresh_reads:
  assumes "refresh_observations u x = (Inr (), y)" and "out_net u = n"
    and "counterparty_lock (x_ctx y) = Some l" and "x_cp_contract_id y = Some cid"
    and node: "rv_provider (co_verifier (x_cp_observer x)) = p" "co_htlc (x_cp_observer x) = dp_htlc dp"
  shows "\<exists>v v' w1. rpc_observe_lock n (co_verifier (x_cp_observer x)) (dp_htlc dp) cid (x_min_confirmations x) v =
      (Inr (Confirmed l), v') \<and>
    fst (call_getSwap n p (dp_htlc dp) cid (world v)) = Inr (swaps (chain w1) cid) \<and>
    mined dp chain time w1 (world (x_env y))"
proof -
  obtain h ob v0 r v ob2 where
    obs: "observe n (out_sha u) (out_iter u) (rpc_observe_lock n) h (x_min_confirmations x)
        (x_cp_observer x, v0) = (Inr r, (ob, v))" "for_gate r = Some l"
    and cid: "discover_contract_id h ob = Some cid"
    and poll: "observer_poll n (out_sha u) (out_iter u) (x_own_observer x, v) = (Inr (), (ob2, x_env y))"
    using assms(1-4) unfolding refresh_observations_def
    by (auto simp: exec_Inr ask_def split: option.splits if_splits)
  have ob: "co_verifier ob = co_verifier (x_cp_observer x)" "co_htlc ob = dp_htlc dp"
    using keepsE [OF observe_grows obs(1)] node(2) by (simp_all add: observer_grows_def)
  from observe_fresh [OF obs] cid ob obtain v1 where
    read: "rpc_observe_lock n (co_verifier (x_cp_observer x)) (dp_htlc dp) cid (x_min_confirmations x) v1 =
      (Inr (Confirmed l), v)"
    by auto
  let ?w1 = "snd (call_getSwap n p (dp_htlc dp) cid (world v1))"
  from read obtain sw where sw: "fst (call_getSwap n p (dp_htlc dp) cid (world v1)) = Inr sw"
    and v: "world v = snd (get_logs n p (creation_filter (dp_htlc dp) cid)
      (snd (get_block_number n p ?w1)))"
    by (auto simp: rpc_observe_lock_Confirmed node(1) Let_def)
  have "sw = swaps (chain ?w1) cid" using sw by (intro stored) (simp add: prod_eq_iff)
  moreover have "mined dp chain time ?w1 (world v)"
    unfolding v by (rule mined_trans [OF block_number logs])
  moreover have "mined dp chain time (world v) (world (x_env y))"
    using keepsE [OF mining_poll poll] by (simp add: mining_def)
  ultimately show ?thesis
    using read sw by (intro exI [of _ v1] exI [of _ v] exI [of _ ?w1]) (auto intro: mined_trans)
qed

end

text \<open>How a step that reports a redeem went.\<close>

lemma other_arms:
  "step_generate u y \<noteq> (Inr S_RedeemedCounterpartyLeg, x')"
  "step_lock u planned r t a h tm y \<noteq> (Inr S_RedeemedCounterpartyLeg, x')"
  "step_refund u y \<noteq> (Inr S_RedeemedCounterpartyLeg, x')"
proof -
  show "step_generate u y \<noteq> (Inr S_RedeemedCounterpartyLeg, x')"
    unfolding step_generate_def by (simp add: exec_Inr)
  show "step_lock u planned r t a h tm y \<noteq> (Inr S_RedeemedCounterpartyLeg, x')"
    unfolding step_lock_def by (auto simp: exec_Inr split: if_splits)
  show "step_refund u y \<noteq> (Inr S_RedeemedCounterpartyLeg, x')"
    unfolding step_refund_def by (auto simp: exec_Inr split: if_splits)
qed

lemma redeemed_step:
  assumes "step u x = (Inr S_RedeemedCounterpartyLeg, x')"
  shows "\<exists>y z s cid rc v. refresh_observations u x = (Inr (), y) \<and> refresh_observations u y = (Inr (), z) \<and>
    decision z = A_RedeemCounterpartyLeg s \<and> x_cp_contract_id z = Some cid \<and>
    send_and_wait (out_net u) (cp_node z) (Redeem (x_cp_htlc z) cid s) (x_env z) = (Inr rc, v) \<and>
    x' = z\<lparr>x_env := v, x_state := redeemed_state (x_state z)\<rparr>"
proof -
  from assms obtain y where y: "refresh_observations u x = (Inr (), y)"
    and run: "(case decision y of
       A_GenerateSecret \<Rightarrow> step_generate u
     | A_LockMyLeg recipient token amount hashlock tm \<Rightarrow>
         step_lock u (decision y) recipient token amount hashlock tm
     | A_RedeemCounterpartyLeg secret \<Rightarrow> step_redeem u (decision y) secret
     | A_Refund \<Rightarrow> step_refund u
     | A_WaitForCounterpartyLock \<Rightarrow> ret S_Waiting
     | A_WaitForSecretReveal \<Rightarrow> ret S_Waiting
     | A_VerifyCounterpartyLeg \<Rightarrow> ret S_Waiting
     | A_Done \<Rightarrow> ret S_Terminal
     | A_Abort reason \<Rightarrow>
         thenE (set_state (\<lambda>_. Aborted reason)) (ret (S_Aborted reason))) y =
      (Inr S_RedeemedCounterpartyLeg, x')"
    unfolding step_def by (auto simp: exec_Inr)
  then obtain s where d: "decision y = A_RedeemCounterpartyLeg s"
    and red: "step_redeem u (decision y) s y = (Inr S_RedeemedCounterpartyLeg, x')"
    by (cases "decision y") (simp_all add: other_arms exec_Inr)
  from red obtain current z where rv: "reverified_action u y = (Inr current, z)"
    and tail: "(if \<not> reverified_action_matches (decision y) current then ret S_Waiting
     else
       bindE (gets id) (\<lambda>x.
       bindE (of_result (ok_or (Failed X_MissingCounterpartyContractId) (x_cp_contract_id x)))
         (\<lambda>cid.
       thenE (map_errE tx_error (on_x_env
                (redeem (out_net u) (x_cp_signer x) (x_cp_htlc x) cid s)))
      (thenE (set_state (\<lambda>st. if st = WaitingForSecret then advance st E_SecretObserved else st))
      (thenE (set_state (\<lambda>st. advance st E_RedeemConfirmed))
       (ret S_RedeemedCounterpartyLeg)))))) z = (Inr S_RedeemedCounterpartyLeg, x')"
    unfolding step_redeem_def bindE_Inr [of "reverified_action u"] by blast
  from rv have z: "refresh_observations u y = (Inr (), z)" and current: "current = decision z"
    by (simp_all add: reverified_action_def thenE_Inr gets_Inr)
  from tail have match: "reverified_action_matches (decision y) (decision z)"
    by (simp add: current ret_Inr split: if_splits)
  have rest: "\<exists>cid rc v. x_cp_contract_id z = Some cid \<and>
      send_and_wait (out_net u) (cp_node z) (Redeem (x_cp_htlc z) cid s) (x_env z) = (Inr rc, v) \<and>
      x' = z\<lparr>x_env := v, x_state := redeemed_state (x_state z)\<rparr>"
    using tail match by (auto simp: current exec_Inr redeem_def redeemed_state_def)
  have "decision z = A_RedeemCounterpartyLeg s"
    using reverified_action_matches_eq [OF match] d by simp
  with y z rest show ?thesis by blast
qed

text \<open>What has been paid for a swap that exists stays paid.\<close>

lemma payments_grow:
  assumes "sw_sender (swaps s cid) \<noteq> 0"
  shows "set (payments cid s) \<subseteq> set (payments cid (transact_all dp txs s))"
  using evolvesD [OF history_evolves assms, of dp txs] by (auto simp: life_defs Let_def)

lemma transact_once: "snd (transact dp now msg ks s) = transact_all dp [(now, msg, ks)] s"
  by simp

lemma swap_exists_in_history:
  "sw_sender (swaps s cid) \<noteq> 0 \<Longrightarrow> sw_sender (swaps (transact_all dp txs s) cid) \<noteq> 0"
  using swap_exists_later [OF history_evolves, of s cid dp txs] by simp

lemma collected_now:
  assumes "collected_or_collectable dp now who e cid preimage s t"
  shows "leg_payout e cid \<in> set (payments cid t) \<or> leg_payout e cid \<in>
    set (payments cid (snd (transact dp now (Message who 0 (RedeemCall cid preimage)) [] t)))"
proof (cases "payments cid t = payments cid s @ [leg_payout e cid]")
  case False
  obtain r t' where run: "transact dp now (Message who 0 (RedeemCall cid preimage)) [] t = (r, t')"
    by force
  with assms False have "payments cid t' = payments cid s @ [leg_payout e cid]"
    by (cases r) (simp_all add: collected_or_collectable_def)
  then show ?thesis by (simp add: run)
qed simp

text \<open>
  \<open>secured\<close>: some state of the chain the present one was mined from held the opposite leg, open,
  with the agreed hashlock, paying the agreed amount of the agreed token to the wallet, and
  redeemable until the deadline.
\<close>

definition agreed_payment :: "SwapContext \<Rightarrow> b32 \<Rightarrow> payment" where
  "agreed_payment c cid =
     \<lparr>pm_contract = cid, pm_to = ctx_me c, pm_token = cp_token c, pm_amount = ucast (cp_amount c)\<rparr>"

definition deadline :: "SwapContext \<Rightarrow> nat" where
  "deadline c =
     min (unat (case ctx_role c of Maker \<Rightarrow> my_timelock c | Taker \<Rightarrow> ctx_now c) + unat (min_gap c)) u64_max"

definition secured ::
  "deployment \<Rightarrow> ('w \<Rightarrow> chain_state) \<Rightarrow> ('w \<Rightarrow> u256) \<Rightarrow> SwapContext \<Rightarrow> b32 \<Rightarrow> 'w \<Rightarrow> bool" where
  "secured dp chain time c cid w \<longleftrightarrow>
     (\<exists>w0. mined dp chain time w0 w \<and> live (swaps (chain w0) cid) \<and>
        ctx_hashlock c = Some (sw_hashlock (swaps (chain w0) cid)) \<and>
        pays cid (swaps (chain w0) cid) (sw_recipient (swaps (chain w0) cid)) = agreed_payment c cid \<and>
        deadline c \<le> unat (sw_timelock (swaps (chain w0) cid)))"

lemma secured_mined: "secured dp chain time c cid w \<Longrightarrow> mined dp chain time w w' \<Longrightarrow> secured dp chain time c cid w'"
  unfolding secured_def by (blast intro: mined_trans)

lemma agreed_payment_terms: "terms c = terms d \<Longrightarrow> agreed_payment c = agreed_payment d"
  using terms_eqD [of c d] by (simp add: agreed_payment_def fun_eq_iff)

lemma deadline_terms: "terms c = terms d \<Longrightarrow> ctx_role c = Maker \<Longrightarrow> deadline c = deadline d"
  using terms_eqD [of c d] by (simp add: deadline_def)

lemma secured_terms:
  assumes "terms c = terms d" and "ctx_role c = Maker"
  shows "secured dp chain time c = secured dp chain time d"
  using agreed_payment_terms [OF assms(1)] deadline_terms [OF assms] terms_eqD [OF assms(1)]
  by (simp add: secured_def fun_eq_iff)

lemma verified_deadline:
  assumes "verify_counterparty_leg (expectation c) l = Safe"
  shows "deadline c \<le> unat (ol_timelock l)"
  using assms
  by (cases "ctx_role c")
    (simp_all add: verify_Safe_iff deadline_def expires_too_soon_def gap_too_small_def expectation_def not_less
      del: min_less_iff_conj)

text \<open>
  The wiring of a wallet to a node of the opposite chain: reader and signer use this node, both
  read and redeem on the deployment's HashedTimelock, and SHA-256 is SHA-256 on both sides.
\<close>

definition wired ::
  "deployment \<Rightarrow> ('p, 'w, 'sig, 'rid, 'vk, 'sk) outside \<Rightarrow> ('p, 'w) WalletExecutor \<Rightarrow> bool" where
  "wired dp u x \<longleftrightarrow>
     rv_provider (co_verifier (x_cp_observer x)) = cp_node x \<and>
     co_htlc (x_cp_observer x) = dp_htlc dp \<and> x_cp_htlc x = dp_htlc dp \<and> dp_sha256 dp = out_sha u \<and>
     cp_token (x_ctx x) \<notin> {dp_htlc dp, dp_settlement dp} \<and> ctx_me (x_ctx x) \<noteq> dp_htlc dp \<and>
     sg_address (x_cp_signer x) \<notin> {0, dp_htlc dp, dp_settlement dp}"

lemma wired_observes:
  assumes "observes sha x y"
  shows "wired dp u y = wired dp u x"
  using assms terms_eqD [of "x_ctx y" "x_ctx x"]
  by (auto simp: wired_def observes_def observing_def observer_grows_def same_setup_def)


lemma wired_upd [simp]:
  "wired dp u (x\<lparr>x_env := v\<rparr>) = wired dp u x"
  "wired dp u (x\<lparr>x_state := st\<rparr>) = wired dp u x"
  "wired dp u (x\<lparr>x_own_contract_id := cid\<rparr>) = wired dp u x"
  "cp_token c = cp_token (x_ctx x) \<Longrightarrow> ctx_me c = ctx_me (x_ctx x) \<Longrightarrow>
     wired dp u (x\<lparr>x_ctx := c\<rparr>) = wired dp u x"
  by (simp_all add: wired_def)

text \<open>What every step keeps of the opposite side: the wiring, and the contract discovered.\<close>

lemma wallet_step_cp_side:
  "wallet_step u x r txs x' \<Longrightarrow>
     wired dp u x' = wired dp u x \<and> x_cp_signer x' = x_cp_signer x \<and>
     observer_grows (out_sha u) (x_cp_observer x) (x_cp_observer x')"
  by (induction rule: wallet_step.induct)
    (auto simp: wired_observes, auto simp: wired_def observes_def observing_def same_setup_def)

lemma refresh_cp_id:
  assumes "refresh_observations u x = (Inr (), y)" and "ctx_hashlock (x_ctx x) = Some h"
  shows "x_cp_contract_id y = discover_contract_id h (x_cp_observer y)"
  using assms unfolding refresh_observations_def
  by (auto simp: exec_Inr ask_def split: option.splits if_splits)

context chain_node
begin

text \<open>A refresh that opens the gate has secured the leg the wallet would redeem.\<close>

lemma refresh_secures:
  assumes "refresh_observations u x = (Inr (), y)" and net: "out_net u = n" and p: "cp_node x = p"
    and wired: "wired dp u x" and gate: "gate_open (x_ctx y)"
  shows "\<exists>cid h. ctx_hashlock (x_ctx y) = Some h \<and> x_cp_contract_id y = Some cid \<and>
    discover_contract_id h (x_cp_observer y) = Some cid \<and> secured dp chain time (x_ctx y) cid (world (x_env y))"
proof -
  from gate obtain l where l: "counterparty_lock (x_ctx y) = Some l"
    and safe: "verify_counterparty_leg (expectation (x_ctx y)) l = Safe"
    by (auto simp: gate_open_def)
  from refresh_cases [of u x] assms(1) have ok: "observes (out_sha u) x y" "refreshed u y" by force+
  then obtain h cid where h: "ctx_hashlock (x_ctx y) = Some h" and cid: "x_cp_contract_id y = Some cid"
    using l by (auto simp: refreshed_def fresh_lock_def)
  have terms: "terms (x_ctx y) = terms (x_ctx x)" using ok by (simp add: observes_def observing_def)
  have cid': "discover_contract_id h (x_cp_observer y) = Some cid"
    using refresh_cp_id [OF assms(1)] h cid terms_eqD [OF terms] by simp
  have reader: "rv_provider (co_verifier (x_cp_observer x)) = p" "co_htlc (x_cp_observer x) = dp_htlc dp"
    using wired p by (simp_all add: wired_def)
  from refresh_reads [OF assms(1) net l cid reader] obtain v v' w0 where
    read: "rpc_observe_lock n (co_verifier (x_cp_observer x)) (dp_htlc dp) cid (x_min_confirmations x) v =
        (Inr (Confirmed l), v')"
      "fst (call_getSwap n p (dp_htlc dp) cid (world v)) = Inr (swaps (chain w0) cid)"
    and since: "mined dp chain time w0 (world (x_env y))"
    by blast
  have "live (swaps (chain w0) cid) \<and> sw_hashlock (swaps (chain w0) cid) = expected_hashlock (expectation (x_ctx y)) \<and>
      pays cid (swaps (chain w0) cid) (sw_recipient (swaps (chain w0) cid)) = leg_payout (expectation (x_ctx y)) cid \<and>
      unat (sw_timelock (swaps (chain w0) cid)) = unat (ol_timelock l)"
    by (rule safe_swap [OF read(1) _ safe]) (simp add: reader read(2))
  moreover have "leg_payout (expectation (x_ctx y)) cid = agreed_payment (x_ctx y) cid"
    "expected_hashlock (expectation (x_ctx y)) = h"
    using h by (simp_all add: leg_payout_def agreed_payment_def expectation_def)
  ultimately have "secured dp chain time (x_ctx y) cid (world (x_env y))"
    using since h verified_deadline [OF safe] unfolding secured_def by auto
  with h cid cid' show ?thesis by blast
qed

text \<open>What the receipt of a transaction that reaches a contract stands for.\<close>

lemma call_is_mined:
  assumes "send_and_wait n p t v = (Inr rc, v')" and "message_of dp who t = Some msg"
  shows "\<exists>w1 w2. mined dp chain time (world v) w1 \<and> time w2 = time w1 \<and>
    chain w2 = snd (transact dp (time w1) msg [] (chain w1)) \<and> mined dp chain time w2 (world v')"
proof -
  from assms(1) obtain h w2 where sent: "send_transaction n p t (world v) = (Inr h, w2)"
    and wait: "await_receipt n p h w2 = (Inr rc, world v')"
    by (auto simp: send_and_wait_def eff_simps prod_eq_iff split: prod.splits sum.splits)
  show ?thesis by (rule included [OF sent wait assms(2)])
qed

text \<open>A redeem of a secured leg, with a preimage and before the deadline, is paid.\<close>

lemma secured_redeem_pays:
  assumes "secured dp chain time c cid (world v)"
    and preimage: "Some (dp_sha256 dp (bytes_of preimage)) = ctx_hashlock c"
    and sent: "send_and_wait n p (Redeem (dp_htlc dp) cid preimage) v = (Inr rc, v')"
    and clock: "unat (time (world v')) < deadline c"
    and parties: "cp_token c \<notin> {dp_htlc dp, dp_settlement dp}" "ctx_me c \<noteq> dp_htlc dp"
      "who \<notin> {0, dp_htlc dp, dp_settlement dp}"
  shows "agreed_payment c cid \<in> set (payments cid (chain (world v')))"
proof -
  let ?e = "expectation c"
  have payout: "leg_payout ?e cid = agreed_payment c cid" "ctx_hashlock c = Some h \<Longrightarrow> expected_hashlock ?e = h" for h
    by (simp_all add: leg_payout_def agreed_payment_def expectation_def)
  from assms(1) obtain w0 where since: "mined dp chain time w0 (world v)"
    and stored: "live (swaps (chain w0) cid)" "sw_hashlock (swaps (chain w0) cid) = expected_hashlock ?e"
      "pays cid (swaps (chain w0) cid) (sw_recipient (swaps (chain w0) cid)) = leg_payout ?e cid"
    and h: "ctx_hashlock c = Some (sw_hashlock (swaps (chain w0) cid))"
    and "deadline c \<le> unat (sw_timelock (swaps (chain w0) cid))"
    unfolding secured_def by (auto simp: payout)
  with clock have end_time: "time (world v') < sw_timelock (swaps (chain w0) cid)"
    by (simp add: word_less_nat_alt)
  have "message_of dp who (Redeem (dp_htlc dp) cid preimage) = Some (Message who 0 (RedeemCall cid preimage))"
    by simp
  from call_is_mined [OF sent this] obtain w1 w2 where w1: "mined dp chain time (world v) w1"
    and w2: "time w2 = time w1" "mined dp chain time w2 (world v')"
      "chain w2 = snd (transact dp (time w1) (Message who 0 (RedeemCall cid preimage)) [] (chain w1))"
    by blast
  from mined_trans [OF since w1] obtain between where
    between: "list_all (\<lambda>tx. fst tx \<le> time w1) between" "chain w1 = transact_all dp between (chain w0)"
    by (auto simp: mined_def list_all_iff)
  from w2(2) obtain after where after: "chain (world v') = transact_all dp after (chain w2)"
    and "time w1 \<le> time (world v')"
    by (auto simp: mined_def w2(1))
  then have in_time: "time w1 < sw_timelock (swaps (chain w0) cid)" using end_time by simp
  have e: "sw_sender (swaps (chain w0) cid) \<noteq> 0" using stored(1) by (simp add: live_def)
  have covers: "covers 0 (chain w0)" using reachable [of w0] reachable_covers by auto
  have hash: "dp_sha256 dp (bytes_of preimage) = expected_hashlock ?e"
    using preimage h stored(2) by simp
  have "collected_or_collectable dp (time w1) who ?e cid preimage (chain w0) (chain w1)"
    unfolding between(2)
    by (rule safe_leg_stays_collectable [OF stored covers hash in_time between(1)])
      (use parties in \<open>simp_all add: expectation_def\<close>)
  from collected_now [OF this]
  have "leg_payout ?e cid \<in> set (payments cid (chain w1)) \<or> leg_payout ?e cid \<in> set (payments cid (chain w2))"
    unfolding w2(3) .
  moreover have "set (payments cid (chain w1)) \<subseteq> set (payments cid (chain w2))"
    unfolding w2(3) transact_once between(2) by (intro payments_grow swap_exists_in_history e)
  ultimately have "agreed_payment c cid \<in> set (payments cid (chain w2))" by (auto simp: payout)
  moreover have "sw_sender (swaps (chain w2) cid) \<noteq> 0"
    unfolding w2(3) transact_once between(2) by (intro swap_exists_in_history e)
  ultimately show ?thesis unfolding after using payments_grow by blast
qed

end

text \<open>How the maker comes to hold an own leg: by a lock decided while the gate was open.\<close>

lemma reverified_Inr:
  "reverified_action u y = (Inr a, z) \<longleftrightarrow> refresh_observations u y = (Inr (), z) \<and> a = decision z"
  by (auto simp: reverified_action_def thenE_Inr gets_Inr)

lemma refresh_observes: "refresh_observations u x = (r, y) \<Longrightarrow> observes (out_sha u) x y"
  using refresh_cases [of u x] by (metis prod.inject)

lemma observes_ok: "observes sha x y \<Longrightarrow> wallet_ok sha h x \<Longrightarrow> wallet_ok sha h y"
  by (simp add: observes_def)

lemma wallet_ok_hashlock: "wallet_ok sha h x \<Longrightarrow> ctx_hashlock (x_ctx x) = Some h"
  by (simp add: wallet_ok_def)

lemma refresh_state: "refresh_observations u x = (r, y) \<Longrightarrow> x_state y = x_state x"
  by (rule observing_setup(4) [OF refresh_observes])

lemma maker_takes_leg:
  assumes "wallet_step u x r txs x'" and "ctx_role (x_ctx x) = Maker"
    and "x_state x' \<in> {WaitingForSecret, SecretLearned}" and "x_state x' \<noteq> x_state x"
  shows "\<exists>cid. r \<in> {Inr S_Waiting, Inr (S_LockedMyLeg cid)}"
  using assms
  by (induction rule: wallet_step.induct)
    (auto simp: observing_setup observing_role next_action_iffs redeemed_state_def advance_def
      dest: observing_role)

lemma locked_step:
  assumes run: "step u x = (r, x')" and maker: "ctx_role (x_ctx x) = Maker"
    and "x_state x' \<in> {WaitingForSecret, SecretLearned}" and new: "x_state x' \<noteq> x_state x"
  shows "\<exists>y z z'. refresh_observations u x = (Inr (), y) \<and> refresh_observations u y = (Inr (), z) \<and>
    gate_open (x_ctx z) \<and> (z' = z \<or> (\<exists>rc tk a h tm l. broadcast_lock u rc tk a h tm z = (Inr l, z'))) \<and>
    x_env x' = x_env z' \<and> x_cp_observer x' = x_cp_observer z \<and> terms (x_ctx x') = terms (x_ctx z)"
proof -
  from maker_takes_leg [OF sent_by_step [OF run] assms(2-4)] obtain cid where
    r: "r = Inr S_Waiting \<or> r = Inr (S_LockedMyLeg cid)" by blast
  obtain y where y: "refresh_observations u x = (Inr (), y)"
    using run r unfolding step_def by (auto simp: thenE_apply split: prod.splits sum.splits)
  have role: "ctx_role (x_ctx y) = Maker" "x_state y = x_state x"
    using refresh_cases [of u x] y maker observing_role observing_setup(4) by (metis prod.inject)+
  show ?thesis
  proof (cases "decision y")
    case (A_LockMyLeg rc tk a h tm)
    from r obtain oc where oc: "r = Inr oc" by blast
    have "step_lock u (decision y) rc tk a h tm y = (Inr oc, x')"
      using run y A_LockMyLeg by (simp add: step_def exec_Inr oc)
    then obtain z where z: "refresh_observations u y = (Inr (), z)"
      and tail: "(if \<not> reverified_action_matches (decision y) (decision z) then ret S_Waiting
        else bindE (gets x_own_contract_id) (\<lambda>own.
          if own \<noteq> None then
            thenE (set_ctx (\<lambda>c. c\<lparr>my_leg_locked := True\<rparr>))
           (thenE (set_state (\<lambda>st. advance st E_MyLegConfirmed)) (ret S_Waiting))
          else bindE (broadcast_lock u rc tk a h tm) (\<lambda>locked.
            thenE (modify (\<lambda>x. x\<lparr>x_own_contract_id := Some (lk_contract_id locked)\<rparr>))
           (thenE (set_ctx (\<lambda>c. c\<lparr>my_leg_locked := True\<rparr>))
           (thenE (set_state (\<lambda>st. advance st E_MyLegConfirmed))
            (ret (S_LockedMyLeg (lk_contract_id locked)))))))) z = (Inr oc, x')"
      unfolding step_lock_def bindE_Inr [of "reverified_action u"] reverified_Inr by blast
    have z_role: "ctx_role (x_ctx z) = Maker" "x_state z = x_state x"
      using refresh_cases [of u y] z role observing_role observing_setup(4) by (metis prod.inject)+
    have match: "reverified_action_matches (decision y) (decision z)"
      using tail new z_role by (auto simp: ret_Inr split: if_splits)
    then have "decision z = A_LockMyLeg rc tk a h tm"
      using reverified_action_matches_eq A_LockMyLeg by metis
    then have gate: "gate_open (x_ctx z)" using z_role by (simp add: next_action_lock_iff)
    show ?thesis
    proof (cases "x_own_contract_id z")
      case None
      with tail match obtain l z' where "broadcast_lock u rc tk a h tm z = (Inr l, z')"
        "x_env x' = x_env z'" "x_cp_observer x' = x_cp_observer z'" "x_ctx x' = (x_ctx z')\<lparr>my_leg_locked := True\<rparr>"
        by (auto simp: exec_Inr)
      moreover from this(1) have "x_cp_observer z' = x_cp_observer z" "x_ctx z' = x_ctx z"
        using broadcast_lock_outcome by force+
      ultimately show ?thesis using y z gate
        by (intro exI [of _ y] exI [of _ z] exI [of _ z']) auto
    next
      case (Some own)
      with tail match show ?thesis using y z gate
        by (intro exI [of _ y] exI [of _ z] exI [of _ z]) (auto simp: exec_Inr)
    qed
  next
    case A_GenerateSecret
    then show ?thesis using role by (simp add: next_action_generate_iff)
  next
    case (A_RedeemCounterpartyLeg s)
    with run y r have "step_redeem u (decision y) s y = (Inr S_Waiting, x') \<or>
        step_redeem u (decision y) s y = (Inr (S_LockedMyLeg cid), x')"
      by (auto simp: step_def exec_Inr)
    then have "refresh_observations u y = (Inr (), x')"
      unfolding step_redeem_def bindE_Inr [of "reverified_action u"] reverified_Inr
      by (auto simp: exec_Inr split: if_splits)
    then show ?thesis using new role refresh_state by metis
  next
    case A_Refund
    with run y r have "step_refund u y = (Inr S_Waiting, x') \<or> step_refund u y = (Inr (S_LockedMyLeg cid), x')"
      by (auto simp: step_def exec_Inr)
    then have "x' = y" unfolding step_refund_def by (auto simp: exec_Inr split: if_splits)
    then show ?thesis using new role by simp
  qed (use run r y role new in \<open>auto simp: step_def exec_Inr eff_simps set_state_def\<close>)
qed

text \<open>
  The maker's invariant: while it waits for the secret, or has learned it, the leg it discovered
  is secured.
\<close>

definition maker_secured ::
  "deployment \<Rightarrow> ('w \<Rightarrow> chain_state) \<Rightarrow> ('w \<Rightarrow> u256) \<Rightarrow> ('p, 'w) WalletExecutor \<Rightarrow> bool" where
  "maker_secured dp chain time x \<longleftrightarrow>
     (x_state x \<in> {WaitingForSecret, SecretLearned} \<longrightarrow>
        (\<exists>h cid. ctx_hashlock (x_ctx x) = Some h \<and>
           discover_contract_id h (x_cp_observer x) = Some cid \<and>
           secured dp chain time (x_ctx x) cid (world (x_env x))))"

lemma sound_step:
  assumes "step u x = (r, x')" and "wallet_ok (out_sha u) h x"
  shows "wallet_ok (out_sha u) h x'" "terms (x_ctx x') = terms (x_ctx x)" "ctx_role (x_ctx x') = ctx_role (x_ctx x)"
    "ctx_hashlock (x_ctx x') = Some h" "cp_node x' = cp_node x" "wired dp u x' = wired dp u x"
    "observer_grows (out_sha u) (x_cp_observer x) (x_cp_observer x')"
proof -
  note run = sent_by_step [OF assms(1)]
  from wallet_step_ok [OF run assms(2)] have ok: "wallet_ok (out_sha u) h x'" "same_swap x x'" by auto
  then show "wallet_ok (out_sha u) h x'" and terms: "terms (x_ctx x') = terms (x_ctx x)"
    by (simp_all add: same_swap_def)
  show "ctx_role (x_ctx x') = ctx_role (x_ctx x)" using terms_eqD [OF terms] by simp
  show "ctx_hashlock (x_ctx x') = Some h" using ok(1) by (simp add: wallet_ok_def)
  from wallet_step_cp_side [OF run] show "cp_node x' = cp_node x" "wired dp u x' = wired dp u x"
    "observer_grows (out_sha u) (x_cp_observer x) (x_cp_observer x')" by simp_all
qed

context chain_node
begin

lemma step_mines: "step u x = (r, x') \<Longrightarrow> out_net u = n \<Longrightarrow> mined dp chain time (world (x_env x)) (world (x_env x'))"
  using keepsE [OF mining_step] by (fastforce simp: mining_def)

lemma refresh_mines:
  "refresh_observations u x = (r, y) \<Longrightarrow> out_net u = n \<Longrightarrow> mined dp chain time (world (x_env x)) (world (x_env y))"
  using keepsE [OF mining_refresh] by (fastforce simp: mining_def)

lemma broadcast_mines:
  "broadcast_lock u rc tk a h tm z = (r, z') \<Longrightarrow> out_net u = n \<Longrightarrow> mined dp chain time (world (x_env z)) (world (x_env z'))"
  using keepsE [OF mining_broadcast] by (fastforce simp: mining_def)

lemma maker_stays_secured:
  assumes run: "step u x = (r, x')" and net: "out_net u = n" "cp_node x = p" and wired: "wired dp u x"
    and ok: "wallet_ok (out_sha u) h x" and maker: "ctx_role (x_ctx x) = Maker"
    and inv: "maker_secured dp chain time x"
  shows "maker_secured dp chain time x'"
proof (cases "x_state x' \<in> {WaitingForSecret, SecretLearned}")
  case True
  note same = sound_step [OF run ok]
  show ?thesis
  proof (cases "x_state x' = x_state x")
    case kept: True
    with inv True obtain cid where cid: "discover_contract_id h (x_cp_observer x) = Some cid"
      "secured dp chain time (x_ctx x) cid (world (x_env x))"
      using ok by (auto simp: maker_secured_def wallet_ok_def)
    from secured_mined [OF cid(2) step_mines [OF run net(1)]]
    have "secured dp chain time (x_ctx x') cid (world (x_env x'))"
      by (simp add: secured_terms [OF same(2)] same(3) maker)
    then show ?thesis using cid(1) same(4,7) by (auto simp: maker_secured_def observer_grows_def)
  next
    case False
    from locked_step [OF run maker True False] obtain y z z' where
      y: "refresh_observations u x = (Inr (), y)" and z: "refresh_observations u y = (Inr (), z)"
      and gate: "gate_open (x_ctx z)"
      and lock: "z' = z \<or> (\<exists>rc tk a h tm l. broadcast_lock u rc tk a h tm z = (Inr l, z'))"
      and x': "x_env x' = x_env z'" "x_cp_observer x' = x_cp_observer z" "terms (x_ctx x') = terms (x_ctx z)"
      by (elim exE conjE) (rule that)
    note xy = refresh_observes [OF y]
    have cp: "cp_node y = p" unfolding observing_setup(2) [OF xy] by (rule net(2))
    have wy: "wired dp u y" unfolding wired_observes [OF xy] by (rule wired)
    from refresh_secures [OF z net(1) cp wy gate] obtain cid h' where
      cid: "ctx_hashlock (x_ctx z) = Some h'" "discover_contract_id h' (x_cp_observer z) = Some cid"
        "secured dp chain time (x_ctx z) cid (world (x_env z))" by blast
    have "mined dp chain time (world (x_env z)) (world (x_env x'))"
      using lock by (auto simp: x'(1) intro: mined_refl broadcast_mines [OF _ net(1)])
    from secured_mined [OF cid(3) this] have "secured dp chain time (x_ctx x') cid (world (x_env x'))"
      by (simp add: secured_terms [OF x'(3)] same(3) maker)
    moreover have "ctx_hashlock (x_ctx x') = Some h'" using terms_eqD [OF x'(3)] cid(1) by simp
    ultimately show ?thesis using cid(2) by (auto simp: maker_secured_def x'(2))
  qed
qed (simp add: maker_secured_def)

text \<open>A redeem that a wallet reports is paid, if the leg was secured when it was sent.\<close>

lemma reported_paid:
  assumes z: "refresh_observations u y = (Inr (), z)" and net: "out_net u = n" "cp_node z = p"
    and who: "sg_address (x_cp_signer z) = who" and wired: "wired dp u z" and ok: "wallet_ok (out_sha u) h z"
    and d: "decision z = A_RedeemCounterpartyLeg s"
    and sec: "secured dp chain time (x_ctx z) cid (world (x_env z))"
    and sent: "send_and_wait (out_net u) (cp_node z) (Redeem (x_cp_htlc z) cid s) (x_env z) = (Inr rc, v)"
    and clock: "unat (time (world v)) < deadline (x_ctx z)"
  shows "agreed_payment (x_ctx z) cid \<in> set (payments cid (chain (world v)))"
proof (rule secured_redeem_pays [OF sec _ _ clock])
  show "Some (dp_sha256 dp (bytes_of s)) = ctx_hashlock (x_ctx z)"
    using d ok wired by (auto simp: next_action_redeem_iff wallet_ok_def wired_def hashlock_from_preimage_def)
  show "send_and_wait n p (Redeem (dp_htlc dp) cid s) (x_env z) = (Inr rc, v)"
    using sent wired by (simp add: net wired_def)
qed (use wired who in \<open>simp_all add: wired_def\<close>)

lemma paid_mined:
  assumes "secured dp chain time c cid w" and "pm \<in> set (payments cid (chain w))" and "mined dp chain time w w'"
  shows "pm \<in> set (payments cid (chain w'))"
proof -
  from assms(1) obtain w0 txs where w: "sw_sender (swaps (chain w0) cid) \<noteq> 0"
    "chain w = transact_all dp txs (chain w0)"
    by (auto simp: secured_def mined_def live_def)
  have "sw_sender (swaps (chain w) cid) \<noteq> 0"
    unfolding w(2) by (rule swap_exists_in_history) (rule w(1))
  moreover from assms(3) obtain txs where "chain w' = transact_all dp txs (chain w)"
    by (auto simp: mined_def)
  ultimately show ?thesis using assms(2) subsetD [OF payments_grow] by auto
qed

lemma maker_redeem_paid:
  assumes run: "step u x = (Inr S_RedeemedCounterpartyLeg, x')" and net: "out_net u = n" "cp_node x = p"
    and who: "sg_address (x_cp_signer x) = who" and wired: "wired dp u x" and ok: "wallet_ok (out_sha u) h x"
    and maker: "ctx_role (x_ctx x) = Maker" and inv: "maker_secured dp chain time x"
    and clock: "unat (time (world (x_env x'))) < deadline (x_ctx x)"
  shows "\<exists>cid. secured dp chain time (x_ctx x) cid (world (x_env x')) \<and>
    agreed_payment (x_ctx x) cid \<in> set (payments cid (chain (world (x_env x'))))"
proof -
  from redeemed_step [OF run] obtain y z s cid rc v where
    y: "refresh_observations u x = (Inr (), y)" and z: "refresh_observations u y = (Inr (), z)"
    and d: "decision z = A_RedeemCounterpartyLeg s" and cid: "x_cp_contract_id z = Some cid"
    and sent: "send_and_wait (out_net u) (cp_node z) (Redeem (x_cp_htlc z) cid s) (x_env z) = (Inr rc, v)"
    and x': "x' = z\<lparr>x_env := v, x_state := redeemed_state (x_state z)\<rparr>"
    by (elim exE conjE) (rule that)
  note xz = observing_trans [OF refresh_observes [OF y] refresh_observes [OF z]]
  have terms: "terms (x_ctx z) = terms (x_ctx x)" and signer: "x_cp_signer z = x_cp_signer x"
    and grows: "observer_grows (out_sha u) (x_cp_observer x) (x_cp_observer z)"
    using xz by (simp_all add: observes_def observing_def same_setup_def)
  note okz = observes_ok [OF xz ok] and hy = wallet_ok_hashlock [OF observes_ok [OF refresh_observes [OF y] ok]]
  have rolez: "ctx_role (x_ctx z) = Maker" using maker observing_role [OF xz] by simp
  have "x_state x \<in> {WaitingForSecret, SecretLearned}"
    using d rolez observing_setup(4) [OF xz] by (auto simp: next_action_redeem_iff)
  with inv obtain cid' where found: "discover_contract_id h (x_cp_observer x) = Some cid'"
    and sec: "secured dp chain time (x_ctx x) cid' (world (x_env x))"
    by (auto simp: maker_secured_def wallet_ok_hashlock [OF ok])
  have "cid' = cid"
    using refresh_cp_id [OF z hy] cid found grows by (auto simp: observer_grows_def)
  moreover have "mined dp chain time (world (x_env x)) (world (x_env z))"
    by (rule mined_trans [OF refresh_mines [OF y net(1)] refresh_mines [OF z net(1)]])
  ultimately have secx: "secured dp chain time (x_ctx x) cid (world (x_env z))"
    using secured_mined [OF sec] by simp
  then have secz: "secured dp chain time (x_ctx z) cid (world (x_env z))"
    by (simp add: secured_terms [OF terms rolez])
  have "agreed_payment (x_ctx z) cid \<in> set (payments cid (chain (world v)))"
  proof (rule reported_paid [OF z net(1) _ _ _ okz d secz sent])
    show "wired dp u z" unfolding wired_observes [OF xz] by (rule wired)
    show "unat (time (world v)) < deadline (x_ctx z)"
      using clock by (simp add: x' deadline_terms [OF terms rolez])
  qed (simp_all add: signer net who)
  moreover have "mined dp chain time (world (x_env z)) (world v)"
    using keepsE [OF mining_call] sent unfolding net(1) by (fastforce simp: mining_def)
  ultimately show ?thesis
    using secured_mined [OF secx] by (auto simp: x' agreed_payment_terms [OF terms])
qed

lemma steps_mine:
  assumes net: "out_net u = n"
  shows "steps k u x = (rs, x') \<Longrightarrow> mined dp chain time (world (x_env x)) (world (x_env x'))"
proof (induction k arbitrary: x rs)
  case (Suc k)
  then show ?case by (auto split: prod.splits intro: mined_trans step_mines [OF _ net])
qed (simp add: mined_refl)

lemma maker_steps_paid:
  assumes net: "out_net u = n"
  shows "steps k u x = (rs, x') \<Longrightarrow> cp_node x = p \<Longrightarrow> sg_address (x_cp_signer x) = who \<Longrightarrow> wired dp u x \<Longrightarrow>
    wallet_ok (out_sha u) h x \<Longrightarrow> ctx_role (x_ctx x) = Maker \<Longrightarrow> maker_secured dp chain time x \<Longrightarrow>
    unat (time (world (x_env x'))) < deadline (x_ctx x) \<Longrightarrow> Inr S_RedeemedCounterpartyLeg \<in> set rs \<Longrightarrow>
    \<exists>cid. agreed_payment (x_ctx x) cid \<in> set (payments cid (chain (world (x_env x'))))"
proof (induction k arbitrary: x rs)
  case (Suc k)
  obtain r y where run: "step u x = (r, y)" by force
  obtain rs' where rest: "steps k u y = (rs', x')" and rs: "rs = r # rs'"
    using Suc.prems(1) run by (auto split: prod.splits)
  note same = sound_step [OF run Suc.prems(5)]
  have end_mined: "mined dp chain time (world (x_env y)) (world (x_env x'))"
    by (rule steps_mine [OF net rest])
  show ?case
  proof (cases "r = Inr S_RedeemedCounterpartyLeg")
    case True
    have "time (world (x_env y)) \<le> time (world (x_env x'))" using end_mined by (simp add: mined_def)
    then have "unat (time (world (x_env y))) < deadline (x_ctx x)"
      using Suc.prems(8) by (simp add: word_le_nat_alt)
    from maker_redeem_paid [OF run [unfolded True] net Suc.prems(2-7) this] show ?thesis
      using paid_mined [OF _ _ end_mined] by blast
  next
    case False
    have terms: "deadline (x_ctx y) = deadline (x_ctx x)" "agreed_payment (x_ctx y) = agreed_payment (x_ctx x)"
      using deadline_terms [OF same(2)] agreed_payment_terms [OF same(2)] same(3) Suc.prems(6) by simp_all
    have signer: "x_cp_signer y = x_cp_signer x"
      using wallet_step_cp_side [OF sent_by_step [OF run]] by simp
    have "maker_secured dp chain time y"
      by (rule maker_stays_secured [OF run net Suc.prems(2,4-7)])
    moreover have "Inr S_RedeemedCounterpartyLeg \<in> set rs'" using Suc.prems(9) False rs by auto
    ultimately show ?thesis
      using Suc.IH [OF rest] same(1,3,6) Suc.prems(2-6,8) unfolding terms signer by simp
  qed
qed simp

end

text \<open>
  C4. A redeem the taker reports has been paid. Take a taker, wired to a node that serves the
  contracts of the opposite chain, on which others may transact before, between and after the
  wallet's calls as they like. When a step reports \<open>RedeemedCounterpartyLeg\<close>, and the chain's
  clock has not moved \<open>min_gap\<close> seconds past the clock the wallet read, then the chain has paid
  exactly the agreed amount of the agreed token to the wallet's own address, under the contract
  id the wallet verified. So although the receipt's status is never looked at, a redeem of a leg
  that was verified does not revert in time.
\<close>

theorem reported_redeem_pays:
  assumes node: "chain_node (out_net u) (cp_node x) dp chain time (sg_address (x_cp_signer x))"
    and wired: "wired dp u x" and ok: "wallet_ok (out_sha u) h x" and taker: "ctx_role (x_ctx x) = Taker"
    and step: "step u x = (Inr S_RedeemedCounterpartyLeg, x')"
    and in_time: "unat (time (world (x_env x'))) <
      min (unat (ctx_now (x_ctx x')) + unat (min_gap (x_ctx x))) u64_max"
  shows "\<exists>cid. x_cp_contract_id x' = Some cid \<and>
    agreed_payment (x_ctx x) cid \<in> set (payments cid (chain (world (x_env x'))))"
proof -
  from redeemed_step [OF step] obtain y z s cid rc v where
    y: "refresh_observations u x = (Inr (), y)" and z: "refresh_observations u y = (Inr (), z)"
    and d: "decision z = A_RedeemCounterpartyLeg s" and cid: "x_cp_contract_id z = Some cid"
    and sent: "send_and_wait (out_net u) (cp_node z) (Redeem (x_cp_htlc z) cid s) (x_env z) = (Inr rc, v)"
    and x': "x' = z\<lparr>x_env := v, x_state := redeemed_state (x_state z)\<rparr>"
    by (elim exE conjE) (rule that)
  note xy = refresh_observes [OF y]
  note xz = observing_trans [OF xy refresh_observes [OF z]]
  have terms: "terms (x_ctx z) = terms (x_ctx x)" and signer: "x_cp_signer z = x_cp_signer x"
    using xz by (simp_all add: observes_def observing_def same_setup_def)
  have wired_y: "wired dp u y" and wired_z: "wired dp u z"
    by (simp_all add: wired wired_observes [OF xy] wired_observes [OF xz])
  have role: "ctx_role (x_ctx z) = Taker" using taker observing_role [OF xz] by simp
  with d have "gate_open (x_ctx z)" by (auto simp: next_action_redeem_iff)
  from chain_node.refresh_secures [OF node z refl observing_setup(2) [OF xy] wired_y this]
  have sec: "secured dp chain time (x_ctx z) cid (world (x_env z))" by (auto simp: cid)
  have "unat (time (world v)) < deadline (x_ctx z)"
    using in_time terms_eqD [OF terms] by (simp add: x' deadline_def role del: min_less_iff_conj)
  from chain_node.reported_paid [OF node z refl _ _ wired_z observes_ok [OF xz ok] d sec sent this]
  show ?thesis by (simp add: signer x' cid agreed_payment_terms [OF terms])
qed

text \<open>
  C3. A redeem the maker reports has been paid. Take a maker at its start, wired to a node that
  serves the contracts of the opposite chain, on which others may transact as they like, and
  call \<open>step\<close> any number of times, whatever else the nodes answer and whatever errors are retried.
  If one of the calls reported \<open>RedeemedCounterpartyLeg\<close>, and the opposite chain's clock has not
  reached \<open>min_gap\<close> seconds after the maker's own timelock, then the chain has paid the agreed
  amount of the agreed token to the maker's own address. The leg is the one the maker verified
  before it locked: it is not verified again before the redeem, and need not be.
\<close>

theorem maker_redeem_pays:
  assumes node: "chain_node (out_net u) (cp_node x) dp chain time (sg_address (x_cp_signer x))"
    and wired: "wired dp u x" and ok: "wallet_ok (out_sha u) h x"
    and maker: "ctx_role (x_ctx x) = Maker" "x_state x = Start"
    and steps: "steps k u x = (rs, x')" "Inr S_RedeemedCounterpartyLeg \<in> set rs"
    and in_time: "unat (time (world (x_env x'))) <
      min (unat (my_timelock (x_ctx x)) + unat (min_gap (x_ctx x))) u64_max"
  shows "\<exists>cid. agreed_payment (x_ctx x) cid \<in> set (payments cid (chain (world (x_env x'))))"
proof (rule chain_node.maker_steps_paid [OF node refl steps(1) refl refl wired ok maker(1) _ _ steps(2)])
  show "maker_secured dp chain time x" by (simp add: maker_secured_def maker(2))
  show "unat (time (world (x_env x'))) < deadline (x_ctx x)"
    using in_time by (simp add: deadline_def maker(1) del: min_less_iff_conj)
qed

end
