(* ===== verification/Kael_Refund_Pays.thy ===== *)
theory Kael_Refund_Pays
  imports Kael_Redeem_Pays
begin

section \<open>A refund that pays\<close>

text \<open>
  The own side of an executor that locks directly, on a node that serves the contracts of the
  own chain: what a refund it reports has done to a swap that is still open when the timelock
  has passed on the chain.
\<close>

lemma refund_open_swap:
  assumes "covers 0 s" and "live (swaps s cid)" and "sw_timelock (swaps s cid) \<le> now"
    and "sw_token (swaps s cid) \<notin> {dp_htlc dp, dp_settlement dp}"
    and "sw_sender (swaps s cid) = who" and "who \<notin> {dp_htlc dp, dp_settlement dp}"
  shows "\<exists>s'. transact dp now (Message who 0 (RefundCall cid)) [] s = (Inr None, s') \<and>
    payments cid s' = payments cid s @ [pays cid (swaps s cid) who]"
proof -
  let ?sw = "swaps s cid" and ?s1 = "s\<lparr>swaps := (swaps s)(cid := (swaps s cid)\<lparr>sw_refunded := True\<rparr>)\<rparr>"
  have "sw_token ?sw = 0 \<longrightarrow> unat (sw_amount ?sw) \<le> htlc_eth ?s1"
    using covers_open_swap [OF assms(1,2)] by simp
  moreover have "who \<noteq> dp_htlc dp" using assms(6) by simp
  ultimately obtain s2 where
    pay: "htlc_payout dp (ext_at [] 0) cid (sw_token ?sw) (sw_sender ?sw) (sw_amount ?sw) ?s1 = (Inr (), s2)"
    and paid: "htlc_paid s2 = htlc_paid s @ [pays cid ?sw who]"
    using payout_succeeds [OF assms(4), of who "sw_amount ?sw" ?s1 cid] by (auto simp: pays_def assms(5))
  let ?s' = "s2\<lparr>htlc_events := htlc_events s2 @ [LogRefund cid]\<rparr>"
  have "htlc_refund dp now (ext_at [] 0) who cid s = (Inr (), ?s')"
    unfolding refund_Inr Let_def using assms(2,3,5) pay by blast
  moreover have "who \<noteq> 0" using assms(2,5) by (simp add: live_def)
  ultimately have "transact dp now (Message who 0 (RefundCall cid)) [] s = (Inr None, ?s')"
    using assms(6) by (auto simp: transact_Inr dispatch_def eff_Inr)
  moreover have "payments cid ?s' = payments cid s @ [pays cid ?sw who]"
    using paid by (simp add: payments_def pays_def)
  ultimately show ?thesis by auto
qed

text \<open>From the timelock on an open swap is kept or refunded: nobody can redeem it any more.\<close>

lemma expired_swap_evolves:
  assumes "live (swaps s cid)" and "sw_timelock (swaps s cid) \<le> now"
    and "list_all (\<lambda>tx. now \<le> fst tx) txs"
  shows "swap_kept s (transact_all dp txs s) cid \<or>
    payments cid (transact_all dp txs s) = payments cid s @ [pays cid (swaps s cid) (sw_sender (swaps s cid))] \<and>
    \<not> live (swaps (transact_all dp txs s) cid)"
proof -
  have "\<not> swap_redeemed dp (fst ` set txs) s (transact_all dp txs s) cid"
    using assms(2,3) by (fastforce simp: swap_redeemed_def Let_def list_all_iff)
  moreover have "sw_sender (swaps s cid) \<noteq> 0" using assms(1) by (simp add: live_def)
  ultimately show ?thesis
    using evolvesD [OF history_evolves, of s cid dp txs]
    by (auto simp: swap_refunded_def Let_def live_def)
qed

text \<open>A swap settled is settled for good.\<close>

lemma settled_payments_kept:
  assumes "sw_sender (swaps s cid) \<noteq> 0" and "\<not> live (swaps s cid)"
  shows "payments cid (transact_all dp txs s) = payments cid s"
  using settled_kept [OF history_evolves assms, of dp txs] by (simp add: swap_kept_def)

context chain_node
begin

lemma expired_refund_pays:
  assumes open_swap: "live (swaps (chain w0) cid)" "sw_timelock (swaps (chain w0) cid) \<le> time w0"
      "sw_sender (swaps (chain w0) cid) = who"
    and since: "mined dp chain time w0 (world v)"
    and sent: "send_and_wait n p (RefundTx (dp_htlc dp) cid) v = (Inr rc, v')"
    and parties: "sw_token (swaps (chain w0) cid) \<notin> {dp_htlc dp, dp_settlement dp}"
      "who \<notin> {dp_htlc dp, dp_settlement dp}"
  shows "payments cid (chain (world v')) =
    payments cid (chain w0) @ [pays cid (swaps (chain w0) cid) who]"
proof -
  let ?s = "chain w0"
  let ?paid = "payments cid ?s @ [pays cid (swaps ?s cid) who]"
  have "message_of dp who (RefundTx (dp_htlc dp) cid) = Some (Message who 0 (RefundCall cid))" by simp
  from call_is_mined [OF sent this] obtain w1 w2 where sent_at: "mined dp chain time (world v) w1"
    and w2: "chain w2 = snd (transact dp (time w1) (Message who 0 (RefundCall cid)) [] (chain w1))"
      "mined dp chain time w2 (world v')"
    by blast
  note w1 = mined_trans [OF since sent_at]
  from w1 obtain before where before: "list_all (\<lambda>tx. time w0 \<le> fst tx) before"
      "chain w1 = transact_all dp before ?s" and later: "time w0 \<le> time w1"
    by (auto simp: mined_def list_all_iff)
  from w2(2) obtain after where after: "chain (world v') = transact_all dp after (chain w2)"
    by (auto simp: mined_def)
  have e1: "sw_sender (swaps (chain w1) cid) \<noteq> 0"
    unfolding before(2) using open_swap(1) by (intro swap_exists_in_history) (simp add: live_def)
  from expired_swap_evolves [OF open_swap(1,2) before(1)]
  consider "swap_kept ?s (chain w1) cid" | "payments cid (chain w1) = ?paid" "\<not> live (swaps (chain w1) cid)"
    by (auto simp: before(2) open_swap(3))
  then show ?thesis
  proof cases
    case 1
    then have same: "swaps (chain w1) cid = swaps ?s cid" "payments cid (chain w1) = payments cid ?s"
      by (simp_all add: swap_kept_def)
    have "covers 0 (chain w1)" using reachable [of w1] reachable_covers by auto
    then have "\<exists>s'. transact dp (time w1) (Message who 0 (RefundCall cid)) [] (chain w1) = (Inr None, s') \<and>
        payments cid s' = payments cid (chain w1) @ [pays cid (swaps (chain w1) cid) who]"
      using open_swap parties later by (intro refund_open_swap) (auto simp: same)
    then have paid: "payments cid (chain w2) = ?paid" by (auto simp: w2(1) same)
    have "swap_kept (chain w1) (chain w2) cid \<or> \<not> live (swaps (chain w2) cid)"
      unfolding w2(1) transact_once
      using expired_swap_evolves [of "chain w1" cid "time w1" "[(time w1, Message who 0 (RefundCall cid), [])]" dp]
        open_swap(1) order_trans [OF open_swap(2) later] by (auto simp: same)
    then have "\<not> live (swaps (chain w2) cid)" using paid by (auto simp: swap_kept_def same(2))
    moreover have "sw_sender (swaps (chain w2) cid) \<noteq> 0"
      unfolding w2(1) transact_once using e1 by (rule swap_exists_in_history)
    ultimately show ?thesis unfolding after by (simp add: settled_payments_kept paid)
  next
    case 2
    show ?thesis
      unfolding after w2(1) transact_once transact_all_append [symmetric] settled_payments_kept [OF e1 2(2)]
      by (rule 2(1))
  qed
qed

end

lemma refunded_step:
  assumes run: "step u x = (Inr S_RefundedMyLeg, x')" and direct: "x_settlement x = None"
    and own: "x_own_contract_id x = Some cid"
  shows "\<exists>y rc v. refresh_observations u x = (Inr (), y) \<and>
    send_and_wait (out_net u) (own_node x) (RefundTx (x_own_htlc x) cid) (x_env y) = (Inr rc, v) \<and> x_env x' = v"
proof -
  from run obtain y where y: "refresh_observations u x = (Inr (), y)"
    unfolding step_def by (auto simp: exec_Inr)
  note same = refresh_observes [OF y]
  have fields: "x_settlement y = None" "x_own_contract_id y = Some cid" "own_node y = own_node x" "x_own_htlc y = x_own_htlc x"
    using same direct own by (simp_all add: observes_def observing_def same_setup_def)
  have "step_refund u y = (Inr S_RefundedMyLeg, x')"
    using run y
    by (cases "decision y")
      (auto simp: step_def exec_Inr step_generate_def step_lock_def step_redeem_def split: if_splits)
  then have "\<exists>rc v. send_and_wait (out_net u) (own_node x) (RefundTx (x_own_htlc x) cid) (x_env y) = (Inr rc, v) \<and> x_env x' = v"
    using fields by (auto simp: step_refund_def exec_Inr refund_def split: if_splits)
  with y show ?thesis by blast
qed

text \<open>
  C6. A refund the executor reports has been paid. Take an executor that locked directly, on a
  node that serves the contracts of its own chain, on which others may transact as they like.
  Let the chain hold its leg, open, when a step starts, with the chain's clock at or past the
  leg's timelock. When that step reports \<open>RefundedMyLeg\<close>, the chain has paid exactly the locked
  amount of the locked token back to the wallet's account, once, and nothing else for this leg:
  not even a holder of the secret can be faster.
\<close>

theorem reported_refund_pays:
  assumes node: "chain_node (out_net u) (own_node x) dp chain time (sg_address (x_own_signer x))"
    and wired: "x_settlement x = None" "x_own_htlc x = dp_htlc dp" "x_own_contract_id x = Some cid"
    and leg: "swaps (chain (world (x_env x))) cid = locked_swap (sg_address (x_own_signer x)) r tk a h tm"
    and expired: "tm \<le> time (world (x_env x))"
    and parties: "tk \<notin> {dp_htlc dp, dp_settlement dp}"
      "sg_address (x_own_signer x) \<notin> {0, dp_htlc dp, dp_settlement dp}"
    and step: "step u x = (Inr S_RefundedMyLeg, x')"
  shows "payments cid (chain (world (x_env x'))) = payments cid (chain (world (x_env x))) @
    [\<lparr>pm_contract = cid, pm_to = sg_address (x_own_signer x), pm_token = tk, pm_amount = a\<rparr>]"
proof -
  from refunded_step [OF step wired(1,3)] obtain y rc v where y: "refresh_observations u x = (Inr (), y)"
    and sent: "send_and_wait (out_net u) (own_node x) (RefundTx (dp_htlc dp) cid) (x_env y) = (Inr rc, v)"
    and x': "x_env x' = v"
    unfolding wired(2) by blast
  have "live (swaps (chain (world (x_env x))) cid)" using parties(2) by (simp add: leg live_def locked_swap_def)
  from chain_node.expired_refund_pays [OF node this _ _ chain_node.refresh_mines [OF node y refl] sent]
  show ?thesis using expired parties by (simp add: leg locked_swap_def x' pays_def)
qed

end
