(* ===== verification/Kael_Honest_Net.thy ===== *)
theory Kael_Honest_Net
  imports Kael_Refund_Pays
begin

section \<open>A node that runs the contracts\<close>

text \<open>
  Nodes of chains, each built on the model of the contracts: the state of a chain is what its
  blocks make of the deployment, the logs are the events its blocks emitted, and a transaction
  waits in a pool until the sender asks for its receipt. Others transact too: asking a chain for
  its head brings in their next block, with its own timestamp. A provider is an account's
  connection to a chain, so two wallets share a chain. \<open>honest_net\<close> provides
  \<open>chain_node\<close> to every provider, and the witnesses run wallets on it.
\<close>

record served =
  sv_blocks :: "transaction list list"
  sv_pool :: "message list"
  sv_clock :: u256
  sv_others :: "(u256 \<times> message list) list"

definition mine :: "u256 \<Rightarrow> message list \<Rightarrow> served \<Rightarrow> served" where
  "mine now msgs sv =
     sv\<lparr>sv_blocks := sv_blocks sv @ [map (\<lambda>m. (max now (sv_clock sv), m, [])) msgs],
        sv_clock := max now (sv_clock sv)\<rparr>"

definition others_mine :: "served \<Rightarrow> served" where
  "others_mine sv =
     (case sv_others sv of [] \<Rightarrow> sv | (now, msgs) # bs \<Rightarrow> mine now msgs (sv\<lparr>sv_others := bs\<rparr>))"

definition pool_mined :: "served \<Rightarrow> served" where
  "pool_mined sv = mine (sv_clock sv) (sv_pool sv) (sv\<lparr>sv_pool := []\<rparr>)"

definition served_chain :: "deployment \<Rightarrow> served \<Rightarrow> chain_state" where
  "served_chain dp sv = transact_all dp (concat (sv_blocks sv)) deployed"

fun block_logs :: "deployment \<Rightarrow> nat \<Rightarrow> chain_state \<Rightarrow> transaction list list \<Rightarrow> log list" where
  "block_logs dp k s [] = []"
| "block_logs dp k s (b # bs) =
     map (\<lambda>ev. \<lparr>log_event = Some ev, log_block_number = Some (of_nat k)\<rparr>)
       (drop (length (htlc_events s)) (htlc_events (transact_all dp b s))) @
     block_logs dp (Suc k) (transact_all dp b s) bs"

definition log_selected :: "log_filter \<Rightarrow> log \<Rightarrow> bool" where
  "log_selected f l =
     (case (log_event l, log_block_number l) of
        (Some ev, Some b) \<Rightarrow>
          (lf_new_swap_only f \<longrightarrow> (case ev of LogNewSwap _ _ _ _ _ _ _ \<Rightarrow> True | _ \<Rightarrow> False)) \<and>
          (case lf_topic1 f of None \<Rightarrow> True | Some cid \<Rightarrow> ev_contract ev = cid) \<and>
          lf_from_block f \<le> b \<and>
          (case lf_to_block f of None \<Rightarrow> True | Some last_block \<Rightarrow> b \<le> last_block)
      | _ \<Rightarrow> False)"

definition served_logs :: "deployment \<Rightarrow> log_filter \<Rightarrow> served \<Rightarrow> log list" where
  "served_logs dp f sv =
     (if lf_address f = dp_htlc dp
      then filter (log_selected f) (block_logs dp 1 deployed (sv_blocks sv)) else [])"

definition honest_net ::
  "('p \<Rightarrow> 'c) \<Rightarrow> ('c \<Rightarrow> deployment) \<Rightarrow> ('p \<Rightarrow> address) \<Rightarrow> u64 \<Rightarrow> ('p, 'c \<Rightarrow> served) net" where
  "honest_net chain_of dps accounts wall = quiet_net
     \<lparr>get_block_number := \<lambda>p w.
        let sv = others_mine (w (chain_of p))
        in (Inr (of_nat (length (sv_blocks sv))), w(chain_of p := sv)),
      get_logs := \<lambda>p f w. (Inr (served_logs (dps (chain_of p)) f (w (chain_of p))), w),
      get_chain_id := \<lambda>p w. (Inr (ucast (dp_chain_id (dps (chain_of p)))), w),
      get_code_at := \<lambda>p a w.
        let dp = dps (chain_of p)
        in (Inr (if a = dp_htlc dp \<or> a = dp_settlement dp then [0x60] else []), w),
      call_htlc := \<lambda>p a w.
        let dp = dps (chain_of p)
        in (if a = dp_settlement dp then Inr (dp_htlc dp) else Inl ''execution reverted'', w),
      call_getSwap := \<lambda>p a cid w.
        let dp = dps (chain_of p) in
        (if a = dp_htlc dp then Inr (swaps (served_chain dp (w (chain_of p))) cid)
         else Inl ''execution reverted'', w),
      send_transaction := \<lambda>p t w.
        (case message_of (dps (chain_of p)) (accounts p) t of
           None \<Rightarrow> (Inl ''rejected'', w)
         | Some msg \<Rightarrow>
             let sv = w (chain_of p)
             in (Inr (fill 1), w(chain_of p := sv\<lparr>sv_pool := sv_pool sv @ [msg]\<rparr>))),
      await_receipt := \<lambda>p h w.
        let sv = pool_mined (w (chain_of p)) in
        (Inr \<lparr>r_transaction_hash = h, r_block_number = Some (of_nat (length (sv_blocks sv))),
              r_status = True\<rparr>, w(chain_of p := sv)),
      clock_now := \<lambda>w. (wall, w)\<rparr>"

text \<open>A block is mined as its transactions are.\<close>

abbreviation served_mined :: "deployment \<Rightarrow> served \<Rightarrow> served \<Rightarrow> bool" where
  "served_mined dp \<equiv> mined dp (served_chain dp) sv_clock"

lemma served_chain_mine:
  "served_chain dp (mine now msgs sv) =
     transact_all dp (map (\<lambda>m. (max now (sv_clock sv), m, [])) msgs) (served_chain dp sv)"
  by (simp add: served_chain_def mine_def transact_all_append)

lemma served_fields [simp]:
  "served_chain dp (sv\<lparr>sv_pool := ms\<rparr>) = served_chain dp sv"
  "served_chain dp (sv\<lparr>sv_others := bs\<rparr>) = served_chain dp sv"
  "sv_clock (mine now msgs sv) = max now (sv_clock sv)"
  by (simp_all add: served_chain_def mine_def)

lemma mine_mines: "served_mined dp sv (mine now msgs sv)"
  unfolding mined_def served_chain_mine
  by (intro conjI exI [of _ "map (\<lambda>m. (max now (sv_clock sv), m, [])) msgs"]) (simp_all add: list_all_iff)

lemma same_mined:
  "served_chain dp sv' = served_chain dp sv \<Longrightarrow> sv_clock sv' = sv_clock sv \<Longrightarrow>
     served_mined dp sv' t = served_mined dp sv t"
  by (simp add: mined_def)

lemma others_mine_mines: "served_mined dp sv (others_mine sv)"
proof (cases "sv_others sv")
  case (Cons b bs)
  then show ?thesis
    using mine_mines [of dp "sv\<lparr>sv_others := bs\<rparr>" "fst b" "snd b"]
    by (cases b) (simp add: others_mine_def same_mined [of dp "sv\<lparr>sv_others := bs\<rparr>" sv])
qed (simp add: others_mine_def mined_refl)

lemma pool_mines: "served_mined dp sv (pool_mined sv)"
  using mine_mines [of dp "sv\<lparr>sv_pool := []\<rparr>"] unfolding pool_mined_def
  by (simp add: same_mined [of dp "sv\<lparr>sv_pool := []\<rparr>" sv])

lemma mined_at:
  "mined dp (\<lambda>w. served_chain dp (w p)) (\<lambda>w. sv_clock (w p)) w w' = served_mined dp (w p) (w' p)"
  by (simp add: mined_def)

lemma pooled: "served_mined dp sv (sv\<lparr>sv_pool := ms\<rparr>)"
  by (simp add: mined_def) (intro exI [of _ "[]"], simp)

text \<open>What waits in the pool is mined in order, the last transaction after all others.\<close>

lemma sent_mines:
  assumes "sv_pool sv' = sv_pool sv @ [msg]" "sv_blocks sv' = sv_blocks sv" "sv_clock sv' = sv_clock sv"
  shows "\<exists>va vb. served_mined dp sv va \<and> sv_clock vb = sv_clock va \<and>
    served_chain dp vb = snd (transact dp (sv_clock va) msg [] (served_chain dp va)) \<and>
    served_mined dp vb (pool_mined sv')"
proof (intro exI conjI)
  let ?va = "pool_mined sv"
  let ?vb = "mine (sv_clock ?va) [msg] ?va"
  show "served_mined dp sv ?va" by (rule pool_mines)
  show "sv_clock ?vb = sv_clock ?va" by simp
  show "served_chain dp ?vb = snd (transact dp (sv_clock ?va) msg [] (served_chain dp ?va))"
    by (simp add: served_chain_mine)
  have "served_chain dp (pool_mined sv') = served_chain dp ?vb" "sv_clock (pool_mined sv') = sv_clock ?vb"
    using assms by (simp_all add: pool_mined_def mine_def served_chain_def transact_all_append)
  then show "served_mined dp ?vb (pool_mined sv')"
    by (metis mined_refl same_mined)
qed

lemma honest_included:
  assumes "send_transaction (honest_net chain_of dps accounts wall) p t w = (Inr h, w')"
    and "await_receipt (honest_net chain_of dps accounts wall) p h w' = (Inr rc, w2)"
    and "message_of (dps c) (accounts p) t = Some msg" and c: "chain_of p = c"
  shows "\<exists>wa wb. served_mined (dps c) (w c) (wa c) \<and> sv_clock (wb c) = sv_clock (wa c) \<and>
    served_chain (dps c) (wb c) =
      snd (transact (dps c) (sv_clock (wa c)) msg [] (served_chain (dps c) (wa c))) \<and>
    served_mined (dps c) (wb c) (w2 c)"
proof -
  from assms have w2: "w2 c = pool_mined ((w c)\<lparr>sv_pool := sv_pool (w c) @ [msg]\<rparr>)"
    by (auto simp: honest_net_def Let_def)
  obtain va vb where "served_mined (dps c) (w c) va" "sv_clock vb = sv_clock va"
    "served_chain (dps c) vb = snd (transact (dps c) (sv_clock va) msg [] (served_chain (dps c) va))"
    "served_mined (dps c) vb (w2 c)"
    unfolding w2 using sent_mines [of "(w c)\<lparr>sv_pool := sv_pool (w c) @ [msg]\<rparr>" "w c" msg "dps c"]
    by auto
  then show ?thesis by (intro exI [of _ "\<lambda>_. va"] exI [of _ "\<lambda>_. vb"]) simp
qed

interpretation honest: chain_node "honest_net chain_of dps accounts wall" p "dps (chain_of p)"
    "\<lambda>w. served_chain (dps (chain_of p)) (w (chain_of p))" "\<lambda>w. sv_clock (w (chain_of p))" "accounts p"
  for chain_of :: "'p \<Rightarrow> 'c" and dps accounts wall p
  by (unfold_locales; (unfold mined_at)?; (erule (2) honest_included, rule refl)?;
      auto simp: honest_net_def quiet_net_def Let_def mined_refl others_mine_mines pool_mines pooled
        served_chain_def split: option.split)

subsection \<open>The demonstration wallet on two such chains\<close>

definition demo_dps :: "bool \<Rightarrow> deployment" where
  "demo_dps p = demo_dp\<lparr>dp_htlc := if p then fill 0xC2 else fill 0xC1\<rparr>"

definition opposite_locks :: transaction where
  "opposite_locks = (1, Message (fill 0xBB) 0 (NewSwapCall (fill 0xEE) (fill 0x22) 500 (fill 9) 1500), [])"

definition opposite_locked :: "bool \<Rightarrow> served" where
  "opposite_locked p =
     \<lparr>sv_blocks = (if p then [[opposite_locks], [], [], []] else []), sv_pool = [], sv_clock = 1,
      sv_others = []\<rparr>"

definition opposite_cid :: b32 where
  "opposite_cid = computeContractId toy_hash (fill 0xBB) (fill 0xEE) (fill 0x22) 500 (fill 9) 1500"

definition served_world :: "(bool, bool \<Rightarrow> served, u8 list, u8, b32, b32) outside" where
  "served_world =
     \<lparr>out_net = honest_net id demo_dps (\<lambda>_. fill 0xEE) 1000, out_crates = demo_crates,
      out_keccak = toy_hash, out_sha = toy_hash, out_iter = (\<lambda>_. [fill 9]), out_k256 = toy_k256\<rparr>"

definition served_taker :: "SwapState \<Rightarrow> (bool, bool \<Rightarrow> served) WalletExecutor" where
  "served_taker st = executor_new (taker_config st) \<lparr>world = opposite_locked, sent = []\<rparr>"

lemma opposite_locks_runs:
  "transact_all (demo_dps True) [opposite_locks] deployed =
     deployed\<lparr>swaps := (swaps deployed)(opposite_cid := maker_swap),
       htlc_events := [LogNewSwap opposite_cid (fill 0xBB) (fill 0xEE) (fill 0x22) 500 (fill 9) 1500]\<rparr>"
  by (simp add: opposite_locks_def demo_chain_defs demo_dps_def maker_swap_def opposite_cid_def word_le_nat_alt)

lemma opposite_leg_served:
  "swaps (served_chain (demo_dps True) (opposite_locked True)) opposite_cid = maker_swap"
  "served_logs (demo_dps True) f (opposite_locked True) =
     (if lf_address f = fill 0xC2
      then filter (log_selected f)
        [\<lparr>log_event = Some (LogNewSwap opposite_cid (fill 0xBB) (fill 0xEE) (fill 0x22) 500 (fill 9) 1500),
          log_block_number = Some 1\<rparr>]
      else [])"
  "served_logs (demo_dps False) f (opposite_locked False) = []"
  by (simp_all add: served_chain_def served_logs_def opposite_locked_def opposite_locks_runs
      del: transact_all.simps(2)) (simp_all add: demo_dps_def demo_dp_def deployed_def)

lemma others_mine_idle [simp]: "others_mine (opposite_locked p) = opposite_locked p"
  by (simp add: others_mine_def opposite_locked_def)

lemma opposite_locked_length [simp]: "length (sv_blocks (opposite_locked p)) = (if p then 4 else 0)"
  by (simp add: opposite_locked_def)

lemma demo_dps_htlc [simp]: "dp_htlc (demo_dps p) = (if p then fill 0xC2 else fill 0xC1)"
  by (simp add: demo_dps_def)

lemmas served_defs =
  exec_defs step_defs demo_defs eff_simps Let_def swap_observation_def served_world_def
  served_taker_def honest_net_def opposite_leg_served log_selected_def creation_filter_def

lemma served_step:
  "fst (step served_world (served_taker MyLegLocked)) = Inr S_RedeemedCounterpartyLeg"
  by (simp add: served_defs)

lemma served_clocks:
  "ctx_now (x_ctx (snd (step served_world (served_taker MyLegLocked)))) = 1000"
  "sv_clock (world (x_env (snd (step served_world (served_taker MyLegLocked)))) True) = 1"
  by (simp_all add: served_defs pool_mined_def) (simp add: opposite_locked_def)

lemma served_taker_terms:
  "wallet_ok toy_hash (fill 9) (served_taker st)" "ctx_role (x_ctx (served_taker st)) = Taker"
  "wired (demo_dps True) served_world (served_taker st)"
  "cp_node (served_taker st) = True" "sg_address (x_cp_signer (served_taker st)) = fill 0xEE"
  by (simp_all add: wallet_ok_def demo_defs served_taker_def served_world_def tracker_new_def
      tracker_inv_def hashlock_from_preimage_def wired_def demo_dps_def demo_dp_def)

lemma served_node:
  assumes "cp_node x = True" and "sg_address (x_cp_signer x) = fill 0xEE"
  shows "chain_node (out_net served_world) (cp_node x) (demo_dps True)
    (\<lambda>w. served_chain (demo_dps True) (w True)) (\<lambda>w. sv_clock (w True)) (sg_address (x_cp_signer x))"
  using honest.chain_node_axioms [of id demo_dps "\<lambda>_. fill 0xEE" 1000 True] assms
  by (simp add: served_world_def)

lemma served_context: "x_ctx (served_taker st) = taker_context"
  by (simp add: served_taker_def executor_new_def taker_config_def)

lemma reported_redeem_pays_witness:
  "let x' = snd (step served_world (served_taker MyLegLocked)) in
   \<exists>cid. x_cp_contract_id x' = Some cid \<and>
     agreed_payment taker_context cid \<in> set (payments cid (served_chain (demo_dps True) (world (x_env x') True)))"
proof -
  let ?x = "served_taker MyLegLocked"
  obtain x' where step: "step served_world ?x = (Inr S_RedeemedCounterpartyLeg, x')"
    using served_step by (metis prod.collapse)
  have "unat (sv_clock (world (x_env x') True)) <
      min (unat (ctx_now (x_ctx x')) + unat (min_gap (x_ctx ?x))) u64_max"
    using served_clocks unfolding step by (simp add: served_taker_def executor_new_def taker_config_def taker_context_def)
  from reported_redeem_pays [OF served_node _ _ _ step this, where h = "fill 9"] show ?thesis
    unfolding step Let_def snd_conv
    using served_taker_terms [of MyLegLocked] by (simp add: served_world_def served_context)
qed

text \<open>The same wallet as the maker, whose own leg the taker redeems.\<close>

definition maker_context :: SwapContext where
  "maker_context = taker_context\<lparr>ctx_role := Maker, my_timelock := 1200, ctx_secret := None\<rparr>"

definition own_cid :: b32 where
  "own_cid = computeContractId toy_hash (fill 0xEE) (fill 0xBB) 0 1000 (fill 9) 1200"

definition own_locks :: message where
  "own_locks = Message (fill 0xEE) 1000 (NewSwapCall (fill 0xBB) 0 1000 (fill 9) 1200)"

definition taker_redeems :: message where
  "taker_redeems = Message (fill 0xBB) 0 (RedeemCall own_cid (fill 9))"

text \<open>The own chain after its first \<open>k\<close> blocks.\<close>

definition own_served :: "nat \<Rightarrow> served" where
  "own_served k =
     \<lparr>sv_blocks = take k [[], [], [(1, own_locks, [])], [(1, taker_redeems, [])]], sv_pool = [],
      sv_clock = 1, sv_others = drop (if k < 3 then k else k - 1) [(1, []), (1, []), (1, [taker_redeems])]\<rparr>"

lemma own_served_moves [simp]:
  "others_mine (own_served 0) = own_served 1" "others_mine (own_served (Suc 0)) = own_served 2"
  "others_mine (own_served 3) = own_served 4" "others_mine (own_served 4) = own_served 4"
  "pool_mined (own_served 2\<lparr>sv_pool := [own_locks]\<rparr>) = own_served 3"
  "length (sv_blocks (own_served k)) = min k 4" "sv_pool (own_served k) = []"
  by (simp_all add: own_served_def others_mine_def pool_mined_def mine_def)

definition own_swap :: SolSwap where
  "own_swap = \<lparr>sw_sender = fill 0xEE, sw_recipient = fill 0xBB, sw_token = 0, sw_amount = 1000,
     sw_hashlock = fill 9, sw_timelock = 1200, sw_withdrawn = False, sw_refunded = False\<rparr>"

definition own_lock_state :: chain_state where
  "own_lock_state = deployed\<lparr>swaps := (swaps deployed)(own_cid := own_swap), htlc_eth := 1000,
     htlc_events := [LogNewSwap own_cid (fill 0xEE) (fill 0xBB) 0 1000 (fill 9) 1200]\<rparr>"

lemma own_locks_runs: "transact_all (demo_dps False) [(1, own_locks, [])] deployed = own_lock_state"
  by (simp add: own_locks_def demo_chain_defs demo_dps_def own_lock_state_def own_swap_def own_cid_def word_le_nat_alt)

lemma taker_redeems_runs:
  "htlc_events (transact_all (demo_dps False) [(1, taker_redeems, [])] own_lock_state) =
     htlc_events own_lock_state @ [LogRedeem own_cid (fill 9)]"
  by (simp add: taker_redeems_def demo_chain_defs demo_dps_def own_lock_state_def own_swap_def word_le_nat_alt)

definition own_logs :: "nat \<Rightarrow> log list" where
  "own_logs k = take (k - 2)
     [\<lparr>log_event = Some (LogNewSwap own_cid (fill 0xEE) (fill 0xBB) 0 1000 (fill 9) 1200), log_block_number = Some 3\<rparr>,
      \<lparr>log_event = Some (LogRedeem own_cid (fill 9)), log_block_number = Some 4\<rparr>]"

lemma own_logs_served:
  assumes "k \<in> {1, 2, 4}"
  shows "served_logs (demo_dps False) f (own_served k) =
    (if lf_address f = fill 0xC1 then filter (log_selected f) (own_logs k) else [])"
  using assms
  by (auto simp: served_logs_def own_served_def own_locks_runs taker_redeems_runs own_logs_def
      simp del: transact_all.simps(2)) (simp_all add: own_lock_state_def deployed_def)

definition maker_world :: "bool \<Rightarrow> served" where
  "maker_world p = (if p then opposite_locked True else own_served 0)"

definition served_maker :: "(bool, bool \<Rightarrow> served) WalletExecutor" where
  "served_maker = executor_new (taker_config Start\<lparr>cf_ctx := maker_context\<rparr>)
     \<lparr>world = maker_world, sent = []\<rparr>"

lemma maker_world [simp]: "maker_world True = opposite_locked True" "maker_world False = own_served 0"
  by (simp_all add: maker_world_def)

lemmas maker_run_defs =
  served_defs served_maker_def maker_context_def broadcast_lock_def lock_def compute_contract_id_def
  own_logs_served own_logs_def own_served_moves(5) [unfolded own_locks_def]

definition maker_after :: "(bool, bool \<Rightarrow> served) WalletExecutor" where
  "maker_after = served_maker
     \<lparr>x_state := WaitingForSecret,
      x_ctx := maker_context\<lparr>my_leg_locked := True,
        counterparty_lock := Some (swap_observation maker_swap), ctx_now := 1000\<rparr>,
      x_own_observer := (demo_observer False)\<lparr>co_next_block := 3\<rparr>,
      x_cp_observer := (demo_observer True)
        \<lparr>co_tracker := snd (on_new_swap 31337 opposite_cid (fill 9) 1500 500 tracker_new),
         co_next_block := 5\<rparr>,
      x_own_contract_id := Some (fill 9), x_cp_contract_id := Some opposite_cid,
      x_env := \<lparr>world = maker_world(False := own_served 3),
        sent = [(False, NewSwap (fill 0xC1) (fill 0xBB) 0 1000 (fill 9) 1200 1000)]\<rparr>\<rparr>"

lemma maker_run_1:
  "step served_world served_maker = (Inr (S_LockedMyLeg (fill 9)), maker_after)"
  by (simp add: maker_run_defs maker_after_def advance_def) (simp add: fun_eq_iff)

lemma maker_run_2:
  "fst (step served_world maker_after) = Inr S_RedeemedCounterpartyLeg"
  "sv_clock (world (x_env (snd (step served_world maker_after))) True) = 1"
  by (simp_all add: maker_run_defs maker_after_def on_redeem_def hashlock_from_preimage_def advance_def
      pool_mined_def) (simp add: opposite_locked_def)

lemma served_maker_terms:
  "wallet_ok toy_hash (fill 9) served_maker" "ctx_role (x_ctx served_maker) = Maker"
  "wired (demo_dps True) served_world served_maker" "x_state served_maker = Start"
  "cp_node served_maker = True" "sg_address (x_cp_signer served_maker) = fill 0xEE"
  "x_ctx served_maker = maker_context"
  by (simp_all add: wallet_ok_def demo_defs served_maker_def maker_context_def served_world_def
      tracker_new_def tracker_inv_def wired_def demo_dps_def demo_dp_def)

lemma maker_redeem_pays_witness:
  "let x' = snd (steps 2 served_world served_maker) in
   \<exists>cid. agreed_payment maker_context cid
     \<in> set (payments cid (served_chain (demo_dps True) (world (x_env x') True)))"
proof -
  obtain x' where steps: "steps 2 served_world served_maker =
      ([Inr (S_LockedMyLeg (fill 9)), Inr S_RedeemedCounterpartyLeg], x')"
    and last: "step served_world maker_after = (Inr S_RedeemedCounterpartyLeg, x')"
    using maker_run_1 maker_run_2(1)
    by (cases "step served_world maker_after") (simp add: numeral_2_eq_2)
  have "unat (sv_clock (world (x_env x') True)) <
      min (unat (my_timelock (x_ctx served_maker)) + unat (min_gap (x_ctx served_maker))) u64_max"
    using maker_run_2(2) unfolding last
    by (simp add: served_maker_terms maker_context_def taker_context_def)
  from maker_redeem_pays [OF served_node _ _ _ _ steps _ this, where h = "fill 9"] show ?thesis
    unfolding steps Let_def snd_conv using served_maker_terms by (simp add: served_world_def)
qed

text \<open>The maker again, with its own leg locked and expired, and nobody to redeem it.\<close>

definition expired_own :: served where
  "expired_own = \<lparr>sv_blocks = [[(1, own_locks, [])]], sv_pool = [], sv_clock = 2000, sv_others = []\<rparr>"

definition late_world :: "(bool, bool \<Rightarrow> served, u8 list, u8, b32, b32) outside" where
  "late_world = served_world\<lparr>out_net := honest_net id demo_dps (\<lambda>_. fill 0xEE) 2000\<rparr>"

definition late_maker :: "(bool, bool \<Rightarrow> served) WalletExecutor" where
  "late_maker = executor_new (taker_config Refunding\<lparr>cf_ctx := maker_context\<rparr>)
     \<lparr>world = (\<lambda>p. if p then opposite_locked True else expired_own), sent = []\<rparr>
     \<lparr>x_own_contract_id := Some own_cid\<rparr>"

lemma expired_own_served:
  "others_mine expired_own = expired_own" "length (sv_blocks expired_own) = 1"
  "served_chain (demo_dps False) expired_own = own_lock_state" "sv_clock expired_own = 2000"
  "served_logs (demo_dps False) f expired_own =
     (if lf_address f = fill 0xC1
      then filter (log_selected f) [\<lparr>log_event =
        Some (LogNewSwap own_cid (fill 0xEE) (fill 0xBB) 0 1000 (fill 9) 1200), log_block_number = Some 1\<rparr>]
      else [])"
  by (simp_all add: expired_own_def others_mine_def served_chain_def served_logs_def own_locks_runs
      del: transact_all.simps(2)) (simp add: own_lock_state_def deployed_def)

lemma late_step:
  "fst (step late_world late_maker) = Inr S_RefundedMyLeg"
  by (simp add: served_defs late_world_def late_maker_def maker_context_def expired_own_served)

lemma late_maker_terms:
  "x_settlement late_maker = None" "x_own_htlc late_maker = dp_htlc (demo_dps False)"
  "x_own_contract_id late_maker = Some own_cid" "own_node late_maker = False"
  "sg_address (x_own_signer late_maker) = fill 0xEE" "world (x_env late_maker) False = expired_own"
  "out_net late_world = honest_net id demo_dps (\<lambda>_. fill 0xEE) 2000"
  by (simp_all add: late_maker_def executor_new_def taker_config_def demo_signer_def late_world_def)

lemma reported_refund_pays_witness:
  "let x' = snd (step late_world late_maker) in
   payments own_cid (served_chain (demo_dps False) (world (x_env x') False)) = payments own_cid own_lock_state @
     [\<lparr>pm_contract = own_cid, pm_to = fill 0xEE, pm_token = 0, pm_amount = 1000\<rparr>]"
proof -
  obtain x' where step: "step late_world late_maker = (Inr S_RefundedMyLeg, x')"
    using late_step by (metis prod.collapse)
  have node: "chain_node (out_net late_world) (own_node late_maker) (demo_dps False)
      (\<lambda>w. served_chain (demo_dps False) (w False)) (\<lambda>w. sv_clock (w False)) (sg_address (x_own_signer late_maker))"
    using honest.chain_node_axioms [of id demo_dps "\<lambda>_. fill 0xEE" 2000 False]
    by (simp add: late_maker_terms)
  have leg: "swaps (served_chain (demo_dps False) (world (x_env late_maker) False)) own_cid =
      locked_swap (sg_address (x_own_signer late_maker)) (fill 0xBB) 0 1000 (fill 9) 1200"
    by (simp add: late_maker_terms expired_own_served own_lock_state_def own_swap_def locked_swap_def)
  have clock: "1200 \<le> sv_clock (world (x_env late_maker) False)"
    by (simp add: late_maker_terms expired_own_served word_le_nat_alt)
  have parties: "0 \<notin> {dp_htlc (demo_dps False), dp_settlement (demo_dps False)}"
    "sg_address (x_own_signer late_maker) \<notin> {0, dp_htlc (demo_dps False), dp_settlement (demo_dps False)}"
    by (simp_all add: late_maker_terms) (simp_all add: demo_dps_def demo_dp_def)
  from reported_refund_pays [OF node late_maker_terms(1-3) leg clock parties step]
  show ?thesis by (simp add: step late_maker_terms expired_own_served)
qed

end
