(* ===== verification/Kael_Pledge.thy ===== *)
theory Kael_Pledge
  imports Kael_Honest_Net
begin

section \<open>A leg on its chain\<close>

text \<open>
  A \<open>pledge\<close> is a leg in native coins by its terms, with the signed order when it is locked through
  Settlement. The two histories of a chain that hosts it are its lock and its redeem: the state
  each leads to (\<open>pledged\<close>, \<open>collected\<close>), and what a node serves of it (\<open>stage\<close>).
\<close>

record pledge =
  pd_from :: address
  pd_to :: address
  pd_amount :: u128
  pd_until :: u64
  pd_order :: "(SolOrder \<times> u8 list) option"

definition pledge_sender :: "deployment \<Rightarrow> pledge \<Rightarrow> address" where
  "pledge_sender dp pl = (case pd_order pl of None \<Rightarrow> pd_from pl | Some _ \<Rightarrow> dp_settlement dp)"

definition pledge_cid :: "deployment \<Rightarrow> b32 \<Rightarrow> pledge \<Rightarrow> b32" where
  "pledge_cid dp h pl = computeContractId (dp_keccak dp) (pledge_sender dp pl) (pd_to pl) 0
     (ucast (pd_amount pl)) h (ucast (pd_until pl))"

definition pledge_lock :: "b32 \<Rightarrow> pledge \<Rightarrow> message" where
  "pledge_lock h pl = Message (pd_from pl) (ucast (pd_amount pl))
     (case pd_order pl of
        None \<Rightarrow> NewSwapCall (pd_to pl) 0 (ucast (pd_amount pl)) h (ucast (pd_until pl))
      | Some (od, sg) \<Rightarrow> SettleLegCall od sg (pd_to pl) h (ucast (pd_until pl)))"

definition pledge_redeem :: "deployment \<Rightarrow> b32 \<Rightarrow> b32 \<Rightarrow> pledge \<Rightarrow> message" where
  "pledge_redeem dp h s pl = Message (pd_to pl) 0 (RedeemCall (pledge_cid dp h pl) s)"

definition pledge_swap :: "deployment \<Rightarrow> b32 \<Rightarrow> pledge \<Rightarrow> SolSwap" where
  "pledge_swap dp h pl = locked_swap (pledge_sender dp pl) (pd_to pl) 0 (ucast (pd_amount pl)) h
     (ucast (pd_until pl))"

definition pledge_event :: "deployment \<Rightarrow> b32 \<Rightarrow> pledge \<Rightarrow> htlc_event" where
  "pledge_event dp h pl = LogNewSwap (pledge_cid dp h pl) (pledge_sender dp pl) (pd_to pl) 0
     (ucast (pd_amount pl)) h (ucast (pd_until pl))"

definition pledge_payment :: "deployment \<Rightarrow> b32 \<Rightarrow> pledge \<Rightarrow> payment" where
  "pledge_payment dp h pl = \<lparr>pm_contract = pledge_cid dp h pl, pm_to = pd_to pl, pm_token = 0,
     pm_amount = ucast (pd_amount pl)\<rparr>"

text \<open>What Settlement notes when the leg goes through it.\<close>

definition booked :: "deployment \<Rightarrow> b32 \<Rightarrow> pledge \<Rightarrow> chain_state" where
  "booked dp h pl =
     (case pd_order pl of
        None \<Rightarrow> deployed
      | Some (od, sg) \<Rightarrow> deployed
          \<lparr>consumedNonce := (consumedNonce deployed)
             (pd_from pl := (consumedNonce deployed (pd_from pl))(so_nonce od := True)),
           legs := (legs deployed)(pledge_cid dp h pl :=
             \<lparr>sg_maker = pd_from pl, sg_token = 0, sg_amount = ucast (pd_amount pl), sg_refunded = False\<rparr>),
           settlement_events :=
             [SwapLegSettled (pledge_cid dp h pl) (pd_from pl) (pd_to pl) h (ucast (pd_until pl))]\<rparr>)"

definition pledged :: "deployment \<Rightarrow> b32 \<Rightarrow> pledge \<Rightarrow> chain_state" where
  "pledged dp h pl = (booked dp h pl)
     \<lparr>swaps := (swaps deployed)(pledge_cid dp h pl := pledge_swap dp h pl),
      htlc_eth := unat (pd_amount pl), htlc_events := [pledge_event dp h pl]\<rparr>"

definition collected :: "deployment \<Rightarrow> b32 \<Rightarrow> b32 \<Rightarrow> pledge \<Rightarrow> chain_state" where
  "collected dp h s pl = (booked dp h pl)
     \<lparr>swaps := (swaps deployed)(pledge_cid dp h pl := (pledge_swap dp h pl)\<lparr>sw_withdrawn := True\<rparr>),
      htlc_events := [pledge_event dp h pl, LogRedeem (pledge_cid dp h pl) s],
      htlc_paid := [pledge_payment dp h pl]\<rparr>"

text \<open>
  Terms that the contracts accept at time \<open>t\<close>, between accounts of their own, with an order that
  Settlement verifies.
\<close>

definition order_settles :: "deployment \<Rightarrow> u256 \<Rightarrow> pledge \<Rightarrow> bool" where
  "order_settles dp t pl \<longleftrightarrow>
     (case pd_order pl of
        None \<Rightarrow> True
      | Some (od, sg) \<Rightarrow>
          (\<exists>d. order_verify (dp_keccak dp) (dp_ecrecover dp) od sg t = Inr d) \<and> dp_settlement dp \<noteq> 0 \<and>
          so_sellChainId od = dp_chain_id dp \<and> so_maker od = pd_from pl \<and> so_sellToken od = 0 \<and>
          so_sellAmount od = ucast (pd_amount pl))"

definition pledgeable :: "deployment \<Rightarrow> u256 \<Rightarrow> b32 \<Rightarrow> pledge \<Rightarrow> bool" where
  "pledgeable dp t h pl \<longleftrightarrow>
     pd_amount pl \<noteq> 0 \<and> h \<noteq> 0 \<and> t < ucast (pd_until pl) \<and> order_settles dp t pl \<and>
     pd_from pl \<notin> {0, dp_htlc dp, dp_settlement dp} \<and> pd_to pl \<notin> {0, dp_htlc dp, dp_settlement dp}"

lemma unat_ucast_u128: "unat (ucast (a :: u128) :: u256) = unat a"
proof -
  have "unat a < 2 ^ 256" by (rule less_trans [OF unat_lt_pow]) simp
  then show ?thesis by (simp add: unsigned_ucast_eq take_bit_nat_eq_self)
qed

lemma ucast_u128_0: "(ucast (a :: u128) :: u256) = 0 \<longleftrightarrow> a = 0"
  by (metis ucast_0 ucast_back(1))

lemma ucast_fits:
  assumes "unat (t :: u256) < 2 ^ 64"
  shows "ucast (ucast t :: u64) = t"
proof -
  have "unat (ucast t :: u64) = unat t"
    using assms by (simp add: unsigned_ucast_eq take_bit_nat_eq_self)
  then show ?thesis by (simp only: word_unat_eq_iff unat_ucast_u64)
qed

lemmas ucast_u128 = unat_ucast_u128 ucast_u128_0

lemmas pledge_run_defs =
  pledgeable_def order_settles_def transact.simps dispatch_def eff_simps Let_def pledge_cid_def
  pledge_sender_def booked_def pledged_def pledge_swap_def locked_swap_def pledge_event_def ucast_u128
  deployed_def not_le

lemma pledge_lands:
  assumes "pledgeable dp t h pl"
  shows "transact dp t (pledge_lock h pl) [] deployed = (Inr (Some (pledge_cid dp h pl)), pledged dp h pl)"
proof (cases "pd_order pl")
  case None
  with assms show ?thesis by (simp add: pledge_run_defs pledge_lock_def htlc_new_swap_def)
next
  case (Some os)
  with assms show ?thesis
    by (cases os) (auto simp: pledge_run_defs pledge_lock_def htlc_new_swap_def settle_leg_def
        receive_and_lock_def consume_nonce_def)
qed

lemma pledge_collects:
  assumes "pledgeable dp t h pl" and "dp_sha256 dp (bytes_of s) = h"
  shows "transact dp t (pledge_redeem dp h s pl) [] (pledged dp h pl) = (Inr None, collected dp h s pl)"
  using assms
  by (auto simp: pledge_run_defs pledge_redeem_def htlc_redeem_def htlc_payout_def send_eth_def
      call_out_def ext_at_def collected_def pledge_payment_def split: option.splits)

subsection \<open>The node of a chain that hosts a leg\<close>

definition stage :: "u256 \<Rightarrow> message list \<Rightarrow> served" where
  "stage t ms = \<lparr>sv_blocks = map (\<lambda>m. [(t, m, [])]) ms, sv_pool = [], sv_clock = t, sv_others = []\<rparr>"

lemma stage_moves [simp]:
  "others_mine (stage t ms) = stage t ms"
  "pool_mined ((stage t ms)\<lparr>sv_pool := [m]\<rparr>) = stage t (ms @ [m])"
  "length (sv_blocks (stage t ms)) = length ms" "sv_pool (stage t ms) = []"
  "sv_clock (stage t ms) = t"
  by (simp_all add: stage_def others_mine_def pool_mined_def mine_def)

definition pledge_log :: "deployment \<Rightarrow> b32 \<Rightarrow> pledge \<Rightarrow> log" where
  "pledge_log dp h pl = \<lparr>log_event = Some (pledge_event dp h pl), log_block_number = Some 1\<rparr>"

definition redeem_log :: "deployment \<Rightarrow> b32 \<Rightarrow> b32 \<Rightarrow> pledge \<Rightarrow> log" where
  "redeem_log dp h s pl = \<lparr>log_event = Some (LogRedeem (pledge_cid dp h pl) s), log_block_number = Some 2\<rparr>"

lemma stage_chain:
  "served_chain dp (stage t []) = deployed"
  "pledgeable dp t h pl \<Longrightarrow> served_chain dp (stage t [pledge_lock h pl]) = pledged dp h pl"
  "pledgeable dp t h pl \<Longrightarrow> dp_sha256 dp (bytes_of s) = h \<Longrightarrow>
     served_chain dp (stage t [pledge_lock h pl, pledge_redeem dp h s pl]) = collected dp h s pl"
  by (simp_all add: served_chain_def stage_def pledge_lands pledge_collects)

lemma stage_logs:
  "served_logs dp f (stage t []) = []"
  "pledgeable dp t h pl \<Longrightarrow> served_logs dp f (stage t [pledge_lock h pl]) =
     (if lf_address f = dp_htlc dp then filter (log_selected f) [pledge_log dp h pl] else [])"
  "pledgeable dp t h pl \<Longrightarrow> dp_sha256 dp (bytes_of s) = h \<Longrightarrow>
     served_logs dp f (stage t [pledge_lock h pl, pledge_redeem dp h s pl]) =
       (if lf_address f = dp_htlc dp
        then filter (log_selected f) [pledge_log dp h pl, redeem_log dp h s pl] else [])"
  by (simp_all add: served_logs_def stage_def pledge_lands pledge_collects pledge_log_def redeem_log_def)
    (simp_all add: pledged_def collected_def booked_def deployed_def split: option.split)

text \<open>What the two chains are at once: the taker's, then the maker's.\<close>

definition both :: "'a \<Rightarrow> 'a \<Rightarrow> bool \<Rightarrow> 'a" where
  "both a b c = (if c then b else a)"

lemma both_simps [simp]:
  "both a b False = a" "both a b True = b"
  "(both a b)(False := x) = both x b" "(both a b)(True := x) = both a x"
  by (simp_all add: both_def fun_eq_iff)

end
