(* ===== verification/Kael_Swap_Completes.thy ===== *)
theory Kael_Swap_Completes
  imports Kael_Pledge Kael_Handshake Kael_Runner
begin

section \<open>A whole swap\<close>

text \<open>
  Two wallets on two chains, each served by nodes that run the contracts, driven by the loop of
  \<open>closed-testnet-swap.rs\<close>: the taker locks, the maker verifies and locks, the taker verifies and
  redeems, the maker learns the secret and redeems. The wallets, the terms, the secret, the
  hash functions, the chains and the time are arbitrary, and so is, for each wallet, whether it
  locks directly or through Settlement; both legs are native coins.
\<close>

subsection \<open>Two wallets that fit\<close>

text \<open>The order a wallet signs when it locks through Settlement, and the leg it pledges.\<close>

definition signed_order ::
  "('p, bool \<Rightarrow> served, 'sig, 'rid, 'vk, 'sk) outside \<Rightarrow> SwapContext \<Rightarrow> SettlementLockConfig \<Rightarrow> Order" where
  "signed_order u c cf =
     settlement_order \<lparr>sg_provider = (), sg_address = ctx_me c, sg_chain_id = 0\<rparr> cf (my_token c) (my_amount c)"

definition leg_pledge :: "('p, bool \<Rightarrow> served, 'sig, 'rid, 'vk, 'sk) outside \<Rightarrow> SettlementLockConfig option \<Rightarrow>
    SwapContext \<Rightarrow> pledge" where
  "leg_pledge u st c =
     \<lparr>pd_from = ctx_me c, pd_to = my_recipient c, pd_amount = my_amount c, pd_until = my_timelock c,
      pd_order = Option.bind st (\<lambda>cf.
        map_option (Pair (sol_order (signed_order u c cf)))
          (eip712_sign (out_keccak u) (out_k256 u) (signed_order u c cf) (st_maker_private_key cf)))\<rparr>"

text \<open>The wallet can use its Settlement: it is the deployed one, and signing succeeds.\<close>

definition can_settle :: "deployment \<Rightarrow> ('p, bool \<Rightarrow> served, 'sig, 'rid, 'vk, 'sk) outside \<Rightarrow>
    SettlementLockConfig option \<Rightarrow> SwapContext \<Rightarrow> bool" where
  "can_settle dp u st c \<longleftrightarrow>
     (case st of
        None \<Rightarrow> True
      | Some cf \<Rightarrow> st_settlement cf = dp_settlement dp \<and>
          eip712_sign (out_keccak u) (out_k256 u) (signed_order u c cf) (st_maker_private_key cf) \<noteq> None)"

text \<open>The terms of the two contexts are each other's, and leave the gap the verifier asks for.\<close>

definition counterparts :: "SwapContext \<Rightarrow> SwapContext \<Rightarrow> b32 \<Rightarrow> u64 \<Rightarrow> bool" where
  "counterparts ct cm h now \<longleftrightarrow>
     ctx_role ct = Taker \<and> ctx_role cm = Maker \<and> ctx_hashlock ct = Some h \<and> ctx_hashlock cm = Some h \<and>
     my_token ct = 0 \<and> cp_token cm = 0 \<and> my_token cm = 0 \<and> cp_token ct = 0 \<and>
     cp_amount cm = my_amount ct \<and> cp_amount ct = my_amount cm \<and>
     my_recipient ct = ctx_me cm \<and> my_recipient cm = ctx_me ct \<and>
     verify_counterparty_leg (expectation (ct\<lparr>ctx_now := now\<rparr>)) (leg_of cm h (ctx_me cm)) = Safe \<and>
     verify_counterparty_leg (expectation (cm\<lparr>ctx_now := now\<rparr>)) (leg_of ct h (ctx_me ct)) = Safe"

text \<open>
  A wallet as \<open>closed-testnet-swap.rs\<close> wires it, with one confirmation. \<open>False\<close> is the taker's chain;
  each wallet has a provider that signs and one that only reads, on either chain.
\<close>

record 'p links =
  ln_own :: 'p
  ln_cp :: 'p
  ln_watch_own :: 'p
  ln_watch_cp :: 'p

definition linked :: "('p \<Rightarrow> bool) \<Rightarrow> ('p \<Rightarrow> address) \<Rightarrow> bool \<Rightarrow> address \<Rightarrow> 'p links \<Rightarrow> bool" where
  "linked chain_of accounts own me ln \<longleftrightarrow>
     chain_of (ln_own ln) = own \<and> chain_of (ln_cp ln) = (\<not> own) \<and>
     chain_of (ln_watch_own ln) = own \<and> chain_of (ln_watch_cp ln) = (\<not> own) \<and>
     accounts (ln_own ln) = me \<and> accounts (ln_cp ln) = me"

definition party :: "(bool \<Rightarrow> deployment) \<Rightarrow> (bool \<Rightarrow> u64) \<Rightarrow> SettlementLockConfig option \<Rightarrow> 'p links \<Rightarrow> bool \<Rightarrow>
    SwapState \<Rightarrow> SwapContext \<Rightarrow> 'p WalletExecutorConfig" where
  "party dps ids st ln own state c =
     (let observer = (\<lambda>p b. observer_new \<lparr>rv_provider = p\<rparr> p (dp_htlc (dps b)) (ids b)) in
        \<lparr>cf_state = state, cf_ctx = c,
         cf_own_signer = \<lparr>sg_provider = ln_own ln, sg_address = ctx_me c, sg_chain_id = ids own\<rparr>,
         cf_cp_signer = \<lparr>sg_provider = ln_cp ln, sg_address = ctx_me c, sg_chain_id = ids (\<not> own)\<rparr>,
         cf_own_htlc = dp_htlc (dps own), cf_cp_htlc = dp_htlc (dps (\<not> own)), cf_settlement = st,
         cf_own_observer = observer (ln_watch_own ln) own,
         cf_cp_observer = observer (ln_watch_cp ln) (\<not> own), cf_min_confirmations = 1\<rparr>)"

definition hosted :: "('p \<Rightarrow> bool) \<Rightarrow> ('p \<Rightarrow> address) \<Rightarrow> (bool \<Rightarrow> deployment) \<Rightarrow> u64 \<Rightarrow>
    ('p, bool \<Rightarrow> served, 'sig, 'rid, 'vk, 'sk) outside \<Rightarrow> bool" where
  "hosted chain_of accounts dps now u \<longleftrightarrow>
     out_net u = honest_net chain_of dps accounts now \<and> abi_encodes (out_crates u) \<and>
     (\<forall>c. out_keccak u = dp_keccak (dps c) \<and> out_sha u = dp_sha256 (dps c))"

lemma hostedD:
  assumes "hosted chain_of accounts dps now u"
  shows "out_net u = honest_net chain_of dps accounts now" "abi_encodes (out_crates u)"
    "dp_keccak (dps c) = out_keccak u" "dp_sha256 (dps c) = out_sha u"
  using assms by (simp_all add: hosted_def)

lemma linkedD:
  assumes "linked chain_of accounts own me ln"
  shows "chain_of (ln_own ln) = own" "chain_of (ln_cp ln) = (\<not> own)"
    "chain_of (ln_watch_own ln) = own" "chain_of (ln_watch_cp ln) = (\<not> own)"
    "accounts (ln_own ln) = me" "accounts (ln_cp ln) = me"
  using assms by (simp_all add: linked_def)

lemma any_sender:
  "verify_counterparty_leg e (leg_of c h a) = verify_counterparty_leg e (leg_of c h b)"
  by (simp add: verify_counterparty_leg_def check_timelock_gap_def leg_of_def)

lemma counterpartsD:
  assumes "counterparts ct cm h now"
  shows "ctx_role ct = Taker" "ctx_role cm = Maker" "ctx_hashlock ct = Some h" "ctx_hashlock cm = Some h"
    "my_token ct = 0" "cp_token cm = 0" "my_token cm = 0" "cp_token ct = 0"
    "cp_amount cm = my_amount ct" "cp_amount ct = my_amount cm"
    "my_recipient ct = ctx_me cm" "my_recipient cm = ctx_me ct"
    "verify_counterparty_leg (expectation (ct\<lparr>ctx_now := now\<rparr>))
       \<lparr>ol_hashlock = h, ol_token = 0, ol_amount = my_amount cm, ol_recipient = ctx_me ct,
        ol_timelock = my_timelock cm, ol_sender = sender, ol_exists = True\<rparr> = Safe"
    "verify_counterparty_leg (expectation (cm\<lparr>ctx_now := now\<rparr>))
       \<lparr>ol_hashlock = h, ol_token = 0, ol_amount = my_amount ct, ol_recipient = ctx_me cm,
        ol_timelock = my_timelock ct, ol_sender = sender, ol_exists = True\<rparr> = Safe"
  using assms any_sender [of _ cm h sender "ctx_me cm"] any_sender [of _ ct h sender "ctx_me ct"]
  unfolding counterparts_def leg_of_def by (elim conjE; simp)+

lemma expectation_observed [simp]:
  "expectation (c\<lparr>counterparty_lock := l\<rparr>) = expectation c"
  "expectation (c\<lparr>my_leg_locked := b\<rparr>) = expectation c"
  "expectation (c\<lparr>revealed_secret := r\<rparr>) = expectation c"
  by (simp_all add: expectation_def)

lemma unat_ucast_bounds:
  "unat (ucast (a :: u128) :: u256) < 340282366920938463463374607431768211456"
  "unat (ucast (t :: u64) :: u256) < 18446744073709551616"
  using unat_lt_pow [of a] unat_lt_pow [of t] by (simp_all add: unat_ucast_u128 unat_ucast_u64)

lemma leg_pledge_fields [simp]:
  "pd_from (leg_pledge u st c) = ctx_me c" "pd_to (leg_pledge u st c) = my_recipient c"
  "pd_amount (leg_pledge u st c) = my_amount c" "pd_until (leg_pledge u st c) = my_timelock c"
  by (simp_all add: leg_pledge_def)

lemma pledgeableD:
  assumes "pledgeable dp t h (leg_pledge u st c)"
  shows "my_amount c \<noteq> 0" "ctx_me c \<noteq> 0" "my_recipient c \<noteq> 0"
  using assms by (simp_all add: pledgeable_def)

lemma pledgeable_sender: "pledgeable dp t h pl \<Longrightarrow> pledge_sender dp pl \<noteq> 0"
  by (auto simp: pledgeable_def order_settles_def pledge_sender_def split: option.splits)

subsection \<open>The four steps\<close>

text \<open>The wallets after their locks.\<close>

definition taker_locked :: "(bool \<Rightarrow> deployment) \<Rightarrow> (bool \<Rightarrow> u64) \<Rightarrow> SettlementLockConfig option \<Rightarrow>
    'p links \<Rightarrow> SwapContext \<Rightarrow> u64 \<Rightarrow> b32 \<Rightarrow> ('p, bool \<Rightarrow> served) env \<Rightarrow>
    ('p, bool \<Rightarrow> served) WalletExecutor" where
  "taker_locked dps ids st ln ct now cid v =
     (let x = executor_new (party dps ids st ln False MyLegLocked ct) v in
      x\<lparr>x_ctx := ct\<lparr>counterparty_lock := None, my_leg_locked := True, ctx_now := now\<rparr>,
        x_own_observer := (x_own_observer x)\<lparr>co_next_block := 1\<rparr>,
        x_cp_observer := (x_cp_observer x)\<lparr>co_next_block := 1\<rparr>,
        x_own_contract_id := Some cid\<rparr>)"

definition maker_locked :: "(bool \<Rightarrow> deployment) \<Rightarrow> (bool \<Rightarrow> u64) \<Rightarrow> SettlementLockConfig option \<Rightarrow>
    'p links \<Rightarrow> SwapContext \<Rightarrow> u64 \<Rightarrow> b32 \<Rightarrow> b32 \<Rightarrow> ObservedLock \<Rightarrow>
    ('p, bool \<Rightarrow> served) env \<Rightarrow>
    ('p, bool \<Rightarrow> served) WalletExecutor" where
  "maker_locked dps ids st ln' cm now cid cp_cid l v =
     (let x = executor_new (party dps ids st ln' True WaitingForSecret cm) v in
      x\<lparr>x_ctx := cm\<lparr>counterparty_lock := Some l, my_leg_locked := True, ctx_now := now\<rparr>,
        x_own_observer := (x_own_observer x)\<lparr>co_next_block := 1\<rparr>,
        x_cp_observer := (x_cp_observer x)
          \<lparr>co_tracker := snd (on_new_swap (ids False) cp_cid (ol_hashlock l) (ol_timelock l) (ol_amount l) tracker_new),
           co_next_block := 2\<rparr>,
        x_own_contract_id := Some cid,
        x_cp_contract_id := Some cp_cid\<rparr>)"

lemmas swap_run_defs =
  step_def honest_net_def quiet_net_def exec_defs eff_simps Let_def party_def executor_new_def
  observer_new_def stage_chain stage_logs step_lock_def reverified_action_def
  reverified_action_matches_def next_defs broadcast_lock_def lock_def lock_via_settlement_def send_and_wait_def
  advance_def pledge_log_def redeem_log_def log_selected_def pledge_event_def taker_locked_def maker_locked_def
  contract_ids_agree unat_ucast_bounds ucast_back pledged_def pledge_swap_def locked_swap_def
  leg_of_def creation_filter_def

lemmas sent_defs =
  pledge_lock_def pledge_cid_def pledge_redeem_def pledge_sender_def leg_pledge_def signed_order_def
  settlement_order_def can_settle_def

lemma taker_locks:
  assumes u: "hosted chain_of accounts dps now u" and c: "counterparts ct cm h now"
    and n: "linked chain_of accounts False (ctx_me ct) ln"
    and l: "pledgeable (dps False) ta h (leg_pledge u st ct)" and s: "can_settle (dps False) u st ct"
    and v: "world v = both (stage ta []) (stage tb [])"
  shows "\<exists>v'. step u (executor_new (party dps ids st ln False SecretGenerated ct) v) =
      (Inr (S_LockedMyLeg (pledge_cid (dps False) h (leg_pledge u st ct))),
       taker_locked dps ids st ln ct now (pledge_cid (dps False) h (leg_pledge u st ct)) v') \<and>
    world v' = both (stage ta [pledge_lock h (leg_pledge u st ct)]) (stage tb [])"
proof (cases st)
  case None
  then show ?thesis
    using v pledgeableD [OF l]
    by (cases v) (simp add: swap_run_defs hostedD [OF u] linkedD [OF n] counterpartsD [OF c],
      simp add: sent_defs hostedD [OF u] linkedD [OF n] counterpartsD [OF c])
next
  case (Some cf)
  with s obtain sg where sg: "st_settlement cf = dp_settlement (dps False)"
    "eip712_sign (out_keccak u) (out_k256 u) (signed_order u ct cf) (st_maker_private_key cf) = Some sg"
    by (auto simp: can_settle_def)
  note signs = sg(2) [unfolded signed_order_def settlement_order_def, simplified, simplified counterpartsD [OF c]]
  show ?thesis
    using Some v sg(1) signs pledgeableD [OF l]
    by (cases v) (simp add: swap_run_defs settlement_order_def hostedD [OF u] linkedD [OF n] counterpartsD [OF c],
      simp add: sent_defs hostedD [OF u] linkedD [OF n] counterpartsD [OF c])
qed

lemma maker_locks:
  assumes u: "hosted chain_of accounts dps now u" and c: "counterparts ct cm h now"
    and n: "linked chain_of accounts True (ctx_me cm) ln'"
    and l: "pledgeable (dps False) ta h (leg_pledge u st ct)" "pledgeable (dps True) tb h (leg_pledge u st' cm)"
    and s: "can_settle (dps True) u st' cm"
    and v: "world v = both (stage ta [pledge_lock h (leg_pledge u st ct)]) (stage tb [])"
  shows "\<exists>v'. step u (executor_new (party dps ids st' ln' True Start cm) v) =
      (Inr (S_LockedMyLeg (pledge_cid (dps True) h (leg_pledge u st' cm))),
       maker_locked dps ids st' ln' cm now (pledge_cid (dps True) h (leg_pledge u st' cm))
         (pledge_cid (dps False) h (leg_pledge u st ct))
         (leg_of ct h (pledge_sender (dps False) (leg_pledge u st ct))) v') \<and>
    world v' = both (stage ta [pledge_lock h (leg_pledge u st ct)]) (stage tb [pledge_lock h (leg_pledge u st' cm)])"
proof (cases st')
  case None
  then show ?thesis
    using v l pledgeableD [OF l(1)] pledgeableD [OF l(2)] pledgeable_sender [OF l(1)]
    by (cases v) (simp add: swap_run_defs hostedD [OF u] linkedD [OF n] counterpartsD [OF c],
      simp add: sent_defs hostedD [OF u] linkedD [OF n] counterpartsD [OF c])
next
  case (Some cf)
  with s obtain sg where sg: "st_settlement cf = dp_settlement (dps True)"
    "eip712_sign (out_keccak u) (out_k256 u) (signed_order u cm cf) (st_maker_private_key cf) = Some sg"
    by (auto simp: can_settle_def)
  note signs = sg(2) [unfolded signed_order_def settlement_order_def, simplified, simplified counterpartsD [OF c]]
  show ?thesis
    using Some v sg(1) signs l pledgeableD [OF l(1)] pledgeableD [OF l(2)] pledgeable_sender [OF l(1)]
    by (cases v) (simp add: swap_run_defs settlement_order_def hostedD [OF u] linkedD [OF n] counterpartsD [OF c],
      simp add: sent_defs hostedD [OF u] linkedD [OF n] counterpartsD [OF c])
qed

lemma taker_redeems:
  assumes u: "hosted chain_of accounts dps now u" and c: "counterparts ct cm h now"
    and n: "linked chain_of accounts False (ctx_me ct) ln"
    and l: "pledgeable (dps False) ta h (leg_pledge u st ct)" "pledgeable (dps True) tb h (leg_pledge u st' cm)"
    and s: "ctx_secret ct = Some s"
    and v: "world v = both (stage ta [pledge_lock h (leg_pledge u st ct)]) (stage tb [pledge_lock h (leg_pledge u st' cm)])"
  shows "\<exists>x'. step u (taker_locked dps ids st ln ct now cid v) = (Inr S_RedeemedCounterpartyLeg, x') \<and>
    x_state x' = CounterpartyRedeemed \<and> x_own_contract_id x' = Some cid \<and>
    world (x_env x') = both (stage ta [pledge_lock h (leg_pledge u st ct)])
      (stage tb [pledge_lock h (leg_pledge u st' cm), pledge_redeem (dps True) h s (leg_pledge u st' cm)])"
  using v l s pledgeableD [OF l(1)] pledgeableD [OF l(2)] pledgeable_sender [OF l(2)]
  by (cases v) (simp add: swap_run_defs step_redeem_def redeem_def hostedD [OF u] linkedD [OF n] counterpartsD [OF c],
    simp add: pledge_redeem_def hostedD [OF u] linkedD [OF n] counterpartsD [OF c])

lemma maker_redeems:
  assumes u: "hosted chain_of accounts dps now u" and c: "counterparts ct cm h now"
    and n: "linked chain_of accounts True (ctx_me cm) ln'"
    and l: "pledgeable (dps False) ta h (leg_pledge u st ct)" "pledgeable (dps True) tb h (leg_pledge u st' cm)"
    and s: "out_sha u (bytes_of s) = h"
    and v: "world v = both (stage ta [pledge_lock h (leg_pledge u st ct)])
      (stage tb [pledge_lock h (leg_pledge u st' cm), pledge_redeem (dps True) h s (leg_pledge u st' cm)])"
  shows "\<exists>x'. step u (maker_locked dps ids st' ln' cm now cid (pledge_cid (dps False) h (leg_pledge u st ct))
        (leg_of ct h sender) v) = (Inr S_RedeemedCounterpartyLeg, x') \<and>
    x_state x' = CounterpartyRedeemed \<and> x_own_contract_id x' = Some cid \<and>
    revealed_secret (x_ctx x') = Some s \<and>
    world (x_env x') = both
      (stage ta [pledge_lock h (leg_pledge u st ct), pledge_redeem (dps False) h s (leg_pledge u st ct)])
      (stage tb [pledge_lock h (leg_pledge u st' cm), pledge_redeem (dps True) h s (leg_pledge u st' cm)])"
  using v l s pledgeableD [OF l(1)] pledgeableD [OF l(2)] pledgeable_sender [OF l(1)]
  by (cases v) (simp add: swap_run_defs step_redeem_def redeem_def on_redeem_def hashlock_from_preimage_def
      hostedD [OF u] linkedD [OF n] counterpartsD [OF c],
    simp add: pledge_redeem_def hostedD [OF u] linkedD [OF n] counterpartsD [OF c])

subsection \<open>The loop\<close>

lemma executor_new_env [simp]: "(executor_new c v)\<lparr>x_env := w\<rparr> = executor_new c w"
  by (simp add: executor_new_def)

lemma locked_env [simp]:
  "(taker_locked dps ids st ln ct now cid v)\<lparr>x_env := w\<rparr> = taker_locked dps ids st ln ct now cid w"
  "(maker_locked dps ids st ln' cm now cid cp_cid l v)\<lparr>x_env := w\<rparr> = maker_locked dps ids st ln' cm now cid cp_cid l w"
  "x_env (taker_locked dps ids st ln ct now cid v) = v"
  "x_env (maker_locked dps ids st ln' cm now cid cp_cid l v) = v"
  "x_state (taker_locked dps ids st ln ct now cid v) = MyLegLocked"
  "x_state (maker_locked dps ids st ln' cm now cid cp_cid l v) = WaitingForSecret"
  by (simp_all add: taker_locked_def maker_locked_def Let_def executor_new_def party_def)

lemma step_in_Inr:
  "step u (x\<lparr>x_env := v\<rparr>) = (Inr r, x') \<Longrightarrow> step_in u label x v = (Inr x', x_env x')"
  by (simp add: step_in_def)

text \<open>The four steps one after another, each in the environment that the last left.\<close>

lemma swap_steps:
  assumes u: "hosted chain_of accounts dps now u" and c: "counterparts ct cm h now"
    and n: "linked chain_of accounts False (ctx_me ct) ln"
    and n': "linked chain_of accounts True (ctx_me cm) ln'"
    and l: "pledgeable (dps False) ta h (leg_pledge u st ct)" "pledgeable (dps True) tb h (leg_pledge u st' cm)"
    and signs: "can_settle (dps False) u st ct" "can_settle (dps True) u st' cm"
    and s: "ctx_secret ct = Some s" "out_sha u (bytes_of s) = h"
    and v: "world v = both (stage ta []) (stage tb [])"
  obtains t1 m1 v1 v2 t m where
    "\<And>w. step u ((executor_new (party dps ids st ln False SecretGenerated ct) w)\<lparr>x_env := v\<rparr>) =
      (Inr (S_LockedMyLeg (pledge_cid (dps False) h (leg_pledge u st ct))), t1)"
    and "x_env t1 = v1" and "x_state t1 = MyLegLocked"
    and "\<And>w. step u ((executor_new (party dps ids st' ln' True Start cm) w)\<lparr>x_env := v1\<rparr>) =
      (Inr (S_LockedMyLeg (pledge_cid (dps True) h (leg_pledge u st' cm))), m1)"
    and "x_env m1 = v2" and "x_state m1 = WaitingForSecret"
    and "step u (t1\<lparr>x_env := v2\<rparr>) = (Inr S_RedeemedCounterpartyLeg, t)"
    and "x_state t = CounterpartyRedeemed"
    and "x_own_contract_id t = Some (pledge_cid (dps False) h (leg_pledge u st ct))"
    and "step u (m1\<lparr>x_env := x_env t\<rparr>) = (Inr S_RedeemedCounterpartyLeg, m)"
    and "x_state m = CounterpartyRedeemed"
    and "x_own_contract_id m = Some (pledge_cid (dps True) h (leg_pledge u st' cm))"
    and "revealed_secret (x_ctx m) = Some s"
    and "world (x_env m) = both
      (stage ta [pledge_lock h (leg_pledge u st ct), pledge_redeem (dps False) h s (leg_pledge u st ct)])
      (stage tb [pledge_lock h (leg_pledge u st' cm), pledge_redeem (dps True) h s (leg_pledge u st' cm)])"
proof -
  let ?pt = "leg_pledge u st ct" and ?pm = "leg_pledge u st' cm"
  let ?t1 = "taker_locked dps ids st ln ct now (pledge_cid (dps False) h ?pt)"
  let ?m1 = "maker_locked dps ids st' ln' cm now (pledge_cid (dps True) h ?pm) (pledge_cid (dps False) h ?pt)
    (leg_of ct h (pledge_sender (dps False) ?pt))"
  obtain v1 where 1: "step u (executor_new (party dps ids st ln False SecretGenerated ct) v) =
      (Inr (S_LockedMyLeg (pledge_cid (dps False) h ?pt)), ?t1 v1)"
    and v1: "world v1 = both (stage ta [pledge_lock h ?pt]) (stage tb [])"
    using taker_locks [OF u c n l(1) signs(1) v, of ids] by blast
  obtain v2 where 2: "step u (executor_new (party dps ids st' ln' True Start cm) v1) =
      (Inr (S_LockedMyLeg (pledge_cid (dps True) h ?pm)), ?m1 v2)"
    and v2: "world v2 = both (stage ta [pledge_lock h ?pt]) (stage tb [pledge_lock h ?pm])"
    using maker_locks [OF u c n' l signs(2) v1, of ids] by blast
  obtain t where 3: "step u (?t1 v2) = (Inr S_RedeemedCounterpartyLeg, t)" "x_state t = CounterpartyRedeemed"
    "x_own_contract_id t = Some (pledge_cid (dps False) h ?pt)"
    and v3: "world (x_env t) = both (stage ta [pledge_lock h ?pt])
      (stage tb [pledge_lock h ?pm, pledge_redeem (dps True) h s ?pm])"
    using taker_redeems [OF u c n l s(1) v2, of ids] by blast
  obtain m where 4: "step u (?m1 (x_env t)) = (Inr S_RedeemedCounterpartyLeg, m)" "x_state m = CounterpartyRedeemed"
    "x_own_contract_id m = Some (pledge_cid (dps True) h ?pm)" "revealed_secret (x_ctx m) = Some s"
    and v4: "world (x_env m) = both
      (stage ta [pledge_lock h ?pt, pledge_redeem (dps False) h s ?pt])
      (stage tb [pledge_lock h ?pm, pledge_redeem (dps True) h s ?pm])"
    using maker_redeems [OF u c n' l s(2) v3, of ids] by blast
  show thesis
    by (rule that [of "?t1 v1" v1 "?m1 v2" v2 t m]) (simp_all add: 1 2 3 4 v4)
qed

lemma loop_completes:
  assumes u: "hosted chain_of accounts dps now u" and c: "counterparts ct cm h now"
    and n: "linked chain_of accounts False (ctx_me ct) ln"
    and n': "linked chain_of accounts True (ctx_me cm) ln'"
    and l: "pledgeable (dps False) ta h (leg_pledge u st ct)" "pledgeable (dps True) tb h (leg_pledge u st' cm)"
    and signs: "can_settle (dps False) u st ct" "can_settle (dps True) u st' cm"
    and s: "ctx_secret ct = Some s" "out_sha u (bytes_of s) = h"
    and v: "world v = both (stage ta []) (stage tb [])"
  shows "\<exists>t m v'. swap_loop u (Suc (Suc k)) i
      (executor_new (party dps ids st ln False SecretGenerated ct) v0)
      (executor_new (party dps ids st' ln' True Start cm) v0') v = (Inr (t, m), v') \<and>
    x_state t = CounterpartyRedeemed \<and> x_state m = CounterpartyRedeemed \<and>
    revealed_secret (x_ctx m) = Some s \<and>
    world v' = both
      (stage ta [pledge_lock h (leg_pledge u st ct), pledge_redeem (dps False) h s (leg_pledge u st ct)])
      (stage tb [pledge_lock h (leg_pledge u st' cm), pledge_redeem (dps True) h s (leg_pledge u st' cm)])"
proof -
  obtain t1 m1 v1 v2 t m where
    run: "\<And>w. step u ((executor_new (party dps ids st ln False SecretGenerated ct) w)\<lparr>x_env := v\<rparr>) =
        (Inr (S_LockedMyLeg (pledge_cid (dps False) h (leg_pledge u st ct))), t1)"
      "x_env t1 = v1" "x_state t1 = MyLegLocked"
      "\<And>w. step u ((executor_new (party dps ids st' ln' True Start cm) w)\<lparr>x_env := v1\<rparr>) =
        (Inr (S_LockedMyLeg (pledge_cid (dps True) h (leg_pledge u st' cm))), m1)"
      "x_env m1 = v2" "x_state m1 = WaitingForSecret"
      "step u (t1\<lparr>x_env := v2\<rparr>) = (Inr S_RedeemedCounterpartyLeg, t)" "x_state t = CounterpartyRedeemed"
      "x_own_contract_id t = Some (pledge_cid (dps False) h (leg_pledge u st ct))"
      "step u (m1\<lparr>x_env := x_env t\<rparr>) = (Inr S_RedeemedCounterpartyLeg, m)" "x_state m = CounterpartyRedeemed"
      "x_own_contract_id m = Some (pledge_cid (dps True) h (leg_pledge u st' cm))"
      "revealed_secret (x_ctx m) = Some s"
      "world (x_env m) = both
        (stage ta [pledge_lock h (leg_pledge u st ct), pledge_redeem (dps False) h s (leg_pledge u st ct)])
        (stage tb [pledge_lock h (leg_pledge u st' cm), pledge_redeem (dps True) h s (leg_pledge u st' cm)])"
    by (rule swap_steps [OF assms, where ids = ids]) (rule that)
  note round1 = step_in_Inr [OF run(1)] step_in_Inr [OF run(4)]
    and round2 = step_in_Inr [OF run(7)] step_in_Inr [OF run(10)]
  have "swap_loop u (Suc (Suc k)) i (executor_new (party dps ids st ln False SecretGenerated ct) v0)
      (executor_new (party dps ids st' ln' True Start cm) v0') v = (Inr (t, m), x_env m)"
    using run(2,3,5,6,8,11) by (simp add: eff_simps settled_state_def round1 round2)
  with run(8,11,13,14) show ?thesis by blast
qed

subsection \<open>Locking through Settlement\<close>

text \<open>
  A wallet's Settlement works for it: it is the deployed one on the chain its order names, the key
  is the maker's and the libraries keep their contracts, and the order is valid at time \<open>t\<close>.
\<close>

definition settlement_works :: "deployment \<Rightarrow> ('p, bool \<Rightarrow> served, 'sig, 'rid, 'vk, 'sk) outside \<Rightarrow> u256 \<Rightarrow>
    SettlementLockConfig option \<Rightarrow> SwapContext \<Rightarrow> bool" where
  "settlement_works dp u t st c \<longleftrightarrow>
     (case st of
        None \<Rightarrow> True
      | Some cf \<Rightarrow>
          st_settlement cf = dp_settlement dp \<and> dp_settlement dp \<noteq> 0 \<and>
          ucast (st_sell_chain_id cf) = dp_chain_id dp \<and> t \<le> ucast (st_valid_until cf) \<and>
          precompile_agrees (out_keccak u) (out_k256 u) (dp_ecrecover dp) \<and>
          address_from_private_key (out_keccak u) (out_k256 u) (st_maker_private_key cf) = Some (ctx_me c) \<and>
          (\<exists>sk. sk_from_slice (out_k256 u) (st_maker_private_key cf) = Some sk \<and>
             signing_contract (out_k256 u) sk (digest (out_keccak u) (signed_order u c cf))))"

text \<open>An order that the wallet signs is accepted on chain until it expires.\<close>

lemma signed_order_accepted:
  assumes "precompile_agrees kc k ecr"
    and "address_from_private_key kc k key = Some (o_maker ord)" "o_maker ord \<noteq> 0"
    and "sk_from_slice k key = Some sk" "signing_contract k sk (digest kc ord)"
    and "t \<le> ucast (o_valid_until ord)"
  shows "\<exists>sg. eip712_sign kc k ord key = Some sg \<and>
    order_verify kc ecr (sol_order ord) sg t = Inr (digest kc ord)"
proof -
  have "unat t < 2 ^ 64"
    using assms(6) unat_lt_pow [of "o_valid_until ord"] by (simp add: word_le_nat_alt unat_ucast_u64)
  then have t: "ucast (ucast t :: u64) = t" by (rule ucast_fits)
  then have "(ucast t :: u64) \<le> o_valid_until ord"
    using assms(6) by (metis unat_ucast_u64 word_le_nat_alt)
  from sign_then_verify [OF assms(4,5,2,3) this] obtain sg where sg: "eip712_sign kc k ord key = Some sg"
    "eip712_verify kc k ord sg (ucast t) = Inr (digest kc ord)" by blast
  with order_verify_agrees [OF assms(1), of ord sg "ucast t"] show ?thesis by (simp add: t)
qed

lemma settlement_settles:
  assumes "settlement_works dp u t st c" and "my_token c = 0" and "ctx_me c \<noteq> 0"
    and "dp_keccak dp = out_keccak u"
  shows "can_settle dp u st c \<and> order_settles dp t (leg_pledge u st c)"
proof (cases st)
  case None
  then show ?thesis by (simp add: can_settle_def order_settles_def leg_pledge_def)
next
  case (Some cf)
  let ?o = "signed_order u c cf" and ?kc = "out_keccak u" and ?k = "out_k256 u"
  from assms(1) Some obtain sk where works: "st_settlement cf = dp_settlement dp" "dp_settlement dp \<noteq> 0"
    "ucast (st_sell_chain_id cf) = dp_chain_id dp" "t \<le> ucast (st_valid_until cf)"
    "precompile_agrees ?kc ?k (dp_ecrecover dp)"
    "address_from_private_key ?kc ?k (st_maker_private_key cf) = Some (ctx_me c)"
    "sk_from_slice ?k (st_maker_private_key cf) = Some sk" "signing_contract ?k sk (digest ?kc ?o)"
    by (auto simp: settlement_works_def)
  have fields: "o_maker ?o = ctx_me c" "o_valid_until ?o = st_valid_until cf" "o_sell_token ?o = 0"
    "o_sell_chain_id ?o = st_sell_chain_id cf" "o_sell_amount ?o = my_amount c"
    by (simp_all add: signed_order_def settlement_order_def assms(2))
  obtain sg where sg: "eip712_sign ?kc ?k ?o (st_maker_private_key cf) = Some sg"
    "order_verify ?kc (dp_ecrecover dp) (sol_order ?o) sg t = Inr (digest ?kc ?o)"
    using signed_order_accepted [OF works(5) _ _ works(7,8), where t = t] works(4,6) assms(3) fields by auto
  then show ?thesis
    using Some works sg fields assms(4)
    by (simp add: can_settle_def order_settles_def leg_pledge_def sol_order_def)
qed

subsection \<open>From two matched orders\<close>

lemma derived_counterparts:
  assumes native: "o_sell_token oa = 0" "o_sell_token ob = 0"
    and "expiry Taker policy now1 + unat (policy_min_gap policy) < 2 ^ 64"
    and "expiry Maker policy now2 + unat (policy_min_gap policy) \<le> expiry Taker policy now1"
    and "policy_min_gap policy \<noteq> 0"
    and "unat now + unat (policy_min_gap policy) \<le> expiry Maker policy now2"
  shows "counterparts (derive_context oa ob Taker (Some h) s1 policy now1)
    (derive_context ob oa Maker (Some h) s2 policy now2) h now"
  unfolding counterparts_def
proof (intro conjI)
  show "verify_counterparty_leg
      (expectation (derive_context oa ob Taker (Some h) s1 policy now1\<lparr>ctx_now := now\<rparr>))
      (leg_of (derive_context ob oa Maker (Some h) s2 policy now2) h
        (ctx_me (derive_context ob oa Maker (Some h) s2 policy now2))) = Safe"
    by (rule derived_legs_are_safe) (use assms in simp_all)
  show "verify_counterparty_leg
      (expectation (derive_context ob oa Maker (Some h) s2 policy now2\<lparr>ctx_now := now\<rparr>))
      (leg_of (derive_context oa ob Taker (Some h) s1 policy now1) h
        (ctx_me (derive_context oa ob Taker (Some h) s1 policy now1))) = Safe"
    by (rule derived_legs_are_safe) (use assms in simp_all)
qed (simp_all add: derive_context_def native)

lemma derived_pledgeable:
  assumes "o_sell_amount oa \<noteq> 0" and "h \<noteq> 0" and "unat t < expiry role policy now"
    and "expiry role policy now < 2 ^ 64"
    and "{o_maker oa, o_maker ob} \<inter> {0, dp_htlc dp, dp_settlement dp} = {}"
    and "order_settles dp t (leg_pledge u st (derive_context oa ob role h' s policy now))"
  shows "pledgeable dp t h (leg_pledge u st (derive_context oa ob role h' s policy now))"
  using assms unat_my_timelock [OF assms(4), of oa ob h' s]
  by (auto simp: pledgeable_def derive_context_def word_less_nat_alt unat_ucast_u64)

text \<open>The only payment of a chain: the maker of the order gets all that the other order sells.\<close>

definition paid_in_full :: "Order \<Rightarrow> Order \<Rightarrow> chain_state \<Rightarrow> bool" where
  "paid_in_full order_self order_cp s \<longleftrightarrow>
     (\<exists>p. htlc_paid s = [p] \<and> pm_to p = o_maker order_self \<and> pm_token p = o_buy_token order_self \<and>
        unat (pm_amount p) = unat (o_sell_amount order_cp) \<and>
        unat (o_buy_amount order_self) \<le> unat (pm_amount p))"

lemma collected_paid: "htlc_paid (collected dp h s pl) = [pledge_payment dp h pl]"
  by (simp add: collected_def)

lemma collected_pays:
  assumes "compatible oa ob t" and "o_sell_token ob = 0"
    and "my_recipient c = o_maker oa" and "my_amount c = o_sell_amount ob"
  shows "paid_in_full oa ob (collected dp h s (leg_pledge u st c))"
  using assms
  by (simp add: paid_in_full_def collected_paid pledge_payment_def compatible_def mirrors_def
      crosses_def unat_ucast_u128 word_le_nat_alt)

text \<open>
  C2. Matched orders settle. Take two orders that the orderbook's rules match, selling native coins
  on two chains, whose wallets compute opposite roles and derive their contexts at times \<open>now1\<close>
  and \<open>now2\<close>, with a policy under which the taker's leg outlives the maker's by the gap; each
  locks directly or through a Settlement that works for it. On two fresh deployments with honest
  nodes, and with the gap still left at the wallets' clock, the runner's loop settles in its
  second round, whatever the secret, the hash functions and the chains' clocks before the
  expiries: both wallets end in \<open>CounterpartyRedeemed\<close>, the maker knows the taker's secret, and on
  each chain the only payment goes to the party that buys there, of all that the other order
  sells, which is at least what its own order asked for.
\<close>

theorem matched_orders_settle:
  assumes orders: "compatible oa ob t0" "o_sell_token oa = 0" "o_sell_token ob = 0"
      "o_sell_amount oa \<noteq> 0" "o_sell_amount ob \<noteq> 0"
    and roles: "assign_role kc oa ob = Taker" "assign_role kc ob oa = Maker"
    and contexts: "ct = derive_context oa ob (assign_role kc oa ob) (Some h) (Some s) policy now1"
      "cm = derive_context ob oa (assign_role kc ob oa) (Some h) None policy now2"
    and secret: "out_sha u (bytes_of s) = h" "h \<noteq> 0"
    and policy: "expiry Taker policy now1 + unat (policy_min_gap policy) < 2 ^ 64"
      "expiry Maker policy now2 + unat (policy_min_gap policy) \<le> expiry Taker policy now1"
      "policy_min_gap policy \<noteq> 0"
    and time: "unat now + unat (policy_min_gap policy) \<le> expiry Maker policy now2"
      "unat ta < expiry Taker policy now1" "unat tb < expiry Maker policy now2"
    and nodes: "hosted chain_of accounts dps now u"
      "linked chain_of accounts False (ctx_me ct) ln" "linked chain_of accounts True (ctx_me cm) ln'"
    and accounts: "\<forall>c. {o_maker oa, o_maker ob} \<inter> {0, dp_htlc (dps c), dp_settlement (dps c)} = {}"
    and settlements: "settlement_works (dps False) u ta st ct" "settlement_works (dps True) u tb st' cm"
    and fresh: "world v = both (stage ta []) (stage tb [])"
  shows "\<exists>t m v'. swap_loop u (Suc (Suc k)) i
      (executor_new (party dps ids st ln False SecretGenerated ct) v)
      (executor_new (party dps ids st' ln' True Start cm) v) v = (Inr (t, m), v') \<and>
    x_state t = CounterpartyRedeemed \<and> x_state m = CounterpartyRedeemed \<and>
    revealed_secret (x_ctx m) = Some s \<and>
    paid_in_full oa ob (served_chain (dps True) (world v' True)) \<and>
    paid_in_full ob oa (served_chain (dps False) (world v' False))"
proof -
  have ct: "ct = derive_context oa ob Taker (Some h) (Some s) policy now1"
    and cm: "cm = derive_context ob oa Maker (Some h) None policy now2"
    using contexts roles by simp_all
  have terms: "my_token ct = 0" "my_token cm = 0" "ctx_me ct \<noteq> 0" "ctx_me cm \<noteq> 0" "ctx_secret ct = Some s"
    "my_recipient cm = o_maker oa" "my_recipient ct = o_maker ob"
    "my_amount cm = o_sell_amount ob" "my_amount ct = o_sell_amount oa"
    using orders accounts by (auto simp: ct cm derive_context_def)
  have c: "counterparts ct cm h now"
    unfolding ct cm by (rule derived_counterparts) (use orders policy time in simp_all)
  have kc: "dp_keccak (dps b) = out_keccak u" for b by (rule hostedD [OF nodes(1)])
  note settles = settlement_settles [OF settlements(1) terms(1,3) kc] settlement_settles [OF settlements(2) terms(2,4) kc]
  have l: "pledgeable (dps False) ta h (leg_pledge u st ct)" "pledgeable (dps True) tb h (leg_pledge u st' cm)"
    unfolding ct cm
    by (rule derived_pledgeable; use orders secret policy time accounts settles in
        \<open>auto simp: insert_commute ct cm\<close>)+
  from loop_completes [OF nodes(1) c nodes(2,3) l _ _ terms(5) secret(1) fresh] settles obtain t m v' where
    "swap_loop u (Suc (Suc k)) i (executor_new (party dps ids st ln False SecretGenerated ct) v)
      (executor_new (party dps ids st' ln' True Start cm) v) v = (Inr (t, m), v')"
    "x_state t = CounterpartyRedeemed" "x_state m = CounterpartyRedeemed"
    "revealed_secret (x_ctx m) = Some s"
    and w: "world v' = both
      (stage ta [pledge_lock h (leg_pledge u st ct), pledge_redeem (dps False) h s (leg_pledge u st ct)])
      (stage tb [pledge_lock h (leg_pledge u st' cm), pledge_redeem (dps True) h s (leg_pledge u st' cm)])"
    by blast
  moreover have "compatible ob oa t0"
    using orders(1) by (auto simp: compatible_def mirrors_def crosses_def)
  then have "paid_in_full oa ob (served_chain (dps True) (world v' True))"
    "paid_in_full ob oa (served_chain (dps False) (world v' False))"
    using l secret(1) orders terms
    by (auto simp: w stage_chain hostedD [OF nodes(1)] intro!: collected_pays)
  ultimately show ?thesis by blast
qed

subsection \<open>Two orders that settle\<close>

text \<open>The taker locks through Settlement, the maker directly.\<close>

definition coin_order :: "Order \<Rightarrow> Order" where
  "coin_order o1 = o1\<lparr>o_sell_token := 0, o_buy_token := 0\<rparr>"

definition pair_world :: "(bool \<times> address, bool \<Rightarrow> served, u8 list, u8, b32, b32) outside" where
  "pair_world =
     \<lparr>out_net = honest_net fst demo_dps snd 1000, out_crates = abi_crates, out_keccak = toy_hash,
      out_sha = toy_hash, out_iter = (\<lambda>_. []), out_k256 = toy_k256\<rparr>"

definition pair_links :: "bool \<Rightarrow> u8 \<Rightarrow> (bool \<times> address) links" where
  "pair_links own a = \<lparr>ln_own = (own, fill a), ln_cp = (\<not> own, fill a), ln_watch_own = (own, 0), ln_watch_cp = (\<not> own, 0)\<rparr>"

definition pair_settlement :: SettlementLockConfig where
  "pair_settlement =
     \<lparr>st_settlement = fill 0xD1, st_maker_private_key = fill 0xBB, st_sell_chain_id = 31337, st_buy_token = 0,
      st_buy_chain_id = 10, st_buy_amount = 100, st_valid_until = 1000, st_nonce = 1\<rparr>"

lemma pair_contexts:
  "ctx_me (derive_context oa ob role h s policy now) = o_maker oa"
  "my_token (derive_context oa ob role h s policy now) = o_sell_token oa"
  by (simp_all add: derive_context_def)

lemma pair_hosted:
  "hosted fst snd demo_dps 1000 pair_world" "out_sha pair_world = toy_hash"
  "linked fst snd own (fill a) (pair_links own a)"
  "settlement_works (demo_dps b) pair_world t None c"
  "ctx_me c = fill 0xBB \<Longrightarrow> settlement_works (demo_dps False) pair_world 1 (Some pair_settlement) c"
  by (simp_all add: hosted_def pair_world_def abi_crates_def abi_encodes_def demo_dps_def demo_dp_def linked_def
      pair_links_def settlement_works_def pair_settlement_def precompile_agrees_def toy_ecrecover_def toy_key
      example_contract word_le_nat_alt) (simp add: toy_k256_def)

lemma matched_orders_settle_witness:
  "let oa = coin_order (mirror_order_example 200 5 1); ob = coin_order sell_order_example;
       ct = derive_context oa ob (assign_role toy_hash oa ob) (Some (fill 9)) (Some (fill 9)) policy_example 1000;
       cm = derive_context ob oa (assign_role toy_hash ob oa) (Some (fill 9)) None policy_example 1060;
       v = \<lparr>world = both (stage 1 []) (stage 1 []), sent = []\<rparr>
   in \<exists>t m v'. swap_loop pair_world (Suc (Suc 0)) 0
        (executor_new (party demo_dps (\<lambda>_. 31337) (Some pair_settlement) (pair_links False 0xBB) False SecretGenerated ct) v)
        (executor_new (party demo_dps (\<lambda>_. 31337) None (pair_links True 0xAA) True Start cm) v) v = (Inr (t, m), v') \<and>
      paid_in_full oa ob (served_chain (demo_dps True) (world v' True)) \<and>
      paid_in_full ob oa (served_chain (demo_dps False) (world v' False))"
proof -
  let ?oa = "coin_order (mirror_order_example 200 5 1)" and ?ob = "coin_order sell_order_example"
  have orders: "compatible ?oa ?ob 500" "o_sell_token ?oa = 0" "o_sell_token ?ob = 0"
    "o_sell_amount ?oa \<noteq> 0" "o_sell_amount ?ob \<noteq> 0"
    "assign_role toy_hash ?oa ?ob = Taker" "assign_role toy_hash ?ob ?oa = Maker"
    "o_maker ?oa = fill 0xBB" "o_maker ?ob = fill 0xAA"
    by (simp_all add: coin_order_def matching_eval assign_role_def)
  have times: "expiry Taker policy_example 1000 = 8200" "expiry Maker policy_example 1060 = 4660"
    "policy_min_gap policy_example = 1800"
    by (simp_all add: expiry_def policy_example_def)
  have accounts: "\<forall>b. {o_maker ?oa, o_maker ?ob} \<inter> {0, dp_htlc (demo_dps b), dp_settlement (demo_dps b)} = {}"
    by (simp add: orders demo_dps_def demo_dp_def)
  from matched_orders_settle [OF orders(1-7) refl refl _ _ _ _ _ _ _ _ pair_hosted(1) _ _ accounts _ _ _,
      where ?now1.0 = 1000 and ?now2.0 = 1060 and policy = policy_example and s = "fill 9" and h = "fill 9"
        and st = "Some pair_settlement" and st' = None and ln = "pair_links False 0xBB" and ln' = "pair_links True 0xAA"
        and k = 0 and i = 0 and ids = "\<lambda>_. 31337"
        and ta = 1 and tb = 1 and v = "\<lparr>world = both (stage 1 []) (stage 1 []), sent = []\<rparr>"]
  show ?thesis
    unfolding Let_def
    by (simp add: pair_hosted pair_contexts orders times del: swap_loop.simps) blast
qed

end
