(* ===== verification/Kael_Runner_Settles.thy ===== *)
theory Kael_Runner_Settles
  imports Kael_Swap_Completes
begin

section \<open>The runner settles\<close>

text \<open>
  The whole program \<open>closed-testnet-swap.rs\<close>, from the environment to the last payment. What it
  checks before its loop, asked of nodes that run the contracts, leaves nothing open: the
  addresses it was given are those of the deployments, and its two executors are the wallets of
  \<open>Kael_Swap_Completes\<close>, locking through Settlement. So its loop settles.
\<close>

subsection \<open>Preparing leaves the chains alone\<close>

interpretation idle: frame "\<lambda>s t. t = s" by unfold_locales auto

abbreviation idles :: "('s, 'e, 'a) eff \<Rightarrow> bool" where
  "idles \<equiv> keeps (\<lambda>s t. t = s)"

lemma idle_calls:
  assumes "out_net u = honest_net chain_of dps accounts now"
  shows "idles (rpc (get_chain_id (out_net u) p))" "idles (rpc (get_code_at (out_net u) p a))"
    "idles (rpc (call_htlc (out_net u) p a))" "idles (ask (clock_now (out_net u)))"
    "idles (ask (os_random32 (out_net u)))" "idles (ask (os_next_u64 (out_net u)))"
  by (simp_all add: keeps_def rpc_def ask_def assms honest_net_def quiet_net_def Let_def)

lemma prepare_idles:
  assumes "out_net u = honest_net chain_of dps accounts now"
  shows "idles (prepare u cl var)"
proof -
  note calls = idle_calls [OF assms]
  have nonce: "idles (read_nonce (out_net u) var name)" for name
    unfolding read_nonce_def by (intro idle.keeps_rules calls)
  have config: "idles (read_config (out_net u) cr var)" for cr
    unfolding read_config_def read_leg_config_def Let_def by (intro idle.keeps_rules nonce)
  have code: "idles (validate_code (out_net u) cr cl what kind name rpc_url chain a)"
    for cr what kind name rpc_url chain a
    unfolding validate_code_def read_chain_id_def Let_def by (intro idle.keeps_rules calls)
  have contracts: "idles (validate_contracts (out_net u) cr cl c)" for cr c
    unfolding validate_contracts_def validate_htlc_contract_def validate_settlement_contract_def
      validate_token_contract_def Let_def
    by (intro idle.keeps_rules calls code)
  have signer: "idles (own_signer (out_net u) cl who key url)" for who key url
    unfolding own_signer_def from_key_str_def Let_def by (intro idle.keeps_rules calls)
  have executor: "idles (runner_executor cl who st ctx own_sg cp_sg own cp t lock_secs confs)"
    for who st ctx own_sg cp_sg own cp t lock_secs confs
    unfolding runner_executor_def by (intro idle.keeps_rules)
  show ?thesis
    unfolding prepare_def Let_def
    by (intro idle.keeps_rules calls config contracts signer executor)
qed

subsection \<open>What the checks establish\<close>

text \<open>The providers that the clients build for an RPC address are connections to chain \<open>b\<close>.\<close>

definition served_at :: "('u, 'k, 'p) clients \<Rightarrow> ('p \<Rightarrow> bool) \<Rightarrow> ('p \<Rightarrow> address) \<Rightarrow> string \<Rightarrow> bool \<Rightarrow> bool" where
  "served_at cl chain_of accounts url b \<longleftrightarrow>
     (\<forall>w. parse_url cl url = Inr w \<longrightarrow>
        chain_of (connect_http cl w) = b \<and>
        (\<forall>key. chain_of (connect_wallet cl key w) = b \<and>
           accounts (connect_wallet cl key w) = key_address cl key))"

text \<open>The settings of a leg name the deployment of chain \<open>b\<close>.\<close>

definition names_deployment :: "deployment \<Rightarrow> LegConfig \<Rightarrow> bool" where
  "names_deployment dp l \<longleftrightarrow>
     lc_htlc l = dp_htlc dp \<and> lc_settlement l = dp_settlement dp \<and> dp_settlement dp \<noteq> 0 \<and>
     lc_chain_id l = ucast (dp_chain_id dp)"

lemma settlement_validated:
  assumes "out_net u = honest_net chain_of dps accounts now" and "served_at cl chain_of accounts (lc_rpc l) b"
    and "validate_settlement_contract (out_net u) cr cl name (lc_rpc l) (lc_chain_id l) (lc_settlement l) (lc_htlc l) v =
      (Inr (), v')"
  shows "names_deployment (dps b) l"
  using assms unfolding validate_settlement_contract_def validate_code_def read_chain_id_def Let_def
  by (auto simp: eff_Inr guard_Inr rpc_Inr served_at_def honest_net_def names_deployment_def Let_def split: if_splits)

lemma signer_made:
  assumes "own_signer n cl who key url v = (Inr sg, v')" and "served_at cl chain_of accounts url b"
  obtains k where "parse_key cl (strip_key key) = Inr k" "sg_address sg = key_address cl k"
    "chain_of (sg_provider sg) = b" "accounts (sg_provider sg) = key_address cl k"
  using assms by (auto simp: own_signer_def eff_Inr from_key_str_Inr served_at_def)

lemma observer_made:
  assumes "rpc_observer cl url htlc chain = Inr ob" and "served_at cl chain_of accounts url b"
  obtains p where "ob = observer_new \<lparr>rv_provider = p\<rparr> p htlc chain" "chain_of p = b"
  using assms by (auto simp: rpc_observer_def rpc_verifier_new_def and_then_eq_Inr served_at_def Let_def)

lemma executor_made:
  assumes "runner_executor cl who state ctx own_sg cp_sg own cp t lock_secs confs v = (Inr x, v')"
    and "served_at cl chain_of accounts (lc_rpc own) b" and "served_at cl chain_of accounts (lc_rpc cp) (\<not> b)"
  obtains p q where "chain_of p = b" "chain_of q = (\<not> b)"
    "x = executor_new
       \<lparr>cf_state = state, cf_ctx = ctx, cf_own_signer = own_sg, cf_cp_signer = cp_sg,
        cf_own_htlc = lc_htlc own, cf_cp_htlc = lc_htlc cp,
        cf_settlement = Some (settlement_config own cp t lock_secs),
        cf_own_observer = observer_new \<lparr>rv_provider = p\<rparr> p (lc_htlc own) (lc_chain_id own),
        cf_cp_observer = observer_new \<lparr>rv_provider = q\<rparr> q (lc_htlc cp) (lc_chain_id cp),
        cf_min_confirmations = confs\<rparr> v"
proof -
  from assms(1) obtain own_ob cp_ob where obs: "rpc_observer cl (lc_rpc own) (lc_htlc own) (lc_chain_id own) = Inr own_ob"
    "rpc_observer cl (lc_rpc cp) (lc_htlc cp) (lc_chain_id cp) = Inr cp_ob"
    and x: "x = executor_new
       \<lparr>cf_state = state, cf_ctx = ctx, cf_own_signer = own_sg, cf_cp_signer = cp_sg,
        cf_own_htlc = lc_htlc own, cf_cp_htlc = lc_htlc cp,
        cf_settlement = Some (settlement_config own cp t lock_secs),
        cf_own_observer = own_ob, cf_cp_observer = cp_ob, cf_min_confirmations = confs\<rparr> v"
    by (auto simp: runner_executor_def eff_Inr)
  obtain p where "own_ob = observer_new \<lparr>rv_provider = p\<rparr> p (lc_htlc own) (lc_chain_id own)" "chain_of p = b"
    using obs(1) assms(2) by (rule observer_made)
  moreover obtain q where "cp_ob = observer_new \<lparr>rv_provider = q\<rparr> q (lc_htlc cp) (lc_chain_id cp)" "chain_of q = (\<not> b)"
    using obs(2) assms(3) by (rule observer_made)
  ultimately show ?thesis using x by (intro that) simp_all
qed

lemma prepared:
  fixes v :: "('p, bool \<Rightarrow> served) env"
  assumes net: "out_net u = honest_net chain_of dps accounts now"
    and prep: "prepare u cl var v = (Inr (c, taker, maker), v')"
    and at: "served_at cl chain_of accounts (lc_rpc (sc_taker c)) False"
      "served_at cl chain_of accounts (lc_rpc (sc_maker c)) True"
    and confs: "sc_min_confirmations c = 1"
  obtains s kt km ln ln' et em where
    "v' = v" "check_config c = Inr ()"
    "lc_amount (sc_taker c) \<noteq> 0" "lc_amount (sc_maker c) \<noteq> 0"
    "names_deployment (dps False) (sc_taker c)" "names_deployment (dps True) (sc_maker c)"
    "parse_key cl (strip_key (lc_key (sc_taker c))) = Inr kt"
    "parse_key cl (strip_key (lc_key (sc_maker c))) = Inr km"
    "linked chain_of accounts False (key_address cl kt) ln" "linked chain_of accounts True (key_address cl km) ln'"
    "taker = executor_new (party dps (both (lc_chain_id (sc_taker c)) (lc_chain_id (sc_maker c)))
       (Some (settlement_config (sc_taker c) (sc_maker c) now (sc_taker_lock_secs c))) ln False SecretGenerated
       (runner_context Taker (sc_taker c) (sc_maker c) now (sc_taker_lock_secs c) (sc_min_gap c)
          (key_address cl km) (key_address cl kt) (hashlock_from_preimage (out_sha u) s) (Some s))) et"
    "maker = executor_new (party dps (both (lc_chain_id (sc_taker c)) (lc_chain_id (sc_maker c)))
       (Some (settlement_config (sc_maker c) (sc_taker c) now (sc_maker_lock_secs c))) ln' True Start
       (runner_context Maker (sc_maker c) (sc_taker c) now (sc_maker_lock_secs c) (sc_min_gap c)
          (key_address cl kt) (key_address cl km) (hashlock_from_preimage (out_sha u) s) None)) em"
proof -
  have v': "v' = v" using prep prepare_idles [OF net] by (rule keepsE [rotated])
  from prep obtain w1 w2 where read: "read_config (out_net u) (out_crates u) var w1 = (Inr c, w2)"
    and check: "check_config c = Inr ()"
    unfolding prepare_def Let_def eff_Inr by auto
  let ?t = "sc_taker c" and ?m = "sc_maker c"
  from prep obtain w3 w4 where "validate_contracts (out_net u) (out_crates u) cl c w3 = (Inr (), w4)"
    unfolding prepare_def Let_def eff_Inr by auto
  then obtain x1 x2 x3 x4 where
    "validate_settlement_contract (out_net u) (out_crates u) cl ''A'' (lc_rpc ?t) (lc_chain_id ?t)
       (lc_settlement ?t) (lc_htlc ?t) x1 = (Inr (), x2)"
    "validate_settlement_contract (out_net u) (out_crates u) cl ''B'' (lc_rpc ?m) (lc_chain_id ?m)
       (lc_settlement ?m) (lc_htlc ?m) x3 = (Inr (), x4)"
    unfolding validate_contracts_def Let_def eff_Inr by auto
  then have dps: "names_deployment (dps False) ?t" "names_deployment (dps True) ?m"
    using at by (blast intro: settlement_validated [OF net])+
  from prep obtain clock s t_own t_cp m_own m_cp y1 y2 y3 y4 z1 z2 z3 z4 e1 e2 e3 e4 e5 e6 where sgs:
    "own_signer (out_net u) cl ''taker signer on chain A'' (lc_key ?t) (lc_rpc ?t) y1 = (Inr t_own, z1)"
    "own_signer (out_net u) cl ''taker signer on chain B'' (lc_key ?t) (lc_rpc ?m) y2 = (Inr t_cp, z2)"
    "own_signer (out_net u) cl ''maker signer on chain B'' (lc_key ?m) (lc_rpc ?m) y3 = (Inr m_own, z3)"
    "own_signer (out_net u) cl ''maker signer on chain A'' (lc_key ?m) (lc_rpc ?t) y4 = (Inr m_cp, z4)"
    and ids: "sg_chain_id t_own = lc_chain_id ?t" "sg_chain_id t_cp = lc_chain_id ?m"
      "sg_chain_id m_own = lc_chain_id ?m" "sg_chain_id m_cp = lc_chain_id ?t"
    and clock: "ask (clock_now (out_net u)) (e1 :: ('p, bool \<Rightarrow> served) env) = (Inr clock :: string + u64, e2)"
    and t: "runner_executor cl ''taker'' SecretGenerated
        (runner_context Taker ?t ?m clock (sc_taker_lock_secs c) (sc_min_gap c)
          (sg_address m_own) (sg_address t_own) (hashlock_from_preimage (out_sha u) s) (Some s)) t_own t_cp ?t ?m
        clock (sc_taker_lock_secs c) (sc_min_confirmations c) e3 = (Inr taker, e4)"
    and m: "runner_executor cl ''maker'' Start
        (runner_context Maker ?m ?t clock (sc_maker_lock_secs c) (sc_min_gap c)
          (sg_address t_own) (sg_address m_own) (hashlock_from_preimage (out_sha u) s) None) m_own m_cp ?m ?t
        clock (sc_maker_lock_secs c) (sc_min_confirmations c) e5 = (Inr maker, e6)"
    unfolding prepare_def Let_def eff_Inr guard_Inr by auto
  have clock_now: "clock = now"
    using clock by (simp add: ask_def net honest_net_def)
  obtain kt where kt: "parse_key cl (strip_key (lc_key ?t)) = Inr kt" "sg_address t_own = key_address cl kt"
    "chain_of (sg_provider t_own) = False" "accounts (sg_provider t_own) = key_address cl kt"
    using sgs(1) at(1) by (rule signer_made)
  obtain km where km: "parse_key cl (strip_key (lc_key ?m)) = Inr km" "sg_address m_own = key_address cl km"
    "chain_of (sg_provider m_own) = True" "accounts (sg_provider m_own) = key_address cl km"
    using sgs(3) at(2) by (rule signer_made)
  have t_cp: "sg_address t_cp = key_address cl kt" "chain_of (sg_provider t_cp) = True"
    "accounts (sg_provider t_cp) = key_address cl kt"
    using signer_made [OF sgs(2) at(2)] kt(1) by auto
  have m_cp: "sg_address m_cp = key_address cl km" "chain_of (sg_provider m_cp) = False"
    "accounts (sg_provider m_cp) = key_address cl km"
    using signer_made [OF sgs(4) at(1)] km(1) by auto
  have signers: "t_own = \<lparr>sg_provider = sg_provider t_own, sg_address = key_address cl kt, sg_chain_id = lc_chain_id ?t\<rparr>"
    "t_cp = \<lparr>sg_provider = sg_provider t_cp, sg_address = key_address cl kt, sg_chain_id = lc_chain_id ?m\<rparr>"
    "m_own = \<lparr>sg_provider = sg_provider m_own, sg_address = key_address cl km, sg_chain_id = lc_chain_id ?m\<rparr>"
    "m_cp = \<lparr>sg_provider = sg_provider m_cp, sg_address = key_address cl km, sg_chain_id = lc_chain_id ?t\<rparr>"
    using ids kt(2) km(2) t_cp(1) m_cp(1) by simp_all
  have at': "served_at cl chain_of accounts (lc_rpc ?m) (\<not> False)" "served_at cl chain_of accounts (lc_rpc ?t) (\<not> True)"
    using at by simp_all
  note named = names_deployment_def runner_context_def party_def clock_now confs
  obtain p q where pq: "chain_of p = False" "chain_of q = (\<not> False)" and taker: "taker = executor_new
      (party dps (both (lc_chain_id ?t) (lc_chain_id ?m))
        (Some (settlement_config ?t ?m now (sc_taker_lock_secs c)))
        \<lparr>ln_own = sg_provider t_own, ln_cp = sg_provider t_cp, ln_watch_own = p, ln_watch_cp = q\<rparr> False SecretGenerated
        (runner_context Taker ?t ?m now (sc_taker_lock_secs c) (sc_min_gap c)
          (key_address cl km) (key_address cl kt) (hashlock_from_preimage (out_sha u) s) (Some s))) e3"
    by (rule executor_made [OF t at(1) at'(1)])
      (rule that, assumption, assumption, use dps kt(2) km(2) signers in \<open>simp add: named\<close>)
  obtain p' q' where pq': "chain_of p' = True" "chain_of q' = (\<not> True)" and maker: "maker = executor_new
      (party dps (both (lc_chain_id ?t) (lc_chain_id ?m))
        (Some (settlement_config ?m ?t now (sc_maker_lock_secs c)))
        \<lparr>ln_own = sg_provider m_own, ln_cp = sg_provider m_cp, ln_watch_own = p', ln_watch_cp = q'\<rparr> True Start
        (runner_context Maker ?m ?t now (sc_maker_lock_secs c) (sc_min_gap c)
          (key_address cl kt) (key_address cl km) (hashlock_from_preimage (out_sha u) s) None)) e5"
    by (rule executor_made [OF m at(2) at'(2)])
      (rule that, assumption, assumption, use dps kt(2) km(2) signers in \<open>simp add: named\<close>)
  show ?thesis
    by (rule that [OF v' check _ _ dps kt(1) km(1) _ _ taker maker])
      (use read_config_amounts [OF read] kt km t_cp m_cp pq pq' in \<open>auto simp: linked_def amount_allowed_def\<close>)
qed

subsection \<open>The swap\<close>

text \<open>The one order that the program signs for a leg: the whole leg against the counterparty's.\<close>

definition leg_order :: "address \<Rightarrow> LegConfig \<Rightarrow> LegConfig \<Rightarrow> u64 \<Rightarrow> u64 \<Rightarrow> Order" where
  "leg_order me own cp now lock_secs =
     settlement_order \<lparr>sg_provider = (), sg_address = me, sg_chain_id = 0\<rparr>
       (settlement_config own cp now lock_secs) (lc_token own) (lc_amount own)"

text \<open>
  The key of a leg: both libraries read one key pair from its text, its account is none of the
  contracts, and signing keeps its contract on the digest of the leg's order. Of other digests
  nothing is asked: \<open>k256\<close> may answer one with a recovery id that Ethereum has no \<open>v\<close> for.
\<close>

definition good_key :: "(bool \<Rightarrow> deployment) \<Rightarrow> ('p, bool \<Rightarrow> served, 'sig, 'rid, 'vk, 'sk) outside \<Rightarrow>
    ('u, 'k, 'p) clients \<Rightarrow> LegConfig \<Rightarrow> LegConfig \<Rightarrow> u64 \<Rightarrow> u64 \<Rightarrow> bool" where
  "good_key dps u cl l cp now lock_secs \<longleftrightarrow>
     (\<forall>k. parse_key cl (strip_key (lc_key l)) = Inr k \<longrightarrow>
        address_from_private_key (out_keccak u) (out_k256 u) (lc_key_bytes l) = Some (key_address cl k) \<and>
        (\<exists>sk. sk_from_slice (out_k256 u) (lc_key_bytes l) = Some sk \<and>
           signing_contract (out_k256 u) sk
             (digest (out_keccak u) (leg_order (key_address cl k) l cp now lock_secs))) \<and>
        (\<forall>b. key_address cl k \<notin> {0, dp_htlc (dps b), dp_settlement (dps b)}))"

text \<open>The times of a configuration leave the gap, and nothing saturates.\<close>

definition times_fit :: "SwapConfig \<Rightarrow> u64 \<Rightarrow> bool" where
  "times_fit c now \<longleftrightarrow>
     0 < sc_min_gap c \<and> sc_min_gap c \<le> sc_maker_lock_secs c \<and>
     unat now + unat (sc_taker_lock_secs c) + unat (sc_min_gap c) < 2 ^ 64"

lemma times_fitD:
  assumes "times_fit c now" and "check_config c = Inr ()"
  shows "unat (sc_maker_lock_secs c) + unat (sc_min_gap c) \<le> unat (sc_taker_lock_secs c)"
    "0 < unat (sc_min_gap c)" "unat (sc_min_gap c) \<le> unat (sc_maker_lock_secs c)"
    "unat (saturating_add now (sc_taker_lock_secs c)) = unat now + unat (sc_taker_lock_secs c)"
    "unat (saturating_add now (sc_maker_lock_secs c)) = unat now + unat (sc_maker_lock_secs c)"
  using assms
  by (auto simp: times_fit_def check_config_def word_less_nat_alt word_le_nat_alt unat_saturating_add
      split: if_splits)

lemma runner_counterparts:
  assumes "times_fit c now" and "check_config c = Inr ()"
    and "lc_token (sc_taker c) = 0" and "lc_token (sc_maker c) = 0"
  shows "counterparts
    (runner_context Taker (sc_taker c) (sc_maker c) now (sc_taker_lock_secs c) (sc_min_gap c) a b h (Some s))
    (runner_context Maker (sc_maker c) (sc_taker c) now (sc_maker_lock_secs c) (sc_min_gap c) b a h None) h now"
  using assms(3,4) times_fitD [OF assms(1,2)]
  by (auto simp: counterparts_def runner_context_def expectation_def leg_of_def intro!: verify_SafeI)

lemma runner_pledgeable:
  assumes "good_key dps u cl own cp now lock_secs" "parse_key cl (strip_key (lc_key own)) = Inr k"
    and "good_key dps u cl cp own now lock_secs'" "parse_key cl (strip_key (lc_key cp)) = Inr k'"
    and "names_deployment (dps b) own" and "unat (dp_chain_id (dps b)) < 2 ^ 64"
    and "lc_token own = 0" and "lc_amount own \<noteq> 0" and "h \<noteq> 0"
    and "unat t < unat (saturating_add now lock_secs)"
    and "precompile_agrees (out_keccak u) (out_k256 u) (dp_ecrecover (dps b))"
    and "dp_keccak (dps b) = out_keccak u"
    and "c = runner_context role own cp now lock_secs gap (key_address cl k') (key_address cl k) h sec"
    and "st = Some (settlement_config own cp now lock_secs)"
  shows "can_settle (dps b) u st c \<and> pledgeable (dps b) t h (leg_pledge u st c)"
proof -
  let ?a = "key_address cl k" and ?o = "leg_order (key_address cl k) own cp now lock_secs"
  have key: "address_from_private_key (out_keccak u) (out_k256 u) (lc_key_bytes own) = Some ?a"
    "\<exists>sk. sk_from_slice (out_k256 u) (lc_key_bytes own) = Some sk \<and>
       signing_contract (out_k256 u) sk (digest (out_keccak u) ?o)"
    "?a \<notin> {0, dp_htlc (dps b), dp_settlement (dps b)}" "key_address cl k' \<notin> {0, dp_htlc (dps b), dp_settlement (dps b)}"
    using assms(1-4) by (auto simp: good_key_def)
  have chain: "(ucast (ucast (dp_chain_id (dps b)) :: u64) :: u256) = dp_chain_id (dps b)"
    using assms(6) by (rule ucast_fits)
  have c: "my_token c = 0" "ctx_me c = ?a" "my_amount c = lc_amount own" "my_recipient c = key_address cl k'"
    "my_timelock c = saturating_add now lock_secs"
    using assms(7,13) by (simp_all add: runner_context_def)
  have "signed_order u c (settlement_config own cp now lock_secs) = ?o"
    using assms(7) by (simp add: signed_order_def leg_order_def c)
  then have "settlement_works (dps b) u t st c"
    using assms(5,10,11,14) key chain
    by (auto simp: settlement_works_def settlement_config_def names_deployment_def c word_le_nat_alt unat_ucast_u64)
  then have "can_settle (dps b) u st c \<and> order_settles (dps b) t (leg_pledge u st c)"
    by (rule settlement_settles) (use c key(3) assms(12) in auto)
  then show ?thesis
    using c key assms(8-10) by (simp add: pledgeable_def word_less_nat_alt unat_ucast_u64)
qed

text \<open>
  C1. The runner settles. Let the program have read a configuration that passed its checks, for
  native coins, with one confirmation and at least two rounds, on nodes that run two fresh
  deployments of the contracts: the RPC addresses lead to the two chains, \<open>k256\<close> keeps its
  contract on the two orders the program signs and agrees with the precompile on low-s signatures,
  the times leave the gap and the chains' clocks are before the expiries. Then the
  program reports success, and each chain made exactly one payment, of the amount configured for
  its leg to the party that has no leg there.
\<close>

theorem runner_settles:
  assumes prep: "prepare u cl var v = (Inr (c, taker, maker), v1)"
    and nodes: "hosted chain_of accounts dps now u"
      "served_at cl chain_of accounts (lc_rpc (sc_taker c)) False"
      "served_at cl chain_of accounts (lc_rpc (sc_maker c)) True"
      "\<forall>b. precompile_agrees (out_keccak u) (out_k256 u) (dp_ecrecover (dps b)) \<and>
        unat (dp_chain_id (dps b)) < 2 ^ 64"
    and settings: "lc_token (sc_taker c) = 0" "lc_token (sc_maker c) = 0"
      "sc_min_confirmations c = 1" "1 < unat (sc_max_steps c)" "times_fit c now"
    and keys: "good_key dps u cl (sc_taker c) (sc_maker c) now (sc_taker_lock_secs c)"
      "good_key dps u cl (sc_maker c) (sc_taker c) now (sc_maker_lock_secs c)"
    and fresh: "world v = both (stage ta []) (stage tb [])"
      "unat ta < unat now + unat (sc_taker_lock_secs c)" "unat tb < unat now + unat (sc_maker_lock_secs c)"
    and hashlock: "ctx_hashlock (x_ctx taker) \<noteq> Some 0"
  shows "\<exists>v' cid cid'. runner u cl var v = (Inr (), v') \<and>
    htlc_paid (served_chain (dps True) (world v' True)) =
      [\<lparr>pm_contract = cid, pm_to = sg_address (x_own_signer taker), pm_token = 0,
        pm_amount = ucast (lc_amount (sc_maker c))\<rparr>] \<and>
    htlc_paid (served_chain (dps False) (world v' False)) =
      [\<lparr>pm_contract = cid', pm_to = sg_address (x_own_signer maker), pm_token = 0,
        pm_amount = ucast (lc_amount (sc_taker c))\<rparr>]"
proof -
  let ?t = "sc_taker c" and ?m = "sc_maker c" and ?gap = "sc_min_gap c"
  let ?ids = "both (lc_chain_id ?t) (lc_chain_id ?m)"
  let ?st = "Some (settlement_config ?t ?m now (sc_taker_lock_secs c))"
  let ?st' = "Some (settlement_config ?m ?t now (sc_maker_lock_secs c))"
  obtain s kt km ln ln' et em h where v1: "v1 = v" and check: "check_config c = Inr ()"
    and amounts: "lc_amount ?t \<noteq> 0" "lc_amount ?m \<noteq> 0"
    and names: "names_deployment (dps False) ?t" "names_deployment (dps True) ?m"
    and kt: "parse_key cl (strip_key (lc_key ?t)) = Inr kt" and km: "parse_key cl (strip_key (lc_key ?m)) = Inr km"
    and ln: "linked chain_of accounts False (key_address cl kt) ln" "linked chain_of accounts True (key_address cl km) ln'"
    and h: "h = out_sha u (bytes_of s)"
    and taker: "taker = executor_new (party dps ?ids ?st ln False SecretGenerated
      (runner_context Taker ?t ?m now (sc_taker_lock_secs c) ?gap (key_address cl km) (key_address cl kt) h (Some s))) et"
    and maker: "maker = executor_new (party dps ?ids ?st' ln' True Start
      (runner_context Maker ?m ?t now (sc_maker_lock_secs c) ?gap (key_address cl kt) (key_address cl km) h None)) em"
    by (rule prepared [OF hostedD(1) [OF nodes(1)] prep nodes(2,3) settings(3)])
      (rule that; simp add: hashlock_from_preimage_def)
  let ?ct = "runner_context Taker ?t ?m now (sc_taker_lock_secs c) ?gap (key_address cl km) (key_address cl kt) h (Some s)"
  let ?cm = "runner_context Maker ?m ?t now (sc_maker_lock_secs c) ?gap (key_address cl kt) (key_address cl km) h None"
  have h0: "h \<noteq> 0"
    using hashlock by (simp add: taker executor_new_def party_def Let_def runner_context_def)
  have kc: "dp_keccak (dps b) = out_keccak u" for b by (rule hostedD [OF nodes(1)])
  note times = times_fitD [OF settings(5) check]
  have t: "can_settle (dps False) u ?st ?ct \<and> pledgeable (dps False) ta h (leg_pledge u ?st ?ct)"
    by (rule runner_pledgeable [OF keys(1) kt keys(2) km names(1) _ settings(1) amounts(1) h0 _ _ kc refl refl])
      (use nodes(4) fresh times in auto)
  have m: "can_settle (dps True) u ?st' ?cm \<and> pledgeable (dps True) tb h (leg_pledge u ?st' ?cm)"
    by (rule runner_pledgeable [OF keys(2) km keys(1) kt names(2) _ settings(2) amounts(2) h0 _ _ kc refl refl])
      (use nodes(4) fresh times in auto)
  have me: "ctx_me ?ct = key_address cl kt" "ctx_me ?cm = key_address cl km" "ctx_secret ?ct = Some s"
    by (simp_all add: runner_context_def)
  obtain k where k: "unat (sc_max_steps c) = Suc (Suc k)"
    using less_imp_Suc_add [OF settings(4)] that by auto
  have c: "counterparts ?ct ?cm h now"
    by (rule runner_counterparts [OF settings(5) check settings(1,2)])
  have ln': "linked chain_of accounts False (ctx_me ?ct) ln" "linked chain_of accounts True (ctx_me ?cm) ln'"
    using ln by (simp_all only: me)
  let ?w = "both (stage ta [pledge_lock h (leg_pledge u ?st ?ct), pledge_redeem (dps False) h s (leg_pledge u ?st ?ct)])
      (stage tb [pledge_lock h (leg_pledge u ?st' ?cm), pledge_redeem (dps True) h s (leg_pledge u ?st' ?cm)])"
  have "\<exists>x y v'. swap_loop u (Suc (Suc k)) 0 taker maker v = (Inr (x, y), v') \<and>
      x_state x = CounterpartyRedeemed \<and> x_state y = CounterpartyRedeemed \<and>
      revealed_secret (x_ctx y) = Some s \<and> world v' = ?w"
    unfolding taker maker
    by (rule loop_completes [OF nodes(1) c ln']) (use t m me(3) h fresh(1) in simp_all)
  then obtain x y v' where loop: "swap_loop u (Suc (Suc k)) 0 taker maker v = (Inr (x, y), v')"
    and w: "world v' = ?w"
    by blast
  have "runner u cl var v = (Inr (), v')"
    using prep loop k by (simp add: runner_def eff_simps v1)
  moreover have "htlc_paid (served_chain (dps True) (world v' True)) = [pledge_payment (dps True) h (leg_pledge u ?st' ?cm)]"
    "htlc_paid (served_chain (dps False) (world v' False)) = [pledge_payment (dps False) h (leg_pledge u ?st ?ct)]"
    using t m by (simp_all add: w stage_chain h hostedD [OF nodes(1)] collected_paid)
  moreover have "sg_address (x_own_signer taker) = key_address cl kt" "sg_address (x_own_signer maker) = key_address cl km"
    by (simp_all add: taker maker executor_new_def party_def Let_def me)
  ultimately show ?thesis
    by (simp add: pledge_payment_def runner_context_def)
qed

subsection \<open>A run that computes\<close>

definition run_var :: environment where
  "run_var name =
     (if name = ''KAEL_SIGNER_KEY_A'' then Inr ''0xt'' else if name = ''KAEL_SIGNER_KEY_B'' then Inr ''0xm''
      else if name = ''KAEL_CLOSED_TESTNET_MIN_CONFIRMATIONS'' then Inr ''1'' else test_var name)"

definition run_clients :: "(string, b32, bool \<times> address) clients" where
  "run_clients =
     \<lparr>parse_url = Inr, connect_http = (\<lambda>w. (w = ''b'', 0)),
      connect_wallet = (\<lambda>k w. (w = ''b'', if k = fill 0x74 then fill 0x74 else fill 0x6D)),
      parse_key = (\<lambda>s. Inr (fill (of_char (hd s)))),
      key_address = (\<lambda>k. if k = fill 0x74 then fill 0x74 else fill 0x6D)\<rparr>"

definition run_crates :: crates where
  "run_crates = test_crates
     \<lparr>hex_decode := \<lambda>s. Inr (replicate 32 (of_char (hd s))), abi_encode_lock := abi_encode_lock abi_crates\<rparr>"

definition run_dps :: "bool \<Rightarrow> deployment" where
  "run_dps b = demo_dp
     \<lparr>dp_htlc := if b then fill 2 else fill 1, dp_settlement := if b then fill 4 else fill 3,
      dp_chain_id := if b then 11155111 else 31337\<rparr>"

definition run_world :: "(bool \<times> address, bool \<Rightarrow> served, u8 list, u8, b32, b32) outside" where
  "run_world =
     \<lparr>out_net = honest_net fst run_dps snd 1000, out_crates = run_crates, out_keccak = toy_hash,
      out_sha = toy_hash, out_iter = (\<lambda>_. []), out_k256 = toy_k256\<rparr>"

definition run_leg :: "bool \<Rightarrow> LegConfig" where
  "run_leg b =
     \<lparr>lc_rpc = if b then ''b'' else ''a'', lc_chain_id = if b then 11155111 else 31337,
      lc_htlc = dp_htlc (run_dps b), lc_settlement = dp_settlement (run_dps b), lc_token = 0,
      lc_key = if b then ''0xm'' else ''0xt'', lc_key_bytes = fill (if b then 0x6D else 0x74),
      lc_amount = if b then 7 else 5, lc_nonce = 42\<rparr>"

definition run_config :: SwapConfig where
  "run_config =
     \<lparr>sc_taker = run_leg False, sc_maker = run_leg True, sc_taker_lock_secs = 7200,
      sc_maker_lock_secs = 3600, sc_min_gap = 1800, sc_min_confirmations = 1, sc_max_steps = 120,
      sc_poll_secs = 12\<rparr>"

lemmas run_defs = run_var_def test_var_def run_clients_def run_crates_def test_crates_def run_dps_def run_world_def
  run_leg_def run_config_def

lemmas prepare_defs =
  prepare_def require_explicit_send_confirmation_def CONFIRMATION_def read_config_def read_leg_config_def
  read_amount_def read_nonce_def env_u128_def env_u64_required_def env_address_def env_private_key_def
  unwrap_or_def check_config_def validate_contracts_def validate_htlc_contract_def
  validate_settlement_contract_def validate_token_contract_def validate_code_def own_signer_def
  from_key_str_def runner_executor_def rpc_observer_def rpc_verifier_new_def

lemma pad_copy_fill: "pad_copy (replicate 32 b) = (fill b :: b32)"
  using toy_hash_bytes_of [of "fill b"] by (simp add: toy_hash_def bytes_of_fill)

lemma run_config_read:
  "read_config (out_net run_world) run_crates run_var v = (Inr run_config, v)"
  by (simp add: prepare_defs preflight_defs run_defs honest_net_def quiet_net_def eff_simps Let_def digit_of_def
      pad_copy_fill)

lemma run_checked:
  "require_explicit_send_confirmation run_var = Inr ()" "check_config run_config = Inr ()"
  by (simp_all add: prepare_defs run_defs saturating_add_def)

lemma run_validated:
  "validate_contracts (out_net run_world) run_crates run_clients run_config v = (Inr (), v)"
  by (simp add: prepare_defs preflight_defs run_defs honest_net_def quiet_net_def eff_simps Let_def)

lemma run_prepares:
  "\<exists>taker maker. prepare run_world run_clients run_var v = (Inr (run_config, taker, maker), v) \<and>
     ctx_hashlock (x_ctx taker) = Some (fill 7) \<and> sg_address (x_own_signer taker) = fill 0x74"
proof -
  have "out_crates run_world = run_crates" by (simp add: run_world_def)
  then show ?thesis
    unfolding prepare_def Let_def
    by (simp add: run_checked run_config_read run_validated eff_simps)
      (simp add: own_signer_def from_key_str_def runner_executor_def rpc_observer_def rpc_verifier_new_def assert_chain_allowed_def
        ALLOWED_TEST_CHAINS_def run_defs honest_net_def quiet_net_def eff_simps Let_def executor_new_def
        runner_context_def hashlock_from_preimage_def strip_key_def trim_def is_whitespace_def)
qed

lemma run_fields:
  "out_keccak run_world = toy_hash" "out_sha run_world = toy_hash" "out_k256 run_world = toy_k256"
  "out_net run_world = honest_net fst run_dps snd 1000" "out_crates run_world = run_crates"
  by (simp_all add: run_world_def)

lemma run_keys: "good_key run_dps run_world run_clients (run_leg b) cp now lock_secs"
proof -
  have "signing_contract toy_k256 (fill a) = (\<lambda>_. True)" for a
    by (simp add: fun_eq_iff example_contract)
  then show ?thesis
    by (simp add: good_key_def run_fields run_clients_def run_leg_def toy_key strip_key_def trim_def
      is_whitespace_def) (simp add: run_dps_def demo_dp_def)
qed

lemma run_hosted:
  "hosted fst snd run_dps 1000 run_world"
  "served_at run_clients fst snd (lc_rpc (run_leg b)) b"
  "precompile_agrees toy_hash toy_k256 (dp_ecrecover (run_dps b))" "unat (dp_chain_id (run_dps b)) < 18446744073709551616"
  by (simp_all add: hosted_def run_fields run_crates_def abi_crates_def abi_encodes_def run_dps_def demo_dp_def
      served_at_def run_clients_def run_leg_def precompile_agrees_def toy_ecrecover_def toy_k256_def)

lemma runner_settles_witness:
  "\<exists>v' cid. runner run_world run_clients run_var \<lparr>world = both (stage 900 []) (stage 900 []), sent = []\<rparr> = (Inr (), v') \<and>
     htlc_paid (served_chain (run_dps True) (world v' True)) =
       [\<lparr>pm_contract = cid, pm_to = fill 0x74, pm_token = 0, pm_amount = 7\<rparr>]"
proof -
  let ?v = "\<lparr>world = both (stage 900 []) (stage 900 []), sent = []\<rparr> :: (bool \<times> address, bool \<Rightarrow> served) env"
  obtain taker maker where prep: "prepare run_world run_clients run_var ?v = (Inr (run_config, taker, maker), ?v)"
    and "ctx_hashlock (x_ctx taker) = Some (fill 7)" and taker: "sg_address (x_own_signer taker) = fill 0x74"
    using run_prepares by blast
  then have hash: "ctx_hashlock (x_ctx taker) \<noteq> Some 0" by simp
  have config: "sc_taker run_config = run_leg False" "sc_maker run_config = run_leg True"
    "lc_token (run_leg b) = 0" "lc_amount (run_leg b) = (if b then 7 else 5)" for b
    by (simp_all add: run_config_def run_leg_def)
  have times: "sc_min_confirmations run_config = 1" "1 < unat (sc_max_steps run_config)" "times_fit run_config 1000"
    "unat (900 :: u256) < unat (1000 :: u64) + unat (sc_taker_lock_secs run_config)"
    "unat (900 :: u256) < unat (1000 :: u64) + unat (sc_maker_lock_secs run_config)"
    by (simp_all add: run_config_def times_fit_def)
  from runner_settles [OF prep run_hosted(1) _ _ _ _ _ times(1-3) _ _ _ times(4,5) hash]
  show ?thesis by (simp add: config run_hosted run_keys run_fields taker) blast
qed

end
