(* ===== verification/Kael_Contract_Log.thy ===== *)
theory Kael_Contract_Log
  imports Kael_Atomic
begin

section \<open>What the log of a chain says about its swaps\<close>

text \<open>
  Observers of a chain see the events of HashedTimelock, not its storage. Both are the
  contract's to keep in step, and it calls tokens and recipients between the two writes. For
  every history and every behaviour of those callees: a swap that exists was announced with its
  terms; one that is withdrawn has its preimage in the log, one that is refunded its refund; and
  what the log says happened: a redeem or a refund in it comes after the announcement of the
  swap, a redeem shows a preimage of the announced hashlock, and either has been paid for.
\<close>

definition announces :: "b32 \<Rightarrow> SolSwap \<Rightarrow> htlc_event" where
  "announces cid sw =
     LogNewSwap cid (sw_sender sw) (sw_recipient sw) (sw_token sw) (sw_amount sw) (sw_hashlock sw)
       (sw_timelock sw)"

lemma announces_flags [simp]:
  "announces cid (sw\<lparr>sw_withdrawn := b\<rparr>) = announces cid sw"
  "announces cid (sw\<lparr>sw_refunded := b\<rparr>) = announces cid sw"
  by (simp_all add: announces_def)

lemma pays_flags [simp]:
  "pays cid (sw\<lparr>sw_withdrawn := b\<rparr>) to = pays cid sw to"
  "pays cid (sw\<lparr>sw_refunded := b\<rparr>) to = pays cid sw to"
  by (simp_all add: pays_def)

text \<open>What justifies an event after the events \<open>before\<close>, in the state \<open>s\<close>.\<close>

definition justified :: "deployment \<Rightarrow> chain_state \<Rightarrow> htlc_event list \<Rightarrow> htlc_event \<Rightarrow> bool" where
  "justified dp s before ev \<longleftrightarrow>
     (case ev of
        LogNewSwap cid sender recipient token amount hashlock tm \<Rightarrow>
          cid = computeContractId (dp_keccak dp) sender recipient token amount hashlock tm \<and>
          announces cid (swaps s cid) \<in> set (htlc_events s)
      | LogRedeem cid p \<Rightarrow>
          (\<exists>sw. announces cid sw \<in> set before \<and> dp_sha256 dp (bytes_of p) = sw_hashlock sw \<and>
             pays cid sw (sw_recipient sw) \<in> set (htlc_paid s))
      | LogRefund cid \<Rightarrow>
          (\<exists>sw. announces cid sw \<in> set before \<and> pays cid sw (sw_sender sw) \<in> set (htlc_paid s)))"

definition truthful :: "deployment \<Rightarrow> chain_state \<Rightarrow> bool" where
  "truthful dp s \<longleftrightarrow>
     (\<forall>cid. sw_sender (swaps s cid) \<noteq> 0 \<longrightarrow> announces cid (swaps s cid) \<in> set (htlc_events s)) \<and>
     (\<forall>before ev later. htlc_events s = before @ ev # later \<longrightarrow> justified dp s before ev)"

definition settlement_shown :: "deployment \<Rightarrow> chain_state \<Rightarrow> b32 \<Rightarrow> bool" where
  "settlement_shown dp s cid \<longleftrightarrow>
     (sw_withdrawn (swaps s cid) \<longrightarrow>
        (\<exists>p. dp_sha256 dp (bytes_of p) = sw_hashlock (swaps s cid) \<and>
           LogRedeem cid p \<in> set (htlc_events s))) \<and>
     (sw_refunded (swaps s cid) \<longrightarrow> LogRefund cid \<in> set (htlc_events s))"

text \<open>The frame of a history: the log and the payments grow, and stay in step with the state.\<close>

definition logs_follow :: "deployment \<Rightarrow> u256 set \<Rightarrow> chain_state \<Rightarrow> chain_state \<Rightarrow> bool" where
  "logs_follow dp T s t \<longleftrightarrow>
     evolves dp T s t \<and>
     (\<exists>new. htlc_events t = htlc_events s @ new) \<and>
     set (htlc_paid s) \<subseteq> set (htlc_paid t) \<and>
     (truthful dp s \<longrightarrow> truthful dp t) \<and>
     (\<forall>cid. settlement_shown dp s cid \<longrightarrow> settlement_shown dp t cid)"

lemma logs_follow_trans:
  assumes "logs_follow dp T s t" and "logs_follow dp T t u"
  shows "logs_follow dp T s u"
proof -
  have "\<exists>new. htlc_events u = htlc_events s @ new"
    using assms by (auto simp: logs_follow_def)
  then show ?thesis
    using assms evolves_trans [of dp T s t u] unfolding logs_follow_def by blast
qed

lemma logs_follow_refl: "logs_follow dp T s s"
  by (simp add: logs_follow_def evolves_refl)

interpretation following: chain_frame "logs_follow dp T" for dp T
  by unfold_locales (auto intro: logs_follow_refl logs_follow_trans)

text \<open>What changes of a state keep it truthful.\<close>

lemma justified_mono:
  assumes "justified dp s before ev" and "set (htlc_paid s) \<subseteq> set (htlc_paid t)"
    and "\<And>cid. announces cid (swaps s cid) \<in> set (htlc_events s) \<Longrightarrow>
      announces cid (swaps t cid) \<in> set (htlc_events t)"
  shows "justified dp t before ev"
  using assms by (cases ev) (auto simp: justified_def)

lemma truthful_same_log:
  assumes "truthful dp s" and "htlc_events t = htlc_events s"
    and "set (htlc_paid s) \<subseteq> set (htlc_paid t)"
    and "\<And>cid. announces cid (swaps t cid) = announces cid (swaps s cid)"
  shows "truthful dp t"
proof -
  have sender: "sw_sender (swaps t cid) = sw_sender (swaps s cid)" for cid
    using assms(4) [of cid] by (simp add: announces_def)
  then show ?thesis
    using assms justified_mono [of dp s _ _ t] by (simp add: truthful_def)
qed

lemma truthful_logged:
  assumes "truthful dp s" and "htlc_events t = htlc_events s @ [ev]"
    and "set (htlc_paid s) \<subseteq> set (htlc_paid t)"
    and "\<And>cid. announces cid (swaps t cid) = announces cid (swaps s cid) \<or>
      announces cid (swaps t cid) = ev"
    and "justified dp t (htlc_events s) ev"
  shows "truthful dp t"
  unfolding truthful_def
proof (intro conjI allI impI)
  have kept: "announces cid (swaps t cid) \<in> set (htlc_events t)"
    if "announces cid (swaps s cid) \<in> set (htlc_events s)" for cid
    using that assms(2) assms(4) [of cid] by auto
  show "announces cid (swaps t cid) \<in> set (htlc_events t)" if e: "sw_sender (swaps t cid) \<noteq> 0" for cid
  proof (cases "announces cid (swaps t cid) = ev")
    case False
    with assms(4) [of cid] have same: "announces cid (swaps t cid) = announces cid (swaps s cid)" by blast
    then have "sw_sender (swaps s cid) \<noteq> 0" using e by (simp add: announces_def)
    then show ?thesis using assms(1) kept by (simp add: truthful_def)
  qed (simp add: assms(2))
  fix before e later
  assume "htlc_events t = before @ e # later"
  then consider "later = []" "e = ev" "before = htlc_events s" | es where "htlc_events s = before @ e # es"
    using assms(2) by (cases later rule: rev_cases) auto
  then show "justified dp t before e"
  proof cases
    case 2
    then have "justified dp s before e" using assms(1) by (simp add: truthful_def)
    then show ?thesis using assms(3) kept by (rule justified_mono)
  qed (simp add: assms(5))
qed

lemma shown_mono:
  assumes "settlement_shown dp s cid" and "swaps t cid = swaps s cid"
    and "set (htlc_events s) \<subseteq> set (htlc_events t)"
  shows "settlement_shown dp t cid"
  using assms by (auto simp: settlement_shown_def)

lemma follow_same:
  "swaps t = swaps s \<Longrightarrow> htlc_events t = htlc_events s \<Longrightarrow> htlc_paid t = htlc_paid s \<Longrightarrow> logs_follow dp T s t"
  using truthful_same_log [of dp s t] shown_mono [of dp s _ t]
  by (simp add: logs_follow_def evolves_same)

lemma follow_evolves: "keeps (logs_follow dp T) m \<Longrightarrow> keeps (evolves dp T) m"
  by (simp add: keeps_def logs_follow_def)

lemma new_swap_follows:
  assumes ext: "keeps (logs_follow dp T) (call_out ext)"
  shows "leads (logs_follow dp T)
    (htlc_new_swap dp now ext sender value recipient token amount hashlock timelock)"
proof (rule leadsI)
  fix s cid s'
  assume run: "htlc_new_swap dp now ext sender value recipient token amount hashlock timelock s = (Inr cid, s')"
  let ?sw = "\<lparr>sw_sender = sender, sw_recipient = recipient, sw_token = token, sw_amount = amount,
              sw_hashlock = hashlock, sw_timelock = timelock, sw_withdrawn = False, sw_refunded = False\<rparr>"
  from run obtain s2 where
    cid: "cid = computeContractId (dp_keccak dp) sender recipient token amount hashlock timelock"
    and s2: "if token = 0 then s2 = s\<lparr>htlc_eth := htlc_eth s + unat value\<rparr>
             else safe_token_call dp ext token H_TokenTransferFailed s = (Inr (), s2)"
    and s': "s' = s2\<lparr>swaps := (swaps s2)(cid := ?sw), htlc_events := htlc_events s2 @ [announces cid ?sw]\<rparr>"
    by (auto simp: new_swap_Inr announces_def split: if_splits)
  have f: "logs_follow dp T s s2"
    using s2 leadsD [OF following.leads_token_call [OF ext]]
    by (auto intro: follow_same split: if_splits)
  have "truthful dp s'" if "truthful dp s2"
    using that by (rule truthful_logged) (auto simp: s' cid justified_def announces_def)
  moreover have "settlement_shown dp s' c" if "settlement_shown dp s2 c" for c
    using that by (cases "c = cid") (auto simp: s' settlement_shown_def)
  moreover have "evolves dp T s s'"
    using leadsD [OF new_swap_evolves [OF follow_evolves [OF ext]] run] .
  ultimately show "logs_follow dp T s s'"
    using f by (auto simp: logs_follow_def s')
qed

text \<open>What settling a swap does to the log, from the payment to the event.\<close>

lemma settle_follows:
  assumes ext: "keeps (logs_follow dp T) (call_out ext)"
    and sw: "live (swaps s cid)" "\<not> live sw'" "sw_sender sw' \<noteq> 0"
      "announces cid sw' = announces cid (swaps s cid)"
    and pay: "htlc_payout dp ext cid (sw_token (swaps s cid)) to (sw_amount (swaps s cid))
      (s\<lparr>swaps := (swaps s)(cid := sw')\<rparr>) = (Inr (), s2)"
    and s': "s' = s2\<lparr>htlc_events := htlc_events s2 @ [ev]\<rparr>"
    and ev: "\<And>before. announces cid (swaps s cid) \<in> set before \<Longrightarrow>
      pays cid (swaps s cid) to \<in> set (htlc_paid s') \<Longrightarrow> justified dp s' before ev"
    and shown: "swaps s' cid = sw' \<Longrightarrow> settlement_shown dp s' cid"
    and evolves: "evolves dp T s s'"
  shows "logs_follow dp T s s'"
proof -
  let ?s1 = "paid_state cid (sw_token (swaps s cid)) to (sw_amount (swaps s cid))
      (s\<lparr>swaps := (swaps s)(cid := sw')\<rparr>)"
  have s1: "swaps ?s1 = (swaps s)(cid := sw')" "htlc_events ?s1 = htlc_events s"
    "htlc_paid ?s1 = htlc_paid s @ [pays cid (swaps s cid) to]"
    by (auto simp: paid_state_def pays_def)
  have f: "logs_follow dp T ?s1 s2"
    by (rule following.payout_R [OF ext _ pay]) (simp add: follow_same)
  then have "swap_kept ?s1 s2 cid"
    using sw(2,3) s1(1) by (intro settled_kept [of dp T]) (auto simp: logs_follow_def)
  then have cid: "swaps s' cid = sw'" by (simp add: swap_kept_def s1(1) s')
  from f obtain new where new: "htlc_events s2 = htlc_events s @ new"
    and paid: "set (htlc_paid s) \<subseteq> set (htlc_paid s2)" "pays cid (swaps s cid) to \<in> set (htlc_paid s2)"
    by (auto simp: logs_follow_def s1)
  have "truthful dp s'" if t: "truthful dp s"
  proof -
    have "truthful dp ?s1"
      using t by (rule truthful_same_log) (auto simp: s1 sw(4))
    then have "truthful dp s2" using f by (simp add: logs_follow_def)
    moreover have "announces cid (swaps s cid) \<in> set (htlc_events s2)"
      using t sw(1) new by (auto simp: truthful_def live_def)
    ultimately show ?thesis
      using ev paid(2) by (intro truthful_logged [of dp s2 s' ev]) (auto simp: s')
  qed
  moreover have "settlement_shown dp s' c" if c: "settlement_shown dp s c" for c
  proof (cases "c = cid")
    case False
    then have "settlement_shown dp ?s1 c" using c s1 by (simp add: settlement_shown_def)
    then have "settlement_shown dp s2 c" using f by (simp add: logs_follow_def)
    then show ?thesis by (rule shown_mono) (auto simp: s')
  qed (simp add: shown cid)
  ultimately show ?thesis
    using evolves new paid(1) by (simp add: logs_follow_def s')
qed

lemma redeem_follows:
  assumes ext: "keeps (logs_follow dp T) (call_out ext)" and "now \<in> T"
  shows "leads (logs_follow dp T) (htlc_redeem dp now ext cid preimage)"
proof (rule leadsI)
  fix s u s'
  assume run: "htlc_redeem dp now ext cid preimage s = (Inr u, s')"
  then obtain s2 where r: "live (swaps s cid)"
    "dp_sha256 dp (bytes_of preimage) = sw_hashlock (swaps s cid)"
    "htlc_payout dp ext cid (sw_token (swaps s cid)) (sw_recipient (swaps s cid)) (sw_amount (swaps s cid))
      (s\<lparr>swaps := (swaps s)(cid := (swaps s cid)\<lparr>sw_withdrawn := True\<rparr>)\<rparr>) = (Inr (), s2)"
    "s' = s2\<lparr>htlc_events := htlc_events s2 @ [LogRedeem cid preimage]\<rparr>"
    by (auto simp: redeem_Inr Let_def)
  show "logs_follow dp T s s'"
  proof (rule settle_follows [OF ext r(1) _ _ _ r(3,4)])
    show "settlement_shown dp s' cid" if "swaps s' cid = (swaps s cid)\<lparr>sw_withdrawn := True\<rparr>"
      using that r(1,2) by (auto simp: settlement_shown_def r(4) live_def)
    show "evolves dp T s s'"
      using leadsD [OF redeem_evolves [OF follow_evolves [OF ext] assms(2)] run] .
  qed (use r(1,2) in \<open>auto simp: justified_def live_def\<close>)
qed

lemma refund_follows:
  assumes ext: "keeps (logs_follow dp T) (call_out ext)" and "now \<in> T"
  shows "leads (logs_follow dp T) (htlc_refund dp now ext sender cid)"
proof (rule leadsI)
  fix s u s'
  assume run: "htlc_refund dp now ext sender cid s = (Inr u, s')"
  then obtain s2 where r: "live (swaps s cid)"
    "htlc_payout dp ext cid (sw_token (swaps s cid)) (sw_sender (swaps s cid)) (sw_amount (swaps s cid))
      (s\<lparr>swaps := (swaps s)(cid := (swaps s cid)\<lparr>sw_refunded := True\<rparr>)\<rparr>) = (Inr (), s2)"
    "s' = s2\<lparr>htlc_events := htlc_events s2 @ [LogRefund cid]\<rparr>"
    by (auto simp: refund_Inr Let_def)
  show "logs_follow dp T s s'"
  proof (rule settle_follows [OF ext r(1) _ _ _ r(2,3)])
    show "settlement_shown dp s' cid" if "swaps s' cid = (swaps s cid)\<lparr>sw_refunded := True\<rparr>"
      using that r(1) by (auto simp: settlement_shown_def r(3) live_def)
    show "evolves dp T s s'"
      using leadsD [OF refund_evolves [OF follow_evolves [OF ext] assms(2)] run] .
  qed (use r(1) in \<open>auto simp: justified_def live_def\<close>)
qed

interpretation following: htlc_frame "logs_follow dp (insert now T)" dp now for dp now T
  by unfold_locales
    (auto intro: follow_same new_swap_follows redeem_follows refund_follows)

lemma history_follows: "logs_follow dp (fst ` set txs) s (transact_all dp txs s)"
proof (rule transact_all_induct [OF logs_follow_refl logs_follow_trans _ order_refl])
  fix now msg ks s
  assume "now \<in> fst ` set txs"
  then show "logs_follow dp (fst ` set txs) s (snd (transact dp now msg ks s))"
    using keepsD [OF following.keeps_transact [where now = now and T = "fst ` set txs" and dp = dp
        and msg = msg and ks = ks], of s]
    by (simp add: insert_absorb)
qed

lemma log_is_truthful: "truthful dp (transact_all dp txs deployed)"
  using history_follows [of dp txs deployed]
  by (simp add: logs_follow_def) (simp add: truthful_def deployed_def)

lemma log_shows_settlement: "settlement_shown dp (transact_all dp txs deployed) cid"
  using history_follows [of dp txs deployed]
  by (simp add: logs_follow_def) (simp add: settlement_shown_def deployed_def)

lemma log_grows: "\<exists>new. htlc_events (transact_all dp txs s) = htlc_events s @ new"
  using history_follows [of dp txs s] by (simp add: logs_follow_def)

end
