(* ===== verification/Kael_Tracker_Follows.thy ===== *)
theory Kael_Tracker_Follows
  imports Kael_Contract_Log
begin

section \<open>The tracker follows the log, and mirrors the contract\<close>

text \<open>
  What the tracker of \<open>maestro/src/correlate.rs\<close> holds after it was fed the log of a chain, event
  by event, with events of other chains in between. \<open>tracks\<close>: its legs on that chain say what the
  events said, and every preimage the events showed is known. Since the events of HashedTimelock
  tell its state (\<open>Kael_Contract_Log\<close>), such a tracker mirrors the contract: \<open>mirrors_chain\<close> is the
  relation between the tracker and the storage.
\<close>

subsection \<open>The tracker and the events it was fed\<close>

definition legs_on :: "u64 \<Rightarrow> b32 \<Rightarrow> tracker \<Rightarrow> Leg list" where
  "legs_on c h t =
     (case t h of None \<Rightarrow> [] | Some s \<Rightarrow> filter (\<lambda>l. leg_chain_id l = c) (tr_legs s))"

definition flag_leg :: "(Leg \<Rightarrow> Leg) \<Rightarrow> b32 \<Rightarrow> Leg \<Rightarrow> Leg" where
  "flag_leg f cid l = (if leg_contract_id l = cid then f l else l)"

abbreviation redeemed_leg :: "Leg \<Rightarrow> Leg" where
  "redeemed_leg l \<equiv> l\<lparr>leg_redeemed := True\<rparr>"

abbreviation refunded_leg :: "Leg \<Rightarrow> Leg" where
  "refunded_leg l \<equiv> l\<lparr>leg_refunded := True\<rparr>"

definition new_leg :: "u64 \<Rightarrow> b32 \<Rightarrow> b32 \<Rightarrow> u64 \<Rightarrow> u128 \<Rightarrow> Leg" where
  "new_leg c cid h tm amount =
     \<lparr>leg_chain_id = c, leg_contract_id = cid, leg_hashlock = h, leg_timelock = tm,
      leg_amount = amount, leg_redeemed = False, leg_refunded = False\<rparr>"

lemma legs_on_None [simp]: "t h = None \<Longrightarrow> legs_on c h t = []"
  by (simp add: legs_on_def)

lemma filter_flags:
  assumes "\<And>l. leg_chain_id (f l) = leg_chain_id l"
  shows "filter (\<lambda>l. leg_chain_id l = c) (map (\<lambda>l. if is_leg c' cid l then f l else l) ls) =
    (if c' = c then map (flag_leg f cid) (filter (\<lambda>l. leg_chain_id l = c) ls)
     else filter (\<lambda>l. leg_chain_id l = c) ls)"
  by (induction ls) (auto simp: is_leg_def flag_leg_def assms)

lemma legs_on_new_swap:
  "legs_on c h (snd (on_new_swap c' cid h' tm amount t)) = legs_on c h t @
     (if c' = c \<and> h' = h \<and> cid \<notin> leg_contract_id ` set (legs_on c h t)
      then [new_leg c cid h tm amount] else [])"
  by (cases "t h'")
    (auto simp: on_new_swap_def legs_on_def Let_def tracked_default_def is_leg_def list_ex_iff
      new_leg_def image_iff)

lemma legs_on_redeem:
  "legs_on c h (snd (on_redeem sha c' cid p t)) =
     (if c' = c \<and> hashlock_from_preimage sha p = h then map (flag_leg redeemed_leg cid) (legs_on c h t)
      else legs_on c h t)"
  by (cases "t (hashlock_from_preimage sha p)")
    (auto simp: on_redeem_def legs_on_def Let_def filter_flags)

lemma legs_on_refund:
  "legs_on c h (on_refund c' cid h' t) =
     (if c' = c \<and> h' = h then map (flag_leg refunded_leg cid) (legs_on c h t) else legs_on c h t)"
  by (cases "t h'") (auto simp: on_refund_def legs_on_def filter_flags)

definition announced :: "htlc_event list \<Rightarrow> b32 \<Rightarrow> b32 \<Rightarrow> u256 \<Rightarrow> u256 \<Rightarrow> bool" where
  "announced evs cid h amount tm \<longleftrightarrow>
     (\<exists>sender recipient token. LogNewSwap cid sender recipient token amount h tm \<in> set evs)"

text \<open>\<open>leg_told\<close>: a leg of the tracker says of a contract what the events do.\<close>

definition leg_terms :: "htlc_event list \<Rightarrow> b32 \<Rightarrow> Leg \<Rightarrow> bool" where
  "leg_terms evs h l \<longleftrightarrow>
     (\<exists>amount tm. announced evs (leg_contract_id l) h amount tm \<and>
        unat (leg_amount l) = unat amount \<and> unat (leg_timelock l) = unat tm)"

definition leg_told :: "hash_fn \<Rightarrow> htlc_event list \<Rightarrow> b32 \<Rightarrow> Leg \<Rightarrow> bool" where
  "leg_told sha evs h l \<longleftrightarrow>
     leg_terms evs h l \<and>
     leg_redeemed l = (\<exists>p. LogRedeem (leg_contract_id l) p \<in> set evs \<and> hashlock_from_preimage sha p = h) \<and>
     leg_refunded l = (LogRefund (leg_contract_id l) \<in> set evs)"

definition tracks :: "hash_fn \<Rightarrow> u64 \<Rightarrow> htlc_event list \<Rightarrow> tracker \<Rightarrow> bool" where
  "tracks sha c evs t \<longleftrightarrow>
     (\<forall>cid h amount tm. announced evs cid h amount tm \<longrightarrow>
        cid \<in> leg_contract_id ` set (legs_on c h t)) \<and>
     (\<forall>h l. l \<in> set (legs_on c h t) \<longrightarrow> leg_told sha evs h l) \<and>
     (\<forall>cid p. LogRedeem cid p \<in> set evs \<longrightarrow>
        preimage_for (hashlock_from_preimage sha p) t \<noteq> None)"

text \<open>\<open>sound_log\<close>: the contract's rules for the events, as far as the tracker depends on them.\<close>

definition sound_next :: "hash_fn \<Rightarrow> htlc_event list \<Rightarrow> htlc_event \<Rightarrow> bool" where
  "sound_next sha evs ev \<longleftrightarrow>
     (case ev of
        LogNewSwap cid sender recipient token amount h tm \<Rightarrow>
          (\<forall>h' amount' tm'. announced evs cid h' amount' tm' \<longrightarrow> h' = h)
      | LogRedeem cid p \<Rightarrow> \<exists>amount tm. announced evs cid (hashlock_from_preimage sha p) amount tm
      | LogRefund cid \<Rightarrow> \<exists>h amount tm. announced evs cid h amount tm)"

definition sound_log :: "hash_fn \<Rightarrow> htlc_event list \<Rightarrow> bool" where
  "sound_log sha evs \<longleftrightarrow> (\<forall>before ev later. evs = before @ ev # later \<longrightarrow> sound_next sha before ev)"

lemma announced_snoc:
  "announced (evs @ [ev]) cid h amount tm \<longleftrightarrow> announced evs cid h amount tm \<or>
     (\<exists>sender recipient token. ev = LogNewSwap cid sender recipient token amount h tm)"
  by (auto simp: announced_def)

lemma announced_mono: "announced evs cid h amount tm \<Longrightarrow> set evs \<subseteq> set evs' \<Longrightarrow> announced evs' cid h amount tm"
  by (auto simp: announced_def)

lemma sound_log_snoc: "sound_log sha (evs @ [ev]) \<longleftrightarrow> sound_log sha evs \<and> sound_next sha evs ev"
proof
  assume r: "sound_log sha evs \<and> sound_next sha evs ev"
  show "sound_log sha (evs @ [ev])"
    unfolding sound_log_def
  proof (intro allI impI)
    fix before e later
    assume "evs @ [ev] = before @ e # later"
    then show "sound_next sha before e"
      using r by (cases later rule: rev_cases) (auto simp: sound_log_def)
  qed
qed (auto simp: sound_log_def)

lemma sound_log_prefix: "sound_log sha (evs @ new) \<Longrightarrow> sound_log sha evs"
  by (induction new rule: rev_induct) (simp_all flip: append_assoc add: sound_log_snoc)

lemma sound_log_facts:
  assumes "sound_log sha evs"
  shows "announced evs cid h amount tm \<Longrightarrow> announced evs cid h' amount' tm' \<Longrightarrow> h' = h"
    and "LogRedeem cid p \<in> set evs \<Longrightarrow> \<exists>amount tm. announced evs cid (hashlock_from_preimage sha p) amount tm"
    and "LogRefund cid \<in> set evs \<Longrightarrow> \<exists>h amount tm. announced evs cid h amount tm"
  using assms
proof (induction evs rule: rev_induct)
  case Nil
  { case 1 then show ?case by (simp add: announced_def) }
  { case 2 then show ?case by simp }
  { case 3 then show ?case by simp }
next
  case (snoc ev evs)
  { case 1 then show ?case
      using snoc.IH(1) by (auto simp: announced_snoc sound_log_snoc sound_next_def) blast+ }
  { case 2 then show ?case
      using snoc.IH(2) by (auto simp: announced_snoc sound_log_snoc sound_next_def) }
  { case 3 then show ?case
      using snoc.IH(3) by (auto simp: announced_snoc sound_log_snoc sound_next_def) }
qed

text \<open>An event of the chain keeps the tracker in step with it, an event of another chain too.\<close>

lemma leg_terms_snoc: "leg_terms evs h l \<Longrightarrow> leg_terms (evs @ [ev]) h l"
  unfolding leg_terms_def announced_snoc by blast

lemma leg_terms_flags [simp]:
  "leg_terms evs h (l\<lparr>leg_redeemed := b\<rparr>) = leg_terms evs h l"
  "leg_terms evs h (l\<lparr>leg_refunded := b\<rparr>) = leg_terms evs h l"
  by (simp_all add: leg_terms_def)

lemma leg_told_snoc:
  assumes "leg_told sha evs h l"
    and "\<And>p. ev = LogRedeem (leg_contract_id l) p \<Longrightarrow> hashlock_from_preimage sha p \<noteq> h"
    and "ev \<noteq> LogRefund (leg_contract_id l)"
  shows "leg_told sha (evs @ [ev]) h l"
  using assms by (auto simp: leg_told_def leg_terms_snoc)

lemma tracksD:
  assumes "tracks sha c evs t"
  shows "announced evs cid h amount tm \<Longrightarrow> cid \<in> leg_contract_id ` set (legs_on c h t)"
    and "l \<in> set (legs_on c h t) \<Longrightarrow> leg_told sha evs h l"
  using assms unfolding tracks_def by blast+

lemma leg_told_announced:
  "leg_told sha evs h l \<Longrightarrow> \<exists>amount tm. announced evs (leg_contract_id l) h amount tm"
  unfolding leg_told_def leg_terms_def by blast

lemma tracks_known:
  assumes "tracks sha c evs t" and "handle_event sha iter c' ev t = Some t'"
    and "LogRedeem cid p \<in> set evs"
  shows "preimage_for (hashlock_from_preimage sha p) t' \<noteq> None"
  using assms handle_event_preimage [of sha iter c' ev t t'] by (simp add: tracks_def)

lemma other_chain_legs:
  "handle_event sha iter c' ev t = Some t' \<Longrightarrow> c' \<noteq> c \<Longrightarrow> legs_on c h t' = legs_on c h t"
  by (auto simp: handle_event_def legs_on_new_swap legs_on_redeem legs_on_refund
      split: htlc_event.splits option.splits)

lemma tracks_other:
  assumes "tracks sha c evs t" and "handle_event sha iter c' ev t = Some t'" and "c' \<noteq> c"
  shows "tracks sha c evs t'"
  using assms(1) other_chain_legs [OF assms(2,3)] tracks_known [OF assms(1,2)]
  by (simp add: tracks_def)

lemma legs_on_dom: "l \<in> set (legs_on c h t) \<Longrightarrow> h \<in> dom t"
  by (cases "t h") auto

lemma find_eq: "find (\<lambda>x. x = a) xs = (if a \<in> set xs then Some a else None)"
  by (induction xs) auto

lemma hashlock_of_legs:
  assumes "set (iter t) = dom t"
    and "\<And>h. cid \<in> leg_contract_id ` set (legs_on c h t) \<longleftrightarrow> h = h0"
  shows "hashlock_of iter c cid t = Some h0"
proof -
  have leg: "(case t h of None \<Rightarrow> False | Some s \<Rightarrow> list_ex (is_leg c cid) (tr_legs s)) \<longleftrightarrow> h = h0" for h
    unfolding assms(2) [symmetric]
    by (cases "t h") (auto simp: legs_on_def list_ex_iff is_leg_def)
  have "h0 \<in> set (iter t)"
    using leg [of h0] assms(1) by (auto split: option.splits)
  then show ?thesis by (simp add: hashlock_of_def leg find_eq)
qed

lemma tracks_new_swap:
  assumes f: "tracks sha c evs t" and sound: "sound_log sha (evs @ [ev])"
    and ev: "ev = LogNewSwap cid sender recipient token amount h tm"
    and t': "handle_event sha iter c ev t = Some t'"
  shows "tracks sha c (evs @ [ev]) t'"
proof -
  have facts: "unat amount < 2 ^ 128" "unat tm < 2 ^ 64"
    and t'_def: "t' = snd (on_new_swap c cid h (ucast tm) (ucast amount) t)"
    using t' by (auto simp: ev handle_event_def u256_to_def split: if_splits)
  have legs: "legs_on c h' t' = legs_on c h' t @
      (if h' = h \<and> cid \<notin> leg_contract_id ` set (legs_on c h t)
       then [new_leg c cid h (ucast tm) (ucast amount)] else [])" for h'
    by (auto simp: t'_def legs_on_new_swap)
  have sound': "sound_log sha evs" "sound_next sha evs ev" using sound by (simp_all add: sound_log_snoc)
  note told = sound_log_facts [OF sound'(1)]
  have here: "h' = h" if "announced evs cid h' a' tm'" for h' a' tm'
    using sound'(2) that by (auto simp: sound_next_def ev)
  have new: "leg_told sha (evs @ [ev]) h (new_leg c cid h (ucast tm) (ucast amount))"
    if fresh: "cid \<notin> leg_contract_id ` set (legs_on c h t)"
  proof -
    have no: "\<not> announced evs cid h a' tm'" for a' tm'
      using tracksD(1) [OF f] fresh by blast
    have "LogRefund cid \<notin> set evs" using told(3) [of cid] here no by blast
    moreover have "\<not> (\<exists>p. LogRedeem cid p \<in> set evs \<and> hashlock_from_preimage sha p = h)"
      using told(2) [of cid] no by blast
    moreover have "unat (ucast amount :: u128) = unat amount" "unat (ucast tm :: u64) = unat tm"
      using facts by (simp_all add: unsigned_ucast_eq take_bit_nat_eq_self)
    ultimately show ?thesis
      by (auto simp: leg_told_def leg_terms_def new_leg_def announced_snoc ev)
  qed
  have old: "leg_told sha (evs @ [ev]) h' l" if "l \<in> set (legs_on c h' t)" for h' l
    using tracksD(2) [OF f that] by (rule leg_told_snoc) (simp_all add: ev)
  show ?thesis
    unfolding tracks_def
  proof (intro conjI allI impI)
    fix cid' h' a' tm'
    assume "announced (evs @ [ev]) cid' h' a' tm'"
    then consider "announced evs cid' h' a' tm'" | "cid' = cid" "h' = h"
      by (auto simp: announced_snoc ev)
    then show "cid' \<in> leg_contract_id ` set (legs_on c h' t')"
    proof cases
      case 1
      from tracksD(1) [OF f this] show ?thesis by (simp add: legs image_Un)
    next
      case 2
      then show ?thesis by (cases "cid \<in> leg_contract_id ` set (legs_on c h t)") (simp_all add: legs new_leg_def)
    qed
  next
    fix h' l
    assume "l \<in> set (legs_on c h' t')"
    then show "leg_told sha (evs @ [ev]) h' l"
      using old new by (auto simp: legs split: if_splits)
  next
    fix cid' p
    assume "LogRedeem cid' p \<in> set (evs @ [ev])"
    then show "preimage_for (hashlock_from_preimage sha p) t' \<noteq> None"
      using tracks_known [OF f t'] by (simp add: ev)
  qed
qed

lemma flag_leg_id [simp]:
  "leg_contract_id (flag_leg redeemed_leg cid l) = leg_contract_id l"
  "leg_contract_id (flag_leg refunded_leg cid l) = leg_contract_id l"
  by (simp_all add: flag_leg_def)

lemma tracks_redeem:
  assumes f: "tracks sha c evs t" and sound: "sound_log sha (evs @ [ev])"
    and ev: "ev = LogRedeem cid p" and t': "handle_event sha iter c ev t = Some t'"
  shows "tracks sha c (evs @ [ev]) t'"
proof -
  let ?h = "hashlock_from_preimage sha p"
  have t'_def: "t' = snd (on_redeem sha c cid p t)"
    using t' by (simp add: ev handle_event_def)
  have legs: "legs_on c h t' = (if h = ?h then map (flag_leg redeemed_leg cid) (legs_on c h t) else legs_on c h t)" for h
    by (auto simp: t'_def legs_on_redeem)
  obtain amount tm where "announced evs cid ?h amount tm"
    using sound by (auto simp: sound_log_snoc sound_next_def ev)
  then have "cid \<in> leg_contract_id ` set (legs_on c ?h t)" by (rule tracksD(1) [OF f])
  then have known: "t ?h \<noteq> None" by (auto dest: legs_on_dom)
  have told: "leg_told sha evs h l" if "l \<in> set (legs_on c h t)" for h l
    using tracksD(2) [OF f that] .
  show ?thesis
    unfolding tracks_def
  proof (intro conjI allI impI)
    fix cid' h a tm'
    assume "announced (evs @ [ev]) cid' h a tm'"
    then have "announced evs cid' h a tm'" by (simp add: announced_snoc ev)
    from tracksD(1) [OF f this] show "cid' \<in> leg_contract_id ` set (legs_on c h t')"
      by (auto simp: legs image_image)
  next
    fix h l
    assume "l \<in> set (legs_on c h t')"
    then obtain l0 where l0: "l0 \<in> set (legs_on c h t)"
      "l = (if h = ?h then flag_leg redeemed_leg cid l0 else l0)"
      by (auto simp: legs split: if_splits)
    then show "leg_told sha (evs @ [ev]) h l"
      using told [OF l0(1)] by (auto simp: leg_told_def leg_terms_snoc ev flag_leg_def)
  next
    fix cid' p'
    assume "LogRedeem cid' p' \<in> set (evs @ [ev])"
    then consider "p' = p" | "LogRedeem cid' p' \<in> set evs" by (auto simp: ev)
    then show "preimage_for (hashlock_from_preimage sha p') t' \<noteq> None"
      using tracks_known [OF f t'] known by cases (simp_all add: t'_def on_redeem_preimage)
  qed
qed

lemma tracks_refund:
  assumes f: "tracks sha c evs t" and sound: "sound_log sha (evs @ [ev])"
    and iter: "set (iter t) = dom t"
    and ev: "ev = LogRefund cid" and t': "handle_event sha iter c ev t = Some t'"
  shows "tracks sha c (evs @ [ev]) t'"
proof -
  have sound': "sound_log sha evs" using sound by (simp add: sound_log_snoc)
  have told: "leg_told sha evs h l" if "l \<in> set (legs_on c h t)" for h l
    using tracksD(2) [OF f that] .
  obtain h0 amount tm where h0: "announced evs cid h0 amount tm"
    using sound by (auto simp: sound_log_snoc sound_next_def ev)
  have only: "cid \<in> leg_contract_id ` set (legs_on c h t) \<longleftrightarrow> h = h0" for h
  proof
    assume "cid \<in> leg_contract_id ` set (legs_on c h t)"
    then obtain a' tm' where "announced evs cid h a' tm'" using leg_told_announced [OF told] by blast
    then show "h = h0" using sound_log_facts(1) [OF sound' h0] by blast
  qed (use tracksD(1) [OF f h0] in simp)
  have t'_def: "t' = on_refund c cid h0 t"
    using t' hashlock_of_legs [where iter = iter and c = c and cid = cid and t = t and ?h0.0 = h0, OF iter only] by (simp add: ev handle_event_def)
  have legs: "legs_on c h t' = map (flag_leg refunded_leg cid) (legs_on c h t)" for h
    using only [of h] by (auto simp: t'_def legs_on_refund flag_leg_def intro!: map_idI [symmetric])
  show ?thesis
    unfolding tracks_def
  proof (intro conjI allI impI)
    fix cid' h a tm'
    assume "announced (evs @ [ev]) cid' h a tm'"
    then have "announced evs cid' h a tm'" by (simp add: announced_snoc ev)
    from tracksD(1) [OF f this] show "cid' \<in> leg_contract_id ` set (legs_on c h t')"
      by (auto simp: legs image_image)
  next
    fix h l
    assume "l \<in> set (legs_on c h t')"
    then obtain l0 where l0: "l0 \<in> set (legs_on c h t)" "l = flag_leg refunded_leg cid l0"
      by (auto simp: legs)
    then show "leg_told sha (evs @ [ev]) h l"
      using told [OF l0(1)] by (auto simp: leg_told_def leg_terms_snoc ev flag_leg_def)
  next
    fix cid' p'
    assume "LogRedeem cid' p' \<in> set (evs @ [ev])"
    then show "preimage_for (hashlock_from_preimage sha p') t' \<noteq> None"
      using tracks_known [OF f t'] by (simp add: ev)
  qed
qed

lemma tracks_own:
  assumes "tracks sha c evs t" and "sound_log sha (evs @ [ev])" and "set (iter t) = dom t"
    and "handle_event sha iter c ev t = Some t'"
  shows "tracks sha c (evs @ [ev]) t'"
  using assms tracks_new_swap tracks_redeem tracks_refund by (cases ev) metis+

lemma process_logs_kept:
  assumes "\<And>ev t t'. P t \<Longrightarrow> handle_event sha iter c ev t = Some t' \<Longrightarrow> P t'" and "P t"
  shows "P (snd (process_logs sha iter c logs m0 t))"
  using assms(2)
proof (induction logs arbitrary: m0 t)
  case Nil
  then show ?case by (simp add: ret_def)
next
  case (Cons l logs)
  then show ?case by (auto split: option.split intro: assms(1))
qed

definition events_of :: "log list \<Rightarrow> htlc_event list" where
  "events_of logs = List.map_filter log_event logs"

lemma events_of_simps [simp]:
  "events_of [] = []" "events_of (xs @ ys) = events_of xs @ events_of ys"
  "events_of (l # ls) = (case log_event l of None \<Rightarrow> [] | Some ev \<Rightarrow> [ev]) @ events_of ls"
  by (simp_all add: events_of_def map_filter_simps map_filter_def split: option.split)

lemma handle_event_finite: "handle_event sha iter c ev t = Some t' \<Longrightarrow> finite (dom t) \<Longrightarrow> finite (dom t')"
  by (simp add: handle_event_dom split: htlc_event.split)

text \<open>The iteration over a map visits each of its keys.\<close>

definition visits_all :: "iteration \<Rightarrow> bool" where
  "visits_all iter \<longleftrightarrow> (\<forall>t. finite (dom t) \<longrightarrow> set (iter t) = dom t)"

lemma process_logs_tracks:
  assumes "process_logs sha iter c logs m0 t = (Inr m, t')" and "visits_all iter" and "finite (dom t)"
    and "tracks sha c evs t" and "sound_log sha (evs @ events_of logs)"
  shows "tracks sha c (evs @ events_of logs) t'"
  using assms(1,3-)
proof (induction logs arbitrary: m0 t evs)
  case Nil
  then show ?case by (simp add: ret_def)
next
  case (Cons l logs)
  show ?case
  proof (cases "log_event l")
    case None
    with Cons show ?thesis by simp
  next
    case (Some ev)
    with Cons.prems(1) obtain t1 where t1: "handle_event sha iter c ev t = Some t1"
      and rest: "process_logs sha iter c logs (m0 + 1) t1 = (Inr m, t')"
      by (auto split: option.splits)
    have sound: "sound_log sha ((evs @ [ev]) @ events_of logs)" using Cons.prems(4) Some by simp
    have "set (iter t) = dom t" using Cons.prems(2) assms(2) by (simp add: visits_all_def)
    from tracks_own [OF Cons.prems(3) sound_log_prefix [OF sound] this t1]
    have "tracks sha c ((evs @ [ev]) @ events_of logs) t'"
      using sound by (rule Cons.IH [OF rest handle_event_finite [OF t1 Cons.prems(2)]])
    then show ?thesis using Some by simp
  qed
qed

subsection \<open>From the contract to the log\<close>

text \<open>
  Contract identifiers are hashes of the terms. \<open>id_clash\<close>: two swaps of the log that differ have
  the same identifier, an explicit collision.
\<close>

definition id_encoding :: "htlc_event \<Rightarrow> u8 list list" where
  "id_encoding ev =
     (case ev of
        LogNewSwap cid sender recipient token amount hashlock tm \<Rightarrow>
          [enc_addr sender @ enc_addr recipient @ enc_addr token @ abi_uint256 amount @
           bytes_of hashlock @ abi_uint256 tm]
      | _ \<Rightarrow> [])"

definition id_clash :: "hash_fn \<Rightarrow> htlc_event list \<Rightarrow> bool" where
  "id_clash kc evs \<longleftrightarrow>
     (\<exists>x \<in> set (concat (map id_encoding evs)). \<exists>y \<in> set (concat (map id_encoding evs)). collision kc x y)"

lemma id_clash_mono: "id_clash kc evs \<Longrightarrow> set evs \<subseteq> set evs' \<Longrightarrow> id_clash kc evs'"
  unfolding id_clash_def by fastforce

lemma truthfulD:
  assumes "truthful dp s"
  shows "sw_sender (swaps s cid) \<noteq> 0 \<Longrightarrow> announces cid (swaps s cid) \<in> set (htlc_events s)"
    and "ev \<in> set (htlc_events s) \<Longrightarrow> \<exists>before. set before \<subseteq> set (htlc_events s) \<and> justified dp s before ev"
proof -
  show "sw_sender (swaps s cid) \<noteq> 0 \<Longrightarrow> announces cid (swaps s cid) \<in> set (htlc_events s)"
    using assms by (simp add: truthful_def)
  assume "ev \<in> set (htlc_events s)"
  then obtain before later where "htlc_events s = before @ ev # later" by (meson split_list)
  then show "\<exists>before. set before \<subseteq> set (htlc_events s) \<and> justified dp s before ev"
    using assms unfolding truthful_def by (intro exI [of _ before]) auto
qed

lemma same_id_same_swap:
  assumes "truthful dp s" and "\<not> id_clash (dp_keccak dp) (htlc_events s)"
    and "LogNewSwap cid a b k m h t \<in> set (htlc_events s)"
    and "LogNewSwap cid a' b' k' m' h' t' \<in> set (htlc_events s)"
  shows "LogNewSwap cid a b k m h t = LogNewSwap cid a' b' k' m' h' t'"
proof -
  let ?e = "enc_addr a @ enc_addr b @ enc_addr k @ abi_uint256 m @ bytes_of h @ abi_uint256 t"
  let ?e' = "enc_addr a' @ enc_addr b' @ enc_addr k' @ abi_uint256 m' @ bytes_of h' @ abi_uint256 t'"
  have "cid = dp_keccak dp ?e" "cid = dp_keccak dp ?e'"
    using truthfulD(2) [OF assms(1,3)] truthfulD(2) [OF assms(1,4)]
    by (auto simp: justified_def computeContractId_def)
  moreover have "?e \<in> set (concat (map id_encoding (htlc_events s)))"
    "?e' \<in> set (concat (map id_encoding (htlc_events s)))"
    using assms(3,4) by (force simp: id_encoding_def)+
  ultimately have "?e = ?e'" using assms(2) unfolding id_clash_def collision_def by metis
  then show ?thesis by (simp add: abi_uint256_def to_be_bytes_inject)
qed

lemma announces_announced:
  "announces cid sw \<in> set evs \<Longrightarrow> announced evs cid (sw_hashlock sw) (sw_amount sw) (sw_timelock sw)"
  by (auto simp: announces_def announced_def)

lemma sound_contract_log:
  assumes "truthful dp s" and "\<not> id_clash (dp_keccak dp) (htlc_events s)"
  shows "sound_log (dp_sha256 dp) (htlc_events s)"
  unfolding sound_log_def
proof (intro allI impI)
  fix before ev later
  assume log: "htlc_events s = before @ ev # later"
  then have j: "justified dp s before ev" using assms(1) by (simp add: truthful_def)
  have sub: "set before \<subseteq> set (htlc_events s)" "ev \<in> set (htlc_events s)" by (auto simp: log)
  show "sound_next (dp_sha256 dp) before ev"
  proof (cases ev)
    case (LogNewSwap cid sender recipient token amount h tm)
    have "h' = h" if "announced before cid h' amount' tm'" for h' amount' tm'
    proof -
      from that sub(1) obtain a b k where "LogNewSwap cid a b k amount' h' tm' \<in> set (htlc_events s)"
        by (auto simp: announced_def)
      from same_id_same_swap [OF assms this] sub(2) show ?thesis by (simp add: LogNewSwap)
    qed
    then show ?thesis by (simp add: sound_next_def LogNewSwap) blast
  qed (use j announces_announced in \<open>fastforce simp: justified_def sound_next_def
        hashlock_from_preimage_def\<close>)+
qed

subsection \<open>From the log to the tracker\<close>

definition leg_mirrors :: "chain_state \<Rightarrow> b32 \<Rightarrow> Leg \<Rightarrow> bool" where
  "leg_mirrors s h l \<longleftrightarrow>
     (let cid = leg_contract_id l; sw = swaps s cid in
      announces cid sw \<in> set (htlc_events s) \<and>
      sw_hashlock sw = h \<and> unat (leg_amount l) = unat (sw_amount sw) \<and>
      unat (leg_timelock l) = unat (sw_timelock sw) \<and>
      (sw_withdrawn sw \<longrightarrow> leg_redeemed l) \<and> (sw_refunded sw \<longrightarrow> leg_refunded l) \<and>
      (leg_redeemed l \<longrightarrow> pays cid sw (sw_recipient sw) \<in> set (payments cid s)) \<and>
      (leg_refunded l \<longrightarrow> pays cid sw (sw_sender sw) \<in> set (payments cid s)))"

definition mirrors_chain :: "hash_fn \<Rightarrow> u64 \<Rightarrow> chain_state \<Rightarrow> tracker \<Rightarrow> bool" where
  "mirrors_chain sha c s t \<longleftrightarrow>
     (\<forall>cid. sw_sender (swaps s cid) \<noteq> 0 \<longrightarrow>
        cid \<in> leg_contract_id ` set (legs_on c (sw_hashlock (swaps s cid)) t)) \<and>
     (\<forall>h. \<forall>l \<in> set (legs_on c h t).
        leg_mirrors s h l \<and>
        (leg_redeemed l \<longrightarrow> (\<exists>p. preimage_for h t = Some p \<and> hashlock_from_preimage sha p = h)))"

lemma mirrorsD:
  assumes "mirrors_chain sha c s t"
  shows "sw_sender (swaps s cid) \<noteq> 0 \<Longrightarrow>
      cid \<in> leg_contract_id ` set (legs_on c (sw_hashlock (swaps s cid)) t)"
    and "l \<in> set (legs_on c h t) \<Longrightarrow> leg_mirrors s h l"
    and "l \<in> set (legs_on c h t) \<Longrightarrow> leg_redeemed l \<Longrightarrow>
      \<exists>p. preimage_for h t = Some p \<and> hashlock_from_preimage sha p = h"
  using assms unfolding mirrors_chain_def by blast+

lemma same_announcement:
  assumes "truthful dp s" and "\<not> id_clash (dp_keccak dp) (htlc_events s)"
    and "announces cid sw \<in> set (htlc_events s)" and "announces cid sw' \<in> set (htlc_events s)"
  shows "announces cid sw = announces cid sw'"
  using same_id_same_swap [OF assms(1,2)] assms(3,4) by (simp add: announces_def)

lemma announces_pays:
  "announces cid sw = announces cid sw' \<Longrightarrow> pays cid sw (sw_recipient sw) = pays cid sw' (sw_recipient sw')"
  "announces cid sw = announces cid sw' \<Longrightarrow> pays cid sw (sw_sender sw) = pays cid sw' (sw_sender sw')"
  by (simp_all add: announces_def pays_def)

lemma settlement_paid:
  assumes "truthful dp s" and "\<not> id_clash (dp_keccak dp) (htlc_events s)"
    and "announces cid (swaps s cid) \<in> set (htlc_events s)"
  shows "LogRedeem cid p \<in> set (htlc_events s) \<Longrightarrow>
      pays cid (swaps s cid) (sw_recipient (swaps s cid)) \<in> set (payments cid s)"
    and "LogRefund cid \<in> set (htlc_events s) \<Longrightarrow>
      pays cid (swaps s cid) (sw_sender (swaps s cid)) \<in> set (payments cid s)"
proof -
  note same = same_announcement [OF assms]
  assume "LogRedeem cid p \<in> set (htlc_events s)"
  from truthfulD(2) [OF assms(1) this] obtain sw where "announces cid sw \<in> set (htlc_events s)"
    "pays cid sw (sw_recipient sw) \<in> set (htlc_paid s)"
    by (auto simp: justified_def)
  then show "pays cid (swaps s cid) (sw_recipient (swaps s cid)) \<in> set (payments cid s)"
    using announces_pays(1) [OF same] by (simp add: payments_def) (simp add: pays_def)
next
  note same = same_announcement [OF assms]
  assume "LogRefund cid \<in> set (htlc_events s)"
  from truthfulD(2) [OF assms(1) this] obtain sw where "announces cid sw \<in> set (htlc_events s)"
    "pays cid sw (sw_sender sw) \<in> set (htlc_paid s)"
    by (auto simp: justified_def)
  then show "pays cid (swaps s cid) (sw_sender (swaps s cid)) \<in> set (payments cid s)"
    using announces_pays(2) [OF same] by (simp add: payments_def) (simp add: pays_def)
qed

lemma told_mirrors:
  assumes truth: "truthful dp s" "\<not> id_clash (dp_keccak dp) (htlc_events s)"
    and shown: "settlement_shown dp s (leg_contract_id l)"
    and told: "leg_told (dp_sha256 dp) (htlc_events s) h l"
  shows "leg_mirrors s h l"
proof -
  let ?cid = "leg_contract_id l"
  from told obtain a b k amount tm where
    ev: "LogNewSwap ?cid a b k amount h tm \<in> set (htlc_events s)"
    and terms: "unat (leg_amount l) = unat amount" "unat (leg_timelock l) = unat tm"
    by (auto simp: leg_told_def leg_terms_def announced_def)
  then have ann: "announces ?cid (swaps s ?cid) \<in> set (htlc_events s)"
    using truthfulD(2) [OF truth(1) ev] by (auto simp: justified_def)
  have sw: "sw_hashlock (swaps s ?cid) = h" "sw_amount (swaps s ?cid) = amount"
      "sw_timelock (swaps s ?cid) = tm"
    using same_id_same_swap [OF truth ev] ann by (auto simp: announces_def)
  have redeemed: "leg_redeemed l = (\<exists>p. LogRedeem ?cid p \<in> set (htlc_events s) \<and> dp_sha256 dp (bytes_of p) = h)"
    and refunded: "leg_refunded l = (LogRefund ?cid \<in> set (htlc_events s))"
    using told by (simp_all add: leg_told_def hashlock_from_preimage_def)
  show ?thesis
    unfolding leg_mirrors_def Let_def
    using ann sw terms redeemed refunded shown settlement_paid [OF truth ann]
    by (auto simp: settlement_shown_def)
qed

lemma tracks_mirrors:
  assumes truth: "truthful dp s" "\<not> id_clash (dp_keccak dp) (htlc_events s)"
    and shown: "\<And>cid. settlement_shown dp s cid"
    and f: "tracks (dp_sha256 dp) c (htlc_events s) t" and inv: "tracker_inv (dp_sha256 dp) t"
  shows "mirrors_chain (dp_sha256 dp) c s t"
  unfolding mirrors_chain_def
proof (intro conjI allI ballI impI)
  fix cid
  assume "sw_sender (swaps s cid) \<noteq> 0"
  from announces_announced [OF truthfulD(1) [OF truth(1) this]]
  show "cid \<in> leg_contract_id ` set (legs_on c (sw_hashlock (swaps s cid)) t)"
    by (rule tracksD(1) [OF f])
next
  fix h l
  assume l: "l \<in> set (legs_on c h t)"
  note told = tracksD(2) [OF f l]
  show "leg_mirrors s h l" using truth shown told by (rule told_mirrors)
  assume "leg_redeemed l"
  with told obtain p where "LogRedeem (leg_contract_id l) p \<in> set (htlc_events s)"
    "hashlock_from_preimage (dp_sha256 dp) p = h"
    by (auto simp: leg_told_def)
  then have "preimage_for h t \<noteq> None" using f by (auto simp: tracks_def)
  then show "\<exists>p. preimage_for h t = Some p \<and> hashlock_from_preimage (dp_sha256 dp) p = h"
    using inv by (auto simp: preimage_for_def tracked_ok_def dest!: tracker_invD split: option.splits)
qed

end
