(* ===== verification/Kael_Maestro_Mirrors.thy ===== *)
theory Kael_Maestro_Mirrors
  imports Kael_Tracker_Follows Kael_Honest_Net
begin

section \<open>The maestro mirrors both chains\<close>

text \<open>
  The loop of \<open>maestro/src/bin/maestro.rs\<close> on nodes that keep the log of their chain. \<open>archive\<close> is
  what it needs of such a node: blocks are only ever added, the head is not ahead of the blocks,
  and a query for logs returns the events of the blocks asked for; \<open>honest_net\<close> provides it to
  every provider. The loop asks for each block once, so its tracker follows the log of both
  chains, and mirrors the two contracts as of the last blocks it polled.
\<close>

subsection \<open>The log of a range of blocks\<close>

definition chain_at :: "deployment \<Rightarrow> transaction list list \<Rightarrow> nat \<Rightarrow> chain_state" where
  "chain_at dp bs k = transact_all dp (concat (take k bs)) deployed"

lemma chain_at_append: "k \<le> length bs \<Longrightarrow> chain_at dp (bs @ cs) k = chain_at dp bs k"
  by (simp add: chain_at_def)

lemma take_split: "k \<le> m \<Longrightarrow> take m bs = take k bs @ drop k (take m bs)"
  by (metis append_take_drop_id min.absorb1 take_take)

lemma chain_at_further:
  "k \<le> m \<Longrightarrow> chain_at dp bs m = transact_all dp (concat (drop k (take m bs))) (chain_at dp bs k)"
  using take_split [of k m bs] unfolding chain_at_def by (metis concat_append transact_all_append)

lemma block_logs_append:
  "block_logs dp k s (xs @ ys) =
     block_logs dp k s xs @ block_logs dp (k + length xs) (transact_all dp (concat xs) s) ys"
  by (induction dp k s xs rule: block_logs.induct) (simp_all add: transact_all_append)

lemma block_logs_number:
  "l \<in> set (block_logs dp k s bs) \<Longrightarrow>
     \<exists>ev i. l = \<lparr>log_event = Some ev, log_block_number = Some (of_nat i)\<rparr> \<and> k \<le> i \<and> i < k + length bs"
proof (induction dp k s bs rule: block_logs.induct)
  case (2 dp k s b bs)
  from 2(2) show ?case
  proof (cases "l \<in> set (block_logs dp (Suc k) (transact_all dp b s) bs)")
    case True
    from 2(1) [OF this] show ?thesis by force
  qed (auto intro!: exI [of _ k])
qed simp

lemma events_of_map [simp]:
  "events_of (map (\<lambda>ev. \<lparr>log_event = Some ev, log_block_number = b\<rparr>) evs) = evs"
  by (induction evs) simp_all

lemma block_logs_events:
  "htlc_events s @ events_of (block_logs dp k s bs) = htlc_events (transact_all dp (concat bs) s)"
proof (induction dp k s bs rule: block_logs.induct)
  case (2 dp k s b bs)
  obtain new where "htlc_events (transact_all dp b s) = htlc_events s @ new"
    using log_grows [of dp b s] by blast
  with 2 show ?case by (simp add: transact_all_append)
qed simp

definition range_filter :: "address \<Rightarrow> u64 \<Rightarrow> u64 \<Rightarrow> log_filter" where
  "range_filter a from_block to_block =
     \<lparr>lf_address = a, lf_new_swap_only = False, lf_topic1 = None, lf_from_block = from_block,
      lf_to_block = Some to_block\<rparr>"

lemma range_selected:
  assumes "l \<in> set (block_logs dp k s bs)" and "1 \<le> k" and "k + length bs \<le> 2 ^ 64"
  shows "\<exists>i. k \<le> i \<and> i < k + length bs \<and>
    (log_selected (range_filter a from_block to_block) l \<longleftrightarrow>
       unat from_block - 1 < i \<and> i \<le> unat to_block)"
proof -
  from block_logs_number [OF assms(1)] obtain ev i where
    l: "l = \<lparr>log_event = Some ev, log_block_number = Some (of_nat i)\<rparr>" and i: "k \<le> i" "i < k + length bs"
    by blast
  have n: "unat (of_nat i :: u64) = i"
    using i assms(3) by (simp add: unsigned_of_nat take_bit_nat_eq_self)
  have "log_selected (range_filter a from_block to_block) l \<longleftrightarrow> unat from_block \<le> i \<and> i \<le> unat to_block"
    by (simp add: log_selected_def range_filter_def l word_le_nat_alt n)
  moreover have "unat from_block \<le> i \<longleftrightarrow> unat from_block - 1 < i"
    using i(1) assms(2) by linarith
  ultimately show ?thesis using i by blast
qed

text \<open>The events of the blocks after \<open>k\<close> up to \<open>m\<close>.\<close>

lemma range_events:
  assumes "unat from_block - 1 \<le> unat to_block" and "unat to_block \<le> length bs" and "length bs < 2 ^ 64"
  shows "htlc_events (chain_at dp bs (unat from_block - 1)) @
      events_of (filter (log_selected (range_filter a from_block to_block)) (block_logs dp 1 deployed bs)) =
    htlc_events (chain_at dp bs (unat to_block))"
proof -
  let ?k = "unat from_block - 1" and ?m = "unat to_block"
  let ?sel = "log_selected (range_filter a from_block to_block)"
  let ?x = "take ?k bs" and ?y = "drop ?k (take ?m bs)" and ?z = "drop ?m bs"
  have bs: "bs = ?x @ ?y @ ?z"
    by (simp only: append_assoc [symmetric] take_split [OF assms(1), symmetric] append_take_drop_id)
  have len: "length ?x = ?k" "length ?y = ?m - ?k" "length ?z = length bs - ?m" using assms by simp_all
  have k: "chain_at dp bs ?k = transact_all dp (concat ?x) deployed" by (simp add: chain_at_def)
  note m = chain_at_further [OF assms(1), of dp bs]
  have "block_logs dp 1 deployed bs = block_logs dp 1 deployed (?x @ ?y @ ?z)"
    using bs by (rule arg_cong)
  also have "\<dots> = block_logs dp 1 deployed ?x @
      block_logs dp (1 + ?k) (chain_at dp bs ?k) ?y @
      block_logs dp (1 + ?k + length ?y) (chain_at dp bs ?m) ?z"
    by (simp only: block_logs_append len(1) k [symmetric] m [symmetric])
  also have "1 + ?k + length ?y = 1 + ?m" using assms(1) len(2) by linarith
  finally have split: "block_logs dp 1 deployed bs = block_logs dp 1 deployed ?x @
      block_logs dp (1 + ?k) (chain_at dp bs ?k) ?y @ block_logs dp (1 + ?m) (chain_at dp bs ?m) ?z" .
  have x: "\<not> ?sel l" if "l \<in> set (block_logs dp 1 deployed ?x)" for l
    using range_selected [OF that, of a from_block to_block] assms len(1) by fastforce
  have y: "?sel l" if "l \<in> set (block_logs dp (1 + ?k) (chain_at dp bs ?k) ?y)" for l
    using range_selected [OF that, of a from_block to_block] assms len(2) by fastforce
  have z: "\<not> ?sel l" if "l \<in> set (block_logs dp (1 + ?m) (chain_at dp bs ?m) ?z)" for l
    using range_selected [OF that, of a from_block to_block] assms len(3) by fastforce
  have "filter ?sel (block_logs dp 1 deployed bs) = block_logs dp (1 + ?k) (chain_at dp bs ?k) ?y"
    unfolding split filter_append
    by (simp only: filter_False [of _ ?sel, OF x [THEN ballI]] filter_True [of _ ?sel, OF y [THEN ballI]]
        filter_False [of _ ?sel, OF z [THEN ballI]] append_Nil append_Nil2)
  then show ?thesis by (simp only: block_logs_events m)
qed

subsection \<open>A node with an archive\<close>

text \<open>
  \<open>in_step\<close>: the tracker follows the log of a chain up to the block before \<open>start\<close>; unless the chain
  has more blocks than a block number can name, or two of its swaps have the same identifier.
\<close>

definition beyond :: "deployment \<Rightarrow> transaction list list \<Rightarrow> bool" where
  "beyond dp bs \<longleftrightarrow> 2 ^ 64 \<le> length bs + 1 \<or>
     id_clash (dp_keccak dp) (htlc_events (chain_at dp bs (length bs)))"

definition in_step ::
  "deployment \<Rightarrow> u64 \<Rightarrow> transaction list list \<Rightarrow> u64 \<Rightarrow> tracker \<Rightarrow> bool" where
  "in_step dp c bs start t \<longleftrightarrow> beyond dp bs \<or>
     unat start - 1 \<le> length bs \<and>
     tracks (dp_sha256 dp) c (htlc_events (chain_at dp bs (unat start - 1))) t"

lemma chain_at_log:
  assumes "k \<le> m"
  shows "set (htlc_events (chain_at dp bs k)) \<subseteq> set (htlc_events (chain_at dp bs m))"
  using log_grows [of dp "concat (drop k (take m bs))" "chain_at dp bs k"]
  by (auto simp: chain_at_further [OF assms, of dp bs])

lemma beyond_grows: "beyond dp bs \<Longrightarrow> beyond dp (bs @ new)"
  using chain_at_log [of "length bs" "length (bs @ new)" dp "bs @ new"]
  by (auto simp: beyond_def chain_at_append intro: id_clash_mono)

lemma in_step_grows: "in_step dp c bs k t \<Longrightarrow> in_step dp c (bs @ new) k t"
  by (auto simp: in_step_def beyond_grows chain_at_append)

lemma in_step_other:
  "in_step dp c bs k t \<Longrightarrow> handle_event (dp_sha256 dp) iter c' ev t = Some t' \<Longrightarrow> c' \<noteq> c \<Longrightarrow> in_step dp c bs k t'"
  unfolding in_step_def using tracks_other by blast

lemma in_step_start: "in_step dp c bs 0 tracker_new"
  by (simp add: in_step_def chain_at_def deployed_def tracks_def announced_def tracker_new_def)

lemma poll_runs:
  assumes "poll_into_tracker n sha iter q addr c from_block to_block (t, v) = (Inr m, (t', v'))"
  shows "\<exists>logs. get_logs n q (range_filter addr from_block to_block) (world v) = (Inr logs, world v') \<and>
    process_logs sha iter c logs 0 t = (Inr m, t')"
  using assms
  by (auto simp: poll_into_tracker_def eff_simps range_filter_def prod_eq_iff split: sum.splits)

locale archive =
  fixes n :: "('p, 'w) net" and p :: 'p and dp :: deployment and blocks :: "'w \<Rightarrow> transaction list list"
  assumes number_grows: "\<exists>new. blocks (snd (get_block_number n q w)) = blocks w @ new"
    and logs_grow: "\<exists>new. blocks (snd (get_logs n q f w)) = blocks w @ new"
    and clock_grows: "\<exists>new. blocks (snd (clock_now n w)) = blocks w @ new"
    and head: "get_block_number n p w = (Inr h, w') \<Longrightarrow> unat h \<le> length (blocks w')"
    and archived: "get_logs n p f w = (Inr ls, w') \<Longrightarrow> lf_address f = dp_htlc dp \<Longrightarrow>
      ls = filter (log_selected f) (block_logs dp 1 deployed (blocks w'))"
begin

lemma poll_other:
  assumes "poll_into_tracker n (dp_sha256 dp) iter q addr c' from_block to_block (t, v) = (Inr m, (t', v'))"
    and "in_step dp c (blocks (world v)) k t" and "c' \<noteq> c"
  shows "in_step dp c (blocks (world v')) k t'"
proof -
  from poll_runs [OF assms(1)] obtain logs where
    get: "get_logs n q (range_filter addr from_block to_block) (world v) = (Inr logs, world v')"
    and run: "process_logs (dp_sha256 dp) iter c' logs 0 t = (Inr m, t')" by blast
  have "in_step dp c (blocks (world v)) k (snd (process_logs (dp_sha256 dp) iter c' logs 0 t))"
    by (rule process_logs_kept [of "in_step dp c (blocks (world v)) k"])
      (use assms(2,3) in_step_other in blast)+
  then show ?thesis
    using logs_grow [of q "range_filter addr from_block to_block" "world v"] run get
    by (auto simp: in_step_grows)
qed

lemma poll_own:
  assumes poll: "poll_into_tracker n (dp_sha256 dp) iter p (dp_htlc dp) c from_block to_block (t, v) = (Inr m, (t', v'))"
    and step: "in_step dp c (blocks (world v)) from_block t"
    and "finite (dom t)" and "visits_all iter" and "from_block \<le> to_block"
    and to: "unat to_block \<le> length (blocks (world v))"
  shows "in_step dp c (blocks (world v')) (to_block + 1) t'"
proof (cases "beyond dp (blocks (world v'))")
  case False
  let ?bs = "blocks (world v')"
  from poll_runs [OF poll] obtain logs where
    get: "get_logs n p (range_filter (dp_htlc dp) from_block to_block) (world v) = (Inr logs, world v')"
    and run: "process_logs (dp_sha256 dp) iter c logs 0 t = (Inr m, t')" by blast
  obtain new where new: "?bs = blocks (world v) @ new"
    using logs_grow [of p "range_filter (dp_htlc dp) from_block to_block" "world v"] get by auto
  have len: "length ?bs < 2 ^ 64" "unat to_block \<le> length ?bs" "unat to_block + 1 < 2 ^ 64"
    using False to new by (auto simp: beyond_def)
  have upto: "unat (to_block + 1) - 1 = unat to_block"
    using len(3) by (simp add: unat_word_ariths unsigned_of_nat)
  have le: "unat from_block - 1 \<le> unat to_block" using assms(5) by (simp add: word_le_nat_alt)
  have logs: "logs = filter (log_selected (range_filter (dp_htlc dp) from_block to_block))
      (block_logs dp 1 deployed ?bs)"
    using archived [OF get] by (simp add: range_filter_def)
  note range = range_events [OF le len(2,1), of dp "dp_htlc dp", folded logs]
  have "in_step dp c ?bs from_block t" using step by (simp add: new in_step_grows)
  then have f: "tracks (dp_sha256 dp) c (htlc_events (chain_at dp ?bs (unat from_block - 1))) t"
    using False by (simp add: in_step_def)
  have "\<not> id_clash (dp_keccak dp) (htlc_events (chain_at dp ?bs (unat to_block)))"
    using False chain_at_log [OF len(2), of dp ?bs] by (auto simp: beyond_def dest: id_clash_mono)
  then have "sound_log (dp_sha256 dp) (htlc_events (chain_at dp ?bs (unat to_block)))"
    by (intro sound_contract_log) (simp_all add: chain_at_def log_is_truthful)
  from process_logs_tracks [OF run assms(4,3) f, unfolded range, OF this] show ?thesis
    unfolding in_step_def upto using len(2) by simp
qed (simp add: in_step_def)

end

lemma others_mine_grows: "\<exists>new. sv_blocks (others_mine sv) = sv_blocks sv @ new"
  by (simp add: others_mine_def mine_def split: list.split prod.split)

interpretation honest: archive "honest_net chain_of dps accounts wall" p "dps (chain_of p)"
    "\<lambda>w. sv_blocks (w (chain_of p))"
  for chain_of :: "'p \<Rightarrow> 'c" and dps accounts wall p
  by unfold_locales
    (auto simp: honest_net_def quiet_net_def Let_def others_mine_grows served_logs_def unsigned_of_nat
      take_bit_nat_eq_self_iff intro: take_bit_nat_less_eq_self)

subsection \<open>The loop\<close>

text \<open>\<open>watches\<close>: the maestro is configured for two chains and has an archive of each.\<close>

definition watches ::
  "('p, 'w) net \<Rightarrow> hash_fn \<Rightarrow> iteration \<Rightarrow> 'p maestro_config \<Rightarrow> deployment \<Rightarrow> deployment \<Rightarrow>
     ('w \<Rightarrow> transaction list list) \<Rightarrow> ('w \<Rightarrow> transaction list list) \<Rightarrow> bool" where
  "watches n sha iter c dpa dpb ba bb \<longleftrightarrow>
     archive n (mc_provider_a c) dpa ba \<and> mc_htlc_a c = dp_htlc dpa \<and> dp_sha256 dpa = sha \<and>
     archive n (mc_provider_b c) dpb bb \<and> mc_htlc_b c = dp_htlc dpb \<and> dp_sha256 dpb = sha \<and>
     mc_chain_a c \<noteq> mc_chain_b c \<and> visits_all iter"

definition both_in_step ::
  "'p maestro_config \<Rightarrow> deployment \<Rightarrow> deployment \<Rightarrow> ('w \<Rightarrow> transaction list list) \<Rightarrow>
     ('w \<Rightarrow> transaction list list) \<Rightarrow> Maestro \<times> ('p, 'w) env \<Rightarrow> bool" where
  "both_in_step c dpa dpb ba bb s \<longleftrightarrow>
     finite (dom (m_tracker (fst s))) \<and>
     (\<forall>c' h. c' \<noteq> mc_chain_a c \<and> c' \<noteq> mc_chain_b c \<longrightarrow> legs_on c' h (m_tracker (fst s)) = []) \<and>
     in_step dpa (mc_chain_a c) (ba (world (snd s))) (last_a (fst s)) (m_tracker (fst s)) \<and>
     in_step dpb (mc_chain_b c) (bb (world (snd s))) (last_b (fst s)) (m_tracker (fst s))"

lemma watchesD:
  assumes "watches n sha iter c dpa dpb ba bb"
  shows "archive n (mc_provider_a c) dpa ba" and "mc_htlc_a c = dp_htlc dpa" and "dp_sha256 dpa = sha"
    and "archive n (mc_provider_b c) dpb bb" and "mc_htlc_b c = dp_htlc dpb" and "dp_sha256 dpb = sha"
    and "mc_chain_a c \<noteq> mc_chain_b c" and "visits_all iter"
  using assms by (simp_all add: watches_def)

lemma poll_kept:
  assumes "poll_into_tracker n sha iter q addr c from_block to_block (t, v) = (Inr m, (t', v'))"
    and "\<And>ev t t'. P t \<Longrightarrow> handle_event sha iter c ev t = Some t' \<Longrightarrow> P t'" and "P t"
  shows "P t'"
proof -
  obtain logs where "process_logs sha iter c logs 0 t = (Inr m, t')"
    using poll_runs [OF assms(1)] by blast
  moreover have "P (snd (process_logs sha iter c logs 0 t))"
    using assms(2,3) by (rule process_logs_kept)
  ultimately show ?thesis by simp
qed

lemma poll_finite:
  assumes "poll_into_tracker n sha iter q addr c from_block to_block (t, v) = (Inr m, (t', v'))"
    and "finite (dom t)"
  shows "finite (dom t')"
  using poll_kept [where P = "\<lambda>t. finite (dom t)", OF assms(1) _ assms(2)] handle_event_finite by metis

lemma poll_legs:
  assumes "poll_into_tracker n sha iter q addr c from_block to_block (t, v) = (Inr m, (t', v'))"
    and "c \<noteq> c'" and "legs_on c' h t = []"
  shows "legs_on c' h t' = []"
  using poll_kept [where P = "\<lambda>t. legs_on c' h t = []", OF assms(1) _ assms(3)] assms(2)
    other_chain_legs [where c = c' and h = h] by metis

lemma on_tracker_Inr:
  "on_tracker m (ms, v) = (Inr a, (ms', v')) \<longleftrightarrow>
     (\<exists>t'. m (m_tracker ms, v) = (Inr a, (t', v')) \<and> ms' = ms\<lparr>m_tracker := t'\<rparr>)"
  by (cases "m (m_tracker ms, v)") (auto simp: on_tracker_def zoom_apply)

lemma watch_chain_a_step:
  assumes w: "watches n sha iter c dpa dpb ba bb" and s: "both_in_step c dpa dpb ba bb (ms, v)"
    and run: "watch_chain_a n sha iter c head_a (ms, v) = (Inr (), (ms', v'))"
    and head: "unat head_a \<le> length (ba (world v))"
  shows "both_in_step c dpa dpb ba bb (ms', v')"
proof (cases "last_a ms \<le> head_a")
  case True
  with run obtain m t' where
    poll: "poll_into_tracker n sha iter (mc_provider_a c) (mc_htlc_a c) (mc_chain_a c) (last_a ms) head_a
      (m_tracker ms, v) = (Inr m, (t', v'))"
    and ms': "ms' = ms\<lparr>m_tracker := t', last_a := head_a + 1\<rparr>"
    unfolding watch_chain_a_def by (auto simp: eff_Inr on_tracker_Inr)
  note own = watchesD(1) [OF w] and other = watchesD(4) [OF w]
  note pollx = poll [folded watchesD(3) [OF w], unfolded watchesD(2) [OF w]]
  note polly = poll [folded watchesD(6) [OF w]]
  have in_step: "finite (dom (m_tracker ms))"
    "in_step dpa (mc_chain_a c) (ba (world v)) (last_a ms) (m_tracker ms)"
    "in_step dpb (mc_chain_b c) (bb (world v)) (last_b ms) (m_tracker ms)"
    using s by (simp_all add: both_in_step_def)
  have "in_step dpa (mc_chain_a c) (ba (world v')) (head_a + 1) t'"
    using in_step(1,2) watchesD(8) [OF w] True head
    by (intro archive.poll_own [OF own pollx]) simp_all
  moreover have "in_step dpb (mc_chain_b c) (bb (world v')) (last_b ms) t'"
    using in_step(3) watchesD(7) [OF w]
    by (intro archive.poll_other [OF other polly]) simp_all
  moreover have "legs_on c' h t' = []" if "c' \<noteq> mc_chain_a c" "c' \<noteq> mc_chain_b c" for c' h
    using poll_legs [OF poll, of c' h] s that by (simp add: both_in_step_def)
  ultimately show ?thesis
    using poll_finite [OF poll] s by (simp add: both_in_step_def ms')
next
  case False
  with run have "(ms', v') = (ms, v)" unfolding watch_chain_a_def by (auto simp: eff_Inr)
  with s show ?thesis by simp
qed

lemma watch_chain_b_step:
  assumes w: "watches n sha iter c dpa dpb ba bb" and s: "both_in_step c dpa dpb ba bb (ms, v)"
    and run: "watch_chain_b n sha iter c head_b (ms, v) = (Inr (), (ms', v'))"
    and head: "unat head_b \<le> length (bb (world v))"
  shows "both_in_step c dpa dpb ba bb (ms', v')"
proof (cases "last_b ms \<le> head_b")
  case True
  with run obtain m t' where
    poll: "poll_into_tracker n sha iter (mc_provider_b c) (mc_htlc_b c) (mc_chain_b c) (last_b ms) head_b
      (m_tracker ms, v) = (Inr m, (t', v'))"
    and ms': "ms' = ms\<lparr>m_tracker := t', last_b := head_b + 1\<rparr>"
    unfolding watch_chain_b_def by (auto simp: eff_Inr on_tracker_Inr)
  note own = watchesD(4) [OF w] and other = watchesD(1) [OF w]
  note pollx = poll [folded watchesD(6) [OF w], unfolded watchesD(5) [OF w]]
  note polly = poll [folded watchesD(3) [OF w]]
  have in_step: "finite (dom (m_tracker ms))"
    "in_step dpa (mc_chain_a c) (ba (world v)) (last_a ms) (m_tracker ms)"
    "in_step dpb (mc_chain_b c) (bb (world v)) (last_b ms) (m_tracker ms)"
    using s by (simp_all add: both_in_step_def)
  have "in_step dpb (mc_chain_b c) (bb (world v')) (head_b + 1) t'"
    using in_step(1,3) watchesD(8) [OF w] True head
    by (intro archive.poll_own [OF own pollx]) simp_all
  moreover have "in_step dpa (mc_chain_a c) (ba (world v')) (last_a ms) t'"
    using in_step(2) watchesD(7) [OF w]
    by (intro archive.poll_other [OF other polly]) simp_all
  moreover have "legs_on c' h t' = []" if "c' \<noteq> mc_chain_a c" "c' \<noteq> mc_chain_b c" for c' h
    using poll_legs [OF poll, of c' h] s that by (simp add: both_in_step_def)
  ultimately show ?thesis
    using poll_finite [OF poll] s by (simp add: both_in_step_def ms')
next
  case False
  with run have "(ms', v') = (ms, v)" unfolding watch_chain_b_def by (auto simp: eff_Inr)
  with s show ?thesis by simp
qed

lemma watch_chain_a_grows:
  assumes "watches n sha iter c dpa dpb ba bb"
    and "watch_chain_a n sha iter c head_a (ms, v) = (Inr (), (ms', v'))"
  shows "\<exists>new. bb (world v') = bb (world v) @ new"
proof (cases "last_a ms \<le> head_a")
  case True
  with assms(2) obtain m t' where
    "poll_into_tracker n sha iter (mc_provider_a c) (mc_htlc_a c) (mc_chain_a c) (last_a ms) head_a
      (m_tracker ms, v) = (Inr m, (t', v'))"
    unfolding watch_chain_a_def by (auto simp: eff_Inr on_tracker_Inr)
  from poll_runs [OF this] archive.logs_grow [OF watchesD(4) [OF assms(1)], of "mc_provider_a c"
      "range_filter (mc_htlc_a c) (last_a ms) head_a" "world v"]
  show ?thesis by auto
next
  case False
  with assms(2) show ?thesis unfolding watch_chain_a_def by (auto simp: eff_Inr)
qed

lemma both_in_step_grows:
  assumes "both_in_step c dpa dpb ba bb (ms, v)"
    and "\<exists>new. ba (world v') = ba (world v) @ new" and "\<exists>new. bb (world v') = bb (world v) @ new"
  shows "both_in_step c dpa dpb ba bb (ms, v')"
  using assms in_step_grows by (fastforce simp: both_in_step_def)

lemma outside_Inr:
  "rpc q v = (Inr a, v') \<longleftrightarrow> (\<exists>w. q (world v) = (Inr a, w) \<and> v' = v\<lparr>world := w\<rparr>)"
  "ask r v = (Inr b, v') \<longleftrightarrow> (\<exists>w. r (world v) = (b, w) \<and> v' = v\<lparr>world := w\<rparr>)"
  by (auto simp: rpc_def ask_def prod_eq_iff)

lemma turn_runs:
  assumes "watch_turn n sha iter c (ms, v) = (Inr (found, late), (ms', v'))"
  obtains head_a w1 head_b w2 ms1 v1 v2 now where
    "get_block_number n (mc_provider_a c) (world v) = (Inr head_a, w1)"
    "get_block_number n (mc_provider_b c) w1 = (Inr head_b, w2)"
    "watch_chain_a n sha iter c head_a (ms, v\<lparr>world := w2\<rparr>) = (Inr (), (ms1, v1))"
    "watch_chain_b n sha iter c head_b (ms1, v1) = (Inr (), (ms', v2))"
    "clock_now n (world v2) = (now, world v')"
    "found = map (\<lambda>h. (h, preimage_for h (m_tracker ms'))) (correlated_hashlocks iter (m_tracker ms'))"
    "late = timed_out iter now (m_tracker ms')"
  using assms unfolding watch_turn_def by (auto simp: eff_Inr with_env_Inr outside_Inr)

lemma watch_turn_step:
  assumes w: "watches n sha iter c dpa dpb ba bb" and s: "both_in_step c dpa dpb ba bb (ms, v)"
    and run: "watch_turn n sha iter c (ms, v) = (Inr (found, late), (ms', v'))"
  shows "both_in_step c dpa dpb ba bb (ms', v')"
proof -
  obtain head_a w1 head_b w2 ms1 v1 v2 now where
    a: "get_block_number n (mc_provider_a c) (world v) = (Inr head_a, w1)"
    and b: "get_block_number n (mc_provider_b c) w1 = (Inr head_b, w2)"
    and chain_a: "watch_chain_a n sha iter c head_a (ms, v\<lparr>world := w2\<rparr>) = (Inr (), (ms1, v1))"
    and chain_b: "watch_chain_b n sha iter c head_b (ms1, v1) = (Inr (), (ms', v2))"
    and clock: "clock_now n (world v2) = (now, world v')"
    by (rule turn_runs [OF run])
  note arch = watchesD(1) [OF w] watchesD(4) [OF w]
  have v1: "both_in_step c dpa dpb ba bb (ms, v\<lparr>world := w1\<rparr>)"
    using archive.number_grows [OF arch(1), of "mc_provider_a c" "world v"]
      archive.number_grows [OF arch(2), of "mc_provider_a c" "world v"]
    by (intro both_in_step_grows [OF s]) (simp_all add: a)
  have grown: "\<exists>new. ba w2 = ba w1 @ new" "\<exists>new. bb w2 = bb w1 @ new"
    using archive.number_grows [OF arch(1), of "mc_provider_b c" w1]
      archive.number_grows [OF arch(2), of "mc_provider_b c" w1] by (simp_all add: b)
  then have v2: "both_in_step c dpa dpb ba bb (ms, v\<lparr>world := w2\<rparr>)"
    by (intro both_in_step_grows [OF v1]) simp_all
  have "unat head_a \<le> length (ba w2)"
    using archive.head [OF arch(1) a] grown(1) by auto
  then have v3: "both_in_step c dpa dpb ba bb (ms1, v1)"
    by (intro watch_chain_a_step [OF w v2 chain_a]) simp
  obtain new where "bb (world v1) = bb w2 @ new"
    using watch_chain_a_grows [OF w chain_a] by auto
  then have "unat head_b \<le> length (bb (world v1))"
    using archive.head [OF arch(2) b] by simp
  note v4 = watch_chain_b_step [OF w v3 chain_b this]
  show ?thesis
    using archive.clock_grows [OF arch(1), of "world v2"] archive.clock_grows [OF arch(2), of "world v2"]
    by (intro both_in_step_grows [OF v4]) (simp_all add: clock)
qed

lemma both_in_step_start: "both_in_step c dpa dpb ba bb (maestro_start, v)"
  by (simp add: both_in_step_def maestro_start_def in_step_start) (simp add: tracker_new_def)

lemma watch_steps:
  assumes "watches n sha iter c dpa dpb ba bb" and "both_in_step c dpa dpb ba bb s"
    and "watch k n sha iter c s = (Inr (), s')"
  shows "both_in_step c dpa dpb ba bb s'"
  using assms(2,3)
proof (induction k arbitrary: s)
  case 0
  then show ?case by (simp add: ret_Inr)
next
  case (Suc k)
  from Suc.prems(2) obtain r t where turn: "watch_turn n sha iter c s = (Inr r, t)"
    and rest: "watch k n sha iter c t = (Inr (), s')"
    by (auto simp: thenE_Inr)
  obtain ms v ms' v' found late where "s = (ms, v)" "t = (ms', v')" "r = (found, late)"
    by (metis surj_pair)
  with watch_turn_step [OF assms(1)] turn Suc.prems(1) have "both_in_step c dpa dpb ba bb t" by blast
  then show ?case using rest by (rule Suc.IH)
qed

lemma in_step_mirrors:
  assumes "in_step dp c bs k t" and "tracker_inv (dp_sha256 dp) t" and "\<not> beyond dp bs"
  shows "mirrors_chain (dp_sha256 dp) c (chain_at dp bs (unat k - 1)) t"
proof -
  have len: "unat k - 1 \<le> length bs"
    and f: "tracks (dp_sha256 dp) c (htlc_events (chain_at dp bs (unat k - 1))) t"
    using assms(1,3) by (simp_all add: in_step_def)
  have "\<not> id_clash (dp_keccak dp) (htlc_events (chain_at dp bs (unat k - 1)))"
    using assms(3) chain_at_log [OF len, of dp bs] by (auto simp: beyond_def dest: id_clash_mono)
  then show ?thesis
    by (intro tracks_mirrors [OF _ _ _ f assms(2)])
      (simp_all add: chain_at_def log_is_truthful log_shows_settlement)
qed

lemma maestro_inv:
  assumes "watch k n sha iter c (maestro_start, v) = (r, s)"
  shows "tracker_inv sha (m_tracker (fst s))"
  using keepsE [OF watch_inv [where sha = sha] assms]
  by (simp add: maestro_start_def tracker_new_def tracker_inv_def)

text \<open>
  C9. The maestro mirrors both chains. After any number of turns of its loop that succeed, on
  nodes that archive their chains, while anyone transacts and tokens do anything: for each chain,
  the tracker mirrors the contract as of the last block it polled. Every swap that exists there is
  a leg under its own hashlock; every leg has the amount and the timelock of its swap; a swap
  that is withdrawn or refunded is marked so, one that is marked was paid to its recipient or to
  its sender; and for a redeemed leg the maestro holds a preimage of the hashlock. The exceptions
  are explicit: more blocks than block numbers, or two swaps with colliding identifiers.
\<close>

theorem maestro_mirrors_chains:
  assumes "watches n sha iter c dpa dpb ba bb"
    and "watch k n sha iter c (maestro_start, v) = (Inr (), (ms, v'))"
  shows "(beyond dpa (ba (world v')) \<or>
      mirrors_chain sha (mc_chain_a c) (chain_at dpa (ba (world v')) (unat (last_a ms) - 1)) (m_tracker ms)) \<and>
    (beyond dpb (bb (world v')) \<or>
      mirrors_chain sha (mc_chain_b c) (chain_at dpb (bb (world v')) (unat (last_b ms) - 1)) (m_tracker ms))"
  using watch_steps [OF assms(1) both_in_step_start assms(2)] maestro_inv [OF assms(2)]
    in_step_mirrors [where dp = dpa] in_step_mirrors [where dp = dpb]
  by (simp add: both_in_step_def watchesD(3,6) [OF assms(1)]) blast

subsection \<open>What it reports\<close>

definition locked_under :: "chain_state \<Rightarrow> b32 \<Rightarrow> b32 \<Rightarrow> bool" where
  "locked_under s h cid \<longleftrightarrow>
     announces cid (swaps s cid) \<in> set (htlc_events s) \<and> sw_hashlock (swaps s cid) = h"

definition overdue :: "chain_state \<Rightarrow> u64 \<Rightarrow> b32 \<Rightarrow> b32 \<Rightarrow> bool" where
  "overdue s now h cid \<longleftrightarrow>
     locked_under s h cid \<and> \<not> sw_withdrawn (swaps s cid) \<and> \<not> sw_refunded (swaps s cid) \<and>
     unat (sw_timelock (swaps s cid)) \<le> unat now"

definition late_right :: "u64 \<Rightarrow> chain_state \<Rightarrow> u64 \<Rightarrow> (b32 \<times> u64 \<times> b32) list \<Rightarrow> bool" where
  "late_right c s now late \<longleftrightarrow>
     (\<forall>h cid. (h, c, cid) \<in> set late \<longrightarrow> overdue s now h cid) \<and>
     (\<forall>h cid. sw_sender (swaps s cid) \<noteq> 0 \<and> overdue s now h cid \<and> payments cid s = [] \<longrightarrow>
        (h, c, cid) \<in> set late)"

definition found_right ::
  "hash_fn \<Rightarrow> chain_state \<Rightarrow> chain_state \<Rightarrow> (b32 \<times> b32 option) list \<Rightarrow> bool" where
  "found_right sha sa sb found \<longleftrightarrow>
     (\<forall>h. h \<in> fst ` set found \<longrightarrow> (\<exists>cid. locked_under sa h cid) \<and> (\<exists>cid. locked_under sb h cid)) \<and>
     (\<forall>ca cb. sw_sender (swaps sa ca) \<noteq> 0 \<and> sw_sender (swaps sb cb) \<noteq> 0 \<and>
        sw_hashlock (swaps sa ca) = sw_hashlock (swaps sb cb) \<longrightarrow>
        sw_hashlock (swaps sa ca) \<in> fst ` set found) \<and>
     (\<forall>h p. (h, Some p) \<in> set found \<longrightarrow> hashlock_from_preimage sha p = h) \<and>
     (\<forall>h s cid. (h, None) \<in> set found \<and> s \<in> {sa, sb} \<and> sw_sender (swaps s cid) \<noteq> 0 \<and>
        sw_hashlock (swaps s cid) = h \<longrightarrow> \<not> sw_withdrawn (swaps s cid))"

lemma timed_out_legs:
  assumes "set (iter t) = dom t"
  shows "(h, c, cid) \<in> set (timed_out iter now t) \<longleftrightarrow>
    (\<exists>l \<in> set (legs_on c h t). leg_contract_id l = cid \<and> leg_timelock l \<le> now \<and>
       \<not> leg_redeemed l \<and> \<not> leg_refunded l)"
  unfolding timed_out_exact [of iter t now, OF assms] legs_on_def
  by (cases "t h") auto

lemma mirrors_exists:
  assumes "mirrors_chain sha c s t" and "sw_sender (swaps s cid) \<noteq> 0"
  obtains l where "l \<in> set (legs_on c (sw_hashlock (swaps s cid)) t)" "leg_contract_id l = cid"
    "leg_mirrors s (sw_hashlock (swaps s cid)) l"
  using mirrorsD(1) [OF assms] mirrorsD(2) [OF assms(1)] by blast

lemma mirrors_late:
  assumes m: "mirrors_chain sha c s t" and iter: "set (iter t) = dom t"
  shows "late_right c s now (timed_out iter now t)"
  unfolding late_right_def timed_out_legs [where iter = iter and t = t, OF iter]
proof (intro conjI allI impI)
  fix h cid
  assume "\<exists>l \<in> set (legs_on c h t). leg_contract_id l = cid \<and> leg_timelock l \<le> now \<and>
       \<not> leg_redeemed l \<and> \<not> leg_refunded l"
  then show "overdue s now h cid"
    using mirrorsD(2) [OF m]
    by (auto simp: leg_mirrors_def Let_def overdue_def locked_under_def word_le_nat_alt)
next
  fix h cid
  assume o: "sw_sender (swaps s cid) \<noteq> 0 \<and> overdue s now h cid \<and> payments cid s = []"
  then obtain l where l: "l \<in> set (legs_on c (sw_hashlock (swaps s cid)) t)" "leg_contract_id l = cid"
    "leg_mirrors s (sw_hashlock (swaps s cid)) l"
    using mirrors_exists [OF m] by blast
  with o show "\<exists>l \<in> set (legs_on c h t). leg_contract_id l = cid \<and> leg_timelock l \<le> now \<and>
       \<not> leg_redeemed l \<and> \<not> leg_refunded l"
    by (intro bexI [of _ l])
      (auto simp: leg_mirrors_def Let_def overdue_def locked_under_def word_le_nat_alt)
qed

lemma remdups_adj_two: "2 \<le> length (remdups_adj xs) \<longleftrightarrow> (\<exists>x \<in> set xs. \<exists>y \<in> set xs. x \<noteq> y)"
proof
  assume "2 \<le> length (remdups_adj xs)"
  then obtain x y ys where xy: "remdups_adj xs = x # y # ys"
    by (cases "remdups_adj xs"; cases "tl (remdups_adj xs)") auto
  then have "x \<noteq> y" using distinct_adj_remdups_adj [of xs] by simp
  moreover have "x \<in> set xs" "y \<in> set xs" using remdups_adj_set [of xs] xy by auto
  ultimately show "\<exists>x \<in> set xs. \<exists>y \<in> set xs. x \<noteq> y" by blast
next
  assume differ: "\<exists>x \<in> set xs. \<exists>y \<in> set xs. x \<noteq> y"
  show "2 \<le> length (remdups_adj xs)"
  proof (rule ccontr)
    assume "\<not> 2 \<le> length (remdups_adj xs)"
    then have "card (set (remdups_adj xs)) \<le> 1"
      using card_length [of "remdups_adj xs"] by linarith
    then show False using differ card_le_Suc0_iff_eq [of "set xs"] by auto
  qed
qed

lemma correlated_iff:
  "correlated s \<longleftrightarrow> (\<exists>l \<in> set (tr_legs s). \<exists>l' \<in> set (tr_legs s). leg_chain_id l \<noteq> leg_chain_id l')"
proof -
  have "2 \<le> length (remdups_adj (sort (map leg_chain_id (tr_legs s)))) \<longleftrightarrow>
      (\<exists>l \<in> set (tr_legs s). \<exists>l' \<in> set (tr_legs s). leg_chain_id l \<noteq> leg_chain_id l')"
    unfolding remdups_adj_two by simp
  moreover have "2 \<le> length (remdups_adj (sort (map leg_chain_id (tr_legs s)))) \<Longrightarrow> 2 \<le> length (tr_legs s)"
    using remdups_adj_length [of "sort (map leg_chain_id (tr_legs s))"] by simp
  ultimately show ?thesis unfolding correlated_def by blast
qed

lemma correlated_two:
  assumes "\<And>c'. c' \<noteq> a \<Longrightarrow> c' \<noteq> b \<Longrightarrow> legs_on c' h t = []" and "a \<noteq> b"
  shows "(case t h of None \<Rightarrow> False | Some s \<Rightarrow> correlated s) \<longleftrightarrow> legs_on a h t \<noteq> [] \<and> legs_on b h t \<noteq> []"
proof (cases "t h")
  case (Some s)
  have "leg_chain_id l = a \<or> leg_chain_id l = b" if "l \<in> set (tr_legs s)" for l
    using assms(1) [of "leg_chain_id l"] that Some by (auto simp: legs_on_def filter_empty_conv)
  then show ?thesis
    using assms(2) by (auto simp: Some correlated_iff legs_on_def filter_empty_conv)
qed simp

lemma found_hashlocks:
  assumes "set (iter t) = dom t" and "\<And>c' h. c' \<noteq> a \<Longrightarrow> c' \<noteq> b \<Longrightarrow> legs_on c' h t = []" and "a \<noteq> b"
  shows "(h, q) \<in> set (map (\<lambda>h. (h, preimage_for h t)) (correlated_hashlocks iter t)) \<longleftrightarrow>
    legs_on a h t \<noteq> [] \<and> legs_on b h t \<noteq> [] \<and> q = preimage_for h t"
proof -
  have "h \<in> dom t" if "legs_on a h t \<noteq> []" using that by (cases "t h") auto
  then show ?thesis
    using correlated_two [of a b h t, OF assms(2,3)] assms(1)
    by (auto simp: correlated_hashlocks_def split: option.splits)
qed

lemma mirrors_found:
  assumes a: "mirrors_chain sha ca sa t" and b: "mirrors_chain sha cb sb t" and inv: "tracker_inv sha t"
    and set: "\<And>h q. (h, q) \<in> set found \<longleftrightarrow>
      legs_on ca h t \<noteq> [] \<and> legs_on cb h t \<noteq> [] \<and> q = preimage_for h t"
  shows "found_right sha sa sb found"
  unfolding found_right_def
proof (intro conjI allI impI)
  fix h
  have locked: "\<exists>cid. locked_under s h cid" if m: "mirrors_chain sha c s t" and ne: "legs_on c h t \<noteq> []" for c s
  proof -
    from ne obtain l where "l \<in> set (legs_on c h t)" by (metis list.set_sel(1))
    from mirrorsD(2) [OF m this] show ?thesis by (auto simp: locked_under_def leg_mirrors_def Let_def)
  qed
  assume "h \<in> fst ` set found"
  then show "\<exists>cid. locked_under sa h cid" "\<exists>cid. locked_under sb h cid"
    using set locked [OF a] locked [OF b] by auto
next
  fix cid_a cid_b
  assume same: "sw_sender (swaps sa cid_a) \<noteq> 0 \<and> sw_sender (swaps sb cid_b) \<noteq> 0 \<and>
    sw_hashlock (swaps sa cid_a) = sw_hashlock (swaps sb cid_b)"
  let ?h = "sw_hashlock (swaps sa cid_a)"
  have "legs_on ca ?h t \<noteq> []" "legs_on cb ?h t \<noteq> []"
    using mirrorsD(1) [OF a, of cid_a] mirrorsD(1) [OF b, of cid_b] same by auto
  then have "(?h, preimage_for ?h t) \<in> set found" using set by blast
  then show "?h \<in> fst ` set found" by force
next
  fix h p
  assume "(h, Some p) \<in> set found"
  then have "preimage_for h t = Some p" using set by simp
  then show "hashlock_from_preimage sha p = h"
    using inv by (auto simp: preimage_for_def tracked_ok_def dest!: tracker_invD split: option.splits)
next
  fix h s cid
  assume h: "(h, None) \<in> set found \<and> s \<in> {sa, sb} \<and> sw_sender (swaps s cid) \<noteq> 0 \<and> sw_hashlock (swaps s cid) = h"
  then obtain c where m: "mirrors_chain sha c s t" using a b by blast
  have "preimage_for h t = None" using h set by simp
  moreover obtain l where "l \<in> set (legs_on c h t)" "leg_contract_id l = cid" "leg_mirrors s h l"
    using mirrors_exists [OF m, of cid] h by blast
  ultimately show "\<not> sw_withdrawn (swaps s cid)"
    using mirrorsD(3) [OF m, of l h] by (auto simp: leg_mirrors_def Let_def)
qed

text \<open>
  C10. What the maestro prints is right. In any turn of its loop, on nodes that archive their chains:
  the watchdog warns of exactly the legs that are overdue, that is, of no swap but those that are
  locked on that chain, past their timelock by the maestro's clock and neither withdrawn nor
  refunded, and of all of those for which nothing was paid. A hashlock reported as correlated is
  locked on both chains, and every hashlock with a swap on both is reported; a preimage reported
  with it hashes to it, and none is missing when either swap was withdrawn.
\<close>

theorem maestro_reports_chains:
  assumes w: "watches n sha iter c dpa dpb ba bb"
    and run: "watch k n sha iter c (maestro_start, v) = (Inr (), (ms, v1))"
    and turn: "watch_turn n sha iter c (ms, v1) = (Inr (found, late), (ms', v'))"
    and ok: "\<not> beyond dpa (ba (world v'))" "\<not> beyond dpb (bb (world v'))"
  shows "let sa = chain_at dpa (ba (world v')) (unat (last_a ms') - 1);
             sb = chain_at dpb (bb (world v')) (unat (last_b ms') - 1)
         in found_right sha sa sb found \<and>
           (\<exists>now w. clock_now n w = (now, world v') \<and>
              late_right (mc_chain_a c) sa now late \<and> late_right (mc_chain_b c) sb now late)"
proof -
  have s: "both_in_step c dpa dpb ba bb (ms', v')"
    by (rule watch_turn_step [OF w watch_steps [OF w both_in_step_start run] turn])
  have inv: "tracker_inv sha (m_tracker ms')"
    using keepsE [OF watch_turn_inv [where sha = sha] turn] maestro_inv [OF run] by simp
  note m = in_step_mirrors [where dp = dpa and bs = "ba (world v')", unfolded watchesD(3) [OF w], OF _ inv ok(1)]
    in_step_mirrors [where dp = dpb and bs = "bb (world v')", unfolded watchesD(6) [OF w], OF _ inv ok(2)]
  have a: "mirrors_chain sha (mc_chain_a c) (chain_at dpa (ba (world v')) (unat (last_a ms') - 1)) (m_tracker ms')"
    and b: "mirrors_chain sha (mc_chain_b c) (chain_at dpb (bb (world v')) (unat (last_b ms') - 1)) (m_tracker ms')"
    using s m by (simp_all add: both_in_step_def)
  have iter: "set (iter (m_tracker ms')) = dom (m_tracker ms')"
    using s watchesD(8) [OF w] by (simp add: both_in_step_def visits_all_def)
  have legs: "legs_on c' h (m_tracker ms') = []" if "c' \<noteq> mc_chain_a c" "c' \<noteq> mc_chain_b c" for c' h
    using s that by (simp add: both_in_step_def)
  obtain head_a w1 head_b w2 ms1 va vb now where
    "get_block_number n (mc_provider_a c) (world v1) = (Inr head_a, w1)"
    "get_block_number n (mc_provider_b c) w1 = (Inr head_b, w2)"
    "watch_chain_a n sha iter c head_a (ms, v1\<lparr>world := w2\<rparr>) = (Inr (), (ms1, va))"
    "watch_chain_b n sha iter c head_b (ms1, va) = (Inr (), (ms', vb))"
    and out: "clock_now n (world vb) = (now, world v')"
    "found = map (\<lambda>h. (h, preimage_for h (m_tracker ms'))) (correlated_hashlocks iter (m_tracker ms'))"
    "late = timed_out iter now (m_tracker ms')"
    by (rule turn_runs [OF turn])
  note found = mirrors_found [OF a b inv found_hashlocks [where iter = iter and t = "m_tracker ms'"
      and a = "mc_chain_a c" and b = "mc_chain_b c",
      OF iter legs watchesD(7) [OF w], folded out(2)]]
  show ?thesis
    unfolding Let_def out(3)
    using found mirrors_late [where now = now and iter = iter, OF a iter] mirrors_late [where now = now and iter = iter, OF b iter] out(1)
    by blast
qed

subsection \<open>A maestro that computes\<close>

definition sorted_iter :: iteration where
  "sorted_iter t = sorted_list_of_set (dom t)"

definition demo_maestro :: "bool maestro_config" where
  "demo_maestro =
     \<lparr>mc_provider_a = False, mc_chain_a = 1, mc_htlc_a = fill 0xC1,
      mc_provider_b = True, mc_chain_b = 10, mc_htlc_b = fill 0xC2\<rparr>"

definition maestro_net :: "(bool, bool \<Rightarrow> served) net" where
  "maestro_net = honest_net id demo_dps (\<lambda>_. fill 0xEE) 2000"

definition maestro_env :: "(bool, bool \<Rightarrow> served) env" where
  "maestro_env = \<lparr>world = opposite_locked, sent = []\<rparr>"

lemma demo_watches:
  "watches maestro_net toy_hash sorted_iter demo_maestro (demo_dps False) (demo_dps True)
     (\<lambda>w. sv_blocks (w False)) (\<lambda>w. sv_blocks (w True))"
  using honest.archive_axioms [of id demo_dps "\<lambda>_. fill 0xEE" 2000 False]
    honest.archive_axioms [of id demo_dps "\<lambda>_. fill 0xEE" 2000 True]
  by (simp add: watches_def maestro_net_def demo_maestro_def demo_dps_def demo_dp_def visits_all_def
      sorted_iter_def)

lemmas maestro_defs =
  watch_turn_def watch_chain_a_def watch_chain_b_def on_tracker_def poll_into_tracker_def maestro_net_def
  maestro_env_def honest_net_def demo_maestro_def maestro_start_def opposite_leg_served log_selected_def
  handle_event_def on_new_swap_def u256_to_def tracker_new_def tracked_default_def eff_simps Let_def

lemma demo_turn:
  "\<exists>found late s'. watch_turn maestro_net toy_hash sorted_iter demo_maestro (maestro_start, maestro_env) =
      (Inr (found, late), s') \<and>
    world (snd s') = opposite_locked \<and> last_b (fst s') = 5"
  by (simp add: maestro_defs)

lemma demo_chain_state:
  "served_chain (demo_dps True) (opposite_locked True) =
     deployed\<lparr>swaps := (swaps deployed)(opposite_cid := maker_swap),
       htlc_events := [LogNewSwap opposite_cid (fill 0xBB) (fill 0xEE) (fill 0x22) 500 (fill 9) 1500]\<rparr>"
  by (simp add: served_chain_def opposite_locked_def opposite_locks_runs del: transact_all.simps(2))

lemma demo_not_beyond:
  "\<not> beyond (demo_dps False) (sv_blocks (opposite_locked False))"
  "\<not> beyond (demo_dps True) (sv_blocks (opposite_locked True))"
proof -
  have head: "chain_at dp bs (length bs) = transact_all dp (concat bs) deployed" for dp bs
    by (simp add: chain_at_def)
  show "\<not> beyond (demo_dps False) (sv_blocks (opposite_locked False))"
    by (simp add: beyond_def opposite_locked_def id_clash_def chain_at_def deployed_def)
  show "\<not> beyond (demo_dps True) (sv_blocks (opposite_locked True))"
    unfolding beyond_def head served_chain_def [symmetric] demo_chain_state
    by (simp add: id_clash_def id_encoding_def collision_def)
qed

lemma demo_chain_seen:
  "chain_at (demo_dps True) (sv_blocks (opposite_locked True)) 4 =
     served_chain (demo_dps True) (opposite_locked True)"
  by (simp add: chain_at_def served_chain_def)

lemma demo_leg:
  "sw_sender (swaps (served_chain (demo_dps True) (opposite_locked True)) opposite_cid) \<noteq> 0"
  "sw_hashlock (swaps (served_chain (demo_dps True) (opposite_locked True)) opposite_cid) = fill 9"
  by (simp_all add: opposite_leg_served maker_swap_def)

lemma maestro_mirrors_chains_witness:
  "opposite_cid \<in> leg_contract_id ` set (legs_on 10 (fill 9)
     (m_tracker (fst (snd (watch 1 maestro_net toy_hash sorted_iter demo_maestro (maestro_start, maestro_env))))))"
proof -
  obtain found late ms v' where
    turn: "watch_turn maestro_net toy_hash sorted_iter demo_maestro (maestro_start, maestro_env) =
      (Inr (found, late), (ms, v'))" and v': "world v' = opposite_locked" "last_b ms = 5"
    using demo_turn by auto
  then have run: "watch 1 maestro_net toy_hash sorted_iter demo_maestro (maestro_start, maestro_env) =
      (Inr (), (ms, v'))"
    by (simp add: eff_simps)
  have "mirrors_chain toy_hash 10 (served_chain (demo_dps True) (opposite_locked True)) (m_tracker ms)"
    using maestro_mirrors_chains [OF demo_watches run] demo_not_beyond
    by (simp add: v' demo_chain_seen demo_maestro_def)
  from mirrorsD(1) [OF this demo_leg(1)] show ?thesis unfolding run demo_leg(2) by simp
qed

lemma maestro_reports_chains_witness:
  "\<exists>found late. fst (watch_turn maestro_net toy_hash sorted_iter demo_maestro (maestro_start, maestro_env)) =
      Inr (found, late) \<and> (fill 9, 10, opposite_cid) \<in> set late"
proof -
  obtain found late ms v' where
    turn: "watch_turn maestro_net toy_hash sorted_iter demo_maestro (maestro_start, maestro_env) =
      (Inr (found, late), (ms, v'))" and v': "world v' = opposite_locked" "last_b ms = 5"
    using demo_turn by auto
  have run: "watch 0 maestro_net toy_hash sorted_iter demo_maestro (maestro_start, maestro_env) =
      (Inr (), (maestro_start, maestro_env))"
    by (simp add: ret_def)
  have now: "now = 2000" if "clock_now maestro_net w = (now, w')" for w w' now
    using that by (simp add: maestro_net_def honest_net_def)
  have "late_right 10 (served_chain (demo_dps True) (opposite_locked True)) 2000 late"
    using maestro_reports_chains [OF demo_watches run turn] demo_not_beyond now
    by (auto simp: v' demo_chain_seen demo_maestro_def Let_def)
  moreover have "overdue (served_chain (demo_dps True) (opposite_locked True)) 2000 (fill 9) opposite_cid"
    "payments opposite_cid (served_chain (demo_dps True) (opposite_locked True)) = []"
    unfolding demo_chain_state
    by (simp_all add: overdue_def locked_under_def announces_def maker_swap_def payments_def)
      (simp add: deployed_def)
  ultimately have "(fill 9, 10, opposite_cid) \<in> set late"
    using demo_leg(1) unfolding late_right_def by blast
  then show ?thesis by (simp add: turn)
qed

end
