(* ===== verification/Kael_Tests_Wallet.thy ===== *)
theory Kael_Tests_Wallet
  imports Kael_Handshake
begin

section \<open>The wallet's unit tests, run on the model\<close>

text \<open>
  The test modules of \<open>swapkit/src/sm.rs\<close>, \<open>verify.rs\<close> and \<open>handshake.rs\<close>: their fixtures, and each
  test as the condition it asserts, under its own name. Every test passes on the model, so the
  definitions agree with the code wherever its authors pinned it down. Hash functions are
  arbitrary where a test computes one.
\<close>

subsection \<open>State machine\<close>

definition SECRET :: b32 where "SECRET = fill 0x5e"
definition HASH :: u8 where "HASH = 0xAB"
definition TAKER_ADDR :: u8 where "TAKER_ADDR = 0x7A"
definition MAKER_ADDR :: u8 where "MAKER_ADDR = 0x3A"
definition TOK_A :: u8 where "TOK_A = 0x11"
definition TOK_B :: u8 where "TOK_B = 0x22"

lemmas sm_constants = SECRET_def HASH_def TAKER_ADDR_def MAKER_ADDR_def TOK_A_def TOK_B_def

definition taker_ctx :: SwapContext where
  "taker_ctx =
     \<lparr>ctx_role = Taker, my_token = fill TOK_A, my_amount = 1000, my_timelock = 2000,
      my_recipient = fill MAKER_ADDR, cp_token = fill TOK_B, cp_amount = 500,
      ctx_me = fill TAKER_ADDR, min_gap = 100, ctx_hashlock = Some (fill HASH),
      ctx_secret = Some SECRET, my_leg_locked = False, counterparty_lock = None,
      revealed_secret = None, ctx_now = 1000\<rparr>"

definition maker_leg_safe :: ObservedLock where
  "maker_leg_safe =
     \<lparr>ol_hashlock = fill HASH, ol_token = fill TOK_B, ol_amount = 500,
      ol_recipient = fill TAKER_ADDR, ol_timelock = 1800, ol_sender = fill MAKER_ADDR,
      ol_exists = True\<rparr>"

definition taker_happy_path_sequence :: bool where
  "taker_happy_path_sequence \<longleftrightarrow>
     (let c = taker_ctx;
          st = Start; action1 = next_action st c; st = advance st E_SecretGenerated;
          action2 = next_action st c; st = advance st E_MyLegConfirmed;
          action3 = next_action st c; st = advance st E_CounterpartyLockObserved;
          c = c\<lparr>counterparty_lock := Some maker_leg_safe\<rparr>;
          action4 = next_action st c; st = advance st E_RedeemConfirmed;
          action5 = next_action st c
      in
        [action1, action2, action3, action4, action5] =
          [A_GenerateSecret, lock_my_leg c (fill HASH), A_WaitForCounterpartyLock,
           A_RedeemCounterpartyLeg SECRET, A_Done] \<and>
        st = CounterpartyRedeemed)"

definition taker_never_reveals_secret_against_unsafe_leg :: bool where
  "taker_never_reveals_secret_against_unsafe_leg \<longleftrightarrow>
     (let bad = maker_leg_safe\<lparr>ol_hashlock := fill 0x01\<rparr>;
          action = next_action MyLegLocked (taker_ctx\<lparr>counterparty_lock := Some bad\<rparr>)
      in action = A_Refund \<and> \<not> is_A_RedeemCounterpartyLeg action)"

definition taker_never_reveals_secret_against_leg_expiring_now :: bool where
  "taker_never_reveals_secret_against_leg_expiring_now \<longleftrightarrow>
     (let c = taker_ctx\<lparr>counterparty_lock := Some maker_leg_safe, ctx_now := 1750\<rparr>;
          action = next_action MyLegLocked c
      in action = A_Refund \<and> \<not> is_A_RedeemCounterpartyLeg action)"

definition maker_ctx :: SwapContext where
  "maker_ctx =
     \<lparr>ctx_role = Maker, my_token = fill TOK_B, my_amount = 500, my_timelock = 1000,
      my_recipient = fill TAKER_ADDR, cp_token = fill TOK_A, cp_amount = 1000,
      ctx_me = fill MAKER_ADDR, min_gap = 100, ctx_hashlock = Some (fill HASH),
      ctx_secret = None, my_leg_locked = False, counterparty_lock = None,
      revealed_secret = None, ctx_now = 500\<rparr>"

definition taker_leg_safe :: ObservedLock where
  "taker_leg_safe =
     \<lparr>ol_hashlock = fill HASH, ol_token = fill TOK_A, ol_amount = 1000,
      ol_recipient = fill MAKER_ADDR, ol_timelock = 1200, ol_sender = fill TAKER_ADDR,
      ol_exists = True\<rparr>"

definition maker_happy_path_sequence :: bool where
  "maker_happy_path_sequence \<longleftrightarrow>
     (let c = maker_ctx;
          st = Start; action1 = next_action st c; st = advance st E_CounterpartyLockObserved;
          c = c\<lparr>counterparty_lock := Some taker_leg_safe\<rparr>;
          action2 = next_action st c; st = advance st E_MyLegConfirmed;
          action3 = next_action st c; st = advance st E_SecretObserved;
          c = c\<lparr>revealed_secret := Some SECRET\<rparr>;
          action4 = next_action st c; st = advance st E_RedeemConfirmed;
          action5 = next_action st c
      in
        [action1, action2, action3, action4, action5] =
          [A_WaitForCounterpartyLock, lock_my_leg c (fill HASH), A_WaitForSecretReveal,
           A_RedeemCounterpartyLeg SECRET, A_Done] \<and>
        st = CounterpartyRedeemed)"

definition maker_never_locks_against_unsafe_gap :: bool where
  "maker_never_locks_against_unsafe_gap \<longleftrightarrow>
     (let bad = taker_leg_safe\<lparr>ol_timelock := 1050\<rparr>;
          action = next_action Start (maker_ctx\<lparr>counterparty_lock := Some bad\<rparr>)
      in action = A_Abort (UnsafeCounterparty TimelockGapTooSmall) \<and> \<not> is_A_LockMyLeg action)"

definition maker_never_locks_against_hashlock_mismatch :: bool where
  "maker_never_locks_against_hashlock_mismatch \<longleftrightarrow>
     (let bad = taker_leg_safe\<lparr>ol_hashlock := fill 0x99\<rparr>;
          action = next_action Start (maker_ctx\<lparr>counterparty_lock := Some bad\<rparr>)
      in action = A_Abort (UnsafeCounterparty HashlockMismatch) \<and> \<not> is_A_LockMyLeg action)"

definition taker_refunds_when_counterparty_never_locks :: bool where
  "taker_refunds_when_counterparty_never_locks \<longleftrightarrow>
     (let c = taker_ctx\<lparr>counterparty_lock := None, ctx_now := my_timelock taker_ctx + 1\<rparr>;
          st1 = MyLegLocked; st2 = advance st1 E_TimelockExpired; st3 = advance st2 E_RefundConfirmed
      in next_action st1 c = A_Refund \<and> st2 = Refunding \<and> next_action st2 c = A_Refund \<and>
         st3 = Refunded \<and> next_action st3 c = A_Done)"

definition maker_refunds_when_secret_never_revealed :: bool where
  "maker_refunds_when_secret_never_revealed \<longleftrightarrow>
     (let c = maker_ctx\<lparr>revealed_secret := None, ctx_now := my_timelock maker_ctx + 1\<rparr>;
          st1 = WaitingForSecret; st2 = advance st1 E_TimelockExpired
      in next_action st1 c = A_Refund \<and> st2 = Refunding \<and> advance st2 E_RefundConfirmed = Refunded)"

definition invalid_transition_goes_to_aborted_no_panic :: bool where
  "invalid_transition_goes_to_aborted_no_panic \<longleftrightarrow>
     (let st = advance SecretGenerated E_SecretObserved
      in st = Aborted InvalidTransition \<and> advance st E_MyLegConfirmed = Aborted InvalidTransition)"

definition terminal_states_absorb_events :: bool where
  "terminal_states_absorb_events \<longleftrightarrow>
     advance Done E_TimelockExpired = Done \<and> advance Refunded E_MyLegConfirmed = Refunded"

definition wrong_role_for_state_is_invalid_state :: bool where
  "wrong_role_for_state_is_invalid_state \<longleftrightarrow>
     next_action WaitingForSecret taker_ctx = A_Abort InvalidState"

lemmas sm_fixtures = sm_constants taker_ctx_def maker_leg_safe_def maker_ctx_def taker_leg_safe_def

lemmas verify_defs = verify_counterparty_leg_def check_timelock_gap_def structural_gap_def
  saturating_add_def

lemma sm_tests_pass:
  "taker_happy_path_sequence" "taker_never_reveals_secret_against_unsafe_leg"
  "taker_never_reveals_secret_against_leg_expiring_now" "maker_happy_path_sequence"
  "maker_never_locks_against_unsafe_gap" "maker_never_locks_against_hashlock_mismatch"
  "taker_refunds_when_counterparty_never_locks" "maker_refunds_when_secret_never_revealed"
  "invalid_transition_goes_to_aborted_no_panic" "terminal_states_absorb_events"
  "wrong_role_for_state_is_invalid_state"
  by (simp_all add: taker_happy_path_sequence_def taker_never_reveals_secret_against_unsafe_leg_def
      taker_never_reveals_secret_against_leg_expiring_now_def maker_happy_path_sequence_def
      maker_never_locks_against_unsafe_gap_def maker_never_locks_against_hashlock_mismatch_def
      taker_refunds_when_counterparty_never_locks_def maker_refunds_when_secret_never_revealed_def
      invalid_transition_goes_to_aborted_no_panic_def terminal_states_absorb_events_def
      wrong_role_for_state_is_invalid_state_def sm_fixtures next_defs expectation_def advance_def
      verify_defs Let_def)

subsection \<open>Verifier\<close>

definition ME :: u8 where "ME = 0xEE"
definition HL :: u8 where "HL = 0xAB"
definition TOK :: u8 where "TOK = 0x11"
definition AMT :: u128 where "AMT = 1000"

definition maker_exp :: LegExpectation where
  "maker_exp =
     \<lparr>expected_hashlock = fill HL, expected_token = fill TOK, expected_amount = AMT,
      expected_recipient = fill ME, le_my_timelock = 1000, le_min_gap = 100, le_now = 0,
      le_role = Maker\<rparr>"

definition obs_for_maker :: ObservedLock where
  "obs_for_maker =
     \<lparr>ol_hashlock = fill HL, ol_token = fill TOK, ol_amount = AMT, ol_recipient = fill ME,
      ol_timelock = 1200, ol_sender = fill 0x01, ol_exists = True\<rparr>"

definition taker_exp :: LegExpectation where
  "taker_exp =
     \<lparr>expected_hashlock = fill HL, expected_token = fill TOK, expected_amount = AMT,
      expected_recipient = fill ME, le_my_timelock = 2000, le_min_gap = 100, le_now = 0,
      le_role = Taker\<rparr>"

definition obs_for_taker :: ObservedLock where
  "obs_for_taker =
     \<lparr>ol_hashlock = fill HL, ol_token = fill TOK, ol_amount = AMT, ol_recipient = fill ME,
      ol_timelock = 1800, ol_sender = fill 0x02, ol_exists = True\<rparr>"

definition safe_maker :: bool where
  "safe_maker \<longleftrightarrow> verify_counterparty_leg maker_exp obs_for_maker = Safe"

definition safe_taker :: bool where
  "safe_taker \<longleftrightarrow> verify_counterparty_leg taker_exp obs_for_taker = Safe"

definition safe_at_exact_gap_boundary :: bool where
  "safe_at_exact_gap_boundary \<longleftrightarrow>
     verify_counterparty_leg maker_exp (obs_for_maker\<lparr>ol_timelock := 1100\<rparr>) = Safe \<and>
     verify_counterparty_leg taker_exp (obs_for_taker\<lparr>ol_timelock := 1900\<rparr>) = Safe"

definition lock_not_found :: bool where
  "lock_not_found \<longleftrightarrow>
     verify_counterparty_leg maker_exp (obs_for_maker\<lparr>ol_exists := False\<rparr>) = Unsafe LockNotFound"

definition hashlock_mismatch_is_detected :: bool where
  "hashlock_mismatch_is_detected \<longleftrightarrow>
     verify_counterparty_leg maker_exp (obs_for_maker\<lparr>ol_hashlock := fill 0x01\<rparr>) =
       Unsafe HashlockMismatch"

definition token_mismatch :: bool where
  "token_mismatch \<longleftrightarrow>
     verify_counterparty_leg maker_exp (obs_for_maker\<lparr>ol_token := fill 0x99\<rparr>) =
       Unsafe TokenMismatch"

definition amount_mismatch :: bool where
  "amount_mismatch \<longleftrightarrow>
     verify_counterparty_leg maker_exp (obs_for_maker\<lparr>ol_amount := AMT + 1\<rparr>) =
       Unsafe AmountMismatch"

definition recipient_mismatch_funds_would_go_to_another :: bool where
  "recipient_mismatch_funds_would_go_to_another \<longleftrightarrow>
     verify_counterparty_leg maker_exp (obs_for_maker\<lparr>ol_recipient := fill 0xBA\<rparr>) =
       Unsafe RecipientMismatch"

definition gap_too_small_maker :: bool where
  "gap_too_small_maker \<longleftrightarrow>
     verify_counterparty_leg maker_exp (obs_for_maker\<lparr>ol_timelock := 1050\<rparr>) =
       Unsafe TimelockGapTooSmall"

definition gap_too_small_taker :: bool where
  "gap_too_small_taker \<longleftrightarrow>
     verify_counterparty_leg taker_exp (obs_for_taker\<lparr>ol_timelock := 1950\<rparr>) =
       Unsafe TimelockGapTooSmall"

definition inverted_maker :: bool where
  "inverted_maker \<longleftrightarrow>
     verify_counterparty_leg maker_exp (obs_for_maker\<lparr>ol_timelock := 900\<rparr>) =
       Unsafe TimelockInverted"

definition inverted_maker_equal_is_inverted :: bool where
  "inverted_maker_equal_is_inverted \<longleftrightarrow>
     verify_counterparty_leg maker_exp (obs_for_maker\<lparr>ol_timelock := 1000\<rparr>) =
       Unsafe TimelockInverted"

definition inverted_taker :: bool where
  "inverted_taker \<longleftrightarrow>
     verify_counterparty_leg taker_exp (obs_for_taker\<lparr>ol_timelock := 2100\<rparr>) =
       Unsafe TimelockInverted"

definition inverted_taker_equal_is_inverted :: bool where
  "inverted_taker_equal_is_inverted \<longleftrightarrow>
     verify_counterparty_leg taker_exp (obs_for_taker\<lparr>ol_timelock := 2000\<rparr>) =
       Unsafe TimelockInverted"

definition taker_unsafe_when_counterparty_expires_too_soon :: bool where
  "taker_unsafe_when_counterparty_expires_too_soon \<longleftrightarrow>
     verify_counterparty_leg (taker_exp\<lparr>le_now := 1750\<rparr>) obs_for_taker =
       Unsafe CounterpartyExpiresTooSoon"

definition safe_at_exact_now_window_boundary :: bool where
  "safe_at_exact_now_window_boundary \<longleftrightarrow>
     verify_counterparty_leg (taker_exp\<lparr>le_now := 1700\<rparr>) obs_for_taker = Safe"

definition maker_unsafe_when_counterparty_expires_too_soon :: bool where
  "maker_unsafe_when_counterparty_expires_too_soon \<longleftrightarrow>
     verify_counterparty_leg (maker_exp\<lparr>le_now := 4950\<rparr>) (obs_for_maker\<lparr>ol_timelock := 5000\<rparr>) =
       Unsafe CounterpartyExpiresTooSoon"

definition structural_failure_precedes_clock_failure :: bool where
  "structural_failure_precedes_clock_failure \<longleftrightarrow>
     verify_counterparty_leg (taker_exp\<lparr>le_now := 5000\<rparr>) (obs_for_taker\<lparr>ol_timelock := 2500\<rparr>) =
       Unsafe TimelockInverted"

definition first_failure_wins_existence_before_hashlock :: bool where
  "first_failure_wins_existence_before_hashlock \<longleftrightarrow>
     verify_counterparty_leg maker_exp (obs_for_maker\<lparr>ol_exists := False, ol_hashlock := fill 0x01\<rparr>) =
       Unsafe LockNotFound"

lemmas verify_fixtures = ME_def HL_def TOK_def AMT_def maker_exp_def obs_for_maker_def taker_exp_def
  obs_for_taker_def

lemma verify_tests_pass:
  "safe_maker" "safe_taker" "safe_at_exact_gap_boundary" "lock_not_found"
  "hashlock_mismatch_is_detected" "token_mismatch" "amount_mismatch"
  "recipient_mismatch_funds_would_go_to_another" "gap_too_small_maker" "gap_too_small_taker"
  "inverted_maker" "inverted_maker_equal_is_inverted" "inverted_taker"
  "inverted_taker_equal_is_inverted" "taker_unsafe_when_counterparty_expires_too_soon"
  "safe_at_exact_now_window_boundary" "maker_unsafe_when_counterparty_expires_too_soon"
  "structural_failure_precedes_clock_failure" "first_failure_wins_existence_before_hashlock"
  by (simp_all add: safe_maker_def safe_taker_def safe_at_exact_gap_boundary_def lock_not_found_def
      hashlock_mismatch_is_detected_def token_mismatch_def amount_mismatch_def
      recipient_mismatch_funds_would_go_to_another_def gap_too_small_maker_def
      gap_too_small_taker_def inverted_maker_def inverted_maker_equal_is_inverted_def
      inverted_taker_def inverted_taker_equal_is_inverted_def
      taker_unsafe_when_counterparty_expires_too_soon_def safe_at_exact_now_window_boundary_def
      maker_unsafe_when_counterparty_expires_too_soon_def
      structural_failure_precedes_clock_failure_def
      first_failure_wins_existence_before_hashlock_def verify_fixtures verify_defs)

subsection \<open>Handshake\<close>

definition asset_X :: u8 where "asset_X = 0x11"
definition asset_Y :: u8 where "asset_Y = 0x22"

definition ord_of :: "u8 \<Rightarrow> u64 \<Rightarrow> u8 \<Rightarrow> u64 \<Rightarrow> u128 \<Rightarrow> u8 \<Rightarrow> u64 \<Rightarrow> u128 \<Rightarrow> u64 \<Rightarrow> Order" where
  "ord_of maker nonce sell_tok sell_chain sell_amt buy_tok buy_chain buy_amt created_at =
     \<lparr>o_maker = fill maker, o_sell_token = fill sell_tok, o_sell_chain_id = sell_chain,
      o_sell_amount = sell_amt, o_buy_token = fill buy_tok, o_buy_chain_id = buy_chain,
      o_buy_amount = buy_amt, o_valid_until = 4000000000, o_nonce = nonce,
      o_created_at = created_at\<rparr>"

definition order_a :: "u64 \<Rightarrow> Order" where
  "order_a created_at = ord_of 0xAA 1 asset_X 1 1000 asset_Y 10 500 created_at"

definition order_b :: "u64 \<Rightarrow> Order" where
  "order_b created_at = ord_of 0xBB 2 asset_Y 10 500 asset_X 1 1000 created_at"

definition policy :: TimelockPolicy where
  "policy = \<lparr>taker_lock_secs = 7200, maker_lock_secs = 3600, policy_min_gap = 1800\<rparr>"

definition complementary_roles_by_arrival :: "hash_fn \<Rightarrow> bool" where
  "complementary_roles_by_arrival kc \<longleftrightarrow>
     assign_role kc (order_a 10) (order_b 20) = Maker \<and>
     assign_role kc (order_b 20) (order_a 10) = Taker \<and>
     assign_role kc (order_a 20) (order_b 10) = Taker \<and>
     assign_role kc (order_b 10) (order_a 20) = Maker"

definition complementary_roles_by_digest_tie :: "hash_fn \<Rightarrow> bool" where
  "complementary_roles_by_digest_tie kc \<longleftrightarrow>
     (let a = order_a 50; b = order_b 50; ra = assign_role kc a b; rb = assign_role kc b a
      in ra \<noteq> rb \<and>
         (if digest kc a < digest kc b then ra = Maker \<and> rb = Taker else ra = Taker \<and> rb = Maker))"

definition derives_context_with_price_improvement_and_recipients :: "hash_fn \<Rightarrow> bool" where
  "derives_context_with_price_improvement_and_recipients kc \<longleftrightarrow>
     (let a = order_a 10; b = ord_of 0xBB 2 asset_Y 10 600 asset_X 1 1000 20;
          role = assign_role kc a b;
          c = derive_context a b role (Some (fill 0xAB)) None policy 1000
      in role = Maker \<and> ctx_role c = Maker \<and> my_token c = o_sell_token a \<and> my_amount c = 1000 \<and>
         cp_token c = o_sell_token b \<and> cp_amount c = 600 \<and> cp_amount c \<noteq> o_buy_amount a \<and>
         my_recipient c = o_maker b \<and> ctx_me c = o_maker a \<and> my_timelock c = 1000 + 3600 \<and>
         min_gap c = 1800 \<and> ctx_secret c = None)"

definition divergence_both_maker_swap_never_starts :: "hash_fn \<Rightarrow> bool" where
  "divergence_both_maker_swap_never_starts kc \<longleftrightarrow>
     (let a = order_a 10; b_seen_by_a = order_b 20; b = order_b 10; a_seen_by_b = order_a 20;
          ra = assign_role kc a b_seen_by_a; rb = assign_role kc b a_seen_by_b;
          ctx_a = derive_context a b_seen_by_a ra (Some (fill 0xAB)) None policy 1000;
          ctx_b = derive_context b a_seen_by_b rb (Some (fill 0xAB)) None policy 1000;
          act_a = next_action Start ctx_a; act_b = next_action Start ctx_b
      in ra = Maker \<and> rb = Maker \<and>
         act_a = A_WaitForCounterpartyLock \<and> act_b = A_WaitForCounterpartyLock \<and>
         \<not> is_A_LockMyLeg act_a \<and> \<not> is_A_LockMyLeg act_b)"

definition divergence_both_taker_secret_never_revealed :: "hash_fn \<Rightarrow> bool" where
  "divergence_both_taker_secret_never_revealed kc \<longleftrightarrow>
     (let a = order_a 20; b_seen_by_a = order_b 10; ra = assign_role kc a b_seen_by_a;
          secret = fill 0x5e; h = fill 0xAB;
          c = derive_context a b_seen_by_a ra (Some h) (Some secret) policy 1000;
          b_leg = \<lparr>ol_hashlock = h, ol_token = cp_token c, ol_amount = cp_amount c,
                   ol_recipient = ctx_me c, ol_timelock = my_timelock c, ol_sender = fill 0xBB,
                   ol_exists = True\<rparr>;
          action = next_action MyLegLocked (c\<lparr>my_leg_locked := True, counterparty_lock := Some b_leg\<rparr>)
      in ra = Taker \<and> action = A_Refund \<and> \<not> is_A_RedeemCounterpartyLeg action)"

lemmas handshake_fixtures = asset_X_def asset_Y_def ord_of_def order_a_def order_b_def policy_def

lemma handshake_tests_pass:
  "complementary_roles_by_arrival kc" "derives_context_with_price_improvement_and_recipients kc"
  "divergence_both_maker_swap_never_starts kc" "divergence_both_taker_secret_never_revealed kc"
  by (simp_all add: complementary_roles_by_arrival_def
      derives_context_with_price_improvement_and_recipients_def
      divergence_both_maker_swap_never_starts_def divergence_both_taker_secret_never_revealed_def
      handshake_fixtures assign_role_def cmp_def derive_context_def next_defs expectation_def
      verify_defs Let_def)

text \<open>The test on a tie presumes that the digests of its two orders differ.\<close>

lemma handshake_tie_passes:
  assumes "digest kc (order_a 50) \<noteq> digest kc (order_b 50)"
  shows "complementary_roles_by_digest_tie kc"
  using assms
  by (auto simp: complementary_roles_by_digest_tie_def assign_role_def cmp_def Let_def order_a_def
      order_b_def ord_of_def)

end
