(* ===== verification/Kael_Tests_Book.thy ===== *)
theory Kael_Tests_Book
  imports Kael_Book
begin

section \<open>The orderbook's unit tests, run on the model\<close>

text \<open>
  The test modules of \<open>orderbook/src/matching.rs\<close> and \<open>book.rs\<close>, and the tests of \<open>eip712.rs\<close> that
  hold whatever the hash and the curve are; its other tests compare with known values of
  Keccak-256 and secp256k1, which are parameters here. Each test is the condition it asserts.
\<close>

subsection \<open>Matching\<close>

definition token_X :: u8 where "token_X = 0x11"
definition token_Y :: u8 where "token_Y = 0x22"

definition match_order_a :: "u128 \<Rightarrow> u128 \<Rightarrow> u64 \<Rightarrow> u64 \<Rightarrow> u64 \<Rightarrow> Order" where
  "match_order_a sell buy valid_until created_at nonce =
     \<lparr>o_maker = fill 0xAA, o_sell_token = fill token_X, o_sell_chain_id = 1, o_sell_amount = sell,
      o_buy_token = fill token_Y, o_buy_chain_id = 10, o_buy_amount = buy,
      o_valid_until = valid_until, o_nonce = nonce, o_created_at = created_at\<rparr>"

definition match_order_b :: "u128 \<Rightarrow> u128 \<Rightarrow> u64 \<Rightarrow> u64 \<Rightarrow> u64 \<Rightarrow> Order" where
  "match_order_b sell buy valid_until created_at nonce =
     \<lparr>o_maker = fill 0xBB, o_sell_token = fill token_Y, o_sell_chain_id = 10, o_sell_amount = sell,
      o_buy_token = fill token_X, o_buy_chain_id = 1, o_buy_amount = buy,
      o_valid_until = valid_until, o_nonce = nonce, o_created_at = created_at\<rparr>"

definition mirrored_crossing_matches :: bool where
  "mirrored_crossing_matches \<longleftrightarrow>
     (let a = match_order_a 100 200 1000 1 0; b = match_order_b 200 100 1000 1 0
      in compatible a b 500 \<and> find_match [a, b] 500 = Some (0, 1))"

definition exact_amounts_match :: bool where
  "exact_amounts_match \<longleftrightarrow>
     (let a = match_order_a 100 200 1000 1 0; b = match_order_b 200 100 1000 1 0 in crosses a b)"

definition wrong_chain_no_match :: bool where
  "wrong_chain_no_match \<longleftrightarrow>
     (let a = match_order_a 100 200 1000 1 0;
          b = (match_order_b 200 100 1000 1 0)\<lparr>o_sell_chain_id := 137\<rparr>
      in \<not> compatible a b 500 \<and> find_match [a, b] 500 = None)"

definition same_direction_no_match :: bool where
  "same_direction_no_match \<longleftrightarrow>
     (let a1 = match_order_a 100 200 1000 1 0; a2 = match_order_a 100 200 1000 1 1
      in \<not> compatible a1 a2 500 \<and> find_match [a1, a2] 500 = None)"

definition non_crossing_prices_no_match :: bool where
  "non_crossing_prices_no_match \<longleftrightarrow>
     (let a = match_order_a 100 200 1000 1 0; b = match_order_b 150 100 1000 1 0
      in \<not> crosses a b \<and> \<not> compatible a b 500)"

definition expired_out_of_match :: bool where
  "expired_out_of_match \<longleftrightarrow>
     (let a = match_order_a 100 200 400 1 0; b = match_order_b 200 100 1000 1 0
      in \<not> compatible a b 500 \<and> find_match [a, b] 500 = None)"

definition best_price_wins :: bool where
  "best_price_wins \<longleftrightarrow>
     (let taker = match_order_a 100 200 1000 1 0; m_meh = match_order_b 200 100 1000 5 1;
          m_best = match_order_b 300 100 1000 9 2
      in best_match_for taker [m_meh, m_best] 500 = Some 1)"

definition price_tie_breaks_by_oldest :: bool where
  "price_tie_breaks_by_oldest \<longleftrightarrow>
     (let taker = match_order_a 100 200 1000 1 0; m_new = match_order_b 200 100 1000 50 1;
          m_old = match_order_b 200 100 1000 10 2
      in best_match_for taker [m_new, m_old] 500 = Some 1)"

lemmas matching_defs = compatible_def is_expired_def mirrors_def crosses_def find_match_def
  best_for_def best_match_for_def better_for_taker_def cmp_makers_for_taker_def cmp_def

lemma matching_tests_pass:
  "mirrored_crossing_matches" "exact_amounts_match" "wrong_chain_no_match"
  "same_direction_no_match" "non_crossing_prices_no_match" "expired_out_of_match"
  "best_price_wins" "price_tie_breaks_by_oldest"
  by (simp_all add: mirrored_crossing_matches_def exact_amounts_match_def wrong_chain_no_match_def
      same_direction_no_match_def non_crossing_prices_no_match_def expired_out_of_match_def
      best_price_wins_def price_tie_breaks_by_oldest_def match_order_a_def match_order_b_def
      token_X_def token_Y_def matching_defs Let_def)

subsection \<open>Book\<close>

definition b_ok :: "u8 list" where "b_ok = [0x6f, 0x6b]"
definition b_bad :: "u8 list" where "b_bad = [0x62, 0x61, 0x64]"

definition accept_verify :: verifier where
  "accept_verify o1 signature now =
     (if is_expired o1 now then Inl OrderExpired
      else if signature \<noteq> b_ok then Inl BadSignature
      else Inr (pad_copy (bytes_of (o_maker o1) @ replicate 4 0 @ to_be_bytes (o_nonce o1))))"

definition book_order :: "u8 \<Rightarrow> u64 \<Rightarrow> u64 \<Rightarrow> Order" where
  "book_order maker nonce valid_until =
     \<lparr>o_maker = fill maker, o_sell_token = fill 0x11, o_sell_chain_id = 1, o_sell_amount = 100,
      o_buy_token = fill 0x22, o_buy_chain_id = 10, o_buy_amount = 200,
      o_valid_until = valid_until, o_nonce = nonce, o_created_at = 1\<rparr>"

definition book_mirror :: "u8 \<Rightarrow> u64 \<Rightarrow> u64 \<Rightarrow> Order" where
  "book_mirror maker nonce valid_until =
     \<lparr>o_maker = fill maker, o_sell_token = fill 0x22, o_sell_chain_id = 10, o_sell_amount = 200,
      o_buy_token = fill 0x11, o_buy_chain_id = 1, o_buy_amount = 100,
      o_valid_until = valid_until, o_nonce = nonce, o_created_at = 1\<rparr>"

definition is_ok :: "'e + 'a \<Rightarrow> bool" where
  "is_ok r \<longleftrightarrow> (case r of Inl _ \<Rightarrow> False | Inr _ \<Rightarrow> True)"

definition valid_order_enters :: bool where
  "valid_order_enters \<longleftrightarrow>
     (case submit accept_verify (book_order 0xAA 1 1000) b_ok 500 book_new of
        (r, b) \<Rightarrow> is_ok r \<and> book_len b = 1)"

definition invalid_signature_rejected_at_edge :: bool where
  "invalid_signature_rejected_at_edge \<longleftrightarrow>
     (case submit accept_verify (book_order 0xAA 1 1000) b_bad 500 book_new of
        (r, b) \<Rightarrow> r = Inl (Verify BadSignature) \<and> book_len b = 0)"

definition book_expired_order_rejected :: bool where
  "book_expired_order_rejected \<longleftrightarrow>
     (case submit accept_verify (book_order 0xAA 1 400) b_ok 500 book_new of
        (r, b) \<Rightarrow> r = Inl (Verify OrderExpired) \<and> book_len b = 0)"

definition duplicate_rejected :: bool where
  "duplicate_rejected \<longleftrightarrow>
     (case submit accept_verify (book_order 0xAA 1 1000) b_ok 500 book_new of
        (r1, b1) \<Rightarrow>
          (case submit accept_verify (book_order 0xAA 1 1000) b_ok 500 b1 of
             (r2, b2) \<Rightarrow> is_ok r1 \<and> r2 = Inl Duplicate \<and> book_len b2 = 1))"

definition compatible_pair_is_reported :: bool where
  "compatible_pair_is_reported \<longleftrightarrow>
     (case thenE (submit accept_verify (book_order 0xAA 1 1000) b_ok 500)
             (submit accept_verify (book_mirror 0xBB 2 1000) b_ok 500) book_new of
        (Inl _, _) \<Rightarrow> False
      | (Inr _, b) \<Rightarrow> length (matches_for b (fill 0xAA) 500) = 1)"

definition served_matches_are_price_time_ordered :: bool where
  "served_matches_are_price_time_ordered \<longleftrightarrow>
     (let m_meh = (book_mirror 0xBB 2 1000)\<lparr>o_sell_amount := 200\<rparr>;
          m_best = (book_mirror 0xCC 3 1000)\<lparr>o_sell_amount := 300\<rparr>;
          best_hash = pad_copy (replicate 20 0xCC @ replicate 4 0 @ to_be_bytes (3 :: u64))
      in
        (case thenE (submit accept_verify (book_order 0xAA 1 1000) b_ok 500)
               (thenE (submit accept_verify m_meh b_ok 500) (submit accept_verify m_best b_ok 500))
               book_new of
           (Inl _, _) \<Rightarrow> False
         | (Inr _, b) \<Rightarrow>
             let m = matches_for b (fill 0xAA) 500 in length m = 2 \<and> maker_hash (m ! 0) = best_hash))"

lemma first_byte: "bytes_of (pad_copy xs :: b32) = bytes_of (pad_copy ys :: b32) \<Longrightarrow> xs \<noteq> [] \<Longrightarrow> ys \<noteq> [] \<Longrightarrow> hd xs = hd ys"
  by (cases xs; cases ys) (simp_all add: bytes_of_pad_copy_take)

lemma book_hashes_differ:
  "(pad_copy (replicate 20 a @ xs) :: b32) = pad_copy (replicate 20 b @ ys) \<Longrightarrow> a = b"
  using first_byte [of "replicate 20 a @ xs" "replicate 20 b @ ys"] by simp

lemma book_tests_pass:
  "valid_order_enters" "invalid_signature_rejected_at_edge" "book_expired_order_rejected"
  "duplicate_rejected" "compatible_pair_is_reported" "served_matches_are_price_time_ordered"
  by (auto simp: valid_order_enters_def invalid_signature_rejected_at_edge_def
      book_expired_order_rejected_def duplicate_rejected_def compatible_pair_is_reported_def
      served_matches_are_price_time_ordered_def submit_eq accept_verify_def book_order_def
      book_mirror_def b_ok_def b_bad_def is_ok_def book_new_def book_len_def matches_for_def
      candidates_def matching_defs then_with_def upt_rec bytes_of_fill eff_simps Let_def
      dest!: book_hashes_differ)

subsection \<open>Signatures\<close>

definition vector_order :: Order where
  "vector_order =
     \<lparr>o_maker = pad_copy
        [0x06, 0x88, 0x4B, 0x21, 0x5D, 0xE8, 0x5B, 0xE1, 0x8F, 0x99, 0xA0, 0x4D, 0x05,
         0x10, 0x85, 0x24, 0xED, 0xC8, 0x8D, 0x82],
      o_sell_token = fill 0x11, o_sell_chain_id = 1, o_sell_amount = 1000000000000000000,
      o_buy_token = fill 0x22, o_buy_chain_id = 10, o_buy_amount = 2000000000,
      o_valid_until = 2000000000, o_nonce = 42, o_created_at = 0\<rparr>"

definition vector_signature :: "u8 list" where
  "vector_signature =
     [0x30, 0xCE, 0x4E, 0xF4, 0xA9, 0xE0, 0xFF, 0xA1, 0x23, 0xE5, 0xBF, 0x6E, 0x58,
      0x85, 0x50, 0x41, 0x6F, 0xE7, 0x7B, 0xD9, 0x47, 0xCF, 0x2B, 0xD8, 0x20, 0x34,
      0x53, 0x59, 0x1F, 0x2C, 0xA6, 0xCE] @
     [0x22, 0xBE, 0x7E, 0xFB, 0xAD, 0xB7, 0xF4, 0x64, 0xCD, 0xAE, 0xB3, 0xAD, 0x68,
      0xC2, 0xAD, 0x60, 0xD7, 0x50, 0xE7, 0xDF, 0xE1, 0x57, 0x2F, 0x9E, 0xA6, 0xF4,
      0xD9, 0xBA, 0x55, 0x20, 0xD4, 0x2E] @ [28]"

definition SECP256K1_N :: "u8 list" where
  "SECP256K1_N =
     [0xFF, 0xFF, 0xFF, 0xFF, 0xFF, 0xFF, 0xFF, 0xFF, 0xFF, 0xFF, 0xFF, 0xFF, 0xFF,
      0xFF, 0xFF, 0xFF, 0xBA, 0xAE, 0xDC, 0xE6, 0xAF, 0x48, 0xA0, 0x3B, 0xBF, 0xD2,
      0x5E, 0x8C, 0xD0, 0x36, 0x41, 0x41]"

text \<open>Subtraction from the last byte to the first, the borrow passed along.\<close>

fun sub_loop :: "u8 list \<Rightarrow> u8 list \<Rightarrow> int \<Rightarrow> u8 list \<Rightarrow> u8 list" where
  "sub_loop (a # as) (b # bs) borrow out =
     (let diff = uint a - uint b - borrow in
      if diff < 0 then sub_loop as bs 1 (word_of_int (diff + 256) # out)
      else sub_loop as bs 0 (word_of_int diff # out))"
| "sub_loop _ _ borrow out = out"

definition sub_be :: "u8 list \<Rightarrow> u8 list \<Rightarrow> u8 list" where
  "sub_be a b = sub_loop (rev a) (rev b) 0 []"

definition high_s_rejected :: "hash_fn \<Rightarrow> ('sig, 'rid, 'vk, 'sk) k256 \<Rightarrow> bool" where
  "high_s_rejected kc k \<longleftrightarrow>
     (let base = vector_signature;
          high_s = sub_be SECP256K1_N (take 32 (drop 32 base));
          sg = take 32 base @ high_s @ [if base ! 64 = 27 then 28 else 27]
      in eip712_verify kc k vector_order sg 1000000000 = Inl MalleableS)"

definition invalid_v_rejected :: "hash_fn \<Rightarrow> ('sig, 'rid, 'vk, 'sk) k256 \<Rightarrow> bool" where
  "invalid_v_rejected kc k \<longleftrightarrow>
     eip712_verify kc k vector_order (vector_signature[64 := 29]) 1000000000 = Inl InvalidV"

definition bad_length_rejected :: "hash_fn \<Rightarrow> ('sig, 'rid, 'vk, 'sk) k256 \<Rightarrow> bool" where
  "bad_length_rejected kc k \<longleftrightarrow>
     eip712_verify kc k vector_order (replicate 64 0) 1000000000 = Inl BadSignatureLength"

lemma eip712_tests_pass: "high_s_rejected kc k" "invalid_v_rejected kc k" "bad_length_rejected kc k"
  by (simp_all add: high_s_rejected_def invalid_v_rejected_def bad_length_rejected_def
      eip712_verify_def vector_signature_def SECP256K1_N_def sub_be_def is_high_s_def
      SECP256K1_HALF_N_def Let_def)

text \<open>
  The tests that recover a signer. What they presume of the two crates: the vector is signed with
  the test's key, whose address is the maker; the same signature on another digest recovers
  another address; and a signature with \<open>r = 0\<close> does not parse.
\<close>

definition vector_key :: b32 where
  "vector_key = pad_copy (replicate 28 0 @ [0xC0, 0xFF, 0xEE, 0x01])"

definition verify_recovers_vector_maker :: "hash_fn \<Rightarrow> ('sig, 'rid, 'vk, 'sk) k256 \<Rightarrow> bool" where
  "verify_recovers_vector_maker kc k \<longleftrightarrow>
     eip712_verify kc k vector_order vector_signature 1000000000 = Inr (digest kc vector_order)"

definition tampered_order_rejected :: "hash_fn \<Rightarrow> ('sig, 'rid, 'vk, 'sk) k256 \<Rightarrow> bool" where
  "tampered_order_rejected kc k \<longleftrightarrow>
     eip712_verify kc k (vector_order\<lparr>o_buy_amount := 9999\<rparr>) vector_signature 1000000000 = Inl SignerNotMaker"

definition eip712_expired_order_rejected :: "hash_fn \<Rightarrow> ('sig, 'rid, 'vk, 'sk) k256 \<Rightarrow> bool" where
  "eip712_expired_order_rejected kc k \<longleftrightarrow>
     eip712_verify kc k vector_order vector_signature (o_valid_until vector_order + 1) = Inl OrderExpired"

definition sign_then_verify_roundtrip :: "hash_fn \<Rightarrow> ('sig, 'rid, 'vk, 'sk) k256 \<Rightarrow> bool" where
  "sign_then_verify_roundtrip kc k \<longleftrightarrow>
     (case eip712_sign kc k vector_order vector_key of
        None \<Rightarrow> False
      | Some sg \<Rightarrow> eip712_verify kc k vector_order sg 1000000000 = Inr (digest kc vector_order))"

definition zero_r_signature_is_rejected :: "hash_fn \<Rightarrow> ('sig, 'rid, 'vk, 'sk) k256 \<Rightarrow> bool" where
  "zero_r_signature_is_rejected kc k \<longleftrightarrow>
     (let sg = replicate 32 0 @ take 32 (drop 32 vector_signature) @ [27]
      in eip712_verify kc k vector_order sg 1000000000 = Inl BadSignature)"

definition signs_vector :: "hash_fn \<Rightarrow> ('sig, 'rid, 'vk, 'sk) k256 \<Rightarrow> bool" where
  "signs_vector kc k \<longleftrightarrow>
     (case sk_from_slice k vector_key of
        None \<Rightarrow> False
      | Some sk \<Rightarrow> signing_contract k sk (digest kc vector_order)) \<and>
     address_from_private_key kc k vector_key = Some (o_maker vector_order) \<and>
     eip712_sign kc k vector_order vector_key = Some vector_signature"

definition recovers_another :: "hash_fn \<Rightarrow> ('sig, 'rid, 'vk, 'sk) k256 \<Rightarrow> Order \<Rightarrow> bool" where
  "recovers_another kc k o1 \<longleftrightarrow>
     (case (sig_from_slice k (take 64 vector_signature), recid_from_byte k 1) of
        (Some sg, Some recid) \<Rightarrow>
          (case recover_from_prehash k (digest kc o1) sg recid of
             None \<Rightarrow> False
           | Some vk \<Rightarrow> address_of kc k vk \<notin> {0, o_maker o1})
      | _ \<Rightarrow> False)"

lemma vector_maker: "o_maker vector_order \<noteq> 0"
proof
  assume "o_maker vector_order = 0"
  then have "hd (bytes_of (o_maker vector_order)) = hd (bytes_of (0 :: address))" by simp
  then show False by (simp add: vector_order_def bytes_of_pad_copy zero_barr_def bytes_of_fill)
qed

lemma accepted_until_expiry:
  assumes "eip712_verify kc k o1 signature now = Inr h" and "o_valid_until o1 < later"
  shows "eip712_verify kc k o1 signature later = Inl OrderExpired"
  using assms(1) [unfolded verify_Inr] assms(2) by (auto simp: eip712_verify_def Let_def)

lemma recovery_tests_pass:
  assumes "signs_vector kc k"
  shows "verify_recovers_vector_maker kc k" "sign_then_verify_roundtrip kc k" "eip712_expired_order_rejected kc k"
proof -
  from assms obtain sk where sk: "sk_from_slice k vector_key = Some sk"
    "signing_contract k sk (digest kc vector_order)"
    "address_from_private_key kc k vector_key = Some (o_maker vector_order)"
    "eip712_sign kc k vector_order vector_key = Some vector_signature"
    by (auto simp: signs_vector_def split: option.splits)
  have accepted: "eip712_verify kc k vector_order vector_signature 1000000000 = Inr (digest kc vector_order)"
    using sign_then_verify [OF sk(1,2,3) vector_maker, where now = 1000000000] sk(4)
    by (simp add: vector_order_def word_le_nat_alt)
  then show "verify_recovers_vector_maker kc k" "sign_then_verify_roundtrip kc k"
    by (simp_all add: verify_recovers_vector_maker_def sign_then_verify_roundtrip_def sk(4))
  have "o_valid_until vector_order < o_valid_until vector_order + 1"
    by (simp add: vector_order_def word_less_nat_alt)
  with accepted show "eip712_expired_order_rejected kc k"
    unfolding eip712_expired_order_rejected_def by (rule accepted_until_expiry)
qed

lemma tampered_order_rejected_passes:
  "recovers_another kc k (vector_order\<lparr>o_buy_amount := 9999\<rparr>) \<Longrightarrow> tampered_order_rejected kc k"
  by (auto simp: tampered_order_rejected_def recovers_another_def eip712_verify_def Let_def vector_signature_def
      is_high_s_def SECP256K1_HALF_N_def split: option.splits)

lemma zero_r_signature_is_rejected_passes:
  "sig_from_slice k (replicate 32 0 @ take 32 (drop 32 vector_signature)) = None \<Longrightarrow>
     zero_r_signature_is_rejected kc k"
  by (simp add: zero_r_signature_is_rejected_def eip712_verify_def Let_def vector_signature_def
      is_high_s_def SECP256K1_HALF_N_def nth_append)

end
