(* ===== verification/Kael_Tests_Chain.thy ===== *)
theory Kael_Tests_Chain
  imports Kael_Executor
begin

section \<open>The unit tests of the chain side, run on the model\<close>

text \<open>
  The test modules of \<open>maestro/src/correlate.rs\<close>, and those tests of \<open>swapkit/src/chain.rs\<close>,
  \<open>exec/signer.rs\<close> and \<open>exec/mod.rs\<close> that need no contract on a chain. SHA-256, the iteration
  order of the map and the parsers are the tests' parameters; Anvil is a node that answers
  with a chain id.
\<close>

subsection \<open>Tracker\<close>

text \<open>An iteration lists the keys of the map, each once.\<close>

definition lists_keys :: "iteration \<Rightarrow> bool" where
  "lists_keys iter \<longleftrightarrow> (\<forall>t. finite (dom t) \<longrightarrow> set (iter t) = dom t \<and> distinct (iter t))"

definition cid_of :: "u8 \<Rightarrow> b32" where
  "cid_of b = fill b"

definition correlates_two_legs_and_captures_preimage :: "hash_fn \<Rightarrow> iteration \<Rightarrow> bool" where
  "correlates_two_legs_and_captures_preimage sha iter \<longleftrightarrow>
     (let preimage = fill 7; hashlock = hashlock_from_preimage sha preimage;
          (kind1, t1) = on_new_swap 1 (cid_of 0xA1) hashlock 1000 100 tracker_new;
          (kind2, t2) = on_new_swap 10 (cid_of 0xB1) hashlock 900 200 t1;
          (h, t3) = on_redeem sha 10 (cid_of 0xB1) preimage t2
      in kind1 = First \<and> kind2 = Second \<and>
         (case t2 hashlock of None \<Rightarrow> False | Some s \<Rightarrow> correlated s) \<and>
         correlated_hashlocks iter t2 = [hashlock] \<and> h = Some hashlock \<and>
         preimage_for hashlock t3 = Some preimage \<and>
         (case t3 hashlock of
            None \<Rightarrow> False
          | Some s \<Rightarrow>
              (case find (\<lambda>l. leg_chain_id l = 10) (tr_legs s) of
                 None \<Rightarrow> False | Some l \<Rightarrow> leg_redeemed l)))"

definition redeem_with_unknown_preimage_is_ignored :: "hash_fn \<Rightarrow> bool" where
  "redeem_with_unknown_preimage_is_ignored sha \<longleftrightarrow>
     (let hashlock = hashlock_from_preimage sha (fill 7);
          t = snd (on_new_swap 1 (cid_of 0xA1) hashlock 1000 100 tracker_new);
          (h, t') = on_redeem sha 1 (cid_of 0xA1) (fill 9) t
      in h = None \<and> preimage_for hashlock t' = None)"

definition watchdog_detects_expired_unredeemed_leg :: "hash_fn \<Rightarrow> iteration \<Rightarrow> bool" where
  "watchdog_detects_expired_unredeemed_leg sha iter \<longleftrightarrow>
     (let hashlock = hashlock_from_preimage sha (fill 3);
          t = snd (on_new_swap 1 (cid_of 0xA1) hashlock 1000 100 tracker_new);
          to = timed_out iter 1000 t;
          t' = on_refund 1 (cid_of 0xA1) hashlock t
      in timed_out iter 999 t = [] \<and> length to = 1 \<and> fst (to ! 0) = hashlock \<and>
         timed_out iter 2000 t' = [])"

definition single_leg_not_correlated :: "hash_fn \<Rightarrow> iteration \<Rightarrow> bool" where
  "single_leg_not_correlated sha iter \<longleftrightarrow>
     (let hashlock = hashlock_from_preimage sha (fill 5);
          t = snd (on_new_swap 1 (cid_of 0xA1) hashlock 1000 100 tracker_new)
      in (case t hashlock of None \<Rightarrow> False | Some s \<Rightarrow> \<not> correlated s) \<and>
         correlated_hashlocks iter t = [])"

lemma one_key:
  assumes "lists_keys iter"
  shows "iter [h \<mapsto> s] = [h]"
proof -
  have "set (iter [h \<mapsto> s]) = {h}" "distinct (iter [h \<mapsto> s])"
    using assms by (simp_all add: lists_keys_def)
  then show ?thesis
    by (cases "iter [h \<mapsto> s]") (auto simp: subset_singleton_iff)
qed

lemmas tracker_test_defs = cid_of_def on_new_swap_def on_redeem_def on_refund_def tracker_new_def
  tracked_default_def is_leg_def correlated_def correlated_hashlocks_def preimage_for_def
  timed_out_def Let_def

lemma correlate_tests_pass:
  assumes "lists_keys iter"
  shows "correlates_two_legs_and_captures_preimage sha iter"
    "watchdog_detects_expired_unredeemed_leg sha iter" "single_leg_not_correlated sha iter"
  using one_key [OF assms]
  by (simp_all add: correlates_two_legs_and_captures_preimage_def
      watchdog_detects_expired_unredeemed_leg_def single_leg_not_correlated_def tracker_test_defs
      hashlock_from_preimage_def)

text \<open>This test presumes that the two preimages have different hashes.\<close>

lemma unknown_preimage_passes:
  assumes "hashlock_from_preimage sha (fill 7) \<noteq> hashlock_from_preimage sha (fill 9)"
  shows "redeem_with_unknown_preimage_is_ignored sha"
  using assms by (simp add: redeem_with_unknown_preimage_is_ignored_def tracker_test_defs)

subsection \<open>Reading a swap\<close>

definition active_swap :: RawSwap where
  "active_swap =
     \<lparr>raw_sender = fill 0x3A, raw_recipient = fill 0x7A, raw_token = fill 0x22, raw_amount = 500,
      raw_hashlock = fill 0xAB, raw_timelock = 1800, raw_withdrawn = False, raw_refunded = False\<rparr>"

definition maps_active_swap_fields :: bool where
  "maps_active_swap_fields \<longleftrightarrow>
     (let ob = observed_from_swap active_swap
      in ol_exists ob \<and> ol_hashlock ob = fill 0xAB \<and> ol_token ob = fill 0x22 \<and> ol_amount ob = 500 \<and>
         ol_recipient ob = fill 0x7A \<and> ol_timelock ob = 1800 \<and> ol_sender ob = fill 0x3A)"

definition nonexistent_swap_is_not_exists :: bool where
  "nonexistent_swap_is_not_exists \<longleftrightarrow>
     \<not> ol_exists (observed_from_swap (active_swap\<lparr>raw_sender := 0\<rparr>))"

definition withdrawn_swap_is_not_exists :: bool where
  "withdrawn_swap_is_not_exists \<longleftrightarrow>
     \<not> ol_exists (observed_from_swap (active_swap\<lparr>raw_withdrawn := True\<rparr>))"

definition refunded_swap_is_not_exists :: bool where
  "refunded_swap_is_not_exists \<longleftrightarrow>
     \<not> ol_exists (observed_from_swap (active_swap\<lparr>raw_refunded := True\<rparr>))"

definition parsed_lock_feeds_verification_safe :: bool where
  "parsed_lock_feeds_verification_safe \<longleftrightarrow>
     (let observed = observed_from_swap active_swap;
          e = \<lparr>expected_hashlock = fill 0xAB, expected_token = fill 0x22, expected_amount = 500,
               expected_recipient = fill 0x7A, le_my_timelock = 2000, le_min_gap = 100, le_now = 0,
               le_role = Taker\<rparr>
      in verify_counterparty_leg e observed = Safe)"

definition parsed_lock_feeds_verification_unsafe :: bool where
  "parsed_lock_feeds_verification_unsafe \<longleftrightarrow>
     (let observed = observed_from_swap (active_swap\<lparr>raw_hashlock := fill 0x01\<rparr>);
          e = \<lparr>expected_hashlock = fill 0xAB, expected_token = fill 0x22, expected_amount = 500,
               expected_recipient = fill 0x7A, le_my_timelock = 2000, le_min_gap = 100, le_now = 0,
               le_role = Taker\<rparr>
      in verify_counterparty_leg e observed = Unsafe HashlockMismatch)"

definition withdrawn_lock_verifies_as_lock_not_found :: bool where
  "withdrawn_lock_verifies_as_lock_not_found \<longleftrightarrow>
     (let observed = observed_from_swap (active_swap\<lparr>raw_withdrawn := True\<rparr>);
          e = \<lparr>expected_hashlock = fill 0xAB, expected_token = fill 0x22, expected_amount = 500,
               expected_recipient = fill 0x7A, le_my_timelock = 2000, le_min_gap = 100, le_now = 0,
               le_role = Taker\<rparr>
      in verify_counterparty_leg e observed = Unsafe LockNotFound)"

definition for_gate_only_confirmed_is_observed :: bool where
  "for_gate_only_confirmed_is_observed \<longleftrightarrow>
     (let ob = observed_from_swap active_swap
      in for_gate (Confirmed ob) = Some ob \<and> for_gate Shallow = None \<and> for_gate Absent = None)"

lemma chain_tests_pass:
  "maps_active_swap_fields" "nonexistent_swap_is_not_exists" "withdrawn_swap_is_not_exists"
  "refunded_swap_is_not_exists" "parsed_lock_feeds_verification_safe"
  "parsed_lock_feeds_verification_unsafe" "withdrawn_lock_verifies_as_lock_not_found"
  "for_gate_only_confirmed_is_observed"
  by (simp_all add: maps_active_swap_fields_def nonexistent_swap_is_not_exists_def
      withdrawn_swap_is_not_exists_def refunded_swap_is_not_exists_def
      parsed_lock_feeds_verification_safe_def parsed_lock_feeds_verification_unsafe_def
      withdrawn_lock_verifies_as_lock_not_found_def for_gate_only_confirmed_is_observed_def
      active_swap_def observed_from_swap_def for_gate_def verify_counterparty_leg_def
      check_timelock_gap_def structural_gap_def saturating_add_def Let_def)

subsection \<open>Signer\<close>

definition anvil :: "u64 \<Rightarrow> ('p, 'w) net" where
  "anvil chain_id = quiet_net\<lparr>get_chain_id := \<lambda>p w. (Inr chain_id, w)\<rparr>"

definition ANVIL_KEY0 :: string where
  "ANVIL_KEY0 = ''ac0974bec39a17e36ba4a6b4d238ff944bacb478cbed5efcae784d7bf4f2ff80''"

definition ANVIL_ADDR0 :: address where
  "ANVIL_ADDR0 = pad_copy
     [0xf3, 0x9F, 0xd6, 0xe5, 0x1a, 0xad, 0x88, 0xF6, 0xF4, 0xce, 0x6a, 0xB8, 0x82, 0x72, 0x79,
      0xcf, 0xff, 0xb9, 0x22, 0x66]"

text \<open>The parsers as the tests rely on them; the URL of every test is well-formed.\<close>

definition anvil_clients :: "('u, 'k, 'p) clients \<Rightarrow> bool" where
  "anvil_clients cl \<longleftrightarrow>
     (\<exists>key. parse_key cl ANVIL_KEY0 = Inr key \<and> key_address cl key = ANVIL_ADDR0) \<and>
     (\<exists>e. parse_key cl ''not-hex'' = Inl e) \<and> (\<forall>url. \<exists>u. parse_url cl url = Inr u)"

definition allowlist_admits_known_test_chains :: bool where
  "allowlist_admits_known_test_chains \<longleftrightarrow>
     assert_chain_allowed 31337 = Inr () \<and> assert_chain_allowed 31338 = Inr () \<and>
     assert_chain_allowed 11155111 = Inr ()"

definition allowlist_rejects_mainnets_and_unknowns :: bool where
  "allowlist_rejects_mainnets_and_unknowns \<longleftrightarrow>
     list_all (\<lambda>i. assert_chain_allowed i = Inl (S_MainnetForbidden i))
       [1, 10, 56, 137, 8453, 42161, 43114] \<and>
     assert_chain_allowed 999999 = Inl (S_MainnetForbidden 999999)"

definition bad_key_is_rejected_before_any_network ::
  "('p, 'w) net \<Rightarrow> ('u, 'k, 'p) clients \<Rightarrow> ('p, 'w) env \<Rightarrow> bool" where
  "bad_key_is_rejected_before_any_network n cl v \<longleftrightarrow>
     (case fst (from_key_str n cl ''not-hex'' ''http://127.0.0.1:1'' v) of
        Inl (S_BadKey _) \<Rightarrow> True | _ \<Rightarrow> False)"

definition from_key_str_ok_on_allowed_chain ::
  "('u, 'k, 'p) clients \<Rightarrow> string \<Rightarrow> ('p, 'w) env \<Rightarrow> bool" where
  "from_key_str_ok_on_allowed_chain cl endpoint v \<longleftrightarrow>
     (case fst (from_key_str (anvil 31337) cl ANVIL_KEY0 endpoint v) of
        Inl _ \<Rightarrow> False
      | Inr s \<Rightarrow> sg_chain_id s = 31337 \<and> sg_address s = ANVIL_ADDR0)"

definition accepts_0x_prefixed_key ::
  "('u, 'k, 'p) clients \<Rightarrow> string \<Rightarrow> ('p, 'w) env \<Rightarrow> bool" where
  "accepts_0x_prefixed_key cl endpoint v \<longleftrightarrow>
     (case fst (from_key_str (anvil 31337) cl (''0x'' @ ANVIL_KEY0) endpoint v) of
        Inl _ \<Rightarrow> False
      | Inr s \<Rightarrow> sg_address s = ANVIL_ADDR0)"

definition forbidden_chain_yields_err_never_signer ::
  "('u, 'k, 'p) clients \<Rightarrow> string \<Rightarrow> ('p, 'w) env \<Rightarrow> bool" where
  "forbidden_chain_yields_err_never_signer cl endpoint v \<longleftrightarrow>
     fst (from_key_str (anvil 1) cl ANVIL_KEY0 endpoint v) = Inl (S_MainnetForbidden 1)"

definition from_env_missing_then_present ::
  "('u, 'k, 'p) clients \<Rightarrow> string \<Rightarrow> ('p, 'w) env \<Rightarrow> bool" where
  "from_env_missing_then_present cl endpoint v \<longleftrightarrow>
     (let removed = (\<lambda>_. Inl NotPresent); present = removed(ENV_KEY := Inr ANVIL_KEY0)
      in fst (from_env (anvil 31337) cl removed ''http://127.0.0.1:1'' v) = Inl S_MissingKey \<and>
         (case fst (from_env (anvil 31337) cl present endpoint v) of
            Inl _ \<Rightarrow> False
          | Inr s \<Rightarrow> sg_address s = ANVIL_ADDR0))"

definition from_env_forbidden_chain_yields_err ::
  "('u, 'k, 'p) clients \<Rightarrow> string \<Rightarrow> ('p, 'w) env \<Rightarrow> bool" where
  "from_env_forbidden_chain_yields_err cl endpoint v \<longleftrightarrow>
     (let present = (\<lambda>_. Inl NotPresent)(ENV_KEY := Inr ANVIL_KEY0)
      in fst (from_env (anvil 1) cl present endpoint v) = Inl (S_MainnetForbidden 1))"

lemma key_text:
  "strip_key ANVIL_KEY0 = ANVIL_KEY0" "strip_key (CHR ''0'' # CHR ''x'' # ANVIL_KEY0) = ANVIL_KEY0"
  "strip_key ''not-hex'' = ''not-hex''"
  by (simp_all add: strip_key_def trim_def is_whitespace_def ANVIL_KEY0_def Let_def)

lemma signer_tests_pass:
  assumes "anvil_clients cl"
  shows "allowlist_admits_known_test_chains" "allowlist_rejects_mainnets_and_unknowns"
    "bad_key_is_rejected_before_any_network n cl v" "from_key_str_ok_on_allowed_chain cl endpoint v'"
    "accepts_0x_prefixed_key cl endpoint v'" "forbidden_chain_yields_err_never_signer cl endpoint v'"
    "from_env_missing_then_present cl endpoint v'" "from_env_forbidden_chain_yields_err cl endpoint v'"
proof -
  from assms obtain key u u1 e where
    cl: "parse_key cl ANVIL_KEY0 = Inr key" "key_address cl key = ANVIL_ADDR0"
      "parse_key cl ''not-hex'' = Inl e" "parse_url cl endpoint = Inr u"
      "parse_url cl ''http://127.0.0.1:1'' = Inr u1"
    unfolding anvil_clients_def by blast
  show "allowlist_admits_known_test_chains" "allowlist_rejects_mainnets_and_unknowns"
    by (simp_all add: allowlist_admits_known_test_chains_def
        allowlist_rejects_mainnets_and_unknowns_def assert_chain_allowed_def ALLOWED_TEST_CHAINS_def)
  show "bad_key_is_rejected_before_any_network n cl v" "from_key_str_ok_on_allowed_chain cl endpoint v'"
    "accepts_0x_prefixed_key cl endpoint v'" "forbidden_chain_yields_err_never_signer cl endpoint v'"
    "from_env_missing_then_present cl endpoint v'" "from_env_forbidden_chain_yields_err cl endpoint v'"
    by (simp_all add: bad_key_is_rejected_before_any_network_def from_key_str_ok_on_allowed_chain_def
        accepts_0x_prefixed_key_def forbidden_chain_yields_err_never_signer_def
        from_env_missing_then_present_def from_env_forbidden_chain_yields_err_def from_key_str_def
        from_env_def anvil_def assert_chain_allowed_def ALLOWED_TEST_CHAINS_def key_text cl
        eff_simps Let_def)
qed

subsection \<open>Executor\<close>

definition anti_toctou_reverify_blocks_lock_when_current_action_changes_to_abort :: bool where
  "anti_toctou_reverify_blocks_lock_when_current_action_changes_to_abort \<longleftrightarrow>
     (let planned = A_LockMyLeg (fill 0xBB) 0 1000 (fill 0xAB) 10000;
          current = A_Abort (UnsafeCounterparty HashlockMismatch)
      in \<not> reverified_action_matches planned current)"

definition anti_toctou_reverify_blocks_redeem_and_secret_leak_when_current_action_is_refund :: bool
where
  "anti_toctou_reverify_blocks_redeem_and_secret_leak_when_current_action_is_refund \<longleftrightarrow>
     (let planned = A_RedeemCounterpartyLeg (fill 0x5e); current = A_Refund
      in \<not> reverified_action_matches planned current)"

lemma executor_tests_pass:
  "anti_toctou_reverify_blocks_lock_when_current_action_changes_to_abort"
  "anti_toctou_reverify_blocks_redeem_and_secret_leak_when_current_action_is_refund"
  by (simp_all add:
      anti_toctou_reverify_blocks_lock_when_current_action_changes_to_abort_def
      anti_toctou_reverify_blocks_redeem_and_secret_leak_when_current_action_is_refund_def
      reverified_action_matches_def Let_def)

end
