(* ===== verification/Kael_Tests_Node.thy ===== *)
theory Kael_Tests_Node
  imports Kael_Swap_Completes Kael_Tests_Chain
begin

section \<open>The unit tests on a local node, run on the model\<close>

text \<open>
  The tests of \<open>swapkit/src/exec/tx.rs\<close>, \<open>exec/observe.rs\<close> and \<open>chain.rs\<close> that deploy the contracts on
  Anvil, as computations on an honest node: \<open>unwrap\<close> and the assertions panic, and the test passes
  when nothing does. What a test deploys is there when it starts; the chain it uses is one of the
  two of \<open>hosted\<close>. The test with an ERC-20 token, which has a state of its own, is in \<open>Kael_Tests_Token\<close>.
\<close>

subsection \<open>Writing a test\<close>

definition unwrap :: "('s, 'e, 'a) eff \<Rightarrow> ('s, unit, 'a) eff" where
  "unwrap m = map_errE (\<lambda>_. ()) m"

definition assert_that :: "bool \<Rightarrow> ('s, unit, unit) eff" where
  "assert_that b = guard b ()"

definition passes :: "('s, unit, unit) eff \<Rightarrow> 's \<Rightarrow> bool" where
  "passes test s \<longleftrightarrow> fst (test s) = Inr ()"

definition now_unix :: "('p, 'w) net \<Rightarrow> (('p, 'w) env, unit, u64) eff" where
  "now_unix n = ask (clock_now n)"

definition is_confirmed_lock :: "LockObservation \<Rightarrow> bool" where
  "is_confirmed_lock r \<longleftrightarrow> (case r of Confirmed _ \<Rightarrow> True | _ \<Rightarrow> False)"

text \<open>\<open>evm_mine\<close> at a time set before, and a transaction that touches no contract: a block.\<close>

definition evm_mine :: "bool \<Rightarrow> u256 \<Rightarrow> (('p, bool \<Rightarrow> served) env, unit, unit) eff" where
  "evm_mine c t = modify (\<lambda>v. v\<lparr>world := (world v)(c := mine t [] (world v c))\<rparr>)"

text \<open>A wallet's provider, made from the key as the tests do.\<close>

definition wallet_provider ::
  "('u, 'k, 'p) clients \<Rightarrow> string \<Rightarrow> string \<Rightarrow> (('p, 'w) env, unit, 'p \<times> address) eff" where
  "wallet_provider cl key url =
     bindE (unwrap (of_result (parse_key cl key))) (\<lambda>pk.
     bindE (unwrap (of_result (parse_url cl url))) (\<lambda>u.
     ret (connect_wallet cl pk u, key_address cl pk)))"

subsection \<open>\<open>exec/tx.rs\<close>\<close>

definition contract_id_matches_contract_and_lock_redeem_roundtrip ::
  "('p, bool \<Rightarrow> served, 'sig, 'rid, 'vk, 'sk) outside \<Rightarrow> ('u, 'k, 'p) clients \<Rightarrow> deployment \<Rightarrow> string \<Rightarrow>
     (('p, bool \<Rightarrow> served) env, unit, unit) eff" where
  "contract_id_matches_contract_and_lock_redeem_roundtrip u cl dp endpoint =
     (let n = out_net u; cr = out_crates u; kc = out_keccak u; htlc_addr = dp_htlc dp in
      bindE (wallet_provider cl ANVIL_KEY0 endpoint) (\<lambda>(deploy_provider, sender).
      bindE (unwrap (from_key_str n cl ANVIL_KEY0 endpoint)) (\<lambda>signer.
      thenE (assert_that (sg_address signer = sender))
     (bindE (now_unix n) (\<lambda>now.
      let me = sg_address signer; token = 0; amount = 500; preimage = fill 0x42;
          hashlock = hashlock_from_preimage (out_sha u) preimage; timelock = now + 3600;
          rust_cid = compute_contract_id cr kc me me token amount hashlock timelock;
          onchain_cid = computeContractId (dp_keccak dp) me me 0 (ucast amount) hashlock (ucast timelock)
      in
        thenE (assert_that (rust_cid = onchain_cid))
       (bindE (unwrap (lock n cr kc signer htlc_addr me token amount hashlock timelock)) (\<lambda>locked.
        thenE (assert_that (lk_contract_id locked = rust_cid))
       (bindE (unwrap (of_result (rpc_verifier_new cl endpoint))) (\<lambda>rv.
        bindE (unwrap (rpc_observe_lock n rv htlc_addr (lk_contract_id locked) 1)) (\<lambda>seen.
        thenE (assert_that (is_confirmed_lock seen))
       (thenE (unwrap (redeem n signer htlc_addr (lk_contract_id locked) preimage))
       (bindE (unwrap (rpc_observe_lock n rv htlc_addr (lk_contract_id locked) 1)) (\<lambda>seen.
        assert_that (seen = Absent))))))))))))))"

fun trim_start_0x :: "string \<Rightarrow> string" where
  "trim_start_0x (a # b # s) = (if [a, b] = ''0x'' then trim_start_0x s else a # b # s)"
| "trim_start_0x s = s"

definition hex_key :: "crates \<Rightarrow> string \<Rightarrow> (('p, 'w) env, unit, b32) eff" where
  "hex_key cr s =
     bindE (unwrap (of_result (hex_decode cr (trim_start_0x s)))) (\<lambda>bytes.
     thenE (assert_that (length bytes = 32))
     (ret (pad_copy bytes)))"

definition settlement_test_config :: "deployment \<Rightarrow> b32 \<Rightarrow> u64 \<Rightarrow> SettlementLockConfig" where
  "settlement_test_config dp key timelock =
     \<lparr>st_settlement = dp_settlement dp, st_maker_private_key = key, st_sell_chain_id = 31337,
      st_buy_token = 0, st_buy_chain_id = 31338, st_buy_amount = 500, st_valid_until = timelock, st_nonce = 1\<rparr>"

definition settlement_lock_uses_settlement_as_htlc_sender ::
  "('p, bool \<Rightarrow> served, 'sig, 'rid, 'vk, 'sk) outside \<Rightarrow> ('u, 'k, 'p) clients \<Rightarrow> deployment \<Rightarrow> string \<Rightarrow>
     (('p, bool \<Rightarrow> served) env, unit, unit) eff" where
  "settlement_lock_uses_settlement_as_htlc_sender u cl dp endpoint =
     (let n = out_net u; cr = out_crates u; kc = out_keccak u in
      bindE (wallet_provider cl ANVIL_KEY0 endpoint) (\<lambda>(provider, _).
      bindE (unwrap (from_key_str n cl ANVIL_KEY0 endpoint)) (\<lambda>signer.
      bindE (now_unix n) (\<lambda>now.
      bindE (hex_key cr ANVIL_KEY0) (\<lambda>key.
      let recipient = fill 0x7A; token = 0; amount = 500; preimage = fill 0x51;
          hashlock = hashlock_from_preimage (out_sha u) preimage; timelock = now + 3600;
          config = settlement_test_config dp key timelock
      in
        bindE (unwrap (lock_via_settlement n cr kc (out_k256 u) signer config recipient token amount
                         hashlock timelock)) (\<lambda>locked.
        bindE (unwrap (rpc (call_getSwap n provider (dp_htlc dp) (lk_contract_id locked)))) (\<lambda>onchain.
        thenE (assert_that (sw_sender onchain = dp_settlement dp))
       (thenE (assert_that (sw_recipient onchain = recipient))
       (thenE (assert_that (sw_token onchain = 0))
       (thenE (assert_that (sw_amount onchain = ucast amount))
       (thenE (assert_that (sw_hashlock onchain = hashlock))
        (assert_that (sw_timelock onchain = ucast timelock)))))))))))))"

definition refund_after_expiry_real ::
  "('p, bool \<Rightarrow> served, 'sig, 'rid, 'vk, 'sk) outside \<Rightarrow> ('u, 'k, 'p) clients \<Rightarrow> deployment \<Rightarrow> bool \<Rightarrow>
     string \<Rightarrow> (('p, bool \<Rightarrow> served) env, unit, unit) eff" where
  "refund_after_expiry_real u cl dp c endpoint =
     (let n = out_net u; htlc_addr = dp_htlc dp in
      bindE (unwrap (from_key_str n cl ANVIL_KEY0 endpoint)) (\<lambda>signer.
      bindE (now_unix n) (\<lambda>now.
      let me = sg_address signer; amount = 777; hashlock = hashlock_from_preimage (out_sha u) (fill 0x01);
          timelock = now + 100
      in
        bindE (unwrap (lock n (out_crates u) (out_keccak u) signer htlc_addr me 0 amount hashlock timelock))
          (\<lambda>locked.
        bindE (unwrap (of_result (rpc_verifier_new cl endpoint))) (\<lambda>rv.
        bindE (unwrap (rpc_observe_lock n rv htlc_addr (lk_contract_id locked) 1)) (\<lambda>seen.
        thenE (assert_that (is_confirmed_lock seen))
       (bindE (gets (\<lambda>v. sv_clock (world v c))) (\<lambda>t.
        thenE (evm_mine c (t + 3601))
       (thenE (unwrap (refund n signer htlc_addr (lk_contract_id locked)))
       (bindE (unwrap (rpc_observe_lock n rv htlc_addr (lk_contract_id locked) 1)) (\<lambda>seen.
        assert_that (seen = Absent))))))))))))"

definition lock_rejects_zero_amount_before_sending ::
  "('p, bool \<Rightarrow> served, 'sig, 'rid, 'vk, 'sk) outside \<Rightarrow> ('u, 'k, 'p) clients \<Rightarrow> string \<Rightarrow>
     (('p, bool \<Rightarrow> served) env, unit, unit) eff" where
  "lock_rejects_zero_amount_before_sending u cl endpoint =
     (let n = out_net u in
      bindE (unwrap (from_key_str n cl ANVIL_KEY0 endpoint)) (\<lambda>signer.
      bindE (now_unix n) (\<lambda>now v.
      let (r, v') = lock n (out_crates u) (out_keccak u) signer (fill 0x11) (fill 0x7A) (fill 0x22) 0
                      (fill 0xAB) (now + 3600) v
      in assert_that (r = Inl (Failed ZeroAmount)) v')))"

subsection \<open>The node of a test\<close>

text \<open>
  The endpoints lead to the two chains, the keys are known, and a wallet's provider signs for the
  account of its key.
\<close>

definition local_nodes :: "('u, 'k, 'p) clients \<Rightarrow> ('p \<Rightarrow> bool) \<Rightarrow> ('p \<Rightarrow> address) \<Rightarrow> (bool \<Rightarrow> string) \<Rightarrow>
    (bool \<Rightarrow> 'u) \<Rightarrow> 'k \<Rightarrow> bool" where
  "local_nodes cl chain_of accounts endpoint url k0 \<longleftrightarrow>
     parse_key cl ANVIL_KEY0 = Inr k0 \<and>
     (\<forall>c. parse_url cl (endpoint c) = Inr (url c) \<and> chain_of (connect_http cl (url c)) = c \<and>
        (\<forall>k. chain_of (connect_wallet cl k (url c)) = c \<and>
           accounts (connect_wallet cl k (url c)) = key_address cl k))"

lemma local_nodesD:
  assumes "local_nodes cl chain_of accounts endpoint url k0"
  shows "parse_key cl ANVIL_KEY0 = Inr k0" "parse_url cl (endpoint c) = Inr (url c)"
    "chain_of (connect_http cl (url c)) = c" "chain_of (connect_wallet cl k (url c)) = c"
    "accounts (connect_wallet cl k (url c)) = key_address cl k"
  using assms by (simp_all add: local_nodes_def)

text \<open>A leg locked directly, and what the operations of the wallet do on the chain that hosts it.\<close>

definition plain :: "address \<Rightarrow> address \<Rightarrow> u128 \<Rightarrow> u64 \<Rightarrow> pledge" where
  "plain from to amount tm =
     \<lparr>pd_from = from, pd_to = to, pd_amount = amount, pd_until = tm, pd_order = None\<rparr>"

lemma plain_fields [simp]:
  "pd_from (plain from to amount tm) = from" "pd_to (plain from to amount tm) = to"
  "pd_amount (plain from to amount tm) = amount" "pd_until (plain from to amount tm) = tm"
  "pd_order (plain from to amount tm) = None" "pledge_sender dp (plain from to amount tm) = from"
  by (simp_all add: plain_def pledge_sender_def)

lemma world_idle: "world v c = sv \<Longrightarrow> v\<lparr>world := (world v)(c := sv)\<rparr> = v"
  by (simp add: fun_upd_idem)

lemma lock_on_node:
  assumes u: "hosted chain_of accounts dps now u"
    and "chain_of (sg_provider signer) = c" "accounts (sg_provider signer) = sg_address signer"
    and "amount \<noteq> 0" and "world v c = stage t []"
  shows "lock (out_net u) (out_crates u) (out_keccak u) signer (dp_htlc (dps c)) to 0 amount h tm v =
     (Inr \<lparr>lk_contract_id = pledge_cid (dps c) h (plain (sg_address signer) to amount tm), lk_tx_hash = fill 1\<rparr>,
      \<lparr>world = (world v)(c := stage t [pledge_lock h (plain (sg_address signer) to amount tm)]),
       sent = sent v @ [(sg_provider signer,
         NewSwap (dp_htlc (dps c)) to 0 (ucast amount) h (ucast tm) (ucast amount))]\<rparr>)"
  using assms
  by (simp add: lock_def send_and_wait_def eff_simps Let_def hostedD [OF u] honest_net_def quiet_net_def
      pledge_lock_def pledge_cid_def contract_ids_agree hostedD(2) [OF u])

lemma observe_on_node:
  assumes u: "hosted chain_of accounts dps now u"
    and "chain_of (rv_provider rv) = c" and l: "pledgeable (dps c) t h (plain from to amount tm)"
    and "world v c = stage t [pledge_lock h (plain from to amount tm)]"
  shows "rpc_observe_lock (out_net u) rv (dp_htlc (dps c)) (pledge_cid (dps c) h (plain from to amount tm)) m v =
     (Inr (if m \<le> 1
           then Confirmed \<lparr>ol_hashlock = h, ol_token = 0, ol_amount = amount, ol_recipient = to, ol_timelock = tm,
                  ol_sender = from, ol_exists = True\<rparr>
           else Shallow), v)"
  using assms
  by (simp add: world_idle exec_defs eff_simps Let_def hostedD [OF u] honest_net_def quiet_net_def stage_chain stage_logs
      log_selected_def pledge_log_def pledge_event_def creation_filter_def ucast_back unat_ucast_bounds
      pledged_def pledge_swap_def locked_swap_def pledgeable_def)

lemma redeem_on_node:
  assumes u: "hosted chain_of accounts dps now u"
    and "chain_of (sg_provider signer) = c" "accounts (sg_provider signer) = to"
    and "world v c = stage t [pledge_lock h (plain from to amount tm)]"
  shows "redeem (out_net u) signer (dp_htlc (dps c)) (pledge_cid (dps c) h (plain from to amount tm)) s v =
     (Inr (fill 1),
      \<lparr>world = (world v)(c := stage t [pledge_lock h (plain from to amount tm),
         pledge_redeem (dps c) h s (plain from to amount tm)]),
       sent = sent v @ [(sg_provider signer,
         Redeem (dp_htlc (dps c)) (pledge_cid (dps c) h (plain from to amount tm)) s)]\<rparr>)"
  using assms
  by (simp add: redeem_def send_and_wait_def eff_simps Let_def hostedD [OF u] honest_net_def quiet_net_def
      pledge_redeem_def)

lemma observe_redeemed_on_node:
  assumes u: "hosted chain_of accounts dps now u"
    and "chain_of (rv_provider rv) = c" and "pledgeable (dps c) t (out_sha u (bytes_of s)) pl"
    and "world v c = stage t [pledge_lock (out_sha u (bytes_of s)) pl,
      pledge_redeem (dps c) (out_sha u (bytes_of s)) s pl]"
  shows "rpc_observe_lock (out_net u) rv (dp_htlc (dps c)) (pledge_cid (dps c) (out_sha u (bytes_of s)) pl) m v =
     (Inr Absent, v)"
  using assms
  by (simp add: exec_defs eff_simps Let_def hostedD [OF u] honest_net_def quiet_net_def stage_chain
      ucast_back unat_ucast_bounds collected_def pledge_swap_def locked_swap_def)

text \<open>A refund in a block after the timelock.\<close>

definition reclaimed :: "deployment \<Rightarrow> b32 \<Rightarrow> pledge \<Rightarrow> chain_state" where
  "reclaimed dp h pl = (pledged dp h pl)
     \<lparr>swaps := (swaps deployed)(pledge_cid dp h pl := (pledge_swap dp h pl)\<lparr>sw_refunded := True\<rparr>),
      htlc_eth := 0,
      htlc_events := [pledge_event dp h pl, LogRefund (pledge_cid dp h pl)],
      htlc_paid := [(pledge_payment dp h pl)\<lparr>pm_to := pd_from pl\<rparr>]\<rparr>"

definition pledge_refund :: "deployment \<Rightarrow> b32 \<Rightarrow> pledge \<Rightarrow> message" where
  "pledge_refund dp h pl = Message (pd_from pl) 0 (RefundCall (pledge_cid dp h pl))"

lemma pledge_reclaims:
  assumes "pledgeable dp t h pl" and "pd_order pl = None" and "ucast (pd_until pl) \<le> t'"
  shows "transact dp t' (pledge_refund dp h pl) [] (pledged dp h pl) = (Inr None, reclaimed dp h pl)"
  using assms
  by (auto simp: pledge_run_defs pledge_refund_def htlc_refund_def htlc_payout_def send_eth_def
      call_out_def ext_at_def reclaimed_def pledge_payment_def split: option.splits)

definition late_stage :: "u256 \<Rightarrow> u256 \<Rightarrow> message list \<Rightarrow> message list \<Rightarrow> served" where
  "late_stage t t' ms ms' =
     \<lparr>sv_blocks = map (\<lambda>m. [(t, m, [])]) ms @ [] # map (\<lambda>m. [(max t' t, m, [])]) ms',
      sv_pool = [], sv_clock = max t' t, sv_others = []\<rparr>"

lemma late_stage_moves [simp]:
  "mine t' [] (stage t ms) = late_stage t t' ms []"
  "others_mine (late_stage t t' ms ms') = late_stage t t' ms ms'"
  "pool_mined ((late_stage t t' ms ms')\<lparr>sv_pool := [m]\<rparr>) = late_stage t t' ms (ms' @ [m])"
  "length (sv_blocks (late_stage t t' ms ms')) = Suc (length ms + length ms')"
  "sv_pool (late_stage t t' ms ms') = []"
  by (simp_all add: late_stage_def stage_def others_mine_def pool_mined_def mine_def)

lemma late_stage_chain:
  assumes "pledgeable dp t h pl"
  shows "served_chain dp (late_stage t t' [pledge_lock h pl] []) = pledged dp h pl"
    and "pd_order pl = None \<Longrightarrow> ucast (pd_until pl) \<le> t' \<Longrightarrow>
      served_chain dp (late_stage t t' [pledge_lock h pl] [pledge_refund dp h pl]) = reclaimed dp h pl"
  using assms
  by (simp_all add: served_chain_def late_stage_def pledge_lands
      pledge_reclaims [OF assms _ order_trans [OF _ max.cobounded1]])

lemma late_stage_logs:
  assumes "pledgeable dp t h pl"
  shows "served_logs dp f (late_stage t t' [pledge_lock h pl] []) =
    (if lf_address f = dp_htlc dp then filter (log_selected f) [pledge_log dp h pl] else [])"
  using pledge_lands [OF assms]
  by (simp add: served_logs_def late_stage_def pledge_log_def)
    (simp add: pledged_def booked_def deployed_def split: option.split)

lemma refund_on_node:
  assumes u: "hosted chain_of accounts dps now u"
    and "chain_of (sg_provider signer) = c" "accounts (sg_provider signer) = from"
    and "world v c = late_stage t t' [pledge_lock h (plain from to amount tm)] []"
  shows "refund (out_net u) signer (dp_htlc (dps c)) (pledge_cid (dps c) h (plain from to amount tm)) v =
     (Inr (fill 1),
      \<lparr>world = (world v)(c := late_stage t t' [pledge_lock h (plain from to amount tm)]
         [pledge_refund (dps c) h (plain from to amount tm)]),
       sent = sent v @ [(sg_provider signer,
         RefundTx (dp_htlc (dps c)) (pledge_cid (dps c) h (plain from to amount tm)))]\<rparr>)"
  using assms
  by (simp add: refund_def send_and_wait_def eff_simps Let_def hostedD [OF u] honest_net_def quiet_net_def
      pledge_refund_def)

lemma observe_refunded_on_node:
  assumes u: "hosted chain_of accounts dps now u"
    and "chain_of (rv_provider rv) = c" and "pledgeable (dps c) t h pl" "pd_order pl = None"
    and "ucast (pd_until pl) \<le> t'"
    and "world v c = late_stage t t' [pledge_lock h pl] [pledge_refund (dps c) h pl]"
  shows "rpc_observe_lock (out_net u) rv (dp_htlc (dps c)) (pledge_cid (dps c) h pl) m v = (Inr Absent, v)"
  using assms
  by (simp add: exec_defs eff_simps Let_def hostedD [OF u] honest_net_def quiet_net_def late_stage_chain
      ucast_back unat_ucast_bounds reclaimed_def pledge_swap_def locked_swap_def)

subsection \<open>The tests pass\<close>

text \<open>
  What the tests of a single chain need: accounts other than the contracts, a chain clock that is
  not ahead of the wall clock, a hash function without the zero hash at the preimages.
\<close>

definition test_chain :: "deployment \<Rightarrow> u256 \<Rightarrow> u64 \<Rightarrow> address \<Rightarrow> bool" where
  "test_chain dp t now me \<longleftrightarrow>
     dp_chain_id dp = 31337 \<and> t \<le> ucast now \<and> unat now + 10000 < 2 ^ 64 \<and>
     {me, fill 0x7A} \<inter> {0, dp_htlc dp, dp_settlement dp} = {}"

lemma later:
  fixes t :: u256
  assumes "t \<le> ucast now" "unat now + 10000 < 2 ^ 64" "0 < unat d" "unat d \<le> 10000"
  shows "t < ucast (now + d :: u64)"
proof -
  have "unat (now + d) = unat now + unat d"
    using assms by (simp add: unat_word_ariths)
  then show ?thesis
    using assms by (simp add: word_less_nat_alt word_le_nat_alt unat_ucast_u64)
qed

lemmas test_defs = unwrap_def assert_that_def passes_def now_unix_def wallet_provider_def evm_mine_def
  from_key_str_def rpc_verifier_new_def assert_chain_allowed_def ALLOWED_TEST_CHAINS_def key_text eff_simps Let_def

lemma test_node:
  assumes "hosted chain_of accounts dps now u" and "local_nodes cl chain_of accounts endpoint url k0"
    and "test_chain (dps c) t now me"
  shows "get_chain_id (out_net u) (connect_wallet cl k (url c)) w = (Inr 31337, w)"
    "clock_now (out_net u) w = (now, w)"
  using assms(3) by (simp_all add: hostedD [OF assms(1)] honest_net_def local_nodesD [OF assms(2)] test_chain_def)

lemma test_leg:
  assumes "test_chain dp t now me" and "h \<noteq> 0" "amount \<noteq> 0" "0 < unat d" "unat d \<le> 10000"
    and "to \<in> {me, fill 0x7A}"
  shows "pledgeable dp t h (plain me to amount (now + d))"
  using assms later [of t now d] by (auto simp: pledgeable_def order_settles_def test_chain_def)

lemma contract_id_matches_contract_and_lock_redeem_roundtrip_passes:
  assumes u: "hosted chain_of accounts dps now u"
    and n: "local_nodes cl chain_of accounts endpoint url k0"
    and c: "test_chain (dps c) t now (key_address cl k0)"
    and "hashlock_from_preimage (out_sha u) (fill 0x42) \<noteq> 0" and v: "world v c = stage t []"
  shows "passes (contract_id_matches_contract_and_lock_redeem_roundtrip u cl (dps c) (endpoint c)) v"
proof -
  let ?pl = "plain (key_address cl k0) (key_address cl k0) 500 (now + 3600)"
    and ?h = "out_sha u (bytes_of (fill 0x42 :: b32))"
  have l: "pledgeable (dps c) t ?h ?pl"
    using assms by (intro test_leg [OF c]) (simp_all add: hashlock_from_preimage_def)
  have "compute_contract_id (out_crates u) (out_keccak u) (key_address cl k0) (key_address cl k0) 0 500
      ?h (now + 3600) = pledge_cid (dps c) ?h ?pl"
    "computeContractId (dp_keccak (dps c)) (key_address cl k0) (key_address cl k0) 0 500 ?h
      (ucast (now + 3600)) = pledge_cid (dps c) ?h ?pl"
    by (simp_all add: pledge_cid_def contract_ids_agree hostedD [OF u])
  then show ?thesis
    using l v
    by (simp add: contract_id_matches_contract_and_lock_redeem_roundtrip_def test_defs local_nodesD [OF n] test_node [OF u n c]
        hashlock_from_preimage_def is_confirmed_lock_def lock_on_node [OF u] observe_on_node [OF u]
        redeem_on_node [OF u] observe_redeemed_on_node [OF u])
qed

lemma refund_after_expiry_real_passes:
  assumes u: "hosted chain_of accounts dps now u"
    and n: "local_nodes cl chain_of accounts endpoint url k0"
    and c: "test_chain (dps c) t now (key_address cl k0)"
    and clock: "ucast (now + 100) \<le> t + 3601"
    and "hashlock_from_preimage (out_sha u) (fill 0x01) \<noteq> 0" and v: "world v c = stage t []"
  shows "passes (refund_after_expiry_real u cl (dps c) c (endpoint c)) v"
proof -
  let ?pl = "plain (key_address cl k0) (key_address cl k0) 777 (now + 100)"
    and ?h = "out_sha u (bytes_of (fill 0x01 :: b32))"
  have l: "pledgeable (dps c) t ?h ?pl"
    using assms by (intro test_leg [OF c]) (simp_all add: hashlock_from_preimage_def)
  show ?thesis
    using l v clock
    by (simp add: refund_after_expiry_real_def test_defs local_nodesD [OF n] test_node [OF u n c]
        hashlock_from_preimage_def is_confirmed_lock_def lock_on_node [OF u] observe_on_node [OF u]
        refund_on_node [OF u] observe_refunded_on_node [OF u])
qed

lemma lock_rejects_zero_amount_before_sending_passes:
  assumes u: "hosted chain_of accounts dps now u"
    and n: "local_nodes cl chain_of accounts endpoint url k0"
    and c: "test_chain (dps c) t now (key_address cl k0)"
  shows "passes (lock_rejects_zero_amount_before_sending u cl (endpoint c)) v"
proof -
  show ?thesis
    by (simp add: lock_rejects_zero_amount_before_sending_def test_defs local_nodesD [OF n] test_node [OF u n c] lock_def)
qed

text \<open>The order that the test of Settlement signs, as a wallet of these terms would.\<close>

definition settlement_test_terms :: "address \<Rightarrow> u64 \<Rightarrow> SwapContext" where
  "settlement_test_terms me timelock =
     \<lparr>ctx_role = Taker, my_token = 0, my_amount = 500, my_timelock = timelock, my_recipient = fill 0x7A,
      cp_token = 0, cp_amount = 0, ctx_me = me, min_gap = 0, ctx_hashlock = None, ctx_secret = None,
      my_leg_locked = False, counterparty_lock = None, revealed_secret = None, ctx_now = 0\<rparr>"

lemma lock_via_settlement_on_node:
  assumes u: "hosted chain_of accounts dps now u" and s: "can_settle (dps c) u (Some cf) ctx"
    and "chain_of (sg_provider signer) = c" "accounts (sg_provider signer) = ctx_me ctx"
    and "sg_address signer = ctx_me ctx"
    and "my_token ctx = 0" "my_amount ctx \<noteq> 0" and "world v c = stage t []"
  shows "\<exists>v'. lock_via_settlement (out_net u) (out_crates u) (out_keccak u) (out_k256 u) signer cf
      (my_recipient ctx) 0 (my_amount ctx) h (my_timelock ctx) v =
     (Inr \<lparr>lk_contract_id = pledge_cid (dps c) h (leg_pledge u (Some cf) ctx), lk_tx_hash = fill 1\<rparr>, v') \<and>
    world v' = (world v)(c := stage t [pledge_lock h (leg_pledge u (Some cf) ctx)])"
proof -
  from s obtain sg where sg: "st_settlement cf = dp_settlement (dps c)"
    "eip712_sign (out_keccak u) (out_k256 u) (signed_order u ctx cf) (st_maker_private_key cf) = Some sg"
    by (auto simp: can_settle_def)
  note signs = sg(2) [unfolded signed_order_def settlement_order_def, simplified]
  show ?thesis
    using assms(3-) sg(1) signs
    by (simp add: lock_via_settlement_def send_and_wait_def eff_simps Let_def hostedD [OF u] honest_net_def
        quiet_net_def settlement_order_def contract_ids_agree hostedD(2) [OF u] sent_defs)
qed

lemma settlement_lock_uses_settlement_as_htlc_sender_passes:
  assumes u: "hosted chain_of accounts dps now u"
    and n: "local_nodes cl chain_of accounts endpoint url k0"
    and c: "test_chain (dps c) t now (key_address cl k0)"
    and key: "hex_decode (out_crates u) ANVIL_KEY0 = Inr bytes" "length bytes = 32"
    and works: "settlement_works (dps c) u t
      (Some (settlement_test_config (dps c) (pad_copy bytes) (now + 3600)))
      (settlement_test_terms (key_address cl k0) (now + 3600))"
    and h: "hashlock_from_preimage (out_sha u) (fill 0x51) \<noteq> 0" and v: "world v c = stage t []"
  shows "passes (settlement_lock_uses_settlement_as_htlc_sender u cl (dps c) (endpoint c)) v"
proof -
  let ?ctx = "settlement_test_terms (key_address cl k0) (now + 3600)"
    and ?cf = "settlement_test_config (dps c) (pad_copy bytes) (now + 3600)"
    and ?h = "out_sha u (bytes_of (fill 0x51 :: b32))"
    and ?sg = "\<lparr>sg_provider = connect_wallet cl k0 (url c), sg_address = key_address cl k0, sg_chain_id = 31337\<rparr>"
  have s: "can_settle (dps c) u (Some ?cf) ?ctx" "order_settles (dps c) t (leg_pledge u (Some ?cf) ?ctx)"
    using settlement_settles [OF works] c
    by (auto simp: settlement_test_terms_def test_chain_def hostedD [OF u])
  have l: "pledgeable (dps c) t ?h (leg_pledge u (Some ?cf) ?ctx)"
    using s(2) c h later [of t now 3600]
    by (auto simp: pledgeable_def settlement_test_terms_def test_chain_def hashlock_from_preimage_def)
  have "\<exists>v'. lock_via_settlement (out_net u) (out_crates u) (out_keccak u) (out_k256 u) ?sg ?cf
      (my_recipient ?ctx) 0 (my_amount ?ctx) ?h (my_timelock ?ctx) v =
     (Inr \<lparr>lk_contract_id = pledge_cid (dps c) ?h (leg_pledge u (Some ?cf) ?ctx), lk_tx_hash = fill 1\<rparr>, v') \<and>
    world v' = (world v)(c := stage t [pledge_lock ?h (leg_pledge u (Some ?cf) ?ctx)])"
    by (rule lock_via_settlement_on_node [OF u s(1)])
      (use v in \<open>simp_all add: local_nodesD [OF n] settlement_test_terms_def\<close>)
  then obtain v' where run: "lock_via_settlement (out_net u) (out_crates u) (out_keccak u) (out_k256 u) ?sg ?cf
      (fill 0x7A) 0 500 ?h (now + 3600) v =
     (Inr \<lparr>lk_contract_id = pledge_cid (dps c) ?h (leg_pledge u (Some ?cf) ?ctx), lk_tx_hash = fill 1\<rparr>, v')"
    and v': "world v' = (world v)(c := stage t [pledge_lock ?h (leg_pledge u (Some ?cf) ?ctx)])"
    by (auto simp: settlement_test_terms_def)
  have "trim_start_0x ANVIL_KEY0 = ANVIL_KEY0"
    by (simp add: ANVIL_KEY0_def)
  moreover have "rpc (call_getSwap (out_net u) (connect_wallet cl k0 (url c)) (dp_htlc (dps c))
      (pledge_cid (dps c) ?h (leg_pledge u (Some ?cf) ?ctx))) v' =
     (Inr (pledge_swap (dps c) ?h (leg_pledge u (Some ?cf) ?ctx)), v')"
    using l v' by (simp add: eff_simps Let_def hostedD [OF u] honest_net_def local_nodesD [OF n] stage_chain
      pledged_def)
  moreover have "pledge_swap (dps c) ?h (leg_pledge u (Some ?cf) ?ctx) =
      locked_swap (dp_settlement (dps c)) (fill 0x7A) 0 500 ?h (ucast (now + 3600))"
    using s(1) by (auto simp: pledge_swap_def pledge_sender_def leg_pledge_def can_settle_def settlement_test_terms_def)
  ultimately show ?thesis
    using key run
    by (simp add: settlement_lock_uses_settlement_as_htlc_sender_def test_defs local_nodesD [OF n]
      test_node [OF u n c] hex_key_def hashlock_from_preimage_def locked_swap_def)
qed

end
