(* ===== verification/Kael_Tests_Reader.thy ===== *)
theory Kael_Tests_Reader
  imports Kael_Tests_Node
begin

section \<open>The unit tests of the reader and the observer on a local node\<close>

text \<open>
  The tests of \<open>swapkit/src/chain.rs\<close>, \<open>exec/observe.rs\<close> and \<open>exec/confirm.rs\<close> that lock on Anvil and read
  the lock back: its fields and its depth, its discovery by hashlock, the secret that a redeem
  shows, and the depth of the locking transaction.
\<close>

subsection \<open>\<open>exec/observe.rs\<close>\<close>

definition on_observer ::
  "('o \<times> ('p, 'w) env, 'e, 'a) eff \<Rightarrow> 'o \<Rightarrow> (('p, 'w) env, unit, 'a \<times> 'o) eff" where
  "on_observer m ob v =
     (case m (ob, v) of
        (Inl _, (_, v')) \<Rightarrow> (Inl (), v')
      | (Inr a, (ob', v')) \<Rightarrow> (Inr (a, ob'), v'))"

text \<open>The lock that the tests send, through a wallet's provider, and the node they share.\<close>

definition lock_directly ::
  "('p, 'w) net \<Rightarrow> 'p \<Rightarrow> address \<Rightarrow> address \<Rightarrow> u128 \<Rightarrow> b32 \<Rightarrow> u64 \<Rightarrow> (('p, 'w) env, unit, unit) eff" where
  "lock_directly n provider htlc recipient amount hashlock timelock =
     thenE (unwrap (send_and_wait n provider
        (NewSwap htlc recipient 0 (ucast amount) hashlock (ucast timelock) (ucast amount))))
     (ret ())"

definition observe_setup ::
  "('p, 'w) net \<Rightarrow> ('u, 'k, 'p) clients \<Rightarrow> deployment \<Rightarrow> string \<Rightarrow>
     (('p, 'w) env, unit, 'p \<times> address \<times> u64 \<times> address) eff" where
  "observe_setup n cl dp endpoint =
     bindE (wallet_provider cl ANVIL_KEY0 endpoint) (\<lambda>(provider, sender).
     bindE (unwrap (rpc (get_chain_id n provider))) (\<lambda>chain_id.
     ret (provider, dp_htlc dp, chain_id, sender)))"

definition reader ::
  "('u, 'k, 'p) clients \<Rightarrow> string \<Rightarrow> address \<Rightarrow> u64 \<Rightarrow> (('p, 'w) env, unit, 'p rpc_observer) eff" where
  "reader cl endpoint htlc chain_id =
     bindE (unwrap (of_result (rpc_verifier_new cl endpoint))) (\<lambda>verifier.
     bindE (unwrap (of_result (parse_url cl endpoint))) (\<lambda>url.
     ret (observer_new verifier (connect_http cl url) htlc chain_id)))"

definition discovers_lock_by_hashlock_and_observes_the_same_one ::
  "('p, bool \<Rightarrow> served, 'sig, 'rid, 'vk, 'sk) outside \<Rightarrow> ('u, 'k, 'p) clients \<Rightarrow> deployment \<Rightarrow> string \<Rightarrow>
     (('p, bool \<Rightarrow> served) env, unit, unit) eff" where
  "discovers_lock_by_hashlock_and_observes_the_same_one u cl dp endpoint =
     (let n = out_net u in
      bindE (observe_setup n cl dp endpoint) (\<lambda>(provider, htlc_addr, chain_id, sender).
      bindE (now_unix n) (\<lambda>now.
      let me = fill 0x7A; amount = 500; preimage = fill 0x42;
          hashlock = hashlock_from_preimage (out_sha u) preimage; timelock = now + 3600;
          expected_cid = computeContractId (dp_keccak dp) sender me 0 (ucast amount) hashlock (ucast timelock)
      in
        thenE (lock_directly n provider htlc_addr me amount hashlock timelock)
       (bindE (reader cl endpoint htlc_addr chain_id) (\<lambda>obs.
        bindE (on_observer (observe n (out_sha u) (out_iter u) (rpc_observe_lock n) hashlock 1) obs) (\<lambda>(r, obs).
        bindE (case r of Confirmed ob \<Rightarrow> ret ob | _ \<Rightarrow> throw ()) (\<lambda>observed.
        thenE (assert_that (ol_hashlock observed = hashlock))
       (thenE (assert_that (ol_amount observed = amount))
       (thenE (assert_that (ol_recipient observed = me))
       (bindE (of_result (ok_or () (discover_contract_id hashlock obs))) (\<lambda>discovered.
        thenE (assert_that (discovered = expected_cid))
       (bindE (on_observer (observe n (out_sha u) (out_iter u) (rpc_observe_lock n) 0 1) obs) (\<lambda>(absent, obs).
        thenE (assert_that (absent = Absent))
        (assert_that (for_gate absent = None)))))))))))))))"

definition learns_revealed_secret_after_redeem ::
  "('p, bool \<Rightarrow> served, 'sig, 'rid, 'vk, 'sk) outside \<Rightarrow> ('u, 'k, 'p) clients \<Rightarrow> deployment \<Rightarrow> string \<Rightarrow>
     (('p, bool \<Rightarrow> served) env, unit, unit) eff" where
  "learns_revealed_secret_after_redeem u cl dp endpoint =
     (let n = out_net u in
      bindE (observe_setup n cl dp endpoint) (\<lambda>(provider, htlc_addr, chain_id, sender).
      bindE (now_unix n) (\<lambda>now.
      let me = fill 0x7A; amount = 500; preimage = fill 0x42;
          hashlock = hashlock_from_preimage (out_sha u) preimage; timelock = now + 3600;
          cid = computeContractId (dp_keccak dp) sender me 0 (ucast amount) hashlock (ucast timelock)
      in
        thenE (lock_directly n provider htlc_addr me amount hashlock timelock)
       (bindE (reader cl endpoint htlc_addr chain_id) (\<lambda>obs.
        bindE (on_observer (observer_poll n (out_sha u) (out_iter u)) obs) (\<lambda>(_, obs).
        thenE (assert_that (observer_revealed_secret hashlock obs = None))
       (thenE (unwrap (send_and_wait n provider (Redeem htlc_addr cid preimage)))
       (bindE (on_observer (observer_poll n (out_sha u) (out_iter u)) obs) (\<lambda>(_, obs).
        assert_that (observer_revealed_secret hashlock obs = Some preimage))))))))))"

subsection \<open>\<open>chain.rs\<close>\<close>

definition rpc_verifier_reads_real_chain_and_drives_wallet ::
  "('p, bool \<Rightarrow> served, 'sig, 'rid, 'vk, 'sk) outside \<Rightarrow> ('u, 'k, 'p) clients \<Rightarrow> deployment \<Rightarrow> string \<Rightarrow>
     (('p, bool \<Rightarrow> served) env, unit, unit) eff" where
  "rpc_verifier_reads_real_chain_and_drives_wallet u cl dp endpoint =
     (let n = out_net u; htlc_addr = dp_htlc dp in
      bindE (wallet_provider cl ANVIL_KEY0 endpoint) (\<lambda>(provider, sender).
      bindE (now_unix n) (\<lambda>now.
      let me = fill 0x7A; amount_u128 = 500; preimage = fill 0x42;
          hashlock = hashlock_from_preimage (out_sha u) preimage; timelock_secs = now + 3600;
          cid = computeContractId (dp_keccak dp) sender me 0 (ucast amount_u128) hashlock (ucast timelock_secs)
      in
        thenE (lock_directly n provider htlc_addr me amount_u128 hashlock timelock_secs)
       (bindE (unwrap (of_result (rpc_verifier_new cl endpoint))) (\<lambda>rv.
        bindE (unwrap (rpc_observe_lock n rv htlc_addr cid 1)) (\<lambda>r.
        bindE (case r of Confirmed ob \<Rightarrow> ret ob | _ \<Rightarrow> throw ()) (\<lambda>obs.
        thenE (assert_that (ol_exists obs))
       (thenE (assert_that (ol_hashlock obs = hashlock))
       (thenE (assert_that (ol_amount obs = amount_u128))
       (thenE (assert_that (ol_recipient obs = me))
       (thenE (assert_that (ol_token obs = 0))
       (thenE (assert_that (ol_sender obs = sender))
       (thenE (assert_that (ol_timelock obs = timelock_secs))
       (bindE (now_unix n) (\<lambda>now.
        let e = \<lparr>expected_hashlock = hashlock, expected_token = 0, expected_amount = amount_u128,
                 expected_recipient = me, le_my_timelock = ol_timelock obs + 100, le_min_gap = 50,
                 le_now = now, le_role = Taker\<rparr>;
            ctx = \<lparr>ctx_role = Taker, my_token = fill 0x11, my_amount = 1000,
                   my_timelock = ol_timelock obs + 100, my_recipient = sender, cp_token = 0,
                   cp_amount = amount_u128, ctx_me = me, min_gap = 50, ctx_hashlock = Some hashlock,
                   ctx_secret = Some preimage, my_leg_locked = True, counterparty_lock = Some obs,
                   revealed_secret = None, ctx_now = now\<rparr>
        in
          thenE (assert_that (verify_counterparty_leg e obs = Safe))
         (thenE (assert_that (next_action MyLegLocked ctx = A_RedeemCounterpartyLeg preimage))
         (bindE (unwrap (rpc_observe_lock n rv htlc_addr (fill 0xFF) 1)) (\<lambda>absent.
          thenE (assert_that (absent = Absent))
          (assert_that (for_gate absent = None))))))))))))))))))))"

definition observe_lock_depth_gate_shallow_then_confirmed ::
  "('p, bool \<Rightarrow> served, 'sig, 'rid, 'vk, 'sk) outside \<Rightarrow> ('u, 'k, 'p) clients \<Rightarrow> deployment \<Rightarrow> bool \<Rightarrow>
     string \<Rightarrow> (('p, bool \<Rightarrow> served) env, unit, unit) eff" where
  "observe_lock_depth_gate_shallow_then_confirmed u cl dp c endpoint =
     (let n = out_net u; htlc_addr = dp_htlc dp in
      bindE (wallet_provider cl ANVIL_KEY0 endpoint) (\<lambda>(provider, sender).
      bindE (now_unix n) (\<lambda>now.
      let me = fill 0x7A; amount = 500; preimage = fill 0x42;
          hashlock = hashlock_from_preimage (out_sha u) preimage; timelock = now + 3600;
          cid = computeContractId (dp_keccak dp) sender me 0 (ucast amount) hashlock (ucast timelock)
      in
        thenE (lock_directly n provider htlc_addr me amount hashlock timelock)
       (bindE (unwrap (of_result (rpc_verifier_new cl endpoint))) (\<lambda>rv.
        bindE (unwrap (rpc_observe_lock n rv htlc_addr cid 0)) (\<lambda>r.
        thenE (assert_that (is_confirmed_lock r))
       (bindE (unwrap (rpc_observe_lock n rv htlc_addr cid 1)) (\<lambda>r.
        thenE (assert_that (is_confirmed_lock r))
       (bindE (unwrap (rpc_observe_lock n rv htlc_addr cid 2)) (\<lambda>r.
        thenE (assert_that (r = Shallow))
       (bindE (gets (\<lambda>v. sv_clock (world v c))) (\<lambda>t.
        thenE (evm_mine c t)
       (bindE (unwrap (rpc_observe_lock n rv htlc_addr cid 2)) (\<lambda>r.
        assert_that (is_confirmed_lock r)))))))))))))))"

subsection \<open>The tests pass\<close>

lemma lock_directly_on_node:
  assumes u: "hosted chain_of accounts dps now u" and "chain_of p = c" and "world v c = stage t []"
  shows "lock_directly (out_net u) p (dp_htlc (dps c)) to amount h tm v =
     (Inr (), \<lparr>world = (world v)(c := stage t [pledge_lock h (plain (accounts p) to amount tm)]),
       sent = sent v @ [(p, NewSwap (dp_htlc (dps c)) to 0 (ucast amount) h (ucast tm) (ucast amount))]\<rparr>)"
  using assms
  by (simp add: lock_directly_def unwrap_def send_and_wait_def eff_simps Let_def hostedD [OF u] honest_net_def
      quiet_net_def pledge_lock_def)

lemma observe_late_on_node:
  assumes u: "hosted chain_of accounts dps now u"
    and "chain_of (rv_provider rv) = c" and l: "pledgeable (dps c) t h (plain from to amount tm)"
    and "world v c = late_stage t t' [pledge_lock h (plain from to amount tm)] []"
  shows "rpc_observe_lock (out_net u) rv (dp_htlc (dps c)) (pledge_cid (dps c) h (plain from to amount tm)) m v =
     (Inr (if m \<le> 2
           then Confirmed \<lparr>ol_hashlock = h, ol_token = 0, ol_amount = amount, ol_recipient = to, ol_timelock = tm,
                  ol_sender = from, ol_exists = True\<rparr>
           else Shallow), v)"
  using assms
  by (simp add: world_idle exec_defs eff_simps Let_def hostedD [OF u] honest_net_def quiet_net_def late_stage_chain
      late_stage_logs log_selected_def pledge_log_def pledge_event_def creation_filter_def ucast_back
      unat_ucast_bounds pledged_def pledge_swap_def locked_swap_def pledgeable_def)

lemma observe_other_on_node:
  assumes u: "hosted chain_of accounts dps now u"
    and "chain_of (rv_provider rv) = c" and l: "pledgeable (dps c) t h (plain from to amount tm)"
    and "world v c = stage t [pledge_lock h (plain from to amount tm)]"
    and "pledge_cid (dps c) h (plain from to amount tm) \<noteq> cid"
  shows "rpc_observe_lock (out_net u) rv (dp_htlc (dps c)) cid m v = (Inr Absent, v)"
  using assms
  by (simp add: exec_defs eff_simps Let_def hostedD [OF u] honest_net_def quiet_net_def stage_chain
      pledged_def booked_def deployed_def)

lemma test_cid:
  "computeContractId (dp_keccak dp) from to 0 (ucast amount) h (ucast tm) = pledge_cid dp h (plain from to amount tm)"
  by (simp add: pledge_cid_def)

lemma observe_lock_depth_gate_shallow_then_confirmed_passes:
  assumes u: "hosted chain_of accounts dps now u"
    and n: "local_nodes cl chain_of accounts endpoint url k0"
    and c: "test_chain (dps c) t now (key_address cl k0)"
    and "hashlock_from_preimage (out_sha u) (fill 0x42) \<noteq> 0" and v: "world v c = stage t []"
  shows "passes (observe_lock_depth_gate_shallow_then_confirmed u cl (dps c) c (endpoint c)) v"
proof -
  let ?pl = "plain (key_address cl k0) (fill 0x7A) 500 (now + 3600)"
    and ?h = "out_sha u (bytes_of (fill 0x42 :: b32))"
  have l: "pledgeable (dps c) t ?h ?pl"
    using assms by (intro test_leg [OF c]) (simp_all add: hashlock_from_preimage_def)
  have "computeContractId (dp_keccak (dps c)) (key_address cl k0) (fill 0x7A) 0 500 ?h (ucast (now + 3600)) =
      pledge_cid (dps c) ?h ?pl"
    using test_cid [where amount = 500] by simp
  then show ?thesis
    using l v
    by (simp add: observe_lock_depth_gate_shallow_then_confirmed_def test_defs local_nodesD [OF n]
        test_node [OF u n c] hashlock_from_preimage_def is_confirmed_lock_def lock_directly_on_node [OF u]
        observe_on_node [OF u] observe_late_on_node [OF u] word_le_nat_alt)
qed

lemma rpc_verifier_reads_real_chain_and_drives_wallet_passes:
  assumes u: "hosted chain_of accounts dps now u"
    and n: "local_nodes cl chain_of accounts endpoint url k0"
    and c: "test_chain (dps c) t now (key_address cl k0)"
    and "hashlock_from_preimage (out_sha u) (fill 0x42) \<noteq> 0" and v: "world v c = stage t []"
    and other: "pledge_cid (dps c) (hashlock_from_preimage (out_sha u) (fill 0x42))
      (plain (key_address cl k0) (fill 0x7A) 500 (now + 3600)) \<noteq> fill 0xFF"
  shows "passes (rpc_verifier_reads_real_chain_and_drives_wallet u cl (dps c) (endpoint c)) v"
proof -
  let ?pl = "plain (key_address cl k0) (fill 0x7A) 500 (now + 3600)"
    and ?h = "out_sha u (bytes_of (fill 0x42 :: b32))"
  have l: "pledgeable (dps c) t ?h ?pl"
    using assms by (intro test_leg [OF c]) (simp_all add: hashlock_from_preimage_def)
  have "computeContractId (dp_keccak (dps c)) (key_address cl k0) (fill 0x7A) 0 500 ?h (ucast (now + 3600)) =
      pledge_cid (dps c) ?h ?pl"
    using test_cid [where amount = 500] by simp
  moreover have later: "unat (now + 3600) = unat now + 3600" "unat (3700 + now) = unat now + 3700"
    using c by (simp_all add: test_chain_def unat_word_ariths)
  moreover have "verify_counterparty_leg
      \<lparr>expected_hashlock = ?h, expected_token = 0, expected_amount = 500, expected_recipient = fill 0x7A,
       le_my_timelock = 3700 + now, le_min_gap = 50, le_now = now, le_role = Taker\<rparr>
      \<lparr>ol_hashlock = ?h, ol_token = 0, ol_amount = 500, ol_recipient = fill 0x7A, ol_timelock = now + 3600,
       ol_sender = key_address cl k0, ol_exists = True\<rparr> = Safe"
    by (rule verify_SafeI) (use later in simp_all)
  ultimately show ?thesis
    using l v other
    by (simp add: rpc_verifier_reads_real_chain_and_drives_wallet_def test_defs local_nodesD [OF n]
        test_node [OF u n c] hashlock_from_preimage_def lock_directly_on_node [OF u]
        observe_on_node [OF u] observe_other_on_node [OF u]
        next_defs expectation_def for_gate_def)
qed

text \<open>Anyone may redeem for the recipient.\<close>

definition redeems_for :: "address \<Rightarrow> deployment \<Rightarrow> b32 \<Rightarrow> b32 \<Rightarrow> pledge \<Rightarrow> message" where
  "redeems_for who dp h s pl = Message who 0 (RedeemCall (pledge_cid dp h pl) s)"

lemma collects_for:
  assumes "pledgeable dp t (dp_sha256 dp (bytes_of s)) pl" and "who \<notin> {0, dp_htlc dp, dp_settlement dp}"
  shows "transact dp t (redeems_for who dp (dp_sha256 dp (bytes_of s)) s pl) []
      (pledged dp (dp_sha256 dp (bytes_of s)) pl) =
    (Inr None, collected dp (dp_sha256 dp (bytes_of s)) s pl)"
  using assms
  by (auto simp: pledge_run_defs redeems_for_def htlc_redeem_def htlc_payout_def send_eth_def
      call_out_def ext_at_def collected_def pledge_payment_def split: option.splits)

lemma redeemed_for_logs:
  assumes "pledgeable dp t (dp_sha256 dp (bytes_of s)) pl" and "who \<notin> {0, dp_htlc dp, dp_settlement dp}"
  shows "served_logs dp f (stage t [pledge_lock (dp_sha256 dp (bytes_of s)) pl,
       redeems_for who dp (dp_sha256 dp (bytes_of s)) s pl]) =
     (if lf_address f = dp_htlc dp
      then filter (log_selected f) [pledge_log dp (dp_sha256 dp (bytes_of s)) pl,
        redeem_log dp (dp_sha256 dp (bytes_of s)) s pl] else [])"
  using assms
  by (simp add: served_logs_def stage_def pledge_lands collects_for pledge_log_def redeem_log_def)
    (simp add: pledged_def collected_def booked_def deployed_def split: option.split)

lemma redeem_directly_on_node:
  assumes u: "hosted chain_of accounts dps now u" and "chain_of p = c"
    and "world v c = stage t [pledge_lock h pl]"
  shows "send_and_wait (out_net u) p (Redeem (dp_htlc (dps c)) (pledge_cid (dps c) h pl) s) v =
     (Inr \<lparr>r_transaction_hash = fill 1, r_block_number = Some 2, r_status = True\<rparr>,
      \<lparr>world = (world v)(c := stage t [pledge_lock h pl, redeems_for (accounts p) (dps c) h s pl]),
       sent = sent v @ [(p, Redeem (dp_htlc (dps c)) (pledge_cid (dps c) h pl) s)]\<rparr>)"
  using assms
  by (simp add: send_and_wait_def eff_simps Let_def hostedD [OF u] honest_net_def quiet_net_def redeems_for_def)

lemmas observer_defs = on_observer_def observe_setup_def reader_def observe_def observer_poll_def
  poll_into_tracker_def on_co_tracker_def handle_event_def on_new_swap_def on_redeem_def u256_to_def
  discover_contract_id_def observer_revealed_secret_def preimage_for_def tracker_new_def tracked_default_def
  is_leg_def observer_new_def hashlock_from_preimage_def

lemma discovers_lock_by_hashlock_and_observes_the_same_one_passes:
  assumes u: "hosted chain_of accounts dps now u"
    and n: "local_nodes cl chain_of accounts endpoint url k0"
    and c: "test_chain (dps c) t now (key_address cl k0)"
    and "hashlock_from_preimage (out_sha u) (fill 0x42) \<noteq> 0" and v: "world v c = stage t []"
  shows "passes (discovers_lock_by_hashlock_and_observes_the_same_one u cl (dps c) (endpoint c)) v"
proof -
  let ?pl = "plain (key_address cl k0) (fill 0x7A) 500 (now + 3600)"
    and ?h = "out_sha u (bytes_of (fill 0x42 :: b32))"
  have h: "?h \<noteq> 0"
    using assms by (simp add: hashlock_from_preimage_def)
  then have l: "pledgeable (dps c) t ?h ?pl"
    by (intro test_leg [OF c]) simp_all
  have "computeContractId (dp_keccak (dps c)) (key_address cl k0) (fill 0x7A) 0 500 ?h (ucast (now + 3600)) =
      pledge_cid (dps c) ?h ?pl"
    using test_cid [where amount = 500] by simp
  moreover have "get_block_number (out_net u) (connect_http cl (url c)) w = (Inr 1, w)"
    and "get_logs (out_net u) (connect_http cl (url c)) f w =
      (Inr (if lf_address f = dp_htlc (dps c) then filter (log_selected f) [pledge_log (dps c) ?h ?pl] else []), w)"
    if "w c = stage t [pledge_lock ?h ?pl]" for w f
    using that l
    by (simp_all add: hostedD [OF u] honest_net_def local_nodesD [OF n] Let_def fun_upd_idem stage_logs)
  ultimately show ?thesis
    using l v h
    by (simp add: discovers_lock_by_hashlock_and_observes_the_same_one_def test_defs local_nodesD [OF n]
        test_node [OF u n c] lock_directly_on_node [OF u] observer_defs log_selected_def pledge_log_def
        pledge_event_def observe_on_node [OF u] unat_ucast_bounds ucast_back for_gate_def)
qed

lemma learns_revealed_secret_after_redeem_passes:
  assumes u: "hosted chain_of accounts dps now u"
    and n: "local_nodes cl chain_of accounts endpoint url k0"
    and c: "test_chain (dps c) t now (key_address cl k0)"
    and "hashlock_from_preimage (out_sha u) (fill 0x42) \<noteq> 0" and v: "world v c = stage t []"
  shows "passes (learns_revealed_secret_after_redeem u cl (dps c) (endpoint c)) v"
proof -
  let ?me = "key_address cl k0" and ?h = "out_sha u (bytes_of (fill 0x42 :: b32))"
  let ?pl = "plain ?me (fill 0x7A) 500 (now + 3600)"
  have l: "pledgeable (dps c) t ?h ?pl"
    using assms by (intro test_leg [OF c]) (simp_all add: hashlock_from_preimage_def)
  have logs2: "served_logs (dps c) f
      (stage t [pledge_lock ?h ?pl, redeems_for ?me (dps c) ?h (fill 0x42) ?pl]) =
     (if lf_address f = dp_htlc (dps c)
      then filter (log_selected f) [pledge_log (dps c) ?h ?pl, redeem_log (dps c) ?h (fill 0x42) ?pl] else [])" for f
    using redeemed_for_logs [of "dps c" t "fill 0x42" ?pl ?me f, unfolded hostedD [OF u]] l c
    by (auto simp: test_chain_def simp del: filter.simps)
  have "computeContractId (dp_keccak (dps c)) ?me (fill 0x7A) 0 500 ?h (ucast (now + 3600)) =
      pledge_cid (dps c) ?h ?pl"
    using test_cid [where amount = 500] by simp
  moreover have "get_block_number (out_net u) (connect_http cl (url c)) w = (Inr 1, w)"
    and "get_logs (out_net u) (connect_http cl (url c)) f w =
      (Inr (if lf_address f = dp_htlc (dps c) then filter (log_selected f) [pledge_log (dps c) ?h ?pl] else []), w)"
    if "w c = stage t [pledge_lock ?h ?pl]" for w f
    using that l
    by (simp_all add: hostedD [OF u] honest_net_def local_nodesD [OF n] Let_def fun_upd_idem stage_logs)
  moreover have "get_block_number (out_net u) (connect_http cl (url c)) w = (Inr 2, w)"
    and "get_logs (out_net u) (connect_http cl (url c)) f w =
      (Inr (if lf_address f = dp_htlc (dps c)
            then filter (log_selected f) [pledge_log (dps c) ?h ?pl, redeem_log (dps c) ?h (fill 0x42) ?pl]
            else []), w)"
    if "w c = stage t [pledge_lock ?h ?pl, redeems_for ?me (dps c) ?h (fill 0x42) ?pl]" for w f
    using that logs2
    by (simp_all add: hostedD [OF u] honest_net_def local_nodesD [OF n] Let_def fun_upd_idem)
  ultimately show ?thesis
    using l v
    by (simp add: learns_revealed_secret_after_redeem_def test_defs local_nodesD [OF n]
        test_node [OF u n c] lock_directly_on_node [OF u] redeem_directly_on_node [OF u] observer_defs
        log_selected_def pledge_log_def redeem_log_def pledge_event_def unat_ucast_bounds ucast_back)
qed

subsection \<open>\<open>exec/confirm.rs\<close>\<close>

text \<open>
  \<open>honest_net\<close> gives every transaction one hash and keeps no receipts. These tests send one
  transaction, so the receipt under that hash names the last block that is not empty.
\<close>

fun last_filled :: "nat \<Rightarrow> 'a list list \<Rightarrow> nat option" where
  "last_filled k [] = None"
| "last_filled k (b # bs) =
     (case last_filled (Suc k) bs of Some i \<Rightarrow> Some i | None \<Rightarrow> if b = [] then None else Some k)"

definition with_receipts :: "('p \<Rightarrow> bool) \<Rightarrow> ('p, bool \<Rightarrow> served) net \<Rightarrow> ('p, bool \<Rightarrow> served) net" where
  "with_receipts chain_of n = n\<lparr>get_transaction_receipt := \<lambda>p h w.
     (Inr (if h = fill 1 then
             map_option (\<lambda>k. \<lparr>r_transaction_hash = h, r_block_number = Some (of_nat k), r_status = True\<rparr>)
               (last_filled 1 (sv_blocks (w (chain_of p))))
           else None), w)\<rparr>"

definition depth_of_my_tx_matches_piece2_convention ::
  "('p, bool \<Rightarrow> served, 'sig, 'rid, 'vk, 'sk) outside \<Rightarrow> ('u, 'k, 'p) clients \<Rightarrow> deployment \<Rightarrow> bool \<Rightarrow>
     string \<Rightarrow> (('p, bool \<Rightarrow> served) env, unit, unit) eff" where
  "depth_of_my_tx_matches_piece2_convention u cl dp c endpoint =
     (let n = out_net u; htlc_addr = dp_htlc dp in
      bindE (unwrap (from_key_str n cl ANVIL_KEY0 endpoint)) (\<lambda>signer.
      bindE (now_unix n) (\<lambda>now.
      let me = sg_address signer; preimage = fill 0x42; hashlock = hashlock_from_preimage (out_sha u) preimage in
      bindE (unwrap (lock n (out_crates u) (out_keccak u) signer htlc_addr me 0 500 hashlock (now + 3600)))
        (\<lambda>locked.
      let p = sg_provider signer; tx_hash = lk_tx_hash locked in
      bindE (unwrap (confirmations_of n p tx_hash)) (\<lambda>k.
      thenE (assert_that (k = 1))
     (bindE (unwrap (is_confirmed n p tx_hash 1)) (\<lambda>b.
      thenE (assert_that b)
     (bindE (unwrap (is_confirmed n p tx_hash 2)) (\<lambda>b.
      thenE (assert_that (\<not> b))
     (bindE (gets (\<lambda>v. sv_clock (world v c))) (\<lambda>t.
      thenE (evm_mine c t)
     (bindE (unwrap (confirmations_of n p tx_hash)) (\<lambda>k.
      thenE (assert_that (k = 2))
     (bindE (unwrap (is_confirmed n p tx_hash 2)) (\<lambda>b.
      assert_that b)))))))))))))))"

definition unknown_tx_has_zero_confirmations ::
  "('p, bool \<Rightarrow> served, 'sig, 'rid, 'vk, 'sk) outside \<Rightarrow> ('u, 'k, 'p) clients \<Rightarrow> string \<Rightarrow>
     (('p, bool \<Rightarrow> served) env, unit, unit) eff" where
  "unknown_tx_has_zero_confirmations u cl endpoint =
     (let n = out_net u in
      bindE (unwrap (of_result (parse_url cl endpoint))) (\<lambda>url.
      let provider = connect_http cl url in
      bindE (unwrap (confirmations_of n provider (fill 0xFF))) (\<lambda>k.
      thenE (assert_that (k = 0))
     (bindE (unwrap (is_confirmed n provider (fill 0xFF) 1)) (\<lambda>b.
      assert_that (\<not> b))))))"

lemma with_receipts_lock:
  "lock (with_receipts chain_of n) cr kc signer htlc to token amount h tm = lock n cr kc signer htlc to token amount h tm"
proof -
  have "send (with_receipts chain_of n) = send n" "await_receipt (with_receipts chain_of n) = await_receipt n"
    "call_allowance (with_receipts chain_of n) = call_allowance n"
    by (simp_all add: fun_eq_iff send_def with_receipts_def)
  then show ?thesis by (simp add: lock_def approve_exact_def send_and_wait_def)
qed

lemma depth_on_node:
  assumes u: "hosted chain_of accounts dps now u" and "chain_of p = c"
  shows "world v c = stage t [m] \<Longrightarrow>
      confirmations_of (with_receipts chain_of (out_net u)) p (fill 1) v = (Inr 1, v)"
    and "world v c = late_stage t t' [m] [] \<Longrightarrow>
      confirmations_of (with_receipts chain_of (out_net u)) p (fill 1) v = (Inr 2, v)"
  using assms(2)
  by (simp_all add: confirmations_of_def with_receipts_def eff_simps hostedD [OF u] honest_net_def Let_def
      world_idle stage_def late_stage_def others_mine_def confirmations_def saturating_sub_def)

lemma confirm_tests_pass:
  assumes u: "hosted chain_of accounts dps now u"
    and n: "local_nodes cl chain_of accounts endpoint url k0"
    and c: "test_chain (dps c) t now (key_address cl k0)" and v: "world v c = stage t []"
  shows "passes (depth_of_my_tx_matches_piece2_convention (u\<lparr>out_net := with_receipts chain_of (out_net u)\<rparr>) cl
      (dps c) c (endpoint c)) v"
    "passes (unknown_tx_has_zero_confirmations (u\<lparr>out_net := with_receipts chain_of (out_net u)\<rparr>) cl (endpoint c)) v"
proof -
  have same: "get_chain_id (with_receipts chain_of (out_net u)) = get_chain_id (out_net u)"
    "clock_now (with_receipts chain_of (out_net u)) = clock_now (out_net u)"
    by (simp_all add: with_receipts_def)
  show "passes (depth_of_my_tx_matches_piece2_convention (u\<lparr>out_net := with_receipts chain_of (out_net u)\<rparr>) cl
      (dps c) c (endpoint c)) v"
    using v
    by (simp add: depth_of_my_tx_matches_piece2_convention_def test_defs local_nodesD [OF n] test_node [OF u n c]
      same with_receipts_lock lock_on_node [OF u] depth_on_node [OF u] is_confirmed_def word_le_nat_alt)
  show "passes (unknown_tx_has_zero_confirmations (u\<lparr>out_net := with_receipts chain_of (out_net u)\<rparr>) cl (endpoint c)) v"
    by (simp add: unknown_tx_has_zero_confirmations_def test_defs local_nodesD [OF n] is_confirmed_def
      confirmations_of_def with_receipts_def)
qed

end
