(* ===== verification/Kael_Tests_Swap.thy ===== *)
theory Kael_Tests_Swap
  imports Kael_Tests_Node
begin

section \<open>The swap tests of the executor, run on the model\<close>

text \<open>
  The tests of \<open>swapkit/src/exec/mod.rs\<close> with two Anvil nodes, on the two chains of \<open>hosted\<close>: a whole
  swap; a counterparty leg that a reorganisation removes after it was confirmed; and a refund that
  the clock drives. The executors share the environment, so a step runs in the one that the last
  left; \<open>FakeClock::set\<close> replaces the clock of the node; a snapshot is the state of a chain.
\<close>

subsection \<open>Fixtures\<close>

definition ANVIL_KEY1 :: string where
  "ANVIL_KEY1 = ''59c6995e998f97a5a0044966f0945389dc9e86dae88c7a8412f4603b6b78690d''"

definition set_clock :: "('p, 'w, 'sig, 'rid, 'vk, 'sk) outside \<Rightarrow> u64 \<Rightarrow>
    ('p, 'w, 'sig, 'rid, 'vk, 'sk) outside" where
  "set_clock u now = u\<lparr>out_net := (out_net u)\<lparr>clock_now := \<lambda>w. (now, w)\<rparr>\<rparr>"

definition test_ctx :: "Role \<Rightarrow> address \<Rightarrow> address \<Rightarrow> b32 option \<Rightarrow> b32 \<Rightarrow> u64 \<Rightarrow> SwapContext" where
  "test_ctx role me cp secret hashlock now =
     \<lparr>ctx_role = role, my_token = 0, my_amount = (if role = Taker then 1000 else 500),
      my_timelock = now + (if role = Taker then 7200 else 3600), my_recipient = cp, cp_token = 0,
      cp_amount = (if role = Taker then 500 else 1000), ctx_me = me, min_gap = 1800,
      ctx_hashlock = Some hashlock, ctx_secret = secret, my_leg_locked = False,
      counterparty_lock = None, revealed_secret = None, ctx_now = now\<rparr>"

definition deploy_htlc ::
  "('p, 'w) net \<Rightarrow> ('u, 'k, 'p) clients \<Rightarrow> deployment \<Rightarrow> string \<Rightarrow> string \<Rightarrow>
     (('p, 'w) env, unit, address \<times> u64) eff" where
  "deploy_htlc n cl dp rpc_url key =
     bindE (wallet_provider cl key rpc_url) (\<lambda>(provider, _).
     bindE (unwrap (rpc (get_chain_id n provider))) (\<lambda>chain_id.
     ret (dp_htlc dp, chain_id)))"

record ExecutorFixture =
  fx_state :: SwapState
  fx_ctx :: SwapContext
  fx_own_key :: string
  fx_cp_key :: string
  fx_own_rpc :: string
  fx_cp_rpc :: string
  fx_own_htlc :: address
  fx_cp_htlc :: address
  fx_own_chain_id :: u64
  fx_cp_chain_id :: u64

definition test_executor ::
  "('p, 'w) net \<Rightarrow> ('u, 'k, 'p) clients \<Rightarrow> ExecutorFixture \<Rightarrow>
     (('p, 'w) env, unit, ('p, 'w) WalletExecutor) eff" where
  "test_executor n cl fx =
     bindE (unwrap (from_key_str n cl (fx_own_key fx) (fx_own_rpc fx))) (\<lambda>own_signer.
     bindE (unwrap (from_key_str n cl (fx_own_key fx) (fx_cp_rpc fx))) (\<lambda>counterparty_signer.
     bindE (unwrap (from_key_str n cl (fx_cp_key fx) (fx_cp_rpc fx))) (\<lambda>_.
     bindE (unwrap (of_result (rpc_observer cl (fx_own_rpc fx) (fx_own_htlc fx) (fx_own_chain_id fx))))
       (\<lambda>own_observer.
     bindE (unwrap (of_result (rpc_observer cl (fx_cp_rpc fx) (fx_cp_htlc fx) (fx_cp_chain_id fx))))
       (\<lambda>counterparty_observer.
     gets (executor_new
       \<lparr>cf_state = fx_state fx, cf_ctx = fx_ctx fx, cf_own_signer = own_signer,
        cf_cp_signer = counterparty_signer, cf_own_htlc = fx_own_htlc fx,
        cf_cp_htlc = fx_cp_htlc fx, cf_settlement = None, cf_own_observer = own_observer,
        cf_cp_observer = counterparty_observer, cf_min_confirmations = 1\<rparr>))))))"

definition take_step ::
  "('p, 'w, 'sig, 'rid, 'vk, 'sk) outside \<Rightarrow> ('p, 'w) WalletExecutor \<Rightarrow>
     (('p, 'w) env, unit, StepOutcome \<times> ('p, 'w) WalletExecutor) eff" where
  "take_step u x v =
     (case step u (x\<lparr>x_env := v\<rparr>) of
        (Inl _, x') \<Rightarrow> (Inl (), x_env x')
      | (Inr r, x') \<Rightarrow> (Inr (r, x'), x_env x'))"

definition locked_my_leg :: "StepOutcome \<Rightarrow> bool" where
  "locked_my_leg r \<longleftrightarrow> (case r of S_LockedMyLeg _ \<Rightarrow> True | _ \<Rightarrow> False)"

subsection \<open>The tests\<close>

definition local_two_party_htlc_swap_e2e_wallet_driven ::
  "('p, bool \<Rightarrow> served, 'sig, 'rid, 'vk, 'sk) outside \<Rightarrow> ('u, 'k, 'p) clients \<Rightarrow>
     (bool \<Rightarrow> deployment) \<Rightarrow> (bool \<Rightarrow> string) \<Rightarrow> (('p, bool \<Rightarrow> served) env, unit, unit) eff" where
  "local_two_party_htlc_swap_e2e_wallet_driven u cl dps endpoint =
     (let n = out_net u; rpc_a = endpoint False; rpc_b = endpoint True in
      bindE (deploy_htlc n cl (dps False) rpc_a ANVIL_KEY0) (\<lambda>(htlc_a, chain_a).
      bindE (deploy_htlc n cl (dps True) rpc_b ANVIL_KEY1) (\<lambda>(htlc_b, chain_b).
      bindE (unwrap (from_key_str n cl ANVIL_KEY0 rpc_a)) (\<lambda>taker_a.
      bindE (unwrap (from_key_str n cl ANVIL_KEY1 rpc_b)) (\<lambda>maker_b.
      bindE (now_unix n) (\<lambda>now.
      let taker = sg_address taker_a; maker = sg_address maker_b; secret = fill 0x42;
          hashlock = hashlock_from_preimage (out_sha u) secret;
          taker_ctx = test_ctx Taker taker maker (Some secret) hashlock now;
          maker_ctx = test_ctx Maker maker taker None hashlock now
      in
        bindE (test_executor n cl
          \<lparr>fx_state = SecretGenerated, fx_ctx = taker_ctx, fx_own_key = ANVIL_KEY0,
           fx_cp_key = ANVIL_KEY1, fx_own_rpc = rpc_a, fx_cp_rpc = rpc_b, fx_own_htlc = htlc_a,
           fx_cp_htlc = htlc_b, fx_own_chain_id = chain_a, fx_cp_chain_id = chain_b\<rparr>) (\<lambda>taker_exec.
        bindE (test_executor n cl
          \<lparr>fx_state = Start, fx_ctx = maker_ctx, fx_own_key = ANVIL_KEY1,
           fx_cp_key = ANVIL_KEY0, fx_own_rpc = rpc_b, fx_cp_rpc = rpc_a, fx_own_htlc = htlc_b,
           fx_cp_htlc = htlc_a, fx_own_chain_id = chain_b, fx_cp_chain_id = chain_a\<rparr>) (\<lambda>maker_exec.
        bindE (take_step u taker_exec) (\<lambda>(r, taker_exec).
        thenE (assert_that (locked_my_leg r))
       (thenE (assert_that (x_state taker_exec = MyLegLocked))
       (bindE (take_step u maker_exec) (\<lambda>(r, maker_exec).
        thenE (assert_that (locked_my_leg r))
       (thenE (assert_that (x_state maker_exec = WaitingForSecret))
       (bindE (take_step u taker_exec) (\<lambda>(r, taker_exec).
        thenE (assert_that (r = S_RedeemedCounterpartyLeg))
       (thenE (assert_that (x_state taker_exec = CounterpartyRedeemed))
       (bindE (take_step u maker_exec) (\<lambda>(r, maker_exec).
        thenE (assert_that (r = S_RedeemedCounterpartyLeg))
       (thenE (assert_that (x_state maker_exec = CounterpartyRedeemed))
       (bindE (unwrap (of_result (rpc_verifier_new cl rpc_a))) (\<lambda>verify_a.
        bindE (unwrap (of_result (rpc_verifier_new cl rpc_b))) (\<lambda>verify_b.
        bindE (of_result (ok_or () (x_own_contract_id taker_exec))) (\<lambda>taker_id.
        bindE (unwrap (rpc_observe_lock n verify_a htlc_a taker_id 1)) (\<lambda>seen.
        thenE (assert_that (seen = Absent))
       (bindE (of_result (ok_or () (x_own_contract_id maker_exec))) (\<lambda>maker_id.
        bindE (unwrap (rpc_observe_lock n verify_b htlc_b maker_id 1)) (\<lambda>seen.
        thenE (assert_that (seen = Absent))
        (assert_that (revealed_secret (x_ctx maker_exec) = Some secret)))))))))))))))))))))))))))))"

definition evm_snapshot :: "bool \<Rightarrow> (('p, bool \<Rightarrow> served) env, unit, served) eff" where
  "evm_snapshot c = gets (\<lambda>v. world v c)"

definition evm_revert :: "bool \<Rightarrow> served \<Rightarrow> (('p, bool \<Rightarrow> served) env, unit, unit) eff" where
  "evm_revert c snapshot = modify (\<lambda>v. v\<lparr>world := (world v)(c := snapshot)\<rparr>)"

definition reorg_rollback_removes_confirmed_counterparty_leg_without_secret_leak ::
  "('p, bool \<Rightarrow> served, 'sig, 'rid, 'vk, 'sk) outside \<Rightarrow> ('u, 'k, 'p) clients \<Rightarrow>
     (bool \<Rightarrow> deployment) \<Rightarrow> (bool \<Rightarrow> string) \<Rightarrow> (('p, bool \<Rightarrow> served) env, unit, unit) eff" where
  "reorg_rollback_removes_confirmed_counterparty_leg_without_secret_leak u cl dps endpoint =
     (let n = out_net u; rpc_a = endpoint False; rpc_b = endpoint True in
      bindE (deploy_htlc n cl (dps False) rpc_a ANVIL_KEY0) (\<lambda>(htlc_a, chain_a).
      bindE (deploy_htlc n cl (dps True) rpc_b ANVIL_KEY1) (\<lambda>(htlc_b, chain_b).
      bindE (unwrap (from_key_str n cl ANVIL_KEY0 rpc_a)) (\<lambda>taker_a.
      bindE (unwrap (from_key_str n cl ANVIL_KEY1 rpc_b)) (\<lambda>maker_b.
      bindE (now_unix n) (\<lambda>now.
      let secret = fill 0x33; hashlock = hashlock_from_preimage (out_sha u) secret;
          taker_ctx = test_ctx Taker (sg_address taker_a) (sg_address maker_b) (Some secret) hashlock now
      in
        bindE (test_executor n cl
          \<lparr>fx_state = SecretGenerated, fx_ctx = taker_ctx, fx_own_key = ANVIL_KEY0,
           fx_cp_key = ANVIL_KEY1, fx_own_rpc = rpc_a, fx_cp_rpc = rpc_b, fx_own_htlc = htlc_a,
           fx_cp_htlc = htlc_b, fx_own_chain_id = chain_a, fx_cp_chain_id = chain_b\<rparr>) (\<lambda>taker_exec.
        bindE (take_step u taker_exec) (\<lambda>(r, taker_exec).
        thenE (assert_that (locked_my_leg r))
       (thenE (assert_that (x_state taker_exec = MyLegLocked))
       (bindE (evm_snapshot True) (\<lambda>snapshot.
        bindE (unwrap (lock n (out_crates u) (out_keccak u) maker_b htlc_b (sg_address taker_a) 0 500 hashlock
                         (now + 3600))) (\<lambda>maker_lock.
        bindE (unwrap (of_result (rpc_verifier_new cl rpc_b))) (\<lambda>verifier_b.
        bindE (unwrap (rpc_observe_lock n verifier_b htlc_b (lk_contract_id maker_lock) 1)) (\<lambda>seen.
        thenE (assert_that (is_confirmed_lock seen))
       (thenE (evm_revert True snapshot)
       (bindE (unwrap (rpc_observe_lock n verifier_b htlc_b (lk_contract_id maker_lock) 1)) (\<lambda>seen.
        thenE (assert_that (seen = Absent))
       (bindE (take_step u taker_exec) (\<lambda>(r, taker_exec).
        thenE (assert_that (r = S_Waiting))
       (thenE (assert_that (x_state taker_exec = MyLegLocked))
       (thenE (assert_that (revealed_secret (x_ctx taker_exec) = None))
       (thenE (assert_that (x_cp_contract_id taker_exec = None))
       (thenE (evm_mine False (ucast (now + 7201)))
       (bindE (take_step (set_clock u (now + 7201)) taker_exec) (\<lambda>(r, taker_exec).
        thenE (assert_that (r = S_RefundedMyLeg))
       (thenE (assert_that (x_state taker_exec = Refunded))
       (bindE (of_result (ok_or () (x_own_contract_id taker_exec))) (\<lambda>own_id.
        bindE (unwrap (of_result (rpc_verifier_new cl rpc_a))) (\<lambda>verifier_a.
        bindE (unwrap (rpc_observe_lock n verifier_a htlc_a own_id 1)) (\<lambda>seen.
        assert_that (seen = Absent)))))))))))))))))))))))))))))))"

definition fake_clock_expiry_drives_refund_without_real_sleep ::
  "('p, bool \<Rightarrow> served, 'sig, 'rid, 'vk, 'sk) outside \<Rightarrow> ('u, 'k, 'p) clients \<Rightarrow>
     (bool \<Rightarrow> deployment) \<Rightarrow> (bool \<Rightarrow> string) \<Rightarrow> (('p, bool \<Rightarrow> served) env, unit, unit) eff" where
  "fake_clock_expiry_drives_refund_without_real_sleep u cl dps endpoint =
     (let n = out_net u; rpc_a = endpoint False; rpc_b = endpoint True in
      bindE (deploy_htlc n cl (dps False) rpc_a ANVIL_KEY0) (\<lambda>(htlc_a, chain_a).
      bindE (deploy_htlc n cl (dps True) rpc_b ANVIL_KEY1) (\<lambda>(htlc_b, chain_b).
      bindE (unwrap (from_key_str n cl ANVIL_KEY0 rpc_a)) (\<lambda>taker_a.
      bindE (unwrap (from_key_str n cl ANVIL_KEY1 rpc_b)) (\<lambda>maker_b.
      bindE (now_unix n) (\<lambda>now.
      let secret = fill 0x24; hashlock = hashlock_from_preimage (out_sha u) secret;
          taker_ctx = (test_ctx Taker (sg_address taker_a) (sg_address maker_b) (Some secret) hashlock now)
            \<lparr>my_timelock := now + 30\<rparr>
      in
        bindE (test_executor n cl
          \<lparr>fx_state = SecretGenerated, fx_ctx = taker_ctx, fx_own_key = ANVIL_KEY0,
           fx_cp_key = ANVIL_KEY1, fx_own_rpc = rpc_a, fx_cp_rpc = rpc_b, fx_own_htlc = htlc_a,
           fx_cp_htlc = htlc_b, fx_own_chain_id = chain_a, fx_cp_chain_id = chain_b\<rparr>) (\<lambda>taker_exec.
        bindE (take_step u taker_exec) (\<lambda>(r, taker_exec).
        thenE (assert_that (locked_my_leg r))
       (bindE (take_step u taker_exec) (\<lambda>(r, taker_exec).
        thenE (assert_that (r = S_Waiting))
       (thenE (evm_mine False (ucast (now + 31)))
       (bindE (take_step (set_clock u (now + 31)) taker_exec) (\<lambda>(r, taker_exec).
        thenE (assert_that (r = S_RefundedMyLeg))
        (assert_that (x_state taker_exec = Refunded)))))))))))))))"

subsection \<open>What the tests start from\<close>

text \<open>Two chains with the contracts, neither clock ahead of the wall clock, and two accounts of their own.\<close>

definition two_chains :: "(bool \<Rightarrow> deployment) \<Rightarrow> u256 \<Rightarrow> u256 \<Rightarrow> u64 \<Rightarrow> address \<Rightarrow> address \<Rightarrow> bool" where
  "two_chains dps ta tb now taker maker \<longleftrightarrow>
     ta \<le> ucast now \<and> tb \<le> ucast now \<and> unat now + 10000 < 2 ^ 64 \<and>
     (\<forall>c. dp_chain_id (dps c) = 31337 \<and>
        {taker, maker} \<inter> {0, dp_htlc (dps c), dp_settlement (dps c)} = {})"

definition test_links :: "('u, 'k, 'p) clients \<Rightarrow> (bool \<Rightarrow> 'u) \<Rightarrow> 'k \<Rightarrow> bool \<Rightarrow> 'p links" where
  "test_links cl url k own =
     \<lparr>ln_own = connect_wallet cl k (url own), ln_cp = connect_wallet cl k (url (\<not> own)),
      ln_watch_own = connect_http cl (url own), ln_watch_cp = connect_http cl (url (\<not> own))\<rparr>"

lemma test_links_linked:
  "local_nodes cl chain_of accounts endpoint url k0 \<Longrightarrow>
     linked chain_of accounts own (key_address cl k) (test_links cl url k own)"
  by (simp add: linked_def test_links_def local_nodesD)

lemma key1_text: "strip_key ANVIL_KEY1 = ANVIL_KEY1"
  by (simp add: strip_key_def trim_def is_whitespace_def ANVIL_KEY1_def Let_def)

lemma two_chains_node:
  assumes "hosted chain_of accounts dps now u" and "local_nodes cl chain_of accounts endpoint url k0"
    and "two_chains dps ta tb now taker maker"
  shows "get_chain_id (out_net u) (connect_wallet cl k (url c)) w = (Inr 31337, w)"
    "clock_now (out_net u) w = (now, w)"
  using assms(3) by (simp_all add: hostedD [OF assms(1)] honest_net_def local_nodesD [OF assms(2)] two_chains_def)

definition fixture :: "(bool \<Rightarrow> deployment) \<Rightarrow> (bool \<Rightarrow> string) \<Rightarrow> bool \<Rightarrow> SwapState \<Rightarrow> SwapContext \<Rightarrow>
    string \<Rightarrow> string \<Rightarrow> ExecutorFixture" where
  "fixture dps endpoint own st ctx own_key cp_key =
     \<lparr>fx_state = st, fx_ctx = ctx, fx_own_key = own_key, fx_cp_key = cp_key,
      fx_own_rpc = endpoint own, fx_cp_rpc = endpoint (\<not> own), fx_own_htlc = dp_htlc (dps own),
      fx_cp_htlc = dp_htlc (dps (\<not> own)), fx_own_chain_id = 31337, fx_cp_chain_id = 31337\<rparr>"

lemma test_executor_party:
  assumes u: "hosted chain_of accounts dps now u"
    and n: "local_nodes cl chain_of accounts endpoint url k0" "parse_key cl ANVIL_KEY1 = Inr k1"
    and c: "two_chains dps ta tb now taker maker"
    and k: "own_key = ANVIL_KEY0 \<and> cp_key = ANVIL_KEY1 \<and> k = k0 \<or>
      own_key = ANVIL_KEY1 \<and> cp_key = ANVIL_KEY0 \<and> k = k1"
    and me: "ctx_me ctx = key_address cl k"
  shows "test_executor (out_net u) cl (fixture dps endpoint own st ctx own_key cp_key) v =
    (Inr (executor_new (party dps (\<lambda>_. 31337) None (test_links cl url k own) own st ctx) v), v)"
  using k
  by (elim disjE)
    (simp_all add: test_executor_def fixture_def test_defs key1_text n local_nodesD [OF n(1)]
      two_chains_node [OF u n(1) c] rpc_observer_def party_def test_links_def me)

lemma deploy_htlc_there:
  assumes u: "hosted chain_of accounts dps now u"
    and n: "local_nodes cl chain_of accounts endpoint url k0" and c: "two_chains dps ta tb now taker maker"
    and "parse_key cl key = Inr k"
  shows "deploy_htlc (out_net u) cl dp (endpoint b) key v = (Inr (dp_htlc dp, 31337), v)"
  using assms(4)
  by (simp add: deploy_htlc_def test_defs local_nodesD [OF n] two_chains_node [OF u n c])

lemma take_step_Inr:
  "step u (x\<lparr>x_env := v\<rparr>) = (Inr r, x') \<Longrightarrow> take_step u x v = (Inr (r, x'), x_env x')"
  by (simp add: take_step_def)

lemma test_counterparts:
  assumes "unat now + 10000 < 2 ^ 64"
  shows "counterparts (test_ctx Taker taker maker s h now) (test_ctx Maker maker taker s' h now) h now"
proof -
  have later: "unat (now + 3600) = unat now + 3600" "unat (now + 7200) = unat now + 7200"
    using assms by (simp_all add: unat_word_ariths)
  have "verify_counterparty_leg (expectation ((test_ctx Taker taker maker s h now)\<lparr>ctx_now := now\<rparr>))
      (leg_of (test_ctx Maker maker taker s' h now) h maker) = Safe"
    "verify_counterparty_leg (expectation ((test_ctx Maker maker taker s' h now)\<lparr>ctx_now := now\<rparr>))
      (leg_of (test_ctx Taker taker maker s h now) h taker) = Safe"
    by (rule verify_SafeI; use later in \<open>simp add: expectation_def leg_of_def test_ctx_def\<close>)+
  then show ?thesis by (simp add: counterparts_def) (simp add: test_ctx_def)
qed

lemma test_pledgeable:
  assumes "two_chains dps ta tb now taker maker" and "h \<noteq> 0"
  shows "pledgeable (dps False) ta h (leg_pledge u None (test_ctx Taker taker maker s h' now))"
    "pledgeable (dps True) tb h (leg_pledge u None (test_ctx Maker maker taker s h' now))"
  using assms later [of ta now 7200] later [of tb now 3600]
  by (auto simp: pledgeable_def order_settles_def two_chains_def leg_pledge_def test_ctx_def)

lemmas swap_test_defs = passes_def assert_that_def eff_simps Let_def unwrap_def from_key_str_def key_text key1_text
  now_unix_def hashlock_from_preimage_def assert_chain_allowed_def ALLOWED_TEST_CHAINS_def locked_my_leg_def
  rpc_verifier_new_def evm_mine_def evm_snapshot_def evm_revert_def is_confirmed_lock_def

subsection \<open>The swap\<close>

lemma local_two_party_htlc_swap_e2e_wallet_driven_passes:
  assumes u: "hosted chain_of accounts dps now u"
    and n: "local_nodes cl chain_of accounts endpoint url k0" "parse_key cl ANVIL_KEY1 = Inr k1"
    and c: "two_chains dps ta tb now (key_address cl k0) (key_address cl k1)"
    and h: "hashlock_from_preimage (out_sha u) (fill 0x42) \<noteq> 0"
    and v: "world v = both (stage ta []) (stage tb [])"
  shows "passes (local_two_party_htlc_swap_e2e_wallet_driven u cl dps endpoint) v"
proof -
  let ?s = "fill 0x42 :: b32"
  let ?h = "out_sha u (bytes_of ?s)"
  let ?ct = "test_ctx Taker (key_address cl k0) (key_address cl k1) (Some ?s) ?h now"
    and ?cm = "test_ctx Maker (key_address cl k1) (key_address cl k0) None ?h now"
  let ?ct_cid = "pledge_cid (dps False) ?h (leg_pledge u None ?ct)"
    and ?cm_cid = "pledge_cid (dps True) ?h (leg_pledge u None ?cm)"
  let ?t0 = "executor_new (party dps (\<lambda>_. 31337) None (test_links cl url k0 False) False SecretGenerated ?ct)"
    and ?m0 = "executor_new (party dps (\<lambda>_. 31337) None (test_links cl url k1 True) True Start ?cm)"
  have me: "ctx_me ?ct = key_address cl k0" "ctx_me ?cm = key_address cl k1" "ctx_secret ?ct = Some ?s"
    by (simp_all add: test_ctx_def)
  have cs: "counterparts ?ct ?cm ?h now"
    by (rule test_counterparts) (use c in \<open>simp add: two_chains_def\<close>)
  have l: "pledgeable (dps False) ta ?h (leg_pledge u None ?ct)" "pledgeable (dps True) tb ?h (leg_pledge u None ?cm)"
    by (rule test_pledgeable [OF c]; use h in \<open>simp add: hashlock_from_preimage_def\<close>)+
  have links: "linked chain_of accounts False (ctx_me ?ct) (test_links cl url k0 False)"
    "linked chain_of accounts True (ctx_me ?cm) (test_links cl url k1 True)"
    unfolding me by (rule test_links_linked [OF n(1)])+
  have no: "can_settle dp u None ctx" for dp ctx by (simp add: can_settle_def)
  obtain t1 m1 v1 v2 t m where run:
    "\<And>w. step u ((?t0 w)\<lparr>x_env := v\<rparr>) = (Inr (S_LockedMyLeg ?ct_cid), t1)" "x_env t1 = v1"
    "x_state t1 = MyLegLocked"
    "\<And>w. step u ((?m0 w)\<lparr>x_env := v1\<rparr>) = (Inr (S_LockedMyLeg ?cm_cid), m1)" "x_env m1 = v2"
    "x_state m1 = WaitingForSecret"
    "step u (t1\<lparr>x_env := v2\<rparr>) = (Inr S_RedeemedCounterpartyLeg, t)" "x_state t = CounterpartyRedeemed"
    "x_own_contract_id t = Some ?ct_cid"
    "step u (m1\<lparr>x_env := x_env t\<rparr>) = (Inr S_RedeemedCounterpartyLeg, m)" "x_state m = CounterpartyRedeemed"
    "x_own_contract_id m = Some ?cm_cid" "revealed_secret (x_ctx m) = Some ?s"
    and w: "world (x_env m) = both
      (stage ta [pledge_lock ?h (leg_pledge u None ?ct), pledge_redeem (dps False) ?h ?s (leg_pledge u None ?ct)])
      (stage tb [pledge_lock ?h (leg_pledge u None ?cm), pledge_redeem (dps True) ?h ?s (leg_pledge u None ?cm)])"
    by (rule swap_steps [OF u cs links l no no me(3) refl v, where ids = "\<lambda>_. 31337"]) (rule that)
  note steps = take_step_Inr [OF run(1)] take_step_Inr [OF run(4)] take_step_Inr [OF run(7)] take_step_Inr [OF run(10)]
  have gone: "rpc_observe_lock (out_net u) \<lparr>rv_provider = connect_http cl (url False)\<rparr> (dp_htlc (dps False)) ?ct_cid 1
      (x_env m) = (Inr Absent, x_env m)"
    "rpc_observe_lock (out_net u) \<lparr>rv_provider = connect_http cl (url True)\<rparr> (dp_htlc (dps True)) ?cm_cid 1
      (x_env m) = (Inr Absent, x_env m)"
    using observe_redeemed_on_node [OF u _ l(1)] observe_redeemed_on_node [OF u _ l(2)]
    by (simp_all add: local_nodesD [OF n(1)] w)
  have built: "test_executor (out_net u) cl (fixture dps endpoint False SecretGenerated ?ct ANVIL_KEY0 ANVIL_KEY1) w =
      (Inr (?t0 w), w)"
    "test_executor (out_net u) cl (fixture dps endpoint True Start ?cm ANVIL_KEY1 ANVIL_KEY0) w = (Inr (?m0 w), w)" for w
    by (rule test_executor_party [OF u n c]; simp add: me)+
  note built = built [unfolded fixture_def, simplified]
  show ?thesis
    using run(2,3,5,6,8,9,11-13) gone
    by (simp add: steps local_two_party_htlc_swap_e2e_wallet_driven_def swap_test_defs built n(2)
      deploy_htlc_there [OF u n(1) c] local_nodesD [OF n(1)] two_chains_node [OF u n(1) c])
qed

subsection \<open>A taker whose counterparty never locks\<close>

definition taker_terms :: "SwapContext \<Rightarrow> b32 \<Rightarrow> bool" where
  "taker_terms c h \<longleftrightarrow> ctx_role c = Taker \<and> ctx_hashlock c = Some h \<and> my_token c = 0"

text \<open>The leg that it locks, and the wallet after it looked once more.\<close>

definition taker_leg :: "SwapContext \<Rightarrow> pledge" where
  "taker_leg c = plain (ctx_me c) (my_recipient c) (my_amount c) (my_timelock c)"

definition taker_waiting :: "(bool \<Rightarrow> deployment) \<Rightarrow> 'p links \<Rightarrow> SwapContext \<Rightarrow> b32 \<Rightarrow> u64 \<Rightarrow>
    ('p, bool \<Rightarrow> served) env \<Rightarrow> ('p, bool \<Rightarrow> served) WalletExecutor" where
  "taker_waiting dps ln ct h now v =
     (let cid = pledge_cid (dps False) h (taker_leg ct);
          x = taker_locked dps (\<lambda>_. 31337) None ln ct now cid v in
      x\<lparr>x_own_observer := (x_own_observer x)
          \<lparr>co_tracker := snd (on_new_swap 31337 cid h (my_timelock ct) (my_amount ct) tracker_new),
           co_next_block := 2\<rparr>\<rparr>)"

lemma taker_leg_fields [simp]:
  "pd_from (taker_leg c) = ctx_me c" "pd_to (taker_leg c) = my_recipient c"
  "pd_amount (taker_leg c) = my_amount c" "pd_until (taker_leg c) = my_timelock c"
  "pd_order (taker_leg c) = None" "pledge_sender dp (taker_leg c) = ctx_me c"
  by (simp_all add: taker_leg_def)

lemma taker_leg_pledge: "leg_pledge u None c = taker_leg c"
  by (simp add: leg_pledge_def taker_leg_def plain_def)

lemma lone_taker_locks:
  assumes u: "hosted chain_of accounts dps now u" and c: "taker_terms ct h"
    and n: "linked chain_of accounts False (ctx_me ct) ln"
    and l: "pledgeable (dps False) ta h (taker_leg ct)"
    and v: "world v = both (stage ta []) (stage tb [])"
  shows "\<exists>v'. step u (executor_new (party dps ids None ln False SecretGenerated ct) v) =
      (Inr (S_LockedMyLeg (pledge_cid (dps False) h (taker_leg ct))),
       taker_locked dps ids None ln ct now (pledge_cid (dps False) h (taker_leg ct)) v') \<and>
    world v' = both (stage ta [pledge_lock h (taker_leg ct)]) (stage tb [])"
  using v pledgeableD [OF l [folded taker_leg_pledge [of u]]] c
  by (cases v) (simp add: swap_run_defs hostedD [OF u] linkedD [OF n] taker_terms_def,
    simp add: sent_defs hostedD [OF u] linkedD [OF n] taker_leg_def plain_def)

lemma lone_taker_waits:
  assumes u: "hosted chain_of accounts dps now u" and c: "taker_terms ct h" "now < my_timelock ct" "revealed_secret ct = None"
    and n: "linked chain_of accounts False (ctx_me ct) ln"
    and l: "pledgeable (dps False) ta h (taker_leg ct)"
    and v: "world v = both (stage ta [pledge_lock h (taker_leg ct)]) (stage tb [])"
  shows "step u (taker_locked dps (\<lambda>_. 31337) None ln ct now (pledge_cid (dps False) h (taker_leg ct)) v) =
      (Inr S_Waiting, taker_waiting dps ln ct h now v)"
  using v l c(1,3) c(2) [folded not_le]
  by (cases v) (simp add: swap_run_defs hostedD [OF u] linkedD [OF n] taker_terms_def taker_waiting_def)

lemma lone_taker_refunds:
  assumes u: "hosted chain_of accounts dps now' u" and c: "taker_terms ct h" "my_timelock ct \<le> now'"
    and n: "linked chain_of accounts False (ctx_me ct) ln"
    and l: "pledgeable (dps False) ta h (taker_leg ct)"
    and v: "world v = both (late_stage ta t' [pledge_lock h (taker_leg ct)] []) (stage tb [])"
  shows "\<exists>x. step u (taker_waiting dps ln ct h now v) = (Inr S_RefundedMyLeg, x) \<and>
    x_state x = Refunded \<and> x_own_contract_id x = Some (pledge_cid (dps False) h (taker_leg ct)) \<and>
    world (x_env x) = both (late_stage ta t' [pledge_lock h (taker_leg ct)]
      [pledge_refund (dps False) h (taker_leg ct)]) (stage tb [])"
proof -
  have "\<not> (2 :: u64) \<le> 1" by (simp add: word_le_nat_alt)
  then show ?thesis
    using v l c
    by (cases v) (simp add: swap_run_defs step_refund_def refund_def hostedD [OF u] linkedD [OF n] taker_terms_def
      taker_waiting_def late_stage_chain late_stage_logs pledge_refund_def)
qed

lemma set_clock_hosted:
  "hosted chain_of accounts dps now u \<Longrightarrow> hosted chain_of accounts dps now' (set_clock u now')"
  by (simp add: hosted_def set_clock_def honest_net_def)

text \<open>The run that both tests share: the taker locks, waits, and refunds once its timelock has passed.\<close>

lemma lone_taker_runs:
  assumes u: "hosted chain_of accounts dps now u" and c: "taker_terms ct h"
    and times: "now < my_timelock ct" "my_timelock ct \<le> now'" "revealed_secret ct = None"
    and n: "linked chain_of accounts False (ctx_me ct) ln"
    and l: "pledgeable (dps False) ta h (taker_leg ct)"
    and v: "world v = both (stage ta []) (stage tb [])"
  obtains x1 x2 v1 where
    "\<And>w. take_step u (executor_new (party dps (\<lambda>_. 31337) None ln False SecretGenerated ct) w) v =
      (Inr (S_LockedMyLeg (pledge_cid (dps False) h (taker_leg ct)), x1), v1)"
    and "x_state x1 = MyLegLocked"
    and "world v1 = both (stage ta [pledge_lock h (taker_leg ct)]) (stage tb [])"
    and "\<And>w. world w = world v1 \<Longrightarrow> take_step u x1 w = (Inr (S_Waiting, x2 w), w)"
    and "\<And>w. x_state (x2 w) = MyLegLocked \<and> revealed_secret (x_ctx (x2 w)) = None \<and> x_cp_contract_id (x2 w) = None"
    and "\<And>w w'. world w' = both (late_stage ta t' [pledge_lock h (taker_leg ct)] []) (stage tb []) \<Longrightarrow>
      \<exists>x. take_step (set_clock u now') (x2 w) w' = (Inr (S_RefundedMyLeg, x), x_env x) \<and>
        x_state x = Refunded \<and> x_own_contract_id x = Some (pledge_cid (dps False) h (taker_leg ct)) \<and>
        world (x_env x) = both (late_stage ta t' [pledge_lock h (taker_leg ct)]
          [pledge_refund (dps False) h (taker_leg ct)]) (stage tb [])"
proof -
  let ?x1 = "taker_locked dps (\<lambda>_. 31337) None ln ct now (pledge_cid (dps False) h (taker_leg ct))"
    and ?x2 = "taker_waiting dps ln ct h now"
  obtain v1 where 1: "step u (executor_new (party dps (\<lambda>_. 31337) None ln False SecretGenerated ct) v) =
      (Inr (S_LockedMyLeg (pledge_cid (dps False) h (taker_leg ct))), ?x1 v1)"
    and v1: "world v1 = both (stage ta [pledge_lock h (taker_leg ct)]) (stage tb [])"
    using lone_taker_locks [OF u c n l v, of "\<lambda>_. 31337"] by blast
  have env: "(?x2 w)\<lparr>x_env := w'\<rparr> = ?x2 w'" "x_env (?x2 w) = w" for w w'
    by (simp_all add: taker_waiting_def Let_def taker_locked_def executor_new_def party_def)
  show thesis
  proof
    show "take_step u (executor_new (party dps (\<lambda>_. 31337) None ln False SecretGenerated ct) w) v =
        (Inr (S_LockedMyLeg (pledge_cid (dps False) h (taker_leg ct)), ?x1 v1), v1)" for w
      by (simp add: take_step_def 1)
    show "take_step u (?x1 v1) w = (Inr (S_Waiting, ?x2 w), w)" if "world w = world v1" for w
      using lone_taker_waits [OF u c times(1,3) n l, of w] that v1 by (simp add: take_step_def env)
    show "\<exists>x. take_step (set_clock u now') (?x2 w) w' = (Inr (S_RefundedMyLeg, x), x_env x) \<and>
        x_state x = Refunded \<and> x_own_contract_id x = Some (pledge_cid (dps False) h (taker_leg ct)) \<and>
        world (x_env x) = both (late_stage ta t' [pledge_lock h (taker_leg ct)]
          [pledge_refund (dps False) h (taker_leg ct)]) (stage tb [])"
      if w': "world w' = both (late_stage ta t' [pledge_lock h (taker_leg ct)] []) (stage tb [])" for w w'
    proof -
      obtain x where "step (set_clock u now') (?x2 w') = (Inr S_RefundedMyLeg, x)" "x_state x = Refunded"
        "x_own_contract_id x = Some (pledge_cid (dps False) h (taker_leg ct))"
        "world (x_env x) = both (late_stage ta t' [pledge_lock h (taker_leg ct)]
          [pledge_refund (dps False) h (taker_leg ct)]) (stage tb [])"
        using lone_taker_refunds [OF set_clock_hosted [OF u] c times(2) n l w'] by blast
      then show ?thesis by (simp add: take_step_def env)
    qed
    show "x_state (?x2 w) = MyLegLocked \<and> revealed_secret (x_ctx (?x2 w)) = None \<and>
        x_cp_contract_id (?x2 w) = None" for w
      using times(3) by (simp add: taker_waiting_def Let_def taker_locked_def executor_new_def party_def)
  qed (simp_all add: v1)
qed

lemma fake_clock_expiry_drives_refund_without_real_sleep_passes:
  assumes u: "hosted chain_of accounts dps now u"
    and n: "local_nodes cl chain_of accounts endpoint url k0" "parse_key cl ANVIL_KEY1 = Inr k1"
    and c: "two_chains dps ta tb now (key_address cl k0) (key_address cl k1)"
    and h: "hashlock_from_preimage (out_sha u) (fill 0x24) \<noteq> 0"
    and v: "world v = both (stage ta []) (stage tb [])"
  shows "passes (fake_clock_expiry_drives_refund_without_real_sleep u cl dps endpoint) v"
proof -
  let ?s = "fill 0x24 :: b32"
  let ?h = "out_sha u (bytes_of ?s)"
  let ?ct = "(test_ctx Taker (key_address cl k0) (key_address cl k1) (Some ?s) ?h now)\<lparr>my_timelock := now + 30\<rparr>"
  let ?ln = "test_links cl url k0 False" and ?cid = "pledge_cid (dps False) ?h (taker_leg ?ct)"
    and ?late = "late_stage ta (ucast (now + 31)) [pledge_lock ?h (taker_leg ?ct)]"
  have me: "ctx_me ?ct = key_address cl k0" by (simp add: test_ctx_def)
  have later: "unat (now + 30) = unat now + 30" "unat (now + 31) = unat now + 31"
    using c by (simp_all add: two_chains_def unat_word_ariths)
  have terms: "taker_terms ?ct ?h" "now < my_timelock ?ct" "my_timelock ?ct \<le> now + 31" "revealed_secret ?ct = None"
    using later by (simp_all add: taker_terms_def word_less_nat_alt word_le_nat_alt) (simp_all add: test_ctx_def)
  have l: "pledgeable (dps False) ta ?h (taker_leg ?ct)"
    using c h later(1) Kael_Tests_Node.later [of ta now 30]
    by (auto simp: pledgeable_def order_settles_def two_chains_def hashlock_from_preimage_def test_ctx_def)
  have ln: "linked chain_of accounts False (ctx_me ?ct) ?ln"
    unfolding me by (rule test_links_linked [OF n(1)])
  obtain x1 x2 v1 where run:
    "\<And>w. take_step u (executor_new (party dps (\<lambda>_. 31337) None ?ln False SecretGenerated ?ct) w) v =
      (Inr (S_LockedMyLeg ?cid, x1), v1)"
    "x_state x1 = MyLegLocked"
    "world v1 = both (stage ta [pledge_lock ?h (taker_leg ?ct)]) (stage tb [])"
    "\<And>w. world w = world v1 \<Longrightarrow> take_step u x1 w = (Inr (S_Waiting, x2 w), w)"
    "\<And>w. x_state (x2 w) = MyLegLocked \<and> revealed_secret (x_ctx (x2 w)) = None \<and> x_cp_contract_id (x2 w) = None"
    and last: "\<And>w w'. world w' = both (?late []) (stage tb []) \<Longrightarrow>
      \<exists>x. take_step (set_clock u (now + 31)) (x2 w) w' = (Inr (S_RefundedMyLeg, x), x_env x) \<and>
        x_state x = Refunded \<and> x_own_contract_id x = Some ?cid \<and>
        world (x_env x) = both (?late [pledge_refund (dps False) ?h (taker_leg ?ct)]) (stage tb [])"
    by (rule lone_taker_runs [OF u terms ln l v, where t' = "ucast (now + 31)"]) (rule that)
  let ?v2 = "v1\<lparr>world := both (?late []) (stage tb [])\<rparr>"
  obtain x where x: "take_step (set_clock u (now + 31)) (x2 v1) ?v2 = (Inr (S_RefundedMyLeg, x), x_env x)"
    "x_state x = Refunded"
    using last [of ?v2 v1] by auto
  have built: "test_executor (out_net u) cl (fixture dps endpoint False SecretGenerated ?ct ANVIL_KEY0 ANVIL_KEY1) w =
      (Inr (executor_new (party dps (\<lambda>_. 31337) None ?ln False SecretGenerated ?ct) w), w)" for w
    by (rule test_executor_party [OF u n c]; simp add: me)
  note built = built [unfolded fixture_def, simplified]
  show ?thesis
    using run x
    by (simp add: fake_clock_expiry_drives_refund_without_real_sleep_def swap_test_defs built n(2)
      deploy_htlc_there [OF u n(1) c] local_nodesD [OF n(1)] two_chains_node [OF u n(1) c])
qed

lemma observe_empty_on_node:
  assumes u: "hosted chain_of accounts dps now u"
    and "chain_of (rv_provider rv) = c" and "world v c = stage t []"
  shows "rpc_observe_lock (out_net u) rv (dp_htlc (dps c)) cid m v = (Inr Absent, v)"
  using assms
  by (simp add: exec_defs eff_simps Let_def hostedD [OF u] honest_net_def quiet_net_def stage_chain deployed_def)

lemma reorg_rollback_removes_confirmed_counterparty_leg_without_secret_leak_passes:
  assumes u: "hosted chain_of accounts dps now u"
    and n: "local_nodes cl chain_of accounts endpoint url k0" "parse_key cl ANVIL_KEY1 = Inr k1"
    and c: "two_chains dps ta tb now (key_address cl k0) (key_address cl k1)"
    and h: "hashlock_from_preimage (out_sha u) (fill 0x33) \<noteq> 0"
    and v: "world v = both (stage ta []) (stage tb [])"
  shows "passes (reorg_rollback_removes_confirmed_counterparty_leg_without_secret_leak u cl dps endpoint) v"
proof -
  let ?s = "fill 0x33 :: b32"
  let ?h = "out_sha u (bytes_of ?s)"
  let ?ct = "test_ctx Taker (key_address cl k0) (key_address cl k1) (Some ?s) ?h now"
  let ?ln = "test_links cl url k0 False" and ?cid = "pledge_cid (dps False) ?h (taker_leg ?ct)"
  let ?late = "late_stage ta (ucast (now + 7201)) [pledge_lock ?h (taker_leg ?ct)]"
    and ?pm = "plain (key_address cl k1) (key_address cl k0) 500 (now + 3600)"
  have me: "ctx_me ?ct = key_address cl k0" by (simp add: test_ctx_def)
  have later: "unat (now + 7200) = unat now + 7200" "unat (now + 7201) = unat now + 7201"
    using c by (simp_all add: two_chains_def unat_word_ariths)
  have terms: "taker_terms ?ct ?h" "now < my_timelock ?ct" "my_timelock ?ct \<le> now + 7201" "revealed_secret ?ct = None"
    by (simp_all add: taker_terms_def test_ctx_def word_less_nat_alt word_le_nat_alt later)
  have l: "pledgeable (dps False) ta ?h (taker_leg ?ct)" "pledgeable (dps True) tb ?h ?pm"
    using test_pledgeable(1) [OF c, of ?h u "Some ?s" ?h] h Kael_Tests_Node.later [of tb now 3600] c
    by (simp_all add: taker_leg_pledge hashlock_from_preimage_def)
      (auto simp: pledgeable_def order_settles_def two_chains_def)
  have ln: "linked chain_of accounts False (ctx_me ?ct) ?ln"
    unfolding me by (rule test_links_linked [OF n(1)])
  obtain x1 x2 v1 where run:
    "\<And>w. take_step u (executor_new (party dps (\<lambda>_. 31337) None ?ln False SecretGenerated ?ct) w) v =
      (Inr (S_LockedMyLeg ?cid, x1), v1)"
    "x_state x1 = MyLegLocked"
    "world v1 = both (stage ta [pledge_lock ?h (taker_leg ?ct)]) (stage tb [])"
    "\<And>w. world w = world v1 \<Longrightarrow> take_step u x1 w = (Inr (S_Waiting, x2 w), w)"
    "\<And>w. x_state (x2 w) = MyLegLocked \<and> revealed_secret (x_ctx (x2 w)) = None \<and> x_cp_contract_id (x2 w) = None"
    and last: "\<And>w w'. world w' = both (?late []) (stage tb []) \<Longrightarrow>
      \<exists>x. take_step (set_clock u (now + 7201)) (x2 w) w' = (Inr (S_RefundedMyLeg, x), x_env x) \<and>
        x_state x = Refunded \<and> x_own_contract_id x = Some ?cid \<and>
        world (x_env x) = both (?late [pledge_refund (dps False) ?h (taker_leg ?ct)]) (stage tb [])"
    by (rule lone_taker_runs [OF u terms ln l(1) v, where t' = "ucast (now + 7201)"]) (rule that)
  let ?v2 = "\<lparr>world = both (stage ta [pledge_lock ?h (taker_leg ?ct)]) (stage tb []), sent = sent v1 @
    [(connect_wallet cl k1 (url True), NewSwap (dp_htlc (dps True)) (key_address cl k0) 0 500 ?h (ucast (now + 3600)) 500)]\<rparr>"
  let ?v3 = "?v2\<lparr>world := both (?late []) (stage tb [])\<rparr>"
  obtain x where x: "take_step (set_clock u (now + 7201)) (x2 ?v2) ?v3 = (Inr (S_RefundedMyLeg, x), x_env x)"
    "x_state x = Refunded" "x_own_contract_id x = Some ?cid"
    "world (x_env x) = both (?late [pledge_refund (dps False) ?h (taker_leg ?ct)]) (stage tb [])"
    using last [of ?v3 ?v2] by auto
  have reached: "(ucast (my_timelock ?ct) :: u256) \<le> ucast (now + 7201)"
    using terms(3) by (simp add: word_le_nat_alt unat_ucast_u64)
  have gone: "rpc_observe_lock (out_net u) \<lparr>rv_provider = connect_http cl (url False)\<rparr> (dp_htlc (dps False)) ?cid 1
      (x_env x) = (Inr Absent, x_env x)"
    by (rule observe_refunded_on_node [OF u _ l(1)]) (use x(4) reached in \<open>simp_all add: local_nodesD [OF n(1)]\<close>)
  have built: "test_executor (out_net u) cl (fixture dps endpoint False SecretGenerated ?ct ANVIL_KEY0 ANVIL_KEY1) w =
      (Inr (executor_new (party dps (\<lambda>_. 31337) None ?ln False SecretGenerated ?ct) w), w)" for w
    by (rule test_executor_party [OF u n c]; simp add: me)
  note built = built [unfolded fixture_def, simplified]
  show ?thesis
    using run x gone l(2)
    by (simp add: reorg_rollback_removes_confirmed_counterparty_leg_without_secret_leak_def swap_test_defs built n(2)
      deploy_htlc_there [OF u n(1) c] local_nodesD [OF n(1)] two_chains_node [OF u n(1) c] lock_on_node [OF u]
      observe_on_node [OF u] observe_empty_on_node [OF u])
qed

subsection \<open>The tests on the demonstration chains\<close>

definition demo_clients :: "(bool, address, bool \<times> address) clients" where
  "demo_clients =
     \<lparr>parse_url = (\<lambda>s. if s = ''a'' then Inr False else if s = ''b'' then Inr True else Inl ''relative URL''),
      connect_http = (\<lambda>c. (c, 0)), connect_wallet = (\<lambda>k c. (c, k)),
      parse_key = (\<lambda>s. if s = ANVIL_KEY0 then Inr (fill 0xAA) else if s = ANVIL_KEY1 then Inr (fill 0xBB)
                       else Inl ''invalid key''),
      key_address = (\<lambda>k. k)\<rparr>"

definition demo_endpoint :: "bool \<Rightarrow> string" where
  "demo_endpoint c = (if c then ''b'' else ''a'')"

lemma demo_tests_start:
  "local_nodes demo_clients fst snd demo_endpoint (\<lambda>c. c) (fill 0xAA)"
  "parse_key demo_clients ANVIL_KEY1 = Inr (fill 0xBB)"
  "two_chains demo_dps 1 1 1000 (key_address demo_clients (fill 0xAA)) (key_address demo_clients (fill 0xBB))"
  by (simp_all add: local_nodes_def demo_clients_def demo_endpoint_def ANVIL_KEY0_def ANVIL_KEY1_def two_chains_def
      demo_dps_def demo_dp_def word_le_nat_alt)

lemma swap_tests_pass_on_demo:
  fixes v :: "(bool \<times> address, bool \<Rightarrow> served) env"
  assumes "v = \<lparr>world = both (stage 1 []) (stage 1 []), sent = []\<rparr>"
  shows "passes (local_two_party_htlc_swap_e2e_wallet_driven pair_world demo_clients demo_dps demo_endpoint) v"
    "passes (reorg_rollback_removes_confirmed_counterparty_leg_without_secret_leak pair_world demo_clients
       demo_dps demo_endpoint) v"
    "passes (fake_clock_expiry_drives_refund_without_real_sleep pair_world demo_clients demo_dps demo_endpoint) v"
  using assms
    local_two_party_htlc_swap_e2e_wallet_driven_passes [OF pair_hosted(1) demo_tests_start]
    reorg_rollback_removes_confirmed_counterparty_leg_without_secret_leak_passes [OF pair_hosted(1) demo_tests_start]
    fake_clock_expiry_drives_refund_without_real_sleep_passes [OF pair_hosted(1) demo_tests_start]
  by (simp_all add: hashlock_from_preimage_def pair_hosted(2) toy_hash_def)

end
