(* ===== verification/Kael_Token.thy ===== *)
theory Kael_Token
  imports Kael_Native_Leg
begin

section \<open>The contracts with a token\<close>

text \<open>
  An ERC-20 token with state, \<open>contracts/test/MockERC20.sol\<close>, beside the two contracts: the calls
  that each of their functions makes to the token (\<open>token_calls\<close>), in order, are answered from
  the token's ledger, and a transaction changes both or neither (\<open>token_tx\<close>). Anyone outside may
  use the token directly in between. The other callees of a transaction, recipients of ether
  and other tokens, answer what they like and do not call back.

  With it the guarantees for native coins carry over to tokens in terms of balances: the escrow
  holds what it owes (\<open>token_owed\<close>), and a locked leg is never stuck.
\<close>

subsection \<open>The token\<close>

record erc20 =
  totalSupply :: u256
  balanceOf :: "address \<Rightarrow> u256"
  allowance :: "address \<Rightarrow> address \<Rightarrow> u256"

datatype token_call =
    T_mint address u256
  | T_approve address u256
  | T_transfer address u256
  | T_transferFrom address address u256

text \<open>Solidity's \<open>+=\<close>: an overflow reverts.\<close>

definition checked_add :: "u256 \<Rightarrow> u256 \<Rightarrow> u256 option" where
  "checked_add a b = (if unat a + unat b < 2 ^ 256 then Some (a + b) else None)"

definition token_move :: "address \<Rightarrow> address \<Rightarrow> u256 \<Rightarrow> erc20 \<Rightarrow> erc20 option" where
  "token_move frm to amount l =
     (if balanceOf l frm < amount then None
      else
        let debited = (balanceOf l)(frm := balanceOf l frm - amount) in
        case checked_add (debited to) amount of
          None \<Rightarrow> None
        | Some credited \<Rightarrow> Some (l\<lparr>balanceOf := debited(to := credited)\<rparr>))"

fun token_step :: "address \<Rightarrow> token_call \<Rightarrow> erc20 \<Rightarrow> erc20 option" where
  "token_step sender (T_mint to amount) l =
     (case checked_add (balanceOf l to) amount of
        None \<Rightarrow> None
      | Some credited \<Rightarrow>
          (case checked_add (totalSupply l) amount of
             None \<Rightarrow> None
           | Some supply \<Rightarrow>
               Some (l\<lparr>balanceOf := (balanceOf l)(to := credited), totalSupply := supply\<rparr>)))"
| "token_step sender (T_approve spender amount) l =
     Some (l\<lparr>allowance := (allowance l)(sender := (allowance l sender)(spender := amount))\<rparr>)"
| "token_step sender (T_transfer to amount) l = token_move sender to amount l"
| "token_step sender (T_transferFrom frm to amount) l =
     (let allowed = allowance l frm sender in
      if allowed < amount then None
      else
        token_move frm to amount
          (if allowed \<noteq> - 1 then
             l\<lparr>allowance := (allowance l)(frm := (allowance l frm)(sender := allowed - amount))\<rparr>
           else l))"

definition new_token :: erc20 where
  "new_token = \<lparr>totalSupply = 0, balanceOf = (\<lambda>_. 0), allowance = (\<lambda>_ _. 0)\<rparr>"

lemma checked_add_Some:
  "checked_add a b = Some c \<longleftrightarrow> unat a + unat b < 2 ^ 256 \<and> c = a + b"
  by (auto simp: checked_add_def)

lemma checked_add_unat: "checked_add a b = Some c \<Longrightarrow> unat c = unat a + unat b"
  by (simp add: checked_add_Some unat_word_ariths(1))

text \<open>What a move does to the balances, as naturals.\<close>

definition moved :: "address \<Rightarrow> address \<Rightarrow> u256 \<Rightarrow> erc20 \<Rightarrow> erc20 \<Rightarrow> bool" where
  "moved frm to amount l l' \<longleftrightarrow>
     amount \<le> balanceOf l frm \<and> totalSupply l' = totalSupply l \<and>
     (\<forall>x. unat (balanceOf l' x) + (if x = frm then unat amount else 0) =
          unat (balanceOf l x) + (if x = to then unat amount else 0))"

lemma movedD:
  "moved frm to amount l l' \<Longrightarrow>
     unat (balanceOf l' x) + (if x = frm then unat amount else 0) =
     unat (balanceOf l x) + (if x = to then unat amount else 0)"
  by (simp add: moved_def)

lemma move_Some:
  assumes "token_move frm to amount l = Some l'"
  shows "moved frm to amount l l' \<and> allowance l' = allowance l"
proof -
  from assms obtain c where le: "amount \<le> balanceOf l frm"
    and c: "checked_add (((balanceOf l)(frm := balanceOf l frm - amount)) to) amount = Some c"
    and l': "l' = l\<lparr>balanceOf := (balanceOf l)(frm := balanceOf l frm - amount, to := c)\<rparr>"
    by (auto simp: token_move_def Let_def not_less split: if_splits option.splits)
  show ?thesis
    using le checked_add_unat [OF c]
    by (cases "frm = to") (simp_all add: moved_def l' word_le_nat_alt unat_sub)
qed

text \<open>The whole supply is what the accounts hold, so no credit ever overflows.\<close>

definition conserved :: "erc20 \<Rightarrow> bool" where
  "conserved l \<longleftrightarrow> (\<Sum>a\<in>UNIV. unat (balanceOf l a)) = unat (totalSupply l)"

lemma sum_upd:
  fixes f :: "'b \<Rightarrow> nat"
  shows "(\<Sum>a\<in>(UNIV :: 'a::finite set). f ((g(x := y)) a)) + f (g x) = (\<Sum>a\<in>UNIV. f (g a)) + f y"
  by (simp add: sum.remove [of UNIV x])

lemma moved_conserves:
  assumes "conserved l" and "moved frm to amount l l'"
  shows "conserved l'"
proof -
  have "(\<Sum>x\<in>UNIV. unat (balanceOf l' x) + (if x = frm then unat amount else 0)) =
      (\<Sum>x\<in>UNIV. unat (balanceOf l x) + (if x = to then unat amount else 0))"
    using assms(2) by (simp add: moved_def)
  then show ?thesis using assms by (simp add: conserved_def moved_def sum.distrib)
qed

text \<open>In a conserved ledger a move fails for want of funds only.\<close>

lemma move_succeeds:
  assumes "conserved l" and "amount \<le> balanceOf l frm"
  shows "\<exists>l'. token_move frm to amount l = Some l'"
proof -
  have "unat (balanceOf l to) + unat amount < 2 ^ 256" if "frm \<noteq> to"
  proof -
    have "unat (balanceOf l frm) + unat (balanceOf l to) \<le> (\<Sum>a\<in>UNIV. unat (balanceOf l a))"
      using that sum_mono2 [of UNIV "{frm, to}" "\<lambda>a. unat (balanceOf l a)"] by simp
    then have "unat (balanceOf l to) + unat amount \<le> unat (totalSupply l)"
      using assms by (simp add: conserved_def word_le_nat_alt)
    also have "\<dots> < 2 ^ 256" using unsigned_less [of "totalSupply l"] by simp
    finally show ?thesis .
  qed
  moreover have "unat (balanceOf l frm - amount) + unat amount < 2 ^ 256"
    using assms(2) unsigned_less [of "balanceOf l frm"]
    by (simp add: unat_sub word_le_nat_alt)
  ultimately show ?thesis
    using assms(2)
    by (cases "frm = to") (auto simp: token_move_def Let_def not_less checked_add_def)
qed

lemma step_conserves:
  assumes "conserved l" and "token_step who c l = Some l'"
  shows "conserved l'"
proof (cases c)
  case (T_mint to amount)
  with assms(2) obtain b t where b: "checked_add (balanceOf l to) amount = Some b"
    and t: "checked_add (totalSupply l) amount = Some t"
    and l': "l' = l\<lparr>balanceOf := (balanceOf l)(to := b), totalSupply := t\<rparr>"
    by (auto split: option.splits)
  show ?thesis
    using assms(1) checked_add_unat [OF b] checked_add_unat [OF t]
      sum_upd [of unat "balanceOf l" to b]
    by (simp add: conserved_def l')
next
  case (T_approve spender amount)
  with assms show ?thesis by (auto simp: conserved_def)
next
  case (T_transfer to amount)
  with assms show ?thesis by (auto dest: move_Some intro: moved_conserves)
next
  case (T_transferFrom frm to amount)
  with assms(2) obtain l1 where "token_move frm to amount l1 = Some l'" "conserved l1"
    using assms(1) by (auto simp: Let_def conserved_def split: if_splits)
  then show ?thesis by (auto dest: move_Some intro: moved_conserves)
qed

subsection \<open>The calls of the contracts to the token\<close>

text \<open>
  The calls a transaction makes to the outside, in order: \<open>Some\<close> with the caller for one to the
  token, \<open>None\<close> for one to anybody else. They are determined by the message and the state it
  meets; the list matters for a transaction that succeeds, which makes all of them.
\<close>

definition to_token ::
  "address \<Rightarrow> address \<Rightarrow> address \<Rightarrow> token_call \<Rightarrow> (address \<times> token_call) option" where
  "to_token tk token caller c = (if token = tk then Some (caller, c) else None)"

definition payout_call ::
  "deployment \<Rightarrow> address \<Rightarrow> address \<Rightarrow> address \<Rightarrow> u256 \<Rightarrow> (address \<times> token_call) option" where
  "payout_call dp tk token to amount = to_token tk token (dp_htlc dp) (T_transfer to amount)"

definition new_swap_call ::
  "deployment \<Rightarrow> address \<Rightarrow> address \<Rightarrow> address \<Rightarrow> u256 \<Rightarrow> (address \<times> token_call) option" where
  "new_swap_call dp tk sender token amount =
     to_token tk token (dp_htlc dp) (T_transferFrom sender (dp_htlc dp) amount)"

definition receive_and_lock_calls ::
  "deployment \<Rightarrow> address \<Rightarrow> SolOrder \<Rightarrow> (address \<times> token_call) option list" where
  "receive_and_lock_calls dp tk order =
     (let token = so_sellToken order; amount = so_sellAmount order; this = dp_settlement dp in
      [to_token tk token this (T_transferFrom (so_maker order) this amount),
       to_token tk token this (T_approve (dp_htlc dp) amount),
       new_swap_call dp tk this token amount])"

definition refund_leg_calls ::
  "deployment \<Rightarrow> address \<Rightarrow> SolSwap \<Rightarrow> SettlementLeg \<Rightarrow> (address \<times> token_call) option list" where
  "refund_leg_calls dp tk sw leg =
     [payout_call dp tk (sw_token sw) (sw_sender sw) (sw_amount sw),
      to_token tk (sg_token leg) (dp_settlement dp) (T_transfer (sg_maker leg) (sg_amount leg))]"

definition token_calls ::
  "deployment \<Rightarrow> address \<Rightarrow> message \<Rightarrow> chain_state \<Rightarrow> (address \<times> token_call) option list" where
  "token_calls dp tk msg s =
     (case msg of Message sender _ c \<Rightarrow>
      (case c of
         NewSwapCall recipient token amount hashlock timelock \<Rightarrow>
           [new_swap_call dp tk sender token amount]
       | RedeemCall cid _ \<Rightarrow>
           (let sw = swaps s cid
            in [payout_call dp tk (sw_token sw) (sw_recipient sw) (sw_amount sw)])
       | RefundCall cid \<Rightarrow>
           (let sw = swaps s cid in [payout_call dp tk (sw_token sw) (sw_sender sw) (sw_amount sw)])
       | SettleLegCall order _ recipient hashlock timelock \<Rightarrow> receive_and_lock_calls dp tk order
       | RefundLegCall cid \<Rightarrow> refund_leg_calls dp tk (swaps s cid) (legs s cid)
       | _ \<Rightarrow> []))"

lemmas token_calls_defs =
  token_calls_def refund_leg_calls_def receive_and_lock_calls_def new_swap_call_def payout_call_def
  to_token_def Let_def

type_synonym answer = "bool \<times> u8 list"

definition word_true :: "u8 list" where
  "word_true = replicate 31 0 @ [1]"

fun token_answers ::
  "(address \<times> token_call) option list \<Rightarrow> answer list \<Rightarrow> erc20 \<Rightarrow> answer list \<times> erc20" where
  "token_answers [] others l = ([], l)"
| "token_answers (None # cs) others l =
     (let (answers, l') = token_answers cs (tl others) l in
      ((if others = [] then (True, []) else hd others) # answers, l'))"
| "token_answers (Some (who, c) # cs) others l =
     (case token_step who c l of
        None \<Rightarrow> ([(False, [])], l)
      | Some l1 \<Rightarrow>
          (let (answers, l') = token_answers cs others l1 in ((True, word_true) # answers, l')))"

definition plain_callees :: "answer list \<Rightarrow> callee list" where
  "plain_callees = map (\<lambda>(ok, data). Callee [] ok data)"

type_synonym world = "chain_state \<times> erc20"

definition token_tx ::
  "deployment \<Rightarrow> address \<Rightarrow> u256 \<Rightarrow> message \<Rightarrow> answer list \<Rightarrow> (world, contract_error, b32 option) eff" where
  "token_tx dp tk now msg others w =
     (case w of (s, l) \<Rightarrow>
      let (answers, l') = token_answers (token_calls dp tk msg s) others l in
      case transact dp now msg (plain_callees answers) s of
        (Inl e, _) \<Rightarrow> (Inl e, w)
      | (Inr r, s') \<Rightarrow> (Inr r, (s', l')))"

text \<open>What happens to a chain with the token: a transaction, or a direct use of the token.\<close>

datatype happening =
    Transacted u256 message "answer list"
  | TokenUsed address token_call

fun happens :: "deployment \<Rightarrow> address \<Rightarrow> happening list \<Rightarrow> world \<Rightarrow> world" where
  "happens dp tk [] w = w"
| "happens dp tk (Transacted now msg others # hs) w =
     happens dp tk hs (snd (token_tx dp tk now msg others w))"
| "happens dp tk (TokenUsed who c # hs) w =
     happens dp tk hs
       (if who \<in> {0, dp_htlc dp, dp_settlement dp} then w
        else case token_step who c (snd w) of None \<Rightarrow> w | Some l \<Rightarrow> (fst w, l))"

subsection \<open>Calls that succeeded\<close>

definition answer_at :: "answer list \<Rightarrow> nat \<Rightarrow> answer" where
  "answer_at answers i = (if i < length answers then answers ! i else (True, []))"

definition accepted :: "answer \<Rightarrow> bool" where
  "accepted = (\<lambda>(ok, data). ok \<and> (data = [] \<or> abi_decode_bool data = Some True))"

lemma accepted_token [simp]: "accepted (True, word_true)" "\<not> accepted (False, data)"
  by (simp_all add: accepted_def word_true_def abi_decode_bool_def)

lemma answer_at_simps [simp]:
  "answer_at (a # as) 0 = a" "answer_at (a # as) (Suc i) = answer_at as i"
  "answer_at [] i = (True, [])"
  by (simp_all add: answer_at_def)

lemma ext_plain:
  "ext_at (map (respond dp now) (plain_callees answers)) i = (\<lambda>s. (answer_at answers i, s))"
  by (rule ext) (auto simp: ext_at_def plain_callees_def answer_at_def split: prod.split)

lemma plain_token_call:
  "safe_token_call dp (\<lambda>s. (answer, s)) token failed s = (Inr u, s') \<longleftrightarrow>
     token \<notin> {dp_htlc dp, dp_settlement dp} \<and> accepted answer \<and> s' = s"
  by (cases answer)
    (auto simp: safe_token_call_def call_out_def eff_Inr accepted_def ok_or_def ret_def throw_def
      split: option.splits if_splits)

text \<open>The ledger after the calls to the token, when all succeed.\<close>

fun run_calls :: "(address \<times> token_call) option list \<Rightarrow> erc20 \<Rightarrow> erc20 option" where
  "run_calls [] l = Some l"
| "run_calls (None # cs) l = run_calls cs l"
| "run_calls (Some (who, c) # cs) l =
     (case token_step who c l of None \<Rightarrow> None | Some l1 \<Rightarrow> run_calls cs l1)"

definition calls_accepted :: "(address \<times> token_call) option list \<Rightarrow> answer list \<Rightarrow> bool" where
  "calls_accepted cs answers \<longleftrightarrow>
     (\<forall>i < length cs. cs ! i \<noteq> None \<longrightarrow> accepted (answer_at answers i))"

lemma calls_accepted_Cons [simp]:
  "calls_accepted [] answers"
  "calls_accepted (c # cs) answers \<longleftrightarrow>
     (c \<noteq> None \<longrightarrow> accepted (answer_at answers 0)) \<and> calls_accepted cs (tl answers)"
proof -
  have tl: "answer_at answers (Suc i) = answer_at (tl answers) i" for i
    by (cases answers) (simp_all add: answer_at_def)
  show "calls_accepted [] answers" by (simp add: calls_accepted_def)
  show "calls_accepted (c # cs) answers \<longleftrightarrow>
     (c \<noteq> None \<longrightarrow> accepted (answer_at answers 0)) \<and> calls_accepted cs (tl answers)"
    by (simp add: calls_accepted_def All_less_Suc2 tl)
qed

lemma run_calls_iff:
  "(case token_answers cs others l of (answers, l1) \<Rightarrow> calls_accepted cs answers \<and> l1 = l') \<longleftrightarrow>
     run_calls cs l = Some l'"
proof (induction cs others l rule: token_answers.induct)
  case (2 cs others l)
  then show ?case by (auto split: prod.splits)
next
  case (3 who c cs others l)
  then show ?case by (auto split: prod.splits option.splits)
qed auto

subsection \<open>Transactions whose callees do not call back\<close>

abbreviation answering :: "answer \<Rightarrow> outside_call" where
  "answering answer \<equiv> (\<lambda>s. (answer, s))"

lemma plain_send_eth:
  "send_eth dp (answering answer) to amount failed s = (Inr u, s') \<Longrightarrow>
     swaps s' = swaps s \<and> legs s' = legs s"
  by (auto simp: send_eth_def call_out_def eff_Inr split: if_splits prod.splits)

lemma plain_payout:
  assumes "htlc_payout dp (answering answer) cid token to amount s = (Inr u, s')"
  shows "swaps s' = swaps s \<and> legs s' = legs s \<and> (token \<noteq> 0 \<longrightarrow> accepted answer)"
  using assms
  by (auto simp: payout_Inr plain_token_call paid_state_def dest!: plain_send_eth split: if_splits)

lemma plain_new_swap:
  assumes "htlc_new_swap dp now (answering answer) sender v recipient token amount hashlock timelock s =
      (Inr cid, s')"
  shows "sw_sender (swaps s cid) = 0 \<and>
    (\<exists>sw. swaps s' = (swaps s)(cid := sw) \<and> sw_token sw = token \<and> sw_amount sw = amount) \<and>
    (token \<noteq> 0 \<longrightarrow> accepted answer)"
  using assms by (auto simp: new_swap_Inr plain_token_call split: if_splits)

lemma plain_redeem:
  assumes "htlc_redeem dp now (answering answer) cid preimage s = (Inr u, s')"
  shows "live (swaps s cid) \<and> swaps s' = (swaps s)(cid := (swaps s cid)\<lparr>sw_withdrawn := True\<rparr>) \<and>
    (sw_token (swaps s cid) \<noteq> 0 \<longrightarrow> accepted answer)"
  using assms by (auto simp: redeem_Inr Let_def dest!: plain_payout)

lemma plain_refund:
  assumes "htlc_refund dp now (answering answer) sender cid s = (Inr u, s')"
  shows "live (swaps s cid) \<and> swaps s' = (swaps s)(cid := (swaps s cid)\<lparr>sw_refunded := True\<rparr>) \<and>
    legs s' = legs s \<and> sw_sender (swaps s cid) = sender \<and>
    (sw_token (swaps s cid) \<noteq> 0 \<longrightarrow> accepted answer)"
  using assms by (auto simp: refund_Inr Let_def dest!: plain_payout)

lemma plain_settle:
  assumes "settle_leg dp now (map (respond dp now) (plain_callees answers)) sender v order signature
      recipient hashlock timelock s = (Inr cid, s')"
  shows "sender = so_maker order \<and> sw_sender (swaps s cid) = 0 \<and>
    (\<exists>sw. swaps s' = (swaps s)(cid := sw) \<and> sw_token sw = so_sellToken order \<and>
       sw_amount sw = so_sellAmount order) \<and>
    (so_sellToken order \<noteq> 0 \<longrightarrow>
       accepted (answer_at answers 0) \<and> accepted (answer_at answers 1) \<and> accepted (answer_at answers 2))"
  using assms
  by (auto simp: settle_Inr receive_and_lock_def Let_def eff_Inr ext_plain plain_token_call
      recorded_def dest!: plain_new_swap split: if_splits)

lemma plain_refund_leg:
  assumes "refund_leg dp now (map (respond dp now) (plain_callees answers)) cid s = (Inr u, s')"
  shows "live (swaps s cid) \<and> swaps s' = (swaps s)(cid := (swaps s cid)\<lparr>sw_refunded := True\<rparr>) \<and>
    sw_sender (swaps s cid) = dp_settlement dp \<and>
    (sw_token (swaps s cid) \<noteq> 0 \<longrightarrow> accepted (answer_at answers 0)) \<and>
    (sg_token (legs s cid) \<noteq> 0 \<longrightarrow> accepted (answer_at answers 1))"
  using assms
  by (auto simp: refund_leg_Inr ext_plain forward_def plain_token_call eff_Inr
      dest!: plain_refund plain_send_eth split: if_splits)

text \<open>Every call to the token of a transaction that succeeded was accepted.\<close>

lemma calls_were_accepted:
  assumes "dispatch dp now (map (respond dp now) (plain_callees answers)) msg s = (Inr r, s')"
    and "tk \<noteq> 0"
  shows "calls_accepted (token_calls dp tk msg s) answers"
proof -
  obtain sender v c where msg: "msg = Message sender v c" by (cases msg)
  have tls: "answer_at (tl as) i = answer_at as (Suc i)" for as i
    by (cases as) simp_all
  show ?thesis
    using assms
    by (cases c)
      (auto simp: dispatch_def msg eff_Inr ext_plain token_calls_defs tls numeral_2_eq_2
        dest!: plain_new_swap plain_redeem plain_refund plain_settle plain_refund_leg)
qed

lemma token_tx_Inr:
  assumes "tk \<noteq> 0"
  shows "token_tx dp tk now msg others (s, l) = (Inr r, (s', l')) \<longleftrightarrow>
     run_calls (token_calls dp tk msg s) l = Some l' \<and>
     transact dp now msg (plain_callees (fst (token_answers (token_calls dp tk msg s) others l))) s =
       (Inr r, s')"
proof -
  obtain answers l1 where ta: "token_answers (token_calls dp tk msg s) others l = (answers, l1)"
    by (cases "token_answers (token_calls dp tk msg s) others l")
  have "run_calls (token_calls dp tk msg s) l = Some l' \<longleftrightarrow>
      calls_accepted (token_calls dp tk msg s) answers \<and> l1 = l'"
    using run_calls_iff [where cs = "token_calls dp tk msg s" and others = others and l = l and l' = l'] by (simp add: ta)
  moreover have "calls_accepted (token_calls dp tk msg s) answers"
    if "transact dp now msg (plain_callees answers) s = (Inr r, s')"
    using that calls_were_accepted [OF _ assms] by (simp add: transact_Inr)
  ultimately show ?thesis
    by (auto simp: token_tx_def ta split: prod.splits sum.splits)
qed

subsection \<open>The escrow's tokens\<close>

text \<open>
  What HashedTimelock owes in the token, and the invariant: it holds that and \<open>n\<close> more, it never
  approved anybody, and the supply is what the accounts hold.
\<close>

definition token_owed_for :: "address \<Rightarrow> SolSwap \<Rightarrow> nat" where
  "token_owed_for tk sw = (if live sw \<and> sw_token sw = tk then unat (sw_amount sw) else 0)"

definition token_owed :: "address \<Rightarrow> chain_state \<Rightarrow> nat" where
  "token_owed tk s = (\<Sum>cid\<in>UNIV. token_owed_for tk (swaps s cid))"

definition sealed :: "deployment \<Rightarrow> erc20 \<Rightarrow> bool" where
  "sealed dp l \<longleftrightarrow> (\<forall>spender. allowance l (dp_htlc dp) spender = 0)"

definition token_covers :: "deployment \<Rightarrow> address \<Rightarrow> nat \<Rightarrow> world \<Rightarrow> bool" where
  "token_covers dp tk n = (\<lambda>(s, l).
     token_owed tk s + n \<le> unat (balanceOf l (dp_htlc dp)) \<and> sealed dp l \<and> conserved l)"

lemma token_owed_upd:
  "swaps s' = (swaps s)(cid := sw) \<Longrightarrow>
     token_owed tk s' + token_owed_for tk (swaps s cid) = token_owed tk s + token_owed_for tk sw"
  using sum_upd [of "token_owed_for tk" "swaps s" cid sw]
  by (simp add: token_owed_def del: fun_upd_apply)

lemma step_moves:
  "token_step who (T_transfer to amount) l = Some l' \<Longrightarrow>
     moved who to amount l l' \<and> allowance l' = allowance l"
  "token_step who (T_transferFrom frm to amount) l = Some l' \<Longrightarrow>
     moved frm to amount l l' \<and> amount \<le> allowance l frm who \<and>
     (allowance l' = allowance l \<or>
      allowance l' = (allowance l)(frm := (allowance l frm)(who := allowance l frm who - amount)))"
  by (auto simp: Let_def not_less moved_def dest!: move_Some split: if_splits)

lemma step_sealed:
  assumes "sealed dp l" and "token_step who c l = Some l'"
    and "\<And>spender amount. c = T_approve spender amount \<Longrightarrow> who \<noteq> dp_htlc dp"
  shows "sealed dp l'"
proof (cases c)
  case (T_transferFrom frm to amount)
  with step_moves(2) assms(2) have "amount \<le> allowance l frm who"
    "allowance l' = allowance l \<or>
      allowance l' = (allowance l)(frm := (allowance l frm)(who := allowance l frm who - amount))"
    by metis+
  then show ?thesis using assms(1) by (auto simp: sealed_def)
next
  case (T_transfer to amount)
  then show ?thesis using assms step_moves(1) by (metis sealed_def)
qed (use assms in \<open>auto simp: sealed_def split: option.splits\<close>)

text \<open>Nobody but HashedTimelock lowers its balance.\<close>

lemma step_others:
  assumes "sealed dp l" and "token_step who c l = Some l'" and "who \<noteq> dp_htlc dp"
  shows "unat (balanceOf l (dp_htlc dp)) \<le> unat (balanceOf l' (dp_htlc dp))"
proof (cases c)
  case (T_mint to amount)
  with assms(2) show ?thesis by (auto dest: checked_add_unat split: option.splits)
next
  case (T_approve spender amount)
  with assms(2) show ?thesis by auto
next
  case (T_transfer to amount)
  with assms(2) step_moves(1) have "moved who to amount l l'" by blast
  from movedD [OF this, of "dp_htlc dp"] assms(3) show ?thesis by (simp split: if_splits)
next
  case (T_transferFrom frm to amount)
  with assms(2) step_moves(2) have m: "moved frm to amount l l'" "amount \<le> allowance l frm who"
    by blast+
  show ?thesis
    using movedD [OF m(1), of "dp_htlc dp"] m(2) assms(1)
    by (cases "frm = dp_htlc dp") (auto simp: sealed_def split: if_splits)
qed

lemma htlc_pays:
  assumes "token_step (dp_htlc dp) (T_transfer to amount) l = Some l'"
  shows "unat (balanceOf l (dp_htlc dp)) \<le> unat (balanceOf l' (dp_htlc dp)) + unat amount"
  using movedD [OF conjunct1 [OF step_moves(1) [OF assms]], of "dp_htlc dp"] by (simp split: if_splits)

lemma htlc_collects:
  assumes "token_step (dp_htlc dp) (T_transferFrom frm (dp_htlc dp) amount) l = Some l'"
    and "frm \<noteq> dp_htlc dp"
  shows "unat (balanceOf l' (dp_htlc dp)) = unat (balanceOf l (dp_htlc dp)) + unat amount"
  using movedD [OF conjunct1 [OF step_moves(2) [OF assms(1)]], of "dp_htlc dp"] assms(2) by simp

lemma run_conserves: "run_calls cs l = Some l' \<Longrightarrow> conserved l \<Longrightarrow> conserved l'"
  by (induction cs l rule: run_calls.induct) (auto split: option.splits dest: step_conserves)

lemma run_sealed:
  assumes "run_calls cs l = Some l'" and "sealed dp l"
    and "\<And>spender amount. Some (dp_htlc dp, T_approve spender amount) \<notin> set cs"
  shows "sealed dp l'"
  using assms
proof (induction cs l rule: run_calls.induct)
  case (3 who c cs l)
  then obtain l1 where l1: "token_step who c l = Some l1" "run_calls cs l1 = Some l'"
    by (auto split: option.splits)
  have "sealed dp l1" by (rule step_sealed [OF 3(3) l1(1)]) (use 3(4) in auto)
  with 3(1) [OF l1(1) l1(2)] 3(4) show ?case by auto
qed auto

lemma token_lock_owed:
  assumes "sw_sender (swaps s cid) = 0" and "swaps s' = (swaps s)(cid := sw)"
    and "sw_token sw = token" and "sw_amount sw = amount"
  shows "token_owed tk s' \<le> token_owed tk s + (if token = tk then unat amount else 0)"
  using token_owed_upd [OF assms(2), of tk] assms(1,3,4)
  by (auto simp: token_owed_for_def live_def split: if_splits)

lemma token_settle_owed:
  assumes "live (swaps s cid)" and "swaps s' = (swaps s)(cid := sw)" and "\<not> live sw"
  shows "token_owed tk s' +
      (if sw_token (swaps s cid) = tk then unat (sw_amount (swaps s cid)) else 0) = token_owed tk s"
  using token_owed_upd [OF assms(2), of tk] assms(1,3) by (auto simp: token_owed_for_def)

text \<open>The balance of HashedTimelock after a transaction makes up for what it then owes.\<close>

lemma tx_backed:
  assumes tk: "tk \<notin> {0, dp_htlc dp, dp_settlement dp}" "dp_htlc dp \<noteq> dp_settlement dp"
    and run: "run_calls (token_calls dp tk msg s) l = Some l'"
    and tx: "dispatch dp now (map (respond dp now) (plain_callees answers)) msg s = (Inr r, s')"
    and "sealed dp l"
  shows "token_owed tk s' + unat (balanceOf l (dp_htlc dp)) \<le>
    token_owed tk s + unat (balanceOf l' (dp_htlc dp))"
proof -
  obtain sender v c where msg: "msg = Message sender v c" by (cases msg)
  have sender: "sender \<notin> {0, dp_htlc dp, dp_settlement dp}"
    using tx by (auto simp: msg dispatch_def eff_Inr)
  have same: "swaps s' = swaps s \<Longrightarrow> token_owed tk s' = token_owed tk s" by (simp add: token_owed_def)
  show ?thesis
  proof (cases c)
    case (NewSwapCall recipient token amount hashlock timelock)
    then obtain cid where "htlc_new_swap dp now (answering (answer_at answers 0)) sender v recipient token
        amount hashlock timelock s = (Inr cid, s')"
      using tx by (auto simp: msg dispatch_def eff_Inr ext_plain)
    from plain_new_swap [OF this] token_lock_owed
    have "token_owed tk s' \<le> token_owed tk s + (if token = tk then unat amount else 0)" by blast
    then show ?thesis
      using run sender htlc_collects [of dp sender amount l]
      by (auto simp: token_calls_defs msg NewSwapCall Let_def simp del: token_step.simps
          split: if_splits option.splits)
  next
    case (RedeemCall cid preimage)
    then have "htlc_redeem dp now (answering (answer_at answers 0)) cid preimage s = (Inr (), s')"
      using tx by (auto simp: msg dispatch_def eff_Inr ext_plain)
    from plain_redeem [OF this] have owed: "token_owed tk s' +
        (if sw_token (swaps s cid) = tk then unat (sw_amount (swaps s cid)) else 0) = token_owed tk s"
      by (intro token_settle_owed) auto
    show ?thesis
      using run owed
      by (auto simp: token_calls_defs msg RedeemCall Let_def simp del: token_step.simps
          split: if_splits option.splits dest!: htlc_pays)
  next
    case (RefundCall cid)
    then have "htlc_refund dp now (answering (answer_at answers 0)) sender cid s = (Inr (), s')"
      using tx by (auto simp: msg dispatch_def eff_Inr ext_plain)
    from plain_refund [OF this] have owed: "token_owed tk s' +
        (if sw_token (swaps s cid) = tk then unat (sw_amount (swaps s cid)) else 0) = token_owed tk s"
      by (intro token_settle_owed) auto
    show ?thesis
      using run owed
      by (auto simp: token_calls_defs msg RefundCall Let_def simp del: token_step.simps
          split: if_splits option.splits dest!: htlc_pays)
  next
    case (SettleLegCall order signature recipient hashlock timelock)
    let ?a = "so_sellAmount order"
    obtain cid where cid: "settle_leg dp now (map (respond dp now) (plain_callees answers)) sender v order
        signature recipient hashlock timelock s = (Inr cid, s')"
      using tx by (auto simp: msg SettleLegCall dispatch_def eff_Inr)
    from plain_settle [OF cid] token_lock_owed have owed:
      "token_owed tk s' \<le> token_owed tk s + (if so_sellToken order = tk then unat ?a else 0)" by blast
    show ?thesis
    proof (cases "so_sellToken order = tk")
      case True
      with run obtain l1 l2 where steps:
        "token_step (dp_settlement dp) (T_transferFrom (so_maker order) (dp_settlement dp) ?a) l = Some l1"
        "token_step (dp_settlement dp) (T_approve (dp_htlc dp) ?a) l1 = Some l2"
        "token_step (dp_htlc dp) (T_transferFrom (dp_settlement dp) (dp_htlc dp) ?a) l2 = Some l'"
        by (auto simp: token_calls_defs msg SettleLegCall Let_def simp del: token_step.simps
            split: option.splits)
      have "sealed dp l1" by (rule step_sealed [OF assms(5) steps(1)]) simp
      with steps assms(5) tk(2) show ?thesis
        using owed True step_others [of dp l] step_others [of dp l1] htlc_collects [OF steps(3)]
        by (fastforce simp del: token_step.simps)
    next
      case False
      then show ?thesis using run owed by (simp add: token_calls_defs msg SettleLegCall Let_def)
    qed
  next
    case (RefundLegCall cid)
    then have "refund_leg dp now (map (respond dp now) (plain_callees answers)) cid s = (Inr (), s')"
      using tx by (auto simp: msg dispatch_def eff_Inr)
    from plain_refund_leg [OF this] have owed: "token_owed tk s' +
        (if sw_token (swaps s cid) = tk then unat (sw_amount (swaps s cid)) else 0) = token_owed tk s"
      by (intro token_settle_owed) auto
    let ?out = "T_transfer (sw_sender (swaps s cid)) (sw_amount (swaps s cid))"
      and ?on = "T_transfer (sg_maker (legs s cid)) (sg_amount (legs s cid))"
    from run obtain l1 where
      out: "if sw_token (swaps s cid) = tk then token_step (dp_htlc dp) ?out l = Some l1 else l1 = l"
      and on: "if sg_token (legs s cid) = tk then token_step (dp_settlement dp) ?on l1 = Some l' else l' = l1"
      by (auto simp: token_calls_defs msg RefundLegCall Let_def simp del: token_step.simps
          split: if_splits option.splits)
    have "sealed dp l1"
      using out assms(5) step_sealed [of dp l "dp_htlc dp" ?out l1] by (auto split: if_splits)
    then have "unat (balanceOf l1 (dp_htlc dp)) \<le> unat (balanceOf l' (dp_htlc dp))"
      using on tk(2) step_others [of dp l1 "dp_settlement dp" ?on l'] by (auto split: if_splits)
    moreover have "unat (balanceOf l (dp_htlc dp)) \<le> unat (balanceOf l1 (dp_htlc dp)) +
        (if sw_token (swaps s cid) = tk then unat (sw_amount (swaps s cid)) else 0)"
      using out htlc_pays [of dp _ _ l l1] by (auto split: if_splits)
    ultimately show ?thesis using owed by simp
  qed (use tx run same in \<open>auto simp: msg dispatch_def eff_Inr authorize_leg_def consume_nonce_def
      token_calls_defs\<close>)
qed

lemma token_tx_covers:
  assumes "tk \<notin> {0, dp_htlc dp, dp_settlement dp}" and "dp_htlc dp \<noteq> dp_settlement dp"
    and "token_covers dp tk n w"
  shows "token_covers dp tk n (snd (token_tx dp tk now msg others w))"
proof -
  obtain s l where w: "w = (s, l)" by (cases w)
  obtain out s' l' where tt: "token_tx dp tk now msg others w = (out, (s', l'))"
    by (cases "token_tx dp tk now msg others w")
  show ?thesis
  proof (cases out)
    case (Inl e)
    then have "(s', l') = w"
      using tt by (auto simp: token_tx_def Let_def split: prod.splits sum.splits)
    then show ?thesis using assms(3) tt by simp
  next
    case (Inr r)
    let ?answers = "fst (token_answers (token_calls dp tk msg s) others l)"
    from Inr tt assms(1) have run: "run_calls (token_calls dp tk msg s) l = Some l'"
      and tx: "dispatch dp now (map (respond dp now) (plain_callees ?answers)) msg s = (Inr r, s')"
      by (simp_all add: w token_tx_Inr transact_Inr)
    have l: "sealed dp l" "conserved l" "token_owed tk s + n \<le> unat (balanceOf l (dp_htlc dp))"
      using assms(3) by (simp_all add: w token_covers_def)
    have "Some (dp_htlc dp, T_approve spender amount) \<notin> set (token_calls dp tk msg s)" for spender amount
      using assms(2) by (auto simp: token_calls_defs split: message.splits call.splits if_splits)
    with run l(1) have "sealed dp l'" by (rule run_sealed)
    with tx_backed [OF assms(1,2) run tx l(1)] run_conserves [OF run l(2)] l(3) show ?thesis
      by (simp add: tt token_covers_def)
  qed
qed

lemma happens_covers:
  assumes "tk \<notin> {0, dp_htlc dp, dp_settlement dp}" and "dp_htlc dp \<noteq> dp_settlement dp"
    and "token_covers dp tk n w"
  shows "token_covers dp tk n (happens dp tk hs w)"
  using assms(3)
proof (induction hs arbitrary: w)
  case (Cons h hs)
  show ?case
  proof (cases h)
    case (Transacted now msg others)
    then show ?thesis using Cons token_tx_covers [OF assms(1,2) Cons.prems] by simp
  next
    case (TokenUsed who c)
    let ?w = "if who \<in> {0, dp_htlc dp, dp_settlement dp} then w
        else case token_step who c (snd w) of None \<Rightarrow> w | Some l \<Rightarrow> (fst w, l)"
    have "token_covers dp tk n ?w"
      using Cons.prems
      by (auto simp: token_covers_def split: option.splits prod.splits dest: step_sealed
          step_conserves elim: order_trans [OF _ step_others])
    from Cons.IH [OF this] TokenUsed show ?thesis by simp
  qed
qed simp

lemma deployed_token_covers: "token_covers dp tk 0 (deployed, new_token)"
  by (simp add: token_covers_def token_owed_def token_owed_for_def live_def deployed_def sealed_def
      conserved_def new_token_def)

text \<open>
  C17. Solvency in a token. From the deployment of the contracts and of an ERC-20 token on, with
  any transactions and any uses of the token in any order, HashedTimelock holds at least the
  tokens of all its unsettled swaps in it, and nothing later eats into the surplus it holds
  beyond them.
\<close>

theorem token_stays_solvent:
  assumes "tk \<notin> {0, dp_htlc dp, dp_settlement dp}" and "dp_htlc dp \<noteq> dp_settlement dp"
  shows "let (s, l) = happens dp tk hs (deployed, new_token);
             (t, m) = happens dp tk later (s, l)
         in token_owed tk s \<le> unat (balanceOf l (dp_htlc dp)) \<and>
            unat (balanceOf l (dp_htlc dp)) - token_owed tk s
              \<le> unat (balanceOf m (dp_htlc dp)) - token_owed tk t"
proof -
  obtain s l t m where w: "happens dp tk hs (deployed, new_token) = (s, l)"
      "happens dp tk later (s, l) = (t, m)"
    by fastforce
  have sl: "token_covers dp tk 0 (s, l)"
    using happens_covers [OF assms deployed_token_covers, of hs] by (simp add: w)
  then have "token_covers dp tk (unat (balanceOf l (dp_htlc dp)) - token_owed tk s) (s, l)"
    by (simp add: token_covers_def)
  from happens_covers [OF assms this, of later] sl show ?thesis
    by (clarsimp simp: w token_covers_def) linarith
qed

subsection \<open>The life of a token leg\<close>

text \<open>The contracts see a history of transactions.\<close>

lemma happens_chain: "\<exists>txs. fst (happens dp tk hs w) = transact_all dp txs (fst w)"
proof (induction hs arbitrary: w)
  case Nil
  show ?case by (intro exI [of _ "[]"]) simp
next
  case (Cons h hs)
  show ?case
  proof (cases h)
    case (Transacted now msg others)
    let ?w = "snd (token_tx dp tk now msg others w)"
    have "\<exists>txs. fst ?w = transact_all dp txs (fst w)"
    proof (cases "fst (token_tx dp tk now msg others w)")
      case (Inl e)
      then have "?w = w" by (auto simp: token_tx_def Let_def split: prod.splits sum.splits)
      then show ?thesis by (intro exI [of _ "[]"]) simp
    next
      case (Inr r)
      obtain s l where w: "w = (s, l)" by (cases w)
      let ?ks = "plain_callees (fst (token_answers (token_calls dp tk msg s) others l))"
      have "fst ?w = transact_all dp [(now, msg, ?ks)] s"
        using Inr by (auto simp: w token_tx_def Let_def split: prod.splits sum.splits)
      then show ?thesis unfolding w fst_conv by blast
    qed
    then obtain txs where txs: "fst ?w = transact_all dp txs (fst w)" ..
    obtain more where "fst (happens dp tk hs ?w) = transact_all dp more (fst ?w)"
      using Cons by blast
    with txs Transacted show ?thesis
      by (intro exI [of _ "txs @ more"]) (simp add: transact_all_append)
  next
    case (TokenUsed who c)
    let ?w = "if who \<in> {0, dp_htlc dp, dp_settlement dp} then w
        else case token_step who c (snd w) of None \<Rightarrow> w | Some l \<Rightarrow> (fst w, l)"
    have "fst ?w = fst w" by (auto split: option.splits)
    with Cons [of ?w] TokenUsed show ?thesis by simp
  qed
qed

lemma token_owed_open:
  assumes "live (swaps s cid)" and "sw_token (swaps s cid) = tk"
  shows "unat (sw_amount (swaps s cid)) \<le> token_owed tk s"
proof -
  have "token_owed_for tk (swaps s cid) \<le> token_owed tk s"
    unfolding token_owed_def by (intro member_le_sum) simp_all
  then show ?thesis using assms by (simp add: token_owed_for_def)
qed

lemma htlc_can_pay:
  assumes "token_covers dp tk 0 (s, l)" and "live (swaps s cid)" and "sw_token (swaps s cid) = tk"
  shows "\<exists>l'. token_step (dp_htlc dp) (T_transfer to (sw_amount (swaps s cid))) l = Some l' \<and>
    moved (dp_htlc dp) to (sw_amount (swaps s cid)) l l' \<and> conserved l'"
proof -
  have "sw_amount (swaps s cid) \<le> balanceOf l (dp_htlc dp)" "conserved l"
    using token_owed_open [OF assms(2,3)] assms(1) by (simp_all add: token_covers_def word_le_nat_alt)
  from move_succeeds [OF this(2,1)] obtain l' where
    "token_step (dp_htlc dp) (T_transfer to (sw_amount (swaps s cid))) l = Some l'" by auto
  with step_moves(1) [OF this] step_conserves [OF \<open>conserved l\<close> this] show ?thesis by blast
qed

text \<open>A token swap that is open can be redeemed with the preimage, and that credits the recipient.\<close>

lemma token_redeem:
  assumes "token_covers dp tk 0 (s, l)" and "live (swaps s cid)" and "sw_token (swaps s cid) = tk"
    and "tk \<notin> {0, dp_htlc dp, dp_settlement dp}" and "who \<notin> {0, dp_htlc dp, dp_settlement dp}"
    and "now < sw_timelock (swaps s cid)"
    and "dp_sha256 dp (bytes_of preimage) = sw_hashlock (swaps s cid)"
  shows "\<exists>s' l'. token_tx dp tk now (Message who 0 (RedeemCall cid preimage)) [] (s, l) =
      (Inr None, (s', l')) \<and>
    moved (dp_htlc dp) (sw_recipient (swaps s cid)) (sw_amount (swaps s cid)) l l'"
proof -
  let ?sw = "swaps s cid"
  obtain l' where l': "token_step (dp_htlc dp) (T_transfer (sw_recipient ?sw) (sw_amount ?sw)) l = Some l'"
      "moved (dp_htlc dp) (sw_recipient ?sw) (sw_amount ?sw) l l'"
    using htlc_can_pay [OF assms(1-3)] by blast
  have calls: "token_calls dp tk (Message who 0 (RedeemCall cid preimage)) s =
      [Some (dp_htlc dp, T_transfer (sw_recipient ?sw) (sw_amount ?sw))]"
    using assms(3) by (simp add: token_calls_defs)
  have "\<exists>s'. htlc_redeem dp now (answering (True, word_true)) cid preimage s = (Inr (), s')"
    unfolding redeem_Inr Let_def payout_Inr plain_token_call
    using assms(2-4,6,7) by (auto simp: plain_token_call)
  then obtain s' where "transact dp now (Message who 0 (RedeemCall cid preimage))
      (plain_callees [(True, word_true)]) s = (Inr None, s')"
    using assms(5) by (auto simp: transact_Inr dispatch_def eff_Inr ext_plain)
  then have "token_tx dp tk now (Message who 0 (RedeemCall cid preimage)) [] (s, l) = (Inr None, (s', l'))"
    using assms(4) l'(1)
    by (simp add: token_tx_Inr calls del: token_step.simps)
  with l'(2) show ?thesis by blast
qed

text \<open>A token leg whose swap is open.\<close>

definition open_token_leg :: "deployment \<Rightarrow> address \<Rightarrow> b32 \<Rightarrow> chain_state \<Rightarrow> bool" where
  "open_token_leg dp tk cid s \<longleftrightarrow>
     live (swaps s cid) \<and> sw_sender (swaps s cid) = dp_settlement dp \<and> sw_token (swaps s cid) = tk \<and>
     sg_maker (legs s cid) \<notin> {0, dp_htlc dp, dp_settlement dp} \<and> \<not> sg_refunded (legs s cid) \<and>
     sg_token (legs s cid) = tk \<and> sg_amount (legs s cid) = sw_amount (swaps s cid)"

lemma plain_refund_leg_runs:
  assumes "open_token_leg dp tk cid s" and "sw_timelock (swaps s cid) \<le> now"
    and "tk \<notin> {0, dp_htlc dp, dp_settlement dp}"
  shows "\<exists>s'. refund_leg dp now (map (respond dp now) (plain_callees [(True, word_true), (True, word_true)]))
      cid s = (Inr (), s') \<and>
    leg_payments cid s' = leg_payments cid s @ [leg_payment cid (legs s cid)]"
proof -
  let ?leg = "legs s cid" and ?sw = "swaps s cid" and ?as = "[(True, word_true), (True, word_true)]"
  let ?r = "paid_state cid tk (dp_settlement dp) (sw_amount ?sw)
      (s\<lparr>legs := (legs s)(cid := ?leg\<lparr>sg_refunded := True\<rparr>),
         swaps := (swaps s)(cid := ?sw\<lparr>sw_refunded := True\<rparr>)\<rparr>)"
  let ?r2 = "?r\<lparr>htlc_events := htlc_events s @ [LogRefund cid]\<rparr>"
  let ?r3 = "?r2\<lparr>settlement_paid := settlement_paid s @ [leg_payment cid ?leg]\<rparr>"
  have "htlc_refund dp now (ext_at (map (respond dp now) (plain_callees ?as)) 0) (dp_settlement dp) cid
      (s\<lparr>legs := (legs s)(cid := ?leg\<lparr>sg_refunded := True\<rparr>)\<rparr>) = (Inr (), ?r2)"
    unfolding refund_Inr ext_plain using assms
    by (simp add: open_token_leg_def Let_def payout_Inr plain_token_call paid_state_def)
  moreover have "forward dp (ext_at (map (respond dp now) (plain_callees ?as)) 1) ?leg
      (?r2\<lparr>settlement_paid := settlement_paid ?r2 @ [leg_payment cid ?leg]\<rparr>) = (Inr (), ?r3)"
    unfolding ext_plain using assms
    by (simp add: forward_def open_token_leg_def plain_token_call paid_state_def)
  ultimately have "refund_leg dp now (map (respond dp now) (plain_callees ?as)) cid s = (Inr (), ?r3
      \<lparr>settlement_events := settlement_events ?r3 @ [LegRefunded cid (sg_maker ?leg) (sg_amount ?leg)]\<rparr>)"
    unfolding refund_leg_Inr using assms(1) by (auto simp: open_token_leg_def)
  moreover have "leg_payments cid (?r3\<lparr>settlement_events := ev\<rparr>) =
      leg_payments cid s @ [leg_payment cid ?leg]" for ev
    by (simp add: leg_payments_def leg_payment_def)
  ultimately show ?thesis by blast
qed

lemma token_refund:
  assumes covers: "token_covers dp tk 0 (s, l)" and leg: "open_token_leg dp tk cid s"
    and tk: "tk \<notin> {0, dp_htlc dp, dp_settlement dp}" "dp_htlc dp \<noteq> dp_settlement dp"
    and who: "who \<notin> {0, dp_htlc dp, dp_settlement dp}" and "sw_timelock (swaps s cid) \<le> now"
  shows "\<exists>s' l'. token_tx dp tk now (Message who 0 (RefundLegCall cid)) [] (s, l) =
      (Inr None, (s', l')) \<and>
    leg_payments cid s' = leg_payments cid s @ [leg_payment cid (legs s cid)] \<and>
    unat (balanceOf l' (sg_maker (legs s cid))) =
      unat (balanceOf l (sg_maker (legs s cid))) + unat (sg_amount (legs s cid))"
proof -
  let ?a = "sw_amount (swaps s cid)" and ?maker = "sg_maker (legs s cid)"
  have open_leg: "live (swaps s cid)" "sw_token (swaps s cid) = tk" "sw_sender (swaps s cid) = dp_settlement dp"
    "sg_token (legs s cid) = tk" "sg_amount (legs s cid) = ?a"
    "?maker \<notin> {0, dp_htlc dp, dp_settlement dp}"
    using leg by (simp_all add: open_token_leg_def)
  from htlc_can_pay [OF covers open_leg(1,2)] obtain l1 where
    l1: "token_step (dp_htlc dp) (T_transfer (dp_settlement dp) ?a) l = Some l1"
      "moved (dp_htlc dp) (dp_settlement dp) ?a l l1" "conserved l1"
    by blast
  have "?a \<le> balanceOf l1 (dp_settlement dp)"
    using movedD [OF l1(2), of "dp_settlement dp"] tk(2) by (simp add: word_le_nat_alt)
  from move_succeeds [OF l1(3) this] obtain l2 where
    l2: "token_step (dp_settlement dp) (T_transfer ?maker ?a) l1 = Some l2" by auto
  have "moved (dp_settlement dp) ?maker ?a l1 l2" using step_moves(1) [OF l2] by blast
  from movedD [OF this, of ?maker] movedD [OF l1(2), of ?maker] open_leg(6)
  have paid: "unat (balanceOf l2 ?maker) = unat (balanceOf l ?maker) + unat ?a" by simp
  have calls: "token_calls dp tk (Message who 0 (RefundLegCall cid)) s =
      [Some (dp_htlc dp, T_transfer (dp_settlement dp) ?a), Some (dp_settlement dp, T_transfer ?maker ?a)]"
    using open_leg by (simp add: token_calls_defs)
  obtain s' where s': "refund_leg dp now
      (map (respond dp now) (plain_callees [(True, word_true), (True, word_true)])) cid s = (Inr (), s')"
      "leg_payments cid s' = leg_payments cid s @ [leg_payment cid (legs s cid)]"
    using plain_refund_leg_runs [OF leg assms(6) tk(1)] by blast
  have "transact dp now (Message who 0 (RefundLegCall cid))
      (plain_callees [(True, word_true), (True, word_true)]) s = (Inr None, s')"
    using who s'(1) by (simp add: transact_Inr dispatch_def eff_Inr)
  then have "token_tx dp tk now (Message who 0 (RefundLegCall cid)) [] (s, l) = (Inr None, (s', l2))"
    using tk(1) l1(1) l2 by (simp add: token_tx_Inr calls del: token_step.simps)
  with s'(2) paid open_leg(5) show ?thesis by auto
qed

text \<open>What a \<open>settleLeg\<close> in the token leaves.\<close>

lemma plain_settle_locks:
  assumes "settle_leg dp now (map (respond dp now) (plain_callees answers)) sender v order signature
      recipient hashlock timelock s = (Inr cid, s')"
    and "so_sellToken order \<noteq> 0"
  shows "swaps s' cid =
      \<lparr>sw_sender = dp_settlement dp, sw_recipient = recipient, sw_token = so_sellToken order,
       sw_amount = so_sellAmount order, sw_hashlock = hashlock, sw_timelock = timelock,
       sw_withdrawn = False, sw_refunded = False\<rparr>"
    and "legs s' cid =
      \<lparr>sg_maker = so_maker order, sg_token = so_sellToken order, sg_amount = so_sellAmount order,
       sg_refunded = False\<rparr>"
proof -
  from assms(1) obtain s2 where
    lock: "receive_and_lock dp now (map (respond dp now) (plain_callees answers)) v order recipient
      hashlock timelock cid (recorded v order cid s) = (Inr (), s2)"
    and s': "swaps s' = swaps s2" "legs s' = legs s2"
    by (auto simp: settle_Inr)
  from lock assms(2) have "htlc_new_swap dp now (answering (answer_at answers 2)) (dp_settlement dp) 0 recipient
      (so_sellToken order) (so_sellAmount order) hashlock timelock (recorded 0 order cid s) = (Inr cid, s2)"
    by (clarsimp simp: receive_and_lock_def Let_def eff_Inr ext_plain plain_token_call)
  then have "swaps s2 cid =
        \<lparr>sw_sender = dp_settlement dp, sw_recipient = recipient, sw_token = so_sellToken order,
         sw_amount = so_sellAmount order, sw_hashlock = hashlock, sw_timelock = timelock,
         sw_withdrawn = False, sw_refunded = False\<rparr>"
    and "legs s2 = legs (recorded 0 order cid s)"
    using assms(2) unfolding new_swap_Inr plain_token_call by auto
  then show "swaps s' cid =
      \<lparr>sw_sender = dp_settlement dp, sw_recipient = recipient, sw_token = so_sellToken order,
       sw_amount = so_sellAmount order, sw_hashlock = hashlock, sw_timelock = timelock,
       sw_withdrawn = False, sw_refunded = False\<rparr>"
    and "legs s' cid =
      \<lparr>sg_maker = so_maker order, sg_token = so_sellToken order, sg_amount = so_sellAmount order,
       sg_refunded = False\<rparr>"
    by (simp_all add: s' recorded_def)
qed

lemma token_tx_settles:
  assumes tk: "tk \<noteq> 0" "so_sellToken order = tk"
    and tx: "token_tx dp tk now (Message sender v (SettleLegCall order signature recipient hashlock timelock))
      others (r, k) = (Inr (Some cid), (s, l))"
  shows "so_maker order \<notin> {0, dp_htlc dp, dp_settlement dp}"
    and "swaps s cid =
      \<lparr>sw_sender = dp_settlement dp, sw_recipient = recipient, sw_token = tk,
       sw_amount = so_sellAmount order, sw_hashlock = hashlock, sw_timelock = timelock,
       sw_withdrawn = False, sw_refunded = False\<rparr>"
    and "legs s cid =
      \<lparr>sg_maker = so_maker order, sg_token = tk, sg_amount = so_sellAmount order, sg_refunded = False\<rparr>"
    and "unat (balanceOf l (so_maker order)) + unat (so_sellAmount order) =
      unat (balanceOf k (so_maker order))"
proof -
  let ?msg = "Message sender v (SettleLegCall order signature recipient hashlock timelock)"
    and ?a = "so_sellAmount order" and ?m = "so_maker order"
  let ?answers = "fst (token_answers (token_calls dp tk ?msg r) others k)"
  from tx tk(1) have run: "run_calls (token_calls dp tk ?msg r) k = Some l"
    and "dispatch dp now (map (respond dp now) (plain_callees ?answers)) ?msg r = (Inr (Some cid), s)"
    by (simp_all add: token_tx_Inr transact_Inr)
  then have settle: "settle_leg dp now (map (respond dp now) (plain_callees ?answers)) sender v order
      signature recipient hashlock timelock r = (Inr cid, s)" "sender \<notin> {0, dp_htlc dp, dp_settlement dp}"
    by (simp_all add: dispatch_settle_Inr)
  with plain_settle show maker: "?m \<notin> {0, dp_htlc dp, dp_settlement dp}" by blast
  from plain_settle_locks [OF settle(1)] tk show "swaps s cid =
      \<lparr>sw_sender = dp_settlement dp, sw_recipient = recipient, sw_token = tk,
       sw_amount = ?a, sw_hashlock = hashlock, sw_timelock = timelock,
       sw_withdrawn = False, sw_refunded = False\<rparr>"
    and "legs s cid = \<lparr>sg_maker = ?m, sg_token = tk, sg_amount = ?a, sg_refunded = False\<rparr>"
    by simp_all
  from run tk(2) obtain l1 l2 where steps:
    "token_step (dp_settlement dp) (T_transferFrom ?m (dp_settlement dp) ?a) k = Some l1"
    "token_step (dp_settlement dp) (T_approve (dp_htlc dp) ?a) l1 = Some l2"
    "token_step (dp_htlc dp) (T_transferFrom (dp_settlement dp) (dp_htlc dp) ?a) l2 = Some l"
    by (auto simp: token_calls_defs simp del: token_step.simps split: option.splits)
  have m: "moved ?m (dp_settlement dp) ?a k l1" "moved (dp_settlement dp) (dp_htlc dp) ?a l2 l"
    using step_moves(2) steps(1,3) by blast+
  have "balanceOf l2 = balanceOf l1" using steps(2) by auto
  with movedD [OF m(1), of ?m] movedD [OF m(2), of ?m] maker
  show "unat (balanceOf l ?m) + unat ?a = unat (balanceOf k ?m)" by simp
qed

text \<open>
  C8. A locked token leg is never stuck. A \<open>settleLeg\<close> in an ERC-20 token that succeeds takes
  the amount from its maker. Whatever transactions and uses of the token follow, one of three
  holds: the swap has been redeemed, paid to the recipient with a preimage on the chain; it has
  been paid back to the maker; or it is open, and then anyone with the preimage can redeem it
  before the timelock, which credits the recipient with the amount, and anyone can refund it
  from the timelock on, which credits the maker with the amount.
\<close>

theorem token_leg_never_stuck:
  assumes tk: "tk \<notin> {0, dp_htlc dp, dp_settlement dp}" "dp_htlc dp \<noteq> dp_settlement dp"
      "dp_settlement dp \<noteq> 0"
    and lock: "token_tx dp tk now
      (Message sender v (SettleLegCall order signature recipient hashlock timelock)) others
      (happens dp tk before (deployed, new_token)) = (Inr (Some cid), (s, l))"
      "so_sellToken order = tk"
    and who: "who \<notin> {0, dp_htlc dp, dp_settlement dp}" "recipient \<noteq> dp_htlc dp"
    and times: "early < timelock" "timelock \<le> late" "dp_sha256 dp (bytes_of preimage) = hashlock"
  shows "let (t, m) = happens dp tk between (s, l);
             maker = so_maker order; amount = so_sellAmount order
         in
    unat (balanceOf l maker) + unat amount =
      unat (balanceOf (snd (happens dp tk before (deployed, new_token))) maker) \<and>
    (payments cid t = payments cid s @
        [\<lparr>pm_contract = cid, pm_to = recipient, pm_token = tk, pm_amount = amount\<rparr>] \<and>
       (\<exists>p. dp_sha256 dp (bytes_of p) = hashlock \<and> LogRedeem cid p \<in> set (htlc_events t)) \<or>
     leg_payments cid t = leg_payments cid s @
        [\<lparr>pm_contract = cid, pm_to = maker, pm_token = tk, pm_amount = amount\<rparr>] \<or>
     (\<exists>t' m'. token_tx dp tk early (Message who 0 (RedeemCall cid preimage)) [] (t, m) =
         (Inr None, (t', m')) \<and>
       unat (balanceOf m' recipient) = unat (balanceOf m recipient) + unat amount) \<and>
     (\<exists>t' m'. token_tx dp tk late (Message who 0 (RefundLegCall cid)) [] (t, m) =
         (Inr None, (t', m')) \<and>
       unat (balanceOf m' maker) = unat (balanceOf m maker) + unat amount))"
proof -
  let ?w = "happens dp tk before (deployed, new_token)" and ?maker = "so_maker order"
    and ?a = "so_sellAmount order"
  obtain r k where w: "?w = (r, k)" by fastforce
  obtain t m where tm: "happens dp tk between (s, l) = (t, m)" by fastforce
  have "tk \<noteq> 0" using tk(1) by simp
  note lock' = token_tx_settles [OF this lock(2) lock(1) [unfolded w]]
  have covers: "token_covers dp tk 0 (t, m)"
    using happens_covers [OF tk(1,2) token_tx_covers [OF tk(1,2) happens_covers [OF tk(1,2)
      deployed_token_covers]], of between now] lock(1) tm by (metis snd_conv)
  obtain txs where t: "t = transact_all dp txs s" using happens_chain [of dp tk between "(s, l)"] tm by auto
  have e: "sw_sender (swaps s cid) \<noteq> 0" using lock'(2) tk(3) by simp
  consider "leg_refunded dp (fst ` set txs) s t cid" | "swap_redeemed dp (fst ` set txs) s t cid"
    | "leg_kept dp s t cid" "swap_kept s t cid"
  proof -
    from leg_lifeD [OF history_leg e, of dp txs] evolvesD [OF history_evolves e, of dp txs]
    show thesis
      using that lock'(2) by (auto simp: t [symmetric] leg_kept_def swap_refunded_def Let_def)
  qed
  then have "payments cid t = payments cid s @
        [\<lparr>pm_contract = cid, pm_to = recipient, pm_token = tk, pm_amount = ?a\<rparr>] \<and>
       (\<exists>p. dp_sha256 dp (bytes_of p) = hashlock \<and> LogRedeem cid p \<in> set (htlc_events t)) \<or>
     leg_payments cid t = leg_payments cid s @
        [\<lparr>pm_contract = cid, pm_to = ?maker, pm_token = tk, pm_amount = ?a\<rparr>] \<or>
     (\<exists>t' m'. token_tx dp tk early (Message who 0 (RedeemCall cid preimage)) [] (t, m) =
         (Inr None, (t', m')) \<and>
       unat (balanceOf m' recipient) = unat (balanceOf m recipient) + unat ?a) \<and>
     (\<exists>t' m'. token_tx dp tk late (Message who 0 (RefundLegCall cid)) [] (t, m) =
         (Inr None, (t', m')) \<and>
       unat (balanceOf m' ?maker) = unat (balanceOf m ?maker) + unat ?a)"
  proof cases
    case 1
    then show ?thesis by (simp add: leg_refunded_def lock'(3) Let_def)
  next
    case 2
    then show ?thesis by (auto simp: swap_redeemed_def lock'(2) pays_def Let_def)
  next
    case 3
    then have same: "swaps t cid = swaps s cid" "legs t cid = legs s cid"
      by (simp_all add: swap_kept_def leg_kept_def)
    have leg: "open_token_leg dp tk cid t"
      using lock'(1) tk(3) by (simp add: open_token_leg_def live_def same lock'(2,3))
    then have live: "live (swaps t cid)" "sw_token (swaps t cid) = tk" by (simp_all add: open_token_leg_def)
    have "early < sw_timelock (swaps t cid)" "sw_timelock (swaps t cid) \<le> late"
      "dp_sha256 dp (bytes_of preimage) = sw_hashlock (swaps t cid)"
      using times by (simp_all add: same lock'(2))
    note terms = this
    obtain t1 m1 where redeem: "token_tx dp tk early (Message who 0 (RedeemCall cid preimage)) [] (t, m) =
        (Inr None, (t1, m1))" "moved (dp_htlc dp) recipient ?a m m1"
      using token_redeem [OF covers live tk(1) who(1) terms(1,3)] by (auto simp: same lock'(2))
    have "unat (balanceOf m1 recipient) = unat (balanceOf m recipient) + unat ?a"
      using movedD [OF redeem(2), of recipient] who(2) by simp
    with redeem(1) token_refund [OF covers leg tk(1,2) who(1) terms(2)] show ?thesis
      by (auto simp: same lock'(3))
  qed
  with lock'(4) show ?thesis unfolding w tm by (simp only: Let_def case_prod_conv snd_conv)
qed

text \<open>
  When a \<open>settleLeg\<close> in the token succeeds: everything the contract asks for, the balance and the
  allowance.
\<close>

lemma transferFrom_succeeds:
  assumes "conserved l" and "amount \<le> balanceOf l frm" and "amount \<le> allowance l frm who"
  shows "\<exists>l'. token_step who (T_transferFrom frm to amount) l = Some l' \<and>
    moved frm to amount l l' \<and> conserved l' \<and>
    allowance l' = (if allowance l frm who = - 1 then allowance l
      else (allowance l)(frm := (allowance l frm)(who := allowance l frm who - amount)))"
proof -
  let ?l = "if allowance l frm who \<noteq> - 1
      then l\<lparr>allowance := (allowance l)(frm := (allowance l frm)(who := allowance l frm who - amount))\<rparr>
      else l"
  have "conserved ?l" "amount \<le> balanceOf ?l frm"
    using assms(1,2) by (simp_all add: conserved_def)
  then obtain l' where l': "token_move frm to amount ?l = Some l'" using move_succeeds by blast
  then have step: "token_step who (T_transferFrom frm to amount) l = Some l'"
    using assms(3) by (simp add: Let_def not_less)
  moreover have "moved frm to amount l l'"
    using move_Some [OF l'] by (simp add: moved_def split: if_splits)
  moreover have "allowance l' = allowance ?l" using move_Some [OF l'] by blast
  ultimately show ?thesis using step step_conserves [OF assms(1) step]
    by (intro exI [of _ l'] conjI) simp_all
qed

lemma token_settle_runs:
  assumes tk: "tk \<notin> {0, dp_htlc dp, dp_settlement dp}" "dp_htlc dp \<noteq> dp_settlement dp"
      "so_sellToken order = tk" "dp_code_length dp tk \<noteq> 0"
    and order: "order_ok dp now order signature" "so_sellChainId order = dp_chain_id dp"
      "\<not> consumedNonce s (so_maker order) (so_nonce order)"
      "so_maker order \<notin> {0, dp_htlc dp, dp_settlement dp}"
    and terms: "so_sellAmount order \<noteq> 0" "hashlock \<noteq> 0" "now < timelock"
      "sw_sender (swaps s (leg_id dp order recipient hashlock timelock)) = 0"
    and ledger: "conserved k" "so_sellAmount order \<le> balanceOf k (so_maker order)"
      "so_sellAmount order \<le> allowance k (so_maker order) (dp_settlement dp)"
  shows "\<exists>t l. token_tx dp tk now
      (Message (so_maker order) 0 (SettleLegCall order signature recipient hashlock timelock)) [] (s, k) =
        (Inr (Some (leg_id dp order recipient hashlock timelock)), (t, l)) \<and>
    unat (balanceOf l (dp_htlc dp)) = unat (balanceOf k (dp_htlc dp)) + unat (so_sellAmount order) \<and>
    balanceOf l (dp_settlement dp) = balanceOf k (dp_settlement dp) \<and>
    (allowance k (so_maker order) (dp_settlement dp) \<noteq> - 1 \<longrightarrow>
       allowance l (so_maker order) (dp_settlement dp) =
         allowance k (so_maker order) (dp_settlement dp) - so_sellAmount order)"
proof -
  let ?m = "so_maker order" and ?a = "so_sellAmount order" and ?H = "dp_htlc dp" and ?S = "dp_settlement dp"
  let ?msg = "Message ?m 0 (SettleLegCall order signature recipient hashlock timelock)"
    and ?cid = "leg_id dp order recipient hashlock timelock"
  obtain l1 where l1: "token_step ?S (T_transferFrom ?m ?S ?a) k = Some l1" "moved ?m ?S ?a k l1" "conserved l1"
      "allowance l1 = (if allowance k ?m ?S = - 1 then allowance k
        else (allowance k)(?m := (allowance k ?m)(?S := allowance k ?m ?S - ?a)))"
    using transferFrom_succeeds [OF ledger] by blast
  let ?l2 = "l1\<lparr>allowance := (allowance l1)(?S := (allowance l1 ?S)(?H := ?a))\<rparr>"
  have "conserved ?l2" "?a \<le> allowance ?l2 ?S ?H" using l1(3) by (simp_all add: conserved_def)
  moreover have "?a \<le> balanceOf ?l2 ?S"
    using movedD [OF l1(2), of ?S] order(4) by (simp add: word_le_nat_alt split: if_splits)
  ultimately obtain l where l: "token_step ?H (T_transferFrom ?S ?H ?a) ?l2 = Some l" "moved ?S ?H ?a ?l2 l"
      "allowance l = (if allowance ?l2 ?S ?H = - 1 then allowance ?l2
        else (allowance ?l2)(?S := (allowance ?l2 ?S)(?H := allowance ?l2 ?S ?H - ?a)))"
    using transferFrom_succeeds [of ?l2 ?a ?S ?H] by blast
  let ?yes = "(True, word_true)"
  have run: "run_calls (token_calls dp tk ?msg s) k = Some l"
    and answers: "fst (token_answers (token_calls dp tk ?msg s) [] k) = [?yes, ?yes, ?yes]"
    using l1(1) l(1) tk(3) by (simp_all add: token_calls_defs)
  have new_swap: "\<exists>t. htlc_new_swap dp now (answering ?yes) ?S 0 recipient tk ?a hashlock timelock
      (recorded 0 order ?cid s) = (Inr ?cid, t)"
    unfolding new_swap_Inr plain_token_call
    using tk terms by (simp add: plain_token_call recorded_def)
  have two: "answer_at [?yes, ?yes, ?yes] 2 = ?yes" by (simp add: answer_at_def)
  have "\<exists>t. transact dp now ?msg (plain_callees [?yes, ?yes, ?yes]) s = (Inr (Some ?cid), t)"
    unfolding transact_Inr dispatch_settle_Inr settle_Inr
    using order tk terms new_swap two
    by (auto simp: receive_and_lock_def Let_def eff_Inr ext_plain plain_token_call)
  then obtain t where "token_tx dp tk now ?msg [] (s, k) = (Inr (Some ?cid), (t, l))"
    using tk(1) run answers by (auto simp: token_tx_Inr)
  moreover have "unat (balanceOf l ?H) = unat (balanceOf k ?H) + unat ?a"
    using movedD [OF l1(2), of ?H] movedD [OF l(2), of ?H] order(4) tk(2) by (simp split: if_splits)
  moreover have "unat (balanceOf l ?S) = unat (balanceOf k ?S)"
    using movedD [OF l1(2), of ?S] movedD [OF l(2), of ?S] order(4) tk(2) by (simp split: if_splits)
  then have "balanceOf l ?S = balanceOf k ?S" by (simp only: word_unat_eq_iff)
  moreover have "allowance l ?m ?S = allowance k ?m ?S - ?a" if "allowance k ?m ?S \<noteq> - 1"
    using that l1(4) l(3) order(4) by auto
  ultimately show ?thesis by blast
qed

subsection \<open>A token on the demonstration chain\<close>

definition token_order :: Order where
  "token_order = sell_order_example\<lparr>o_sell_token := fill 0x22, o_sell_chain_id := 31337\<rparr>"

definition minted :: "happening list" where
  "minted =
     [TokenUsed (fill 9) (T_mint (fill 0xAA) 150), TokenUsed (fill 0xAA) (T_approve (fill 0xD1) 100)]"

abbreviation token_leg_id :: b32 where
  "token_leg_id \<equiv> leg_id demo_dp (sol_order token_order) (fill 6) (fill 7) 600"

definition token_settle :: "u8 list \<Rightarrow> message" where
  "token_settle signature =
     Message (fill 0xAA) 0 (SettleLegCall (sol_order token_order) signature (fill 6) (fill 7) 600)"

lemma token_order_fields:
  "so_maker (sol_order token_order) = fill 0xAA" "so_sellToken (sol_order token_order) = fill 0x22"
  "so_sellChainId (sol_order token_order) = 31337" "so_sellAmount (sol_order token_order) = 100"
  by (simp_all add: token_order_def sell_order_example_def sol_order_def)

lemma demo_addresses:
  "dp_htlc demo_dp = fill 0xC1" "dp_settlement demo_dp = fill 0xD1" "dp_chain_id demo_dp = 31337"
  "dp_code_length demo_dp a = 1" "dp_sha256 demo_dp = toy_hash"
  by (simp_all add: demo_dp_def)

lemma minted_world:
  "happens demo_dp (fill 0x22) minted (deployed, new_token) =
     (deployed, \<lparr>totalSupply = 150, balanceOf = (\<lambda>_. 0)(fill 0xAA := 150),
       allowance = (\<lambda>_ _. 0)(fill 0xAA := (\<lambda>_. 0)(fill 0xD1 := 100))\<rparr>)"
  by (simp add: minted_def demo_addresses new_token_def checked_add_def)

lemma token_settles:
  assumes "order_ok demo_dp 500 (sol_order token_order) signature"
  shows "\<exists>s l. token_tx demo_dp (fill 0x22) 500 (token_settle signature) []
      (happens demo_dp (fill 0x22) minted (deployed, new_token)) = (Inr (Some token_leg_id), (s, l))"
proof -
  have dp: "fill 0x22 \<notin> {0, dp_htlc demo_dp, dp_settlement demo_dp}" "dp_htlc demo_dp \<noteq> dp_settlement demo_dp"
    by (simp_all add: demo_addresses)
  let ?k = "snd (happens demo_dp (fill 0x22) minted (deployed, new_token))"
  have "conserved ?k"
    using happens_covers [OF dp deployed_token_covers, of minted]
    by (simp add: token_covers_def split: prod.splits)
  then have "\<exists>t l. token_tx demo_dp (fill 0x22) 500 (Message (so_maker (sol_order token_order)) 0
      (SettleLegCall (sol_order token_order) signature (fill 6) (fill 7) 600)) [] (deployed, ?k) =
        (Inr (Some token_leg_id), (t, l)) \<and>
    unat (balanceOf l (dp_htlc demo_dp)) = unat (balanceOf ?k (dp_htlc demo_dp)) +
      unat (so_sellAmount (sol_order token_order)) \<and>
    balanceOf l (dp_settlement demo_dp) = balanceOf ?k (dp_settlement demo_dp) \<and>
    (allowance ?k (so_maker (sol_order token_order)) (dp_settlement demo_dp) \<noteq> - 1 \<longrightarrow>
       allowance l (so_maker (sol_order token_order)) (dp_settlement demo_dp) =
         allowance ?k (so_maker (sol_order token_order)) (dp_settlement demo_dp) -
           so_sellAmount (sol_order token_order))"
    by (intro token_settle_runs [OF dp token_order_fields(2) _ assms])
      (simp_all add: minted_world token_order_fields demo_addresses word_less_nat_alt, simp_all add: deployed_def)
  then show ?thesis
    unfolding token_settle_def token_order_fields(1) minted_world snd_conv by blast
qed

lemma demo_signs_token_order: "\<exists>signature. order_ok demo_dp 500 (sol_order token_order) signature"
  by (rule demo_signature) (simp_all add: token_order_def sell_order_example_def)

definition solvent_history :: "happening list" where
  "solvent_history =
     [TokenUsed (fill 9) (T_mint (fill 5) 150), TokenUsed (fill 5) (T_approve (fill 0xC1) 100),
      Transacted 50 (demo_new (fill 0x22) 0) []]"

lemma demo_token:
  "fill 0x22 \<notin> {0, dp_htlc demo_dp, dp_settlement demo_dp}" "dp_htlc demo_dp \<noteq> dp_settlement demo_dp"
  "dp_settlement demo_dp \<noteq> 0" "fill 8 \<notin> {0, dp_htlc demo_dp, dp_settlement demo_dp}"
  "fill 6 \<noteq> dp_htlc demo_dp" "dp_sha256 demo_dp (bytes_of (fill 7 :: b32)) = fill 7"
  by (simp_all add: demo_addresses)

lemma token_stays_solvent_witness:
  "let (s, l) = happens demo_dp (fill 0x22) solvent_history (deployed, new_token);
       (t, m) = happens demo_dp (fill 0x22)
         [Transacted 60 (demo_redeem_by (fill 8) (fill 0x22)) []] (s, l)
   in token_owed (fill 0x22) s \<le> unat (balanceOf l (dp_htlc demo_dp)) \<and>
      unat (balanceOf l (dp_htlc demo_dp)) - token_owed (fill 0x22) s
        \<le> unat (balanceOf m (dp_htlc demo_dp)) - token_owed (fill 0x22) t"
  by (rule token_stays_solvent [OF demo_token(1,2)])

lemma token_leg_never_stuck_witness:
  "\<exists>sg s l. token_tx demo_dp (fill 0x22) 500 (token_settle sg) []
      (happens demo_dp (fill 0x22) minted (deployed, new_token)) = (Inr (Some token_leg_id), (s, l)) \<and>
    (let (t, m) = happens demo_dp (fill 0x22) [TokenUsed (fill 0xAA) (T_transfer (fill 6) 50)] (s, l);
         maker = so_maker (sol_order token_order); amount = so_sellAmount (sol_order token_order)
     in
     unat (balanceOf l maker) + unat amount =
       unat (balanceOf (snd (happens demo_dp (fill 0x22) minted (deployed, new_token))) maker) \<and>
     (payments token_leg_id t = payments token_leg_id s @
         [\<lparr>pm_contract = token_leg_id, pm_to = fill 6, pm_token = fill 0x22, pm_amount = amount\<rparr>] \<and>
        (\<exists>p. dp_sha256 demo_dp (bytes_of p) = fill 7 \<and> LogRedeem token_leg_id p \<in> set (htlc_events t)) \<or>
      leg_payments token_leg_id t = leg_payments token_leg_id s @
         [\<lparr>pm_contract = token_leg_id, pm_to = maker, pm_token = fill 0x22, pm_amount = amount\<rparr>] \<or>
      (\<exists>t' m'. token_tx demo_dp (fill 0x22) 599 (Message (fill 8) 0 (RedeemCall token_leg_id (fill 7))) []
          (t, m) = (Inr None, (t', m')) \<and>
        unat (balanceOf m' (fill 6)) = unat (balanceOf m (fill 6)) + unat amount) \<and>
      (\<exists>t' m'. token_tx demo_dp (fill 0x22) 600 (Message (fill 8) 0 (RefundLegCall token_leg_id)) []
          (t, m) = (Inr None, (t', m')) \<and>
        unat (balanceOf m' maker) = unat (balanceOf m maker) + unat amount)))"
proof -
  obtain sg where sg: "order_ok demo_dp 500 (sol_order token_order) sg" using demo_signs_token_order by blast
  obtain s l where run: "token_tx demo_dp (fill 0x22) 500 (token_settle sg) []
      (happens demo_dp (fill 0x22) minted (deployed, new_token)) = (Inr (Some token_leg_id), (s, l))"
    using token_settles [OF sg] by blast
  have early: "(599 :: u256) < 600" by (simp add: word_less_nat_alt)
  show ?thesis
    by (intro exI, rule conjI [OF run]) (rule token_leg_never_stuck [OF demo_token(1-3)
      run [unfolded token_settle_def] token_order_fields(2) demo_token(4,5) early order_refl demo_token(6)])
qed

end
