(* ===== verification/Kael_Tests_Token.thy ===== *)
theory Kael_Tests_Token
  imports Kael_Token Kael_Tests_Swap
begin

section \<open>The unit test with a token, run on the model\<close>

text \<open>
  A node that runs the contracts and an ERC-20 token, and on it the test of
  \<open>swapkit/src/exec/tx.rs\<close> that locks tokens through Settlement: the approval is exact, and nothing
  of it is left after the lock.
\<close>

subsection \<open>A node with a token\<close>

text \<open>
  Like \<open>honest_net\<close>, for one chain: a transaction waits in the pool until its receipt is asked for,
  and then changes contracts and token together.
\<close>

record token_node =
  tn_world :: "chain_state \<times> erc20"
  tn_pool :: "happening list"
  tn_clock :: u256

definition happening_of :: "deployment \<Rightarrow> address \<Rightarrow> address \<Rightarrow> u256 \<Rightarrow> tx \<Rightarrow> happening option" where
  "happening_of dp tk who now t =
     (case t of
        Approve token spender amount \<Rightarrow>
          (if token = tk then Some (TokenUsed who (T_approve spender amount)) else None)
      | _ \<Rightarrow> map_option (\<lambda>msg. Transacted now msg []) (message_of dp who t))"

definition token_net ::
  "deployment \<Rightarrow> address \<Rightarrow> ('p \<Rightarrow> address) \<Rightarrow> u64 \<Rightarrow> ('p, token_node) net" where
  "token_net dp tk accounts wall = quiet_net
     \<lparr>get_chain_id := \<lambda>p w. (Inr (ucast (dp_chain_id dp)), w),
      call_getSwap := \<lambda>p a cid w.
        (if a = dp_htlc dp then Inr (swaps (fst (tn_world w)) cid) else Inl ''execution reverted'', w),
      call_allowance := \<lambda>p t owner spender w.
        (if t = tk then Inr (allowance (snd (tn_world w)) owner spender)
         else Inl ''execution reverted'', w),
      call_balanceOf := \<lambda>p t who w.
        (if t = tk then Inr (balanceOf (snd (tn_world w)) who) else Inl ''execution reverted'', w),
      send_transaction := \<lambda>p t w.
        (case happening_of dp tk (accounts p) (tn_clock w) t of
           None \<Rightarrow> (Inl ''rejected'', w)
         | Some h \<Rightarrow> (Inr (fill 1), w\<lparr>tn_pool := tn_pool w @ [h]\<rparr>)),
      await_receipt := \<lambda>p h w.
        (Inr \<lparr>r_transaction_hash = h, r_block_number = Some 1, r_status = True\<rparr>,
         w\<lparr>tn_world := happens dp tk (tn_pool w) (tn_world w), tn_pool := []\<rparr>),
      clock_now := \<lambda>w. (wall, w)\<rparr>"

definition token_hosted ::
  "deployment \<Rightarrow> address \<Rightarrow> ('p \<Rightarrow> address) \<Rightarrow> u64 \<Rightarrow> ('p, token_node, 'sig, 'rid, 'vk, 'sk) outside \<Rightarrow> bool"
where
  "token_hosted dp tk accounts now u \<longleftrightarrow>
     out_net u = token_net dp tk accounts now \<and> abi_encodes (out_crates u) \<and>
     out_keccak u = dp_keccak dp \<and> out_sha u = dp_sha256 dp"

subsection \<open>The test\<close>

definition mint_and_wait ::
  "deployment \<Rightarrow> address \<Rightarrow> address \<Rightarrow> address \<Rightarrow> u256 \<Rightarrow> (('p, token_node) env, unit, unit) eff" where
  "mint_and_wait dp tk who to amount =
     modify (\<lambda>v. v\<lparr>world := (world v)\<lparr>tn_world :=
       happens dp tk [TokenUsed who (T_mint to amount)] (tn_world (world v))\<rparr>\<rparr>)"

definition token_test_config :: "deployment \<Rightarrow> b32 \<Rightarrow> u128 \<Rightarrow> u64 \<Rightarrow> SettlementLockConfig" where
  "token_test_config dp key amount timelock =
     \<lparr>st_settlement = dp_settlement dp, st_maker_private_key = key, st_sell_chain_id = 31337,
      st_buy_token = 0, st_buy_chain_id = 31338, st_buy_amount = amount, st_valid_until = timelock,
      st_nonce = 2\<rparr>"

definition settlement_lock_supports_erc20_with_exact_allowance ::
  "('p, token_node, 'sig, 'rid, 'vk, 'sk) outside \<Rightarrow> ('u, 'k, 'p) clients \<Rightarrow> deployment \<Rightarrow> address \<Rightarrow>
     string \<Rightarrow> (('p, token_node) env, unit, unit) eff" where
  "settlement_lock_supports_erc20_with_exact_allowance u cl dp token_addr endpoint =
     (let n = out_net u; cr = out_crates u; kc = out_keccak u in
      bindE (wallet_provider cl ANVIL_KEY0 endpoint) (\<lambda>(provider, deployer).
      bindE (unwrap (from_key_str n cl ANVIL_KEY0 endpoint)) (\<lambda>signer.
      let amount = 750 in
      thenE (mint_and_wait dp token_addr deployer (sg_address signer) (ucast amount))
     (bindE (now_unix n) (\<lambda>now.
      bindE (hex_key cr ANVIL_KEY0) (\<lambda>key.
      let recipient = fill 0x7A; preimage = fill 0x61;
          hashlock = hashlock_from_preimage (out_sha u) preimage; timelock = now + 3600
      in
        bindE (unwrap (lock_via_settlement n cr kc (out_k256 u) signer
                 (token_test_config dp key amount timelock) recipient token_addr amount hashlock timelock))
          (\<lambda>locked.
        bindE (unwrap (rpc (call_getSwap n provider (dp_htlc dp) (lk_contract_id locked)))) (\<lambda>onchain.
        thenE (assert_that (sw_sender onchain = dp_settlement dp))
       (thenE (assert_that (sw_recipient onchain = recipient))
       (thenE (assert_that (sw_token onchain = token_addr))
       (thenE (assert_that (sw_amount onchain = ucast amount))
       (bindE (unwrap (rpc (call_allowance n provider token_addr (sg_address signer) (dp_settlement dp))))
          (\<lambda>left.
        thenE (assert_that (left = 0))
       (bindE (unwrap (rpc (call_balanceOf n provider token_addr (dp_htlc dp)))) (\<lambda>escrowed.
        thenE (assert_that (escrowed = ucast amount))
       (bindE (unwrap (rpc (call_balanceOf n provider token_addr (dp_settlement dp)))) (\<lambda>rest.
        assert_that (rest = 0))))))))))))))))))"

subsection \<open>The test passes\<close>

lemma token_net_runs:
  assumes "token_hosted dp tk accounts now u"
  shows "send_transaction (out_net u) p (Approve tk sp a) w =
      (Inr (fill 1), w\<lparr>tn_pool := tn_pool w @ [TokenUsed (accounts p) (T_approve sp a)]\<rparr>)"
    and "send_transaction (out_net u) p (SettleLeg (dp_settlement dp) od sg r h tm val) w =
      (Inr (fill 1), w\<lparr>tn_pool := tn_pool w @
        [Transacted (tn_clock w) (Message (accounts p) val (SettleLegCall od sg r h tm)) []]\<rparr>)"
    and "await_receipt (out_net u) p th w =
      (Inr \<lparr>r_transaction_hash = th, r_block_number = Some 1, r_status = True\<rparr>,
       w\<lparr>tn_world := happens dp tk (tn_pool w) (tn_world w), tn_pool := []\<rparr>)"
    and "call_allowance (out_net u) p tk owner spender w =
      (Inr (allowance (snd (tn_world w)) owner spender), w)"
    and "call_balanceOf (out_net u) p tk who w = (Inr (balanceOf (snd (tn_world w)) who), w)"
    and "call_getSwap (out_net u) p (dp_htlc dp) cid w = (Inr (swaps (fst (tn_world w)) cid), w)"
    and "get_chain_id (out_net u) p w = (Inr (ucast (dp_chain_id dp)), w)"
    and "clock_now (out_net u) w = (now, w)"
  using assms by (simp_all add: token_hosted_def token_net_def quiet_net_def happening_of_def)

text \<open>The token after the mint and the approval: the whole supply is the maker's.\<close>

definition approved_token :: "deployment \<Rightarrow> address \<Rightarrow> erc20" where
  "approved_token dp me =
     \<lparr>totalSupply = 750, balanceOf = (\<lambda>_. 0)(me := 750),
      allowance = (\<lambda>_ _. 0)(me := (\<lambda>_. 0)(dp_settlement dp := 750))\<rparr>"

lemma minted_then_approved:
  assumes "me \<notin> {0, dp_htlc dp, dp_settlement dp}"
  shows "happens dp tk [TokenUsed me (T_mint me 750)] (deployed, new_token) =
      (deployed, (approved_token dp me)\<lparr>allowance := \<lambda>_ _. 0\<rparr>)"
    and "happens dp tk [TokenUsed me (T_approve (dp_settlement dp) 750)]
      (deployed, (approved_token dp me)\<lparr>allowance := \<lambda>_ _. 0\<rparr>) = (deployed, approved_token dp me)"
    and "conserved (approved_token dp me)"
proof -
  show mint: "happens dp tk [TokenUsed me (T_mint me 750)] (deployed, new_token) =
      (deployed, (approved_token dp me)\<lparr>allowance := \<lambda>_ _. 0\<rparr>)"
    using assms by (simp add: approved_token_def new_token_def checked_add_def)
  show "happens dp tk [TokenUsed me (T_approve (dp_settlement dp) 750)]
      (deployed, (approved_token dp me)\<lparr>allowance := \<lambda>_ _. 0\<rparr>) = (deployed, approved_token dp me)"
    using assms by (simp add: approved_token_def)
  have "conserved new_token" by (simp add: conserved_def new_token_def)
  moreover have "token_step me (T_mint me 750) new_token = Some ((approved_token dp me)\<lparr>allowance := \<lambda>_ _. 0\<rparr>)"
    by (simp add: approved_token_def new_token_def checked_add_def)
  ultimately show "conserved (approved_token dp me)"
    using step_conserves [of new_token me "T_mint me 750"] by (auto simp: conserved_def)
qed

lemma settlement_lock_supports_erc20_with_exact_allowance_passes:
  assumes u: "token_hosted dp tk accounts now u"
    and n: "local_nodes cl chain_of accounts endpoint url k0"
    and c: "test_chain dp t now (key_address cl k0)"
    and tk: "tk \<notin> {0, dp_htlc dp, dp_settlement dp}" "dp_htlc dp \<noteq> dp_settlement dp"
      "dp_code_length dp tk \<noteq> 0"
    and key: "hex_decode (out_crates u) ANVIL_KEY0 = Inr bytes" "length bytes = 32"
      "address_from_private_key (dp_keccak dp) (out_k256 u) (pad_copy bytes) = Some (key_address cl k0)"
      "sk_from_slice (out_k256 u) (pad_copy bytes) = Some sk"
      "signing_contract (out_k256 u) sk (digest (dp_keccak dp)
        (settlement_order \<lparr>sg_provider = (), sg_address = key_address cl k0, sg_chain_id = 0\<rparr>
          (token_test_config dp (pad_copy bytes) 750 (now + 3600)) tk 750))"
      "precompile_agrees (dp_keccak dp) (out_k256 u) (dp_ecrecover dp)"
    and h: "hashlock_from_preimage (out_sha u) (fill 0x61) \<noteq> 0"
    and v: "world v = \<lparr>tn_world = (deployed, new_token), tn_pool = [], tn_clock = t\<rparr>"
  shows "passes (settlement_lock_supports_erc20_with_exact_allowance u cl dp tk (endpoint b)) v"
proof -
  let ?me = "key_address cl k0" and ?S = "dp_settlement dp" and ?H = "dp_htlc dp"
    and ?h = "out_sha u (bytes_of (fill 0x61 :: b32))" and ?tm = "ucast (now + 3600) :: u256"
  let ?sg = "\<lparr>sg_provider = connect_wallet cl k0 (url b), sg_address = ?me, sg_chain_id = 31337\<rparr>"
  let ?o = "settlement_order ?sg (token_test_config dp (pad_copy bytes) 750 (now + 3600)) tk 750"
  let ?cid = "leg_id dp (sol_order ?o) (fill 0x7A) ?h ?tm"
  have me: "?me \<notin> {0, ?H, ?S}" using c by (auto simp: test_chain_def)
  have later: "t < ?tm" using later [of t now 3600] c by (simp add: test_chain_def)
  have fields: "o_maker ?o = ?me" "o_valid_until ?o = now + 3600" "so_maker (sol_order ?o) = ?me"
    "so_sellToken (sol_order ?o) = tk" "so_sellAmount (sol_order ?o) = 750" "so_sellChainId (sol_order ?o) = 31337"
    by (simp_all add: settlement_order_def token_test_config_def sol_order_def)
  obtain sig where sig: "eip712_sign (dp_keccak dp) (out_k256 u) ?o (pad_copy bytes) = Some sig"
    "order_ok dp t (sol_order ?o) sig"
  proof -
    have "\<exists>sg. eip712_sign (dp_keccak dp) (out_k256 u) ?o (pad_copy bytes) = Some sg \<and>
        order_verify (dp_keccak dp) (dp_ecrecover dp) (sol_order ?o) sg t = Inr (digest (dp_keccak dp) ?o)"
      by (rule signed_order_accepted [OF key(6) _ _ key(4)])
        (use key(3,5) me later in \<open>simp_all add: fields\<close>, simp add: settlement_order_def)
    then show thesis using that by (auto simp: order_ok_def)
  qed
  have amount: "(ucast (750 :: u128) :: u256) = 750" by simp
  let ?call = "SettleLegCall (sol_order ?o) sig (fill 0x7A) ?h ?tm"
  have "so_sellAmount (sol_order ?o) \<le> balanceOf (approved_token dp ?me) (so_maker (sol_order ?o))"
    "so_sellAmount (sol_order ?o) \<le> allowance (approved_token dp ?me) (so_maker (sol_order ?o)) ?S"
    by (simp_all add: fields approved_token_def)
  note ledger = minted_then_approved(3) [OF me] this
  have "\<not> consumedNonce deployed (so_maker (sol_order ?o)) (so_nonce (sol_order ?o))"
    "so_maker (sol_order ?o) \<notin> {0, ?H, ?S}" "so_sellChainId (sol_order ?o) = dp_chain_id dp"
    "so_sellAmount (sol_order ?o) \<noteq> 0" "?h \<noteq> 0" "sw_sender (swaps deployed ?cid) = 0"
    using me h c by (simp_all add: fields test_chain_def hashlock_from_preimage_def deployed_def)
  note facts = this
  obtain s l where run: "token_tx dp tk t (Message ?me 0 ?call) [] (deployed, approved_token dp ?me) =
      (Inr (Some ?cid), (s, l))"
    and l: "unat (balanceOf l ?H) = 750" "balanceOf l ?S = 0" "allowance l ?me ?S = 0"
    using token_settle_runs [OF tk(1,2) fields(4) tk(3) sig(2) facts(3,1,2,4,5) later facts(6) ledger] me
    by (auto simp: fields approved_token_def)
  have "tk \<noteq> 0" using tk(1) by simp
  note locked = token_tx_settles(2) [OF this fields(4) run]
  have settled: "happens dp tk [Transacted t (Message ?me 0 ?call) []] (deployed, approved_token dp ?me) = (s, l)"
    using run by simp
  have escrowed: "balanceOf l ?H = 750" using l(1) by (simp add: word_unat_eq_iff)
  have cid: "compute_contract_id (out_crates u) (dp_keccak dp) ?S (fill 0x7A) tk 750 ?h (now + 3600) = ?cid"
    using u by (simp add: token_hosted_def contract_ids_agree fields)
  have config: "st_settlement (token_test_config dp (pad_copy bytes) 750 (now + 3600)) = ?S"
    "st_maker_private_key (token_test_config dp (pad_copy bytes) 750 (now + 3600)) = pad_copy bytes"
    by (simp_all add: token_test_config_def)
  have allowed: "allowance (approved_token dp ?me) ?me ?S = 750" by (simp add: approved_token_def)
  let ?v1 = "v\<lparr>world := \<lparr>tn_world = (deployed, (approved_token dp ?me)\<lparr>allowance := \<lambda>_ _. 0\<rparr>),
      tn_pool = [], tn_clock = t\<rparr>\<rparr>"
  have "\<exists>v2. lock_via_settlement (out_net u) (out_crates u) (dp_keccak dp) (out_k256 u) ?sg
      (token_test_config dp (pad_copy bytes) 750 (now + 3600)) (fill 0x7A) tk 750 ?h (now + 3600) ?v1 =
        (Inr \<lparr>lk_contract_id = ?cid, lk_tx_hash = fill 1\<rparr>, v2) \<and>
      world v2 = \<lparr>tn_world = (s, l), tn_pool = [], tn_clock = t\<rparr>"
    using sig(1) \<open>tk \<noteq> 0\<close> local_nodesD(5) [OF n]
    by (simp add: lock_via_settlement_def approve_exact_def send_and_wait_def eff_simps Let_def
      token_net_runs [OF u] minted_then_approved(2) [OF me] settled cid config allowed del: happens.simps)
  then obtain v2 where lock: "lock_via_settlement (out_net u) (out_crates u) (dp_keccak dp) (out_k256 u) ?sg
      (token_test_config dp (pad_copy bytes) 750 (now + 3600)) (fill 0x7A) tk 750 ?h (now + 3600) ?v1 =
        (Inr \<lparr>lk_contract_id = ?cid, lk_tx_hash = fill 1\<rparr>, v2)"
    "world v2 = \<lparr>tn_world = (s, l), tn_pool = [], tn_clock = t\<rparr>" by blast
  have "trim_start_0x ANVIL_KEY0 = ANVIL_KEY0" by (simp add: ANVIL_KEY0_def)
  moreover have "out_keccak u = dp_keccak dp" "ucast (dp_chain_id dp) = (31337 :: u64)"
    using u c by (simp_all add: token_hosted_def test_chain_def)
  ultimately show ?thesis
    using key(1,2) v lock l(2,3) escrowed locked
    by (simp add: settlement_lock_supports_erc20_with_exact_allowance_def test_defs local_nodesD [OF n]
      token_net_runs [OF u] hex_key_def hashlock_from_preimage_def mint_and_wait_def
      minted_then_approved(1) [OF me] fields del: happens.simps)
qed

subsection \<open>The test on the demonstration chain\<close>

definition token_world :: "(bool \<times> address, token_node, u8 list, u8, b32, b32) outside" where
  "token_world =
     \<lparr>out_net = token_net demo_dp (fill 0x22) snd 1000,
      out_crates = abi_crates\<lparr>hex_decode := \<lambda>_. Inr (replicate 32 0xAA)\<rparr>, out_keccak = toy_hash,
      out_sha = toy_hash, out_iter = (\<lambda>_. []), out_k256 = toy_k256\<rparr>"

lemma token_test_passes_on_demo:
  fixes v :: "(bool \<times> address, token_node) env"
  assumes "v = \<lparr>world = \<lparr>tn_world = (deployed, new_token), tn_pool = [], tn_clock = 1\<rparr>, sent = []\<rparr>"
  shows "passes (settlement_lock_supports_erc20_with_exact_allowance token_world demo_clients demo_dp
    (fill 0x22) (demo_endpoint False)) v"
proof -
  have key: "pad_copy (replicate 32 0xAA) = (fill 0xAA :: b32)"
    by (simp flip: bytes_of_inject add: bytes_of_pad_copy bytes_of_fill)
  have u: "token_hosted demo_dp (fill 0x22) snd 1000 token_world"
    by (simp add: token_hosted_def token_world_def demo_dp_def abi_encodes_def abi_crates_def)
  show ?thesis
    by (rule settlement_lock_supports_erc20_with_exact_allowance_passes
        [OF u demo_tests_start(1), where t = 1 and bytes = "replicate 32 0xAA" and sk = "fill 0xAA"])
      (simp_all add: assms key token_world_def demo_dp_def demo_clients_def toy_key example_contract
        test_chain_def precompile_agrees_def toy_ecrecover_def hashlock_from_preimage_def word_le_nat_alt,
       simp_all add: toy_k256_def)
qed

end
