(* ===== verification/Spec2Isabelle.thy ===== *)
theory Spec2Isabelle
  imports Kael_Debug Kael_Book Kael_Handshake Kael_Server Kael_Runner Kael_Atomic Kael_Lock_Lands
    Kael_Runner_Settles Kael_Maestro_Mirrors Kael_Tests_Wallet Kael_Tests_Book Kael_Tests_Reader
    Kael_Tests_Swap Kael_Tests_Token
begin

text \<open>
  \<^bold>\<open>Kael: atomic swaps between two chains.\<close> A verification library for the orderbook, the
  wallet kit, the maestro and the contracts of this repository.

  \<^bold>\<open>The program.\<close> Two parties who hold assets on two EVM chains sign orders (\<open>orderbook/src/eip712.rs\<close>)
  and submit them to an orderbook (\<open>book.rs\<close>, \<open>matching.rs\<close>, \<open>server.rs\<close>), which pairs orders that
  mirror each other. Each wallet derives its role and its terms from the pair
  (\<open>swapkit/src/handshake.rs\<close>) and runs a state machine (\<open>sm.rs\<close>). The taker draws a secret and
  locks its leg under the hash of it; the maker verifies that leg (\<open>verify.rs\<close>, on what \<open>chain.rs\<close>
  and \<open>exec/observe.rs\<close> read) and locks its own; the taker verifies in turn and redeems, which
  shows the secret on the maker's chain; the maker redeems with it. Whoever is left alone
  refunds its leg after the timelock. \<open>exec/mod.rs\<close> drives the machine: it observes, decides,
  observes again before anything irreversible, and sends (\<open>exec/tx.rs\<close>, \<open>exec/signer.rs\<close>). The
  maestro (\<open>maestro/src\<close>) only watches both chains; its tracker is also the wallet's. The two
  programs \<open>closed-testnet-preflight\<close> and \<open>closed-testnet-swap\<close> check a test setup and run one swap
  on it. The contracts (\<open>contracts/src\<close>) hold the funds: \<open>HashedTimelock\<close> escrows them,
  \<open>Settlement\<close> binds a signed order to a lock.

  \<^bold>\<open>The theories\<close>, each named after what it models, in the order they build on each other:
  \<^item> \<open>Kael_Prelude\<close>: the effects. A computation takes a state and returns an error or a value
    with the new state, which a failed computation keeps (a \<open>&mut self\<close> does). \<open>keeps R\<close> and
    \<open>leads R\<close> say that a computation stays within a relation, always or when it succeeds; the
    locale \<open>frame\<close> proves the rules once for every reflexive and transitive \<open>R\<close>.
  \<^item> \<open>Kael_Bytes\<close>, \<open>Kael_Text\<close>: byte arrays and machine integers at their width, saturating
    arithmetic, decimal text and the text functions of the crates.
  \<^item> \<open>Kael_Order\<close> (\<open>order.rs\<close>, \<open>matching.rs\<close>), \<open>Kael_Eip712\<close>, \<open>Kael_Book\<close>, \<open>Kael_Server\<close> (\<open>wire.rs\<close>,
    \<open>server.rs\<close>): \<open>find_match\<close> picks the first order that has a partner and the earliest best
    partner; a digest identifies an order; exactly which signatures are accepted; the
    invariant of the book; what the service serves.
  \<^item> \<open>Kael_Verify\<close>, \<open>Kael_SM\<close>, \<open>Kael_Debug\<close>, \<open>Kael_Handshake\<close>: the verifier as a list of checks, the
    decisions in closed form, the state machine as a refinement of a step relation, two
    handshakes that fit.
  \<^item> \<open>Kael_Node\<close>: the outside. A node, the clock and the random source are one record \<open>net\<close> of
    functions on an abstract world, and may answer anything; the transactions handed to \<open>send\<close>
    are recorded in \<open>sent\<close>.
  \<^item> \<open>Kael_Tracker\<close> (\<open>maestro/src\<close>), \<open>Kael_Chain\<close> (\<open>chain.rs\<close>, \<open>confirm.rs\<close>, \<open>observe.rs\<close>), \<open>Kael_Tx\<close> (\<open>signer.rs\<close>,
    \<open>tx.rs\<close>): the tracker's invariant through every poll, what a confirmed observation means,
    which transactions each operation sends.
  \<^item> \<open>Kael_Executor\<close> (\<open>exec/mod.rs\<close>), \<open>Kael_Executor_Safety\<close>, \<open>Kael_Executor_Runs\<close>, \<open>Kael_Scenario\<close>,
    \<open>Kael_Executor_Progress\<close>: a step of the code is a step of the guarded relation
    \<open>wallet_step\<close>; from that, the table of its moves (\<open>moves\<close>) and, by the locale \<open>executor_frame\<close>,
    what any run sends; then the bounds on reports and on transactions, and the refund of an
    expired leg.
  \<^item> \<open>Kael_Preflight\<close>, \<open>Kael_Runner\<close>: the two programs, from the environment to the last step.
  \<^item> \<open>Kael_OrderLib\<close> (\<open>Order.sol\<close>), \<open>Kael_Contracts\<close> (\<open>HashedTimelock.sol\<close>, \<open>Settlement.sol\<close>): the
    contracts of one chain as one state, every external function, and transactions whose
    errors undo everything. \<open>Kael_Escrow\<close>, \<open>Kael_Swap_Life\<close>, \<open>Kael_Settlement\<close>,
    \<open>Kael_Native_Leg\<close>: solvency, the life of a swap and of a leg, and liveness. A relation that
    the functions keep is kept by every history (locales \<open>contract_frame\<close>, \<open>htlc_frame\<close>).
  \<^item> \<open>Kael_Token\<close> (\<open>MockERC20.sol\<close>): an ERC-20 token with its ledger beside the two contracts. Their
    calls to it are answered from the ledger (\<open>token_tx\<close>), and anyone may use it in between
    (\<open>happens\<close>): solvency and liveness again, now in token balances. Callees of such a
    transaction other than the token do not call back; that case is \<open>callee\<close>'s above.
  \<^item> \<open>Kael_Lock_Lands\<close>, \<open>Kael_Atomic\<close>: wallet and contracts together. The transactions of
    \<open>tx.rs\<close> run by the contracts give the swaps the wallet planned; a leg that the wallet
    judges safe pays; and the swap is atomic for the maker.
  \<^item> \<open>Kael_Redeem_Pays\<close>, \<open>Kael_Refund_Pays\<close>, \<open>Kael_Honest_Net\<close>: the executor on a node that serves
    the contracts, any other transactions mined in between (locale \<open>chain_node\<close>). What \<open>step\<close>
    reads was stored when it read it; a leg it verified stays secured; so a redeem or refund it
    reports has been paid. \<open>honest_net\<close> builds such nodes from the model of the contracts.
  \<^item> \<open>Kael_Pledge\<close>, \<open>Kael_Swap_Completes\<close>, \<open>Kael_Runner_Settles\<close>: everything together. On such nodes
    two wallets that derived their contexts from matched orders finish the swap in two rounds of
    the runner's loop; and the program \<open>closed-testnet-swap\<close>, once its checks passed, reports
    success with both parties paid.
  \<^item> \<open>Kael_Contract_Log\<close>, \<open>Kael_Tracker_Follows\<close>, \<open>Kael_Maestro_Mirrors\<close>: the maestro and the contracts
    together. The events of \<open>HashedTimelock\<close> tell its state, for every history and callee; a
    tracker that reads them keeps one leg per announced swap, with its settlement and the
    preimage shown. So on nodes that serve their logs (locale \<open>archive\<close>) the maestro mirrors both
    chains up to the blocks it polled, and reports exactly the swaps that are correlated and
    the legs that are overdue. \<open>beyond\<close> names what is excepted: block numbers that do not fit,
    and two legs with one contract id.
  \<^item> \<open>Kael_Tests_Wallet\<close>, \<open>Kael_Tests_Book\<close>, \<open>Kael_Tests_Chain\<close>: unit tests of the crates, as
    conditions under the names they have in the sources, which the model satisfies.
    \<open>Kael_Tests_Node\<close>, \<open>Kael_Tests_Reader\<close>, \<open>Kael_Tests_Swap\<close>: the tests that use Anvil, as
    computations that pass on \<open>honest_net\<close>, from a single lock to a whole swap and a reorganisation.
    \<open>Kael_Tests_Token\<close>: the one with an ERC-20 token, on \<open>token_net\<close>, a node that runs it too.

  \<^bold>\<open>Reading the properties.\<close> A paragraph that begins with \<open>C\<close> and a number states a property; the
  theorem follows it. Theorems whose name ends in \<open>_witness\<close> apply one to concrete data, for
  which the parameters are instantiated: \<open>toy_hash\<close> and \<open>toy_k256\<close> compute, \<open>quiet_net\<close> and its
  variants answer, \<open>demo_dp\<close> is a deployment, \<open>honest_net\<close> runs deployments.

  \<^bold>\<open>Bounds and loops.\<close> \<open>run\<close> and the runner's loop carry the code's own step limits, and their
  theorems hold for every limit. \<open>watch k\<close> is \<open>k\<close> turns of the maestro's endless loop. All other
  loops end by their structure. Integers have the width of the source; native balances of the
  contracts are naturals, because the supply of coins bounds them.

  \<^bold>\<open>Outside, as parameters with named hypotheses\<close>: Keccak-256 and SHA-256 (\<open>hash_fn\<close>; a collision is
  an explicit case of a conclusion), the \<open>k256\<close> crate (\<open>signing_contract\<close>, of the digest that is
  signed), the \<open>ecrecover\<close> precompile (\<open>precompile_agrees\<close>: with \<open>k256\<close>, on low-s signatures only;
  above half the group order the precompile recovers and \<open>k256\<close> does not), the ABI encoder (\<open>abi_encodes\<close>), hex and address text
  (\<open>crates\<close>), the iteration order of a \<open>HashMap\<close> (\<open>iteration\<close>; it \<open>visits_all\<close> keys), nodes (\<open>net\<close>; \<open>chain_node\<close> where a
  result needs one that tells the truth about its chain). What a token or a recipient does when a contract calls it is a \<open>callee\<close>: any calls back, any answer.

  \<^bold>\<open>Not modelled\<close>: sleeping, logging and printing; JSON, axum and tokio (the lock of the shared
  book makes requests sequential); reading the environment and binding sockets in \<open>main\<close>; gas, and
  so calls that fail for the lack of it; the tests that compare with known values of the hash
  functions; scripts, documents and the vendored forge-std.
  A panic is the error \<open>Panicked\<close>. Strings are lists of characters.

  \<^bold>\<open>What modelling showed.\<close> The theorems \<open>watcher_panics_iff\<close>, \<open>reverted_transactions_count\<close>,
  \<open>failed_step_keeps_state\<close>, \<open>step_needs_hashlock\<close>, \<open>discovery_is_stable\<close>, \<open>ungated_actions\<close> and
  \<open>reentrant_lock_forgets\<close> state behaviour of the code that its comments or its purpose do not
  suggest; the text before each says what happens.
\<close>

end
